(* ===== verification/Prelude.thy ===== *)
theory Prelude
  imports Main "HOL-Library.Word" "HOL-Library.Monad_Syntax"
begin

unbundle bit_operations_syntax

text \<open>
  Shared vocabulary of the development: the machine integer types of
  \<^verbatim>\<open>LWIP/port/STM32/include/arch/cc.h\<close>, checked accesses to C arrays and the generic facts
  about them that every component uses.

  A C array is a list. An access outside the array is undefined behaviour in C, so every access
  of the model goes through \<open>rd_at\<close>, \<open>wr_at\<close> or \<open>memcpy\<close>, which return \<open>None\<close>
  there; a theorem that an operation returns \<open>Some\<close> is a memory-safety theorem.
\<close>

type_synonym u8 = "8 word"
type_synonym u16 = "16 word"
type_synonym u32 = "32 word"
type_synonym bytes = "8 word list"

text \<open>The status values of \<^verbatim>\<open>mtfs30.h\<close>.\<close>

abbreviation (input) "OK \<equiv> (0 :: u8)"
abbreviation (input) "NG \<equiv> (1 :: u8)"

named_theorems mem_simps \<open>equations for the checked array accesses\<close>

section \<open>Checked array accesses\<close>

definition rd_at :: "'a list \<Rightarrow> nat \<Rightarrow> 'a option" where
  "rd_at xs i = (if i < length xs then Some (xs ! i) else None)"

definition wr_at :: "'a list \<Rightarrow> nat \<Rightarrow> 'a \<Rightarrow> 'a list option" where
  "wr_at xs i v = (if i < length xs then Some (xs[i := v]) else None)"

text \<open>\<open>memcpy dst di src si n\<close> copies \<open>n\<close> elements from \<open>src + si\<close> to
  \<open>dst + di\<close> (non-overlapping arrays).\<close>

definition memcpy :: "'a list \<Rightarrow> nat \<Rightarrow> 'a list \<Rightarrow> nat \<Rightarrow> nat \<Rightarrow> 'a list option" where
  "memcpy dst di src si n =
     (if di + n \<le> length dst \<and> si + n \<le> length src
      then Some (take di dst @ take n (drop si src) @ drop (di + n) dst) else None)"

lemma rd_at_Some [mem_simps]: "i < length xs \<Longrightarrow> rd_at xs i = Some (xs ! i)"
  by (simp add: rd_at_def)

lemma wr_at_Some [mem_simps]: "i < length xs \<Longrightarrow> wr_at xs i v = Some (xs[i := v])"
  by (simp add: wr_at_def)

lemma memcpy_Some [mem_simps]:
  "di + n \<le> length dst \<Longrightarrow> si + n \<le> length src \<Longrightarrow>
   memcpy dst di src si n = Some (take di dst @ take n (drop si src) @ drop (di + n) dst)"
  by (simp add: memcpy_def)

lemma rd_at_eq_Some_iff: "rd_at xs i = Some v \<longleftrightarrow> i < length xs \<and> xs ! i = v"
  by (auto simp: rd_at_def)

lemma memcpy_length: "memcpy dst di src si n = Some d \<Longrightarrow> length d = length dst"
  by (auto simp: memcpy_def split: if_splits)

lemma nth_splice:
  "di + n \<le> length dst \<Longrightarrow> si + n \<le> length src \<Longrightarrow> j < length dst \<Longrightarrow>
   (take di dst @ take n (drop si src) @ drop (di + n) dst) ! j =
     (if di \<le> j \<and> j < di + n then src ! (si + (j - di)) else dst ! j)"
proof -
  assume a: "di + n \<le> length dst" "si + n \<le> length src" "j < length dst"
  consider "j < di" | "di \<le> j" "j < di + n" | "di + n \<le> j" by linarith
  then show ?thesis using a by cases (auto simp: nth_append)
qed

text \<open>The array after a successful copy.\<close>

definition splice :: "'a list \<Rightarrow> nat \<Rightarrow> 'a list \<Rightarrow> nat \<Rightarrow> nat \<Rightarrow> 'a list" where
  "splice dst di src si n = take di dst @ take n (drop si src) @ drop (di + n) dst"

lemma memcpy_splice:
  "di + n \<le> length dst \<Longrightarrow> si + n \<le> length src \<Longrightarrow> memcpy dst di src si n = Some (splice dst di src si n)"
  by (simp add: memcpy_def splice_def)

lemma length_splice [simp]: "di + n \<le> length dst \<Longrightarrow> si + n \<le> length src \<Longrightarrow> length (splice dst di src si n) = length dst"
  by (auto simp: splice_def)

lemma splice_nth:
  "di + n \<le> length dst \<Longrightarrow> si + n \<le> length src \<Longrightarrow> j < length dst \<Longrightarrow>
   splice dst di src si n ! j = (if di \<le> j \<and> j < di + n then src ! (si + (j - di)) else dst ! j)"
  unfolding splice_def by (rule nth_splice)

section \<open>Unsigned machine words\<close>

lemma unat16_lt: "unat (x :: u16) < 65536"
  using unsigned_less [of x] by simp

lemma unat8_lt: "unat (x :: u8) < 256"
  using unsigned_less [of x] by simp

lemma unat32_lt: "unat (x :: u32) < 4294967296"
  using unsigned_less [of x] by simp

lemma xor_zero_eq: "(a :: 'a::len word) XOR b = 0 \<longleftrightarrow> a = b"
proof
  assume z: "a XOR b = 0"
  have "bit a n = bit b n" for n
  proof -
    have "bit (a XOR b) n = False" by (simp add: z)
    then show ?thesis by (simp add: bit_xor_iff)
  qed
  then show "a = b" by (simp add: bit_eq_iff)
qed simp

lemma unat_of_nat16: "n < 65536 \<Longrightarrow> unat (of_nat n :: u16) = n"
  by (simp add: unat_of_nat)

lemma unat_sub16: "unat b \<le> unat a \<Longrightarrow> unat (a - b :: u16) = unat a - unat b"
  by (simp add: unat_sub_if')

lemma unat_add16: "unat a + unat b < 65536 \<Longrightarrow> unat (a + b :: u16) = unat a + unat b"
  by (simp add: unat_word_ariths)

lemma unat_inc16: "unat k + 1 < 65536 \<Longrightarrow> unat (k + 1 :: u16) = unat k + 1"
  by (simp add: unat_word_ariths)

end
