(* ===== verification/RingBuffer.thy ===== *)
theory RingBuffer
  imports Prelude
begin

text \<open>
  The byte ring buffer of \<^verbatim>\<open>APP/Util/util_ringbuffer.c\<close>: the UART receive path writes into
  it, the command and satellite tasks read from it. The record is \<^verbatim>\<open>ringbuffer_t\<close>, one
  definition per C function. Lengths and indices keep their C width (\<^verbatim>\<open>u16_t\<close>); where C
  computes in \<^verbatim>\<open>int\<close> before storing to 16 bits, the model computes in \<open>nat\<close>.
\<close>

section \<open>State and operations\<close>

record ringbuffer =
  prb_buf :: "bytes option"  \<comment> \<open>\<open>None\<close> is the null pointer\<close>
  rb_write :: u16
  rb_read :: u16
  can_read :: u16
  can_write :: u16
  rb_size :: u16

text \<open>\<open>malloc\<close> belongs to the C library; the model takes it as an argument.\<close>

definition util_ringbuffer_create ::
  "(nat \<Rightarrow> bytes option) \<Rightarrow> ringbuffer \<Rightarrow> u16 \<Rightarrow> ringbuffer" where
  "util_ringbuffer_create malloc rb n =
     (let rb1 = rb\<lparr>prb_buf := malloc (unat n)\<rparr> in
      if prb_buf rb1 = None then rb1
      else rb1\<lparr>rb_write := 0, rb_read := 0, rb_size := n\<rparr>)"

definition util_ringbuffer_can_read :: "ringbuffer \<Rightarrow> u16" where
  "util_ringbuffer_can_read rb =
     (if rb_write rb = rb_read rb then 0
      else if rb_write rb > rb_read rb then rb_write rb - rb_read rb
      else rb_size rb - (rb_read rb - rb_write rb))"

definition util_ringbuffer_can_write :: "ringbuffer \<Rightarrow> u16" where
  "util_ringbuffer_can_write rb = rb_size rb - util_ringbuffer_can_read rb"

definition util_ringbuffer_read ::
  "ringbuffer \<Rightarrow> bytes \<Rightarrow> u16 \<Rightarrow> (ringbuffer \<times> bytes \<times> u16) option" where
  "util_ringbuffer_read rb data read_size =
     (let cr = util_ringbuffer_can_read rb in
      if cr = 0 then Some (rb, data, 0)
      else do {
        let n = (if read_size < cr then read_size else cr);
        let tail_size = rb_size rb - rb_read rb;
        buf \<leftarrow> prb_buf rb;
        if n < tail_size then do {
          data \<leftarrow> memcpy data 0 buf (unat (rb_read rb)) (unat n);
          Some (rb\<lparr>rb_read := rb_read rb + n\<rparr>, data, n)
        } else do {
          data \<leftarrow> memcpy data 0 buf (unat (rb_read rb)) (unat tail_size);
          data \<leftarrow> memcpy data (unat tail_size) buf 0 (unat n - unat tail_size);
          Some (rb\<lparr>rb_read := of_nat ((unat (rb_read rb) + unat n) mod unat (rb_size rb))\<rparr>, data, n)
        }
      })"

text \<open>The read index after one byte, as in the body of the scanning loop.\<close>

definition rb_read_next :: "ringbuffer \<Rightarrow> ringbuffer" where
  "rb_read_next rb =
     (let r = rb_read rb + 1 in rb\<lparr>rb_read := (if r = rb_size rb then 0 else r)\<rparr>)"

function end_ch_loop ::
  "ringbuffer \<Rightarrow> bytes \<Rightarrow> nat \<Rightarrow> nat \<Rightarrow> u8 \<Rightarrow> (ringbuffer \<times> bytes \<times> nat) option" where
  "end_ch_loop rb data read_cnt read_size byte =
     (if read_cnt < read_size then do {
        buf \<leftarrow> prb_buf rb;
        c \<leftarrow> rd_at buf (unat (rb_read rb));
        data \<leftarrow> wr_at data read_cnt c;
        if c = byte then Some (rb_read_next rb, data, Suc read_cnt)
        else end_ch_loop (rb_read_next rb) data (Suc read_cnt) read_size byte
      } else Some (rb, data, read_cnt))"
  by pat_completeness auto
termination
  by (relation "measure (\<lambda>(rb, data, cnt, n, byte). n - cnt)") auto

declare end_ch_loop.simps [simp del]

definition util_ringbuffer_end_ch_read ::
  "ringbuffer \<Rightarrow> bytes \<Rightarrow> u16 \<Rightarrow> u8 \<Rightarrow> (ringbuffer \<times> bytes \<times> u16) option" where
  "util_ringbuffer_end_ch_read rb data read_size byte =
     (let cr = util_ringbuffer_can_read rb in
      if cr = 0 then do { data \<leftarrow> wr_at data 0 0; Some (rb, data, 0) }
      else do {
        let n = (if read_size < cr then read_size else cr);
        (rb, data, cnt) \<leftarrow> end_ch_loop rb data 0 (unat n) byte;
        Some (rb, data, of_nat cnt)
      })"

definition util_ringbuffer_write ::
  "ringbuffer \<Rightarrow> bytes \<Rightarrow> u16 \<Rightarrow> (ringbuffer \<times> u16) option" where
  "util_ringbuffer_write rb data write_size =
     (if write_size > util_ringbuffer_can_write rb then Some (rb, 0)
      else do {
        let tail_size = rb_size rb - rb_write rb;
        buf \<leftarrow> prb_buf rb;
        if write_size < tail_size then do {
          buf \<leftarrow> memcpy buf (unat (rb_write rb)) data 0 (unat write_size);
          Some (rb\<lparr>prb_buf := Some buf, rb_write := rb_write rb + write_size\<rparr>, write_size)
        } else do {
          buf \<leftarrow> memcpy buf (unat (rb_write rb)) data 0 (unat tail_size);
          buf \<leftarrow> memcpy buf 0 data (unat tail_size) (unat write_size - unat tail_size);
          Some (rb\<lparr>prb_buf := Some buf,
                   rb_write := of_nat ((unat (rb_write rb) + unat write_size) mod unat (rb_size rb))\<rparr>,
                write_size)
        }
      })"

section \<open>Invariant and abstract contents\<close>

definition rb_inv :: "ringbuffer \<Rightarrow> bool" where
  "rb_inv rb \<longleftrightarrow> (\<exists>b. prb_buf rb = Some b \<and> length b = unat (rb_size rb)) \<and>
     unat (rb_read rb) < unat (rb_size rb) \<and> unat (rb_write rb) < unat (rb_size rb)"

definition rb_cap :: "ringbuffer \<Rightarrow> nat" where
  "rb_cap rb = unat (rb_size rb) - 1"

text \<open>The bytes between the read and the write index, in reading order.\<close>

definition rb_list :: "ringbuffer \<Rightarrow> bytes" where
  "rb_list rb =
     map (\<lambda>i. the (prb_buf rb) ! ((unat (rb_read rb) + i) mod unat (rb_size rb)))
       [0..<unat (util_ringbuffer_can_read rb)]"

lemma rb_invE:
  assumes "rb_inv rb"
  obtains b where "prb_buf rb = Some b" "length b = unat (rb_size rb)"
    "unat (rb_read rb) < unat (rb_size rb)" "unat (rb_write rb) < unat (rb_size rb)"
  using assms by (auto simp: rb_inv_def)

lemma can_read_unat:
  assumes "rb_inv rb"
  shows "unat (util_ringbuffer_can_read rb) =
    (if unat (rb_read rb) \<le> unat (rb_write rb) then unat (rb_write rb) - unat (rb_read rb)
     else unat (rb_size rb) - (unat (rb_read rb) - unat (rb_write rb)))"
  using assms
  by (auto simp: util_ringbuffer_can_read_def rb_inv_def word_less_nat_alt unat_sub16
      word_unat_eq_iff)

lemma length_rb_list: "length (rb_list rb) = unat (util_ringbuffer_can_read rb)"
  by (simp add: rb_list_def)

lemma length_rb_list_le_cap: "rb_inv rb \<Longrightarrow> length (rb_list rb) \<le> rb_cap rb"
  by (auto simp: length_rb_list can_read_unat rb_cap_def rb_inv_def)

lemma can_write_unat:
  "rb_inv rb \<Longrightarrow> unat (util_ringbuffer_can_write rb) = unat (rb_size rb) - length (rb_list rb)"
  using length_rb_list_le_cap [of rb]
  by (auto simp: util_ringbuffer_can_write_def length_rb_list rb_cap_def unat_sub16)

lemma rb_list_nth:
  "i < length (rb_list rb) \<Longrightarrow>
   rb_list rb ! i = the (prb_buf rb) ! ((unat (rb_read rb) + i) mod unat (rb_size rb))"
  by (simp add: rb_list_def)

lemma mod_wrap: "a < s \<Longrightarrow> b < s \<Longrightarrow> (a + b) mod s = (if a + b < s then a + b else a + b - (s::nat))"
  by (simp add: mod_if)



definition ring_put :: "'a list \<Rightarrow> nat \<Rightarrow> 'a list \<Rightarrow> nat \<Rightarrow> 'a list" where
  "ring_put b w xs n =
     (let t = length b - w in
      if n < t then splice b w xs 0 n else splice (splice b w xs 0 t) 0 xs t (n - t))"

lemma ring_put_nth:
  assumes "w < length b" "n \<le> length b" "n \<le> length xs" "k < length b"
  shows "ring_put b w xs n ! ((w + k) mod length b) =
    (if k < n then xs ! k else b ! ((w + k) mod length b))"
proof (cases "w + k < length b")
  case True
  then show ?thesis using assms by (auto simp: ring_put_def Let_def splice_nth)
next
  case False
  then have "(w + k) mod length b = w + k - length b" using assms by (simp add: mod_wrap)
  with False show ?thesis using assms by (auto simp: ring_put_def Let_def splice_nth intro!: arg_cong[where f="(!) xs"])
qed

lemma length_ring_put [simp]: "w < length b \<Longrightarrow> n \<le> length b \<Longrightarrow> n \<le> length xs \<Longrightarrow> length (ring_put b w xs n) = length b"
  by (auto simp: ring_put_def Let_def)

lemma write_step:
  assumes inv: "rb_inv rb" and n: "unat n \<le> length data" "unat n \<le> unat (rb_size rb) - length (rb_list rb)"
  shows "util_ringbuffer_write rb data n =
    Some (rb\<lparr>prb_buf := Some (ring_put (the (prb_buf rb)) (unat (rb_write rb)) data (unat n)),
      rb_write := of_nat ((unat (rb_write rb) + unat n) mod unat (rb_size rb))\<rparr>, n)"
proof -
  from inv obtain b where b: "prb_buf rb = Some b" "length b = unat (rb_size rb)"
    and r: "unat (rb_read rb) < unat (rb_size rb)" and w: "unat (rb_write rb) < unat (rb_size rb)"
    by (rule rb_invE)
  have nw: "\<not> n > util_ringbuffer_can_write rb"
    using n can_write_unat [OF inv] by (simp add: word_less_nat_alt)
  have t: "unat (rb_size rb - rb_write rb) = unat (rb_size rb) - unat (rb_write rb)"
    using w by (simp add: unat_sub16)
  have t': "n < rb_size rb - rb_write rb \<longleftrightarrow> unat n < unat (rb_size rb) - unat (rb_write rb)"
    by (simp add: word_less_nat_alt t)
  have le: "unat n \<le> unat (rb_size rb)" using n by simp
  show ?thesis
  proof (cases "unat n < unat (rb_size rb) - unat (rb_write rb)")
    case True
    then have "rb_write rb + n = of_nat ((unat (rb_write rb) + unat n) mod unat (rb_size rb))"
      by simp
    with True show ?thesis using nw b w n
      by (simp add: util_ringbuffer_write_def Let_def t' memcpy_splice ring_put_def)
  next
    case False
    then show ?thesis using nw b w n le
      by (simp add: util_ringbuffer_write_def Let_def t' t memcpy_splice ring_put_def)
  qed
qed

lemma write_index:
  "rb_inv rb \<Longrightarrow> unat (rb_write rb) = (unat (rb_read rb) + length (rb_list rb)) mod unat (rb_size rb)"
  by (auto simp: length_rb_list can_read_unat rb_inv_def mod_if)

lemma write_appends:
  assumes inv: "rb_inv rb" and n: "unat n \<le> length data" "length (rb_list rb) + unat n \<le> rb_cap rb"
  shows "\<exists>rb'. util_ringbuffer_write rb data n = Some (rb', n) \<and> rb_inv rb' \<and>
     rb_size rb' = rb_size rb \<and> rb_list rb' = rb_list rb @ take (unat n) data"
proof -
  let ?s = "unat (rb_size rb)" and ?r = "unat (rb_read rb)" and ?w = "unat (rb_write rb)"
  let ?L = "length (rb_list rb)"
  from inv obtain b where b: "prb_buf rb = Some b" "length b = ?s" and r: "?r < ?s" and w: "?w < ?s"
    by (rule rb_invE)
  let ?b = "ring_put b ?w data (unat n)"
  define rb' where "rb' = rb\<lparr>prb_buf := Some ?b, rb_write := of_nat ((?w + unat n) mod ?s)\<rparr>"
  have lt: "?L + unat n < ?s" using n r by (simp add: rb_cap_def)
  have wr: "util_ringbuffer_write rb data n = Some (rb', n)"
    using write_step [OF inv n(1)] lt b by (simp add: rb'_def)
  have s: "?s < 65536" by (rule unat16_lt)
  have w': "unat (rb_write rb') = (?w + unat n) mod ?s"
  proof -
    have "(?w + unat n) mod ?s < ?s" using r by simp
    then show ?thesis using s by (simp add: rb'_def unat_of_nat16)
  qed
  have inv': "rb_inv rb'"
    using b r w n lt w' by (auto simp: rb_inv_def rb'_def)
  have L': "length (rb_list rb') = ?L + unat n"
  proof -
    have "(?r + length (rb_list rb')) mod ?s = (?r + (?L + unat n)) mod ?s"
      using write_index [OF inv'] w' write_index [OF inv] 
      by (simp add: rb'_def mod_simps add.assoc)
    moreover have "length (rb_list rb') < ?s"
      using length_rb_list_le_cap [OF inv'] r by (simp add: rb_cap_def rb'_def)
    ultimately show ?thesis using lt r by (auto simp: mod_if split: if_splits)
  qed
  have "rb_list rb' = rb_list rb @ take (unat n) data"
  proof (rule nth_equalityI)
    show "length (rb_list rb') = length (rb_list rb @ take (unat n) data)"
      using L' n by simp
  next
    fix i assume i: "i < length (rb_list rb')"
    have nth': "rb_list rb' ! i = ?b ! ((?r + i) mod ?s)"
      using rb_list_nth [OF i] by (simp add: rb'_def)
    show "rb_list rb' ! i = (rb_list rb @ take (unat n) data) ! i"
    proof (cases "i < ?L")
      case True
      define k where "k = i + ?s - ?L"
      have k: "k < ?s" "\<not> k < unat n" using True lt by (auto simp: k_def)
      have "?r + ?L + k = ?r + i + ?s" using lt True by (simp add: k_def)
      moreover have "(?w + k) mod ?s = (?r + ?L + k) mod ?s"
        using write_index [OF inv] by (simp add: mod_simps)
      ultimately have "(?r + i) mod ?s = (?w + k) mod ?s" by (metis mod_add_self2)
      then have "rb_list rb' ! i = b ! ((?r + i) mod ?s)"
        using nth' ring_put_nth [of ?w b "unat n" data k] k b w lt n by simp
      with True b show ?thesis by (simp add: nth_append rb_list_nth)
    next
      case False
      define k where "k = i - ?L"
      have k: "k < ?s" "k < unat n" using False i L' lt by (auto simp: k_def)
      have "?r + ?L + k = ?r + i" using False by (simp add: k_def)
      moreover have "(?w + k) mod ?s = (?r + ?L + k) mod ?s"
        using write_index [OF inv] by (simp add: mod_simps)
      ultimately have "(?r + i) mod ?s = (?w + k) mod ?s" by metis
      then have "rb_list rb' ! i = data ! k"
        using nth' ring_put_nth [of ?w b "unat n" data k] k b w lt n by simp
      with False show ?thesis using k n by (simp add: nth_append k_def)
    qed
  qed
  with wr inv' show ?thesis by (auto simp: rb'_def)
qed


definition ring_get :: "'a list \<Rightarrow> nat \<Rightarrow> nat \<Rightarrow> 'a list" where
  "ring_get b r n =
     (let t = length b - r in
      if n < t then take n (drop r b) else drop r b @ take (n - t) b)"

lemma length_ring_get [simp]: "r < length b \<Longrightarrow> n \<le> length b \<Longrightarrow> length (ring_get b r n) = n"
  by (auto simp: ring_get_def Let_def)

lemma ring_get_nth:
  "r < length b \<Longrightarrow> n \<le> length b \<Longrightarrow> k < n \<Longrightarrow> ring_get b r n ! k = b ! ((r + k) mod length b)"
  by (auto simp: ring_get_def Let_def mod_if nth_append intro!: arg_cong [where f = "(!) b"])

lemma rb_list_ring_get:
  assumes "rb_inv rb" "prb_buf rb = Some b" "n \<le> length (rb_list rb)"
  shows "ring_get b (unat (rb_read rb)) n = take n (rb_list rb)"
proof (rule nth_equalityI)
  have *: "n \<le> length b" "unat (rb_read rb) < length b" "length b = unat (rb_size rb)"
    using assms length_rb_list_le_cap [OF assms(1)] by (auto simp: rb_inv_def rb_cap_def)
  then show "length (ring_get b (unat (rb_read rb)) n) = length (take n (rb_list rb))"
    using assms by simp
  fix i assume "i < length (ring_get b (unat (rb_read rb)) n)"
  then show "ring_get b (unat (rb_read rb)) n ! i = take n (rb_list rb) ! i"
    using * assms by (simp add: ring_get_nth rb_list_nth)
qed

lemma read_drops:
  assumes inv: "rb_inv rb" and m: "m \<le> length (rb_list rb)"
    and rb': "rb' = rb\<lparr>rb_read := of_nat ((unat (rb_read rb) + m) mod unat (rb_size rb))\<rparr>"
  shows "rb_inv rb' \<and> rb_list rb' = drop m (rb_list rb)"
proof -
  let ?s = "unat (rb_size rb)" and ?r = "unat (rb_read rb)" and ?L = "length (rb_list rb)"
  from inv obtain b where b: "prb_buf rb = Some b" "length b = ?s" and r: "?r < ?s"
    by (rule rb_invE)
  have L: "?L < ?s" using length_rb_list_le_cap [OF inv] r by (simp add: rb_cap_def)
  have "(?r + m) mod ?s < ?s" using r by simp
  moreover have "?s < 65536" by (rule unat16_lt)
  ultimately have r': "unat (rb_read rb') = (?r + m) mod ?s"
    by (simp add: rb' unat_of_nat16)
  have inv': "rb_inv rb'" using inv r' by (auto simp: rb_inv_def rb')
  have L': "length (rb_list rb') = ?L - m"
  proof -
    have "(?r + (m + length (rb_list rb'))) mod ?s = (?r + ?L) mod ?s"
      using write_index [OF inv'] write_index [OF inv] r' by (simp add: rb' mod_simps add.assoc)
    moreover have "length (rb_list rb') < ?s"
      using length_rb_list_le_cap [OF inv'] r by (simp add: rb_cap_def rb')
    ultimately show ?thesis using L r m by (auto simp: mod_if split: if_splits)
  qed
  have "rb_list rb' = drop m (rb_list rb)"
  proof (rule nth_equalityI)
    show "length (rb_list rb') = length (drop m (rb_list rb))" using L' by simp
    fix i assume i: "i < length (rb_list rb')"
    then have "rb_list rb' ! i = b ! (((?r + m) mod ?s + i) mod ?s)"
      using rb_list_nth [OF i] r' b by (simp add: rb')
    then show "rb_list rb' ! i = drop m (rb_list rb) ! i"
      using i L' b m by (simp add: rb_list_nth mod_simps add.assoc)
  qed
  with inv' show ?thesis by simp
qed

lemma read_takes:
  assumes inv: "rb_inv rb" and n: "min (unat n) (length (rb_list rb)) \<le> length data"
  shows "\<exists>rb'. util_ringbuffer_read rb data n =
       Some (rb', take (unat n) (rb_list rb) @ drop (min (unat n) (length (rb_list rb))) data,
             of_nat (min (unat n) (length (rb_list rb)))) \<and>
     rb_inv rb' \<and> rb_size rb' = rb_size rb \<and> rb_list rb' = drop (unat n) (rb_list rb)"
proof (cases "rb_list rb = []")
  case True
  then have "util_ringbuffer_can_read rb = 0"
    using length_rb_list [of rb] by (simp add: unat_eq_0)
  with True inv show ?thesis by (simp add: util_ringbuffer_read_def)
next
  case False
  let ?s = "unat (rb_size rb)" and ?r = "unat (rb_read rb)" and ?L = "length (rb_list rb)"
  define m where "m = min (unat n) ?L"
  define n' where "n' = (if n < util_ringbuffer_can_read rb then n else util_ringbuffer_can_read rb)"
  have m: "unat n' = m"
    by (auto simp: m_def n'_def length_rb_list word_less_nat_alt)
  have mn: "of_nat m = n'" by (simp flip: m)
  have mL: "m \<le> ?L" "m \<le> length data" using n by (auto simp: m_def)
  from inv obtain b where b: "prb_buf rb = Some b" "length b = ?s" and r: "?r < ?s"
    by (rule rb_invE)
  have L: "?L < ?s" using length_rb_list_le_cap [OF inv] r by (simp add: rb_cap_def)
  have cr: "util_ringbuffer_can_read rb \<noteq> 0"
    using False length_rb_list [of rb] by auto
  have t: "unat (rb_size rb - rb_read rb) = ?s - ?r"
    using r by (simp add: unat_sub16)
  have t': "n' < rb_size rb - rb_read rb \<longleftrightarrow> m < ?s - ?r"
    by (simp add: word_less_nat_alt t m)
  define rb' where "rb' = rb\<lparr>rb_read := of_nat ((?r + m) mod ?s)\<rparr>"
  have "util_ringbuffer_read rb data n = Some (rb', ring_get b ?r m @ drop m data, n')"
  proof (cases "m < ?s - ?r")
    case True
    then have "rb_read rb + n' = of_nat ((?r + m) mod ?s)"
      by (simp add: mn)
    with True show ?thesis using cr b mL r L t' m
      by (simp add: util_ringbuffer_read_def Let_def n'_def [symmetric] memcpy_def ring_get_def rb'_def)
  next
    case False
    then show ?thesis using cr b mL r L t' m t
      by (simp add: util_ringbuffer_read_def Let_def n'_def [symmetric] memcpy_def ring_get_def rb'_def)
  qed
  moreover have "ring_get b ?r m = take (unat n) (rb_list rb)"
    using rb_list_ring_get [OF inv b(1) mL(1)] by (simp add: m_def min_def)
  moreover have "rb_inv rb' \<and> rb_list rb' = drop m (rb_list rb)"
    using read_drops [OF inv mL(1) rb'_def] .
  moreover have "drop m (rb_list rb) = drop (unat n) (rb_list rb)"
    by (simp add: m_def min_def)
  ultimately show ?thesis using mn by (auto simp: m_def rb'_def)
qed


subsection \<open>The scanning read\<close>

fun read_until :: "u8 \<Rightarrow> bytes \<Rightarrow> bytes" where
  "read_until byte [] = []"
| "read_until byte (x # xs) = (if x = byte then [x] else x # read_until byte xs)"

lemma read_next_drops:
  assumes "rb_inv rb" "rb_list rb = x # xs"
  shows "rb_inv (rb_read_next rb)" "rb_list (rb_read_next rb) = xs"
    "prb_buf rb = Some b \<Longrightarrow> rd_at b (unat (rb_read rb)) = Some x"
    "rb_size (rb_read_next rb) = rb_size rb"
proof -
  from assms(1) obtain b' where b: "prb_buf rb = Some b'" "length b' = unat (rb_size rb)"
    and r: "unat (rb_read rb) < unat (rb_size rb)" by (rule rb_invE)
  have lt: "unat (rb_read rb) + 1 < 65536" using r unat16_lt [of "rb_size rb"] by linarith
  have eq: "rb_read rb + 1 = rb_size rb \<longleftrightarrow> unat (rb_read rb) + 1 = unat (rb_size rb)"
    using lt by (simp add: word_unat_eq_iff unat_add16)
  have nx: "rb_read_next rb =
      rb\<lparr>rb_read := of_nat ((unat (rb_read rb) + 1) mod unat (rb_size rb))\<rparr>"
    using r eq by (auto simp: rb_read_next_def Let_def mod_if)
  show "rb_inv (rb_read_next rb)" "rb_list (rb_read_next rb) = xs"
    using read_drops [OF assms(1) _ nx] assms(2) by auto
  show "rb_size (rb_read_next rb) = rb_size rb" by (simp add: rb_read_next_def Let_def)
  show "rd_at b (unat (rb_read rb)) = Some x" if "prb_buf rb = Some b"
    using that b r rb_list_nth [of 0 rb] assms(2) by (simp add: rd_at_def)
qed

lemma length_read_until_le: "length (read_until c xs) \<le> length xs"
  by (induction xs) auto

lemma end_ch_loop_reads:
  fixes byte :: u8
  assumes "rb_inv rb" "n - cnt \<le> length (rb_list rb)" "n \<le> length data" "cnt \<le> n"
  defines "out \<equiv> read_until byte (take (n - cnt) (rb_list rb))"
  shows "\<exists>rb'. end_ch_loop rb data cnt n byte =
      Some (rb', take cnt data @ out @ drop (cnt + length out) data, cnt + length out) \<and>
    rb_inv rb' \<and> rb_size rb' = rb_size rb \<and> rb_list rb' = drop (length out) (rb_list rb)"
  using assms(1-4) unfolding out_def
proof (induction "n - cnt" arbitrary: rb data cnt)
  case 0
  then show ?case by (subst end_ch_loop.simps) simp
next
  case (Suc k)
  then obtain x xs where l: "rb_list rb = x # xs" by (cases "rb_list rb") auto
  have k: "n - Suc cnt = k" "n - cnt = Suc k" using Suc.hyps(2) by auto
  from Suc.prems(1) obtain b where b: "prb_buf rb = Some b" by (rule rb_invE)
  note nx = read_next_drops [OF Suc.prems(1) l]
  have cn: "cnt < n" using Suc.hyps(2) by simp
  show ?case
  proof (cases "x = byte")
    case True
    with Suc.prems k b l nx show ?thesis
      by (subst end_ch_loop.simps) (simp add: mem_simps upd_conv_take_nth_drop)
  next
    case False
    let ?o = "read_until byte (take k xs)" and ?d = "data[cnt := x]"
    have step: "end_ch_loop rb data cnt n byte = end_ch_loop (rb_read_next rb) ?d (Suc cnt) n byte"
      using False Suc.prems k b nx(3) cn by (subst end_ch_loop.simps) (simp add: mem_simps)
    have "\<exists>rb'. end_ch_loop (rb_read_next rb) ?d (Suc cnt) n byte =
        Some (rb', take (Suc cnt) ?d @ ?o @ drop (Suc cnt + length ?o) ?d, Suc cnt + length ?o) \<and>
      rb_inv rb' \<and> rb_size rb' = rb_size rb \<and> rb_list rb' = drop (length ?o) xs"
      using Suc.hyps(1) [of "Suc cnt" "rb_read_next rb" ?d] Suc.prems k nx l by auto
    moreover have "take (Suc cnt) ?d = take cnt data @ [x]"
      using Suc.prems k by (simp add: take_Suc_conv_app_nth)
    moreover have "drop (Suc cnt + length ?o) ?d = drop (Suc cnt + length ?o) data"
      by simp
    ultimately show ?thesis using False k l step by simp
  qed
qed

lemma end_ch_read_reads:
  fixes byte :: u8
  assumes inv: "rb_inv rb" and ne: "rb_list rb \<noteq> []"
    and n: "min (unat n) (length (rb_list rb)) \<le> length data"
  defines "out \<equiv> read_until byte (take (unat n) (rb_list rb))"
  shows "\<exists>rb'. util_ringbuffer_end_ch_read rb data n byte =
      Some (rb', out @ drop (length out) data, of_nat (length out)) \<and>
    rb_inv rb' \<and> rb_size rb' = rb_size rb \<and> rb_list rb' = drop (length out) (rb_list rb)"
proof -
  define m where "m = min (unat n) (length (rb_list rb))"
  define n' where "n' = (if n < util_ringbuffer_can_read rb then n else util_ringbuffer_can_read rb)"
  have m: "unat n' = m"
    by (auto simp: m_def n'_def length_rb_list word_less_nat_alt)
  have cr: "util_ringbuffer_can_read rb \<noteq> 0"
    using ne length_rb_list [of rb] by auto
  have t: "take m (rb_list rb) = take (unat n) (rb_list rb)"
    by (simp add: m_def min_def)
  have "m - 0 \<le> length (rb_list rb)" "m \<le> length data" using n by (auto simp: m_def)
  from end_ch_loop_reads [OF inv this, of byte] cr m t show ?thesis
    by (auto simp: util_ringbuffer_end_ch_read_def Let_def n'_def [symmetric] out_def)
qed

section \<open>The interface: a bounded byte pipe\<close>

text \<open>
  What a client of the buffer relies on: \<open>put\<close> appends while strictly less than the whole
  buffer is in use, \<open>get\<close> takes from the front. The client's fact is that any run of puts and
  gets delivers the bytes in order.
\<close>

datatype 'a pipe_event = Put "'a list" | Get nat

fun list_run :: "nat \<Rightarrow> 'a list \<Rightarrow> 'a pipe_event list \<Rightarrow> ('a list \<times> 'a list) option" where
  "list_run cap xs [] = Some (xs, [])"
| "list_run cap xs (Put ys # es) =
     (if length xs + length ys \<le> cap then list_run cap (xs @ ys) es else None)"
| "list_run cap xs (Get n # es) =
     map_option (\<lambda>(zs, out). (zs, take n xs @ out)) (list_run cap (drop n xs) es)"

fun pipe_run ::
  "('q \<Rightarrow> 'a list \<Rightarrow> 'q option) \<Rightarrow> ('q \<Rightarrow> nat \<Rightarrow> ('q \<times> 'a list) option) \<Rightarrow>
   'q \<Rightarrow> 'a pipe_event list \<Rightarrow> ('q \<times> 'a list) option" where
  "pipe_run put get q [] = Some (q, [])"
| "pipe_run put get q (Put ys # es) = do { q \<leftarrow> put q ys; pipe_run put get q es }"
| "pipe_run put get q (Get n # es) = do {
     (q, xs) \<leftarrow> get q n;
     (q, out) \<leftarrow> pipe_run put get q es;
     Some (q, xs @ out)
   }"

fun put_bytes :: "'a pipe_event list \<Rightarrow> 'a list" where
  "put_bytes [] = []"
| "put_bytes (Put ys # es) = ys @ put_bytes es"
| "put_bytes (Get n # es) = put_bytes es"

locale byte_pipe =
  fixes ok :: "'q \<Rightarrow> bool" and contents :: "'q \<Rightarrow> 'a list" and cap :: "'q \<Rightarrow> nat"
    and put :: "'q \<Rightarrow> 'a list \<Rightarrow> 'q option"
    and get :: "'q \<Rightarrow> nat \<Rightarrow> ('q \<times> 'a list) option"
  assumes put_law: "ok q \<Longrightarrow> length (contents q) + length xs \<le> cap q \<Longrightarrow>
      \<exists>q'. put q xs = Some q' \<and> ok q' \<and> cap q' = cap q \<and> contents q' = contents q @ xs"
    and get_law: "ok q \<Longrightarrow>
      \<exists>q'. get q n = Some (q', take n (contents q)) \<and> ok q' \<and> cap q' = cap q \<and>
        contents q' = drop n (contents q)"
begin

lemma run_refines:
  "ok q \<Longrightarrow> list_run (cap q) (contents q) es = Some (zs, out) \<Longrightarrow>
   \<exists>q'. pipe_run put get q es = Some (q', out) \<and> ok q' \<and> contents q' = zs"
proof (induction es arbitrary: q out)
  case Nil
  then show ?case by simp
next
  case (Cons e es)
  show ?case
  proof (cases e)
    case (Put ys)
    with Cons.prems have fit: "length (contents q) + length ys \<le> cap q"
      and run: "list_run (cap q) (contents q @ ys) es = Some (zs, out)"
      by (auto split: if_splits)
    from put_law [OF Cons.prems(1) fit] obtain q1 where
      "put q ys = Some q1" "ok q1" "cap q1 = cap q" "contents q1 = contents q @ ys" by blast
    with Cons.IH [of q1 out] run Put show ?thesis by auto
  next
    case (Get n)
    with Cons.prems obtain out' where
      run: "list_run (cap q) (drop n (contents q)) es = Some (zs, out')"
      and out: "out = take n (contents q) @ out'"
      by (auto split: if_splits)
    from get_law [OF Cons.prems(1), of n] obtain q1 where
      "get q n = Some (q1, take n (contents q))" "ok q1" "cap q1 = cap q"
      "contents q1 = drop n (contents q)" by blast
    with Cons.IH [of q1 out'] run out Get show ?thesis by auto
  qed
qed

end

lemma list_run_fifo:
  "list_run c xs es = Some (zs, out) \<Longrightarrow> xs @ put_bytes es = out @ zs"
proof (induction c xs es arbitrary: out rule: list_run.induct)
  case (2 cap xs ys es)
  then show ?case by (auto split: if_splits)
next
  case (3 cap xs n es)
  then show ?case by auto (metis append.assoc append_take_drop_id)
qed simp

text \<open>The buffer's own operations behind the interface: the caller passes the length of its
  array, and reads into an array of the size it asks for.\<close>

definition rb_put :: "ringbuffer \<Rightarrow> bytes \<Rightarrow> ringbuffer option" where
  "rb_put rb xs = map_option fst (util_ringbuffer_write rb xs (of_nat (length xs)))"

definition rb_get :: "ringbuffer \<Rightarrow> nat \<Rightarrow> (ringbuffer \<times> bytes) option" where
  "rb_get rb n =
     (let k = min n 65535 in
      map_option (\<lambda>(rb, data, m). (rb, take (unat m) data))
        (util_ringbuffer_read rb (replicate k 0) (of_nat k)))"

interpretation rb: byte_pipe rb_inv rb_list rb_cap rb_put rb_get
proof unfold_locales
  fix q :: ringbuffer and xs :: bytes
  assume q: "rb_inv q" and fit: "length (rb_list q) + length xs \<le> rb_cap q"
  have "rb_cap q < 65536" using unat16_lt [of "rb_size q"] by (simp add: rb_cap_def)
  then have "unat (of_nat (length xs) :: u16) = length xs"
    using fit by (intro unat_of_nat16) linarith
  with write_appends [OF q, of "of_nat (length xs)" xs] fit
  show "\<exists>q'. rb_put q xs = Some q' \<and> rb_inv q' \<and> rb_cap q' = rb_cap q \<and>
      rb_list q' = rb_list q @ xs"
    by (auto simp: rb_put_def rb_cap_def)
next
  fix q :: ringbuffer and n :: nat
  assume q: "rb_inv q"
  define k where "k = min n 65535"
  have k: "unat (of_nat k :: u16) = k" by (rule unat_of_nat16) (simp add: k_def)
  have L: "length (rb_list q) \<le> 65535"
    using length_rb_list_le_cap [OF q] unat16_lt [of "rb_size q"] by (simp add: rb_cap_def)
  then have "take k (rb_list q) = take n (rb_list q)" "drop k (rb_list q) = drop n (rb_list q)"
    by (auto simp: k_def min_def)
  moreover have "unat (of_nat (min k (length (rb_list q))) :: u16) = min k (length (rb_list q))"
    by (rule unat_of_nat16) (simp add: k_def)
  moreover have "min k (length (rb_list q)) = min n (length (rb_list q))"
    using L by (auto simp: k_def)
  then have "take (min k (length (rb_list q))) (take n (rb_list q) @ ys) = take n (rb_list q)" for ys
    by (cases "n \<le> length (rb_list q)") auto
  ultimately show "\<exists>q'. rb_get q n = Some (q', take n (rb_list q)) \<and> rb_inv q' \<and>
      rb_cap q' = rb_cap q \<and> rb_list q' = drop n (rb_list q)"
    using read_takes [OF q, of "of_nat k" "replicate k 0"] k
    by (auto simp: rb_get_def Let_def k_def [symmetric] rb_cap_def simp del: take_append)
qed

section \<open>Properties\<close>

lemma write_full_loses:
  assumes inv: "rb_inv rb" and n: "unat n \<le> length data" "length (rb_list rb) + unat n = unat (rb_size rb)"
  shows "\<exists>rb'. util_ringbuffer_write rb data n = Some (rb', n) \<and> rb_list rb' = []"
proof -
  define rb' where "rb' = rb\<lparr>prb_buf := Some (ring_put (the (prb_buf rb)) (unat (rb_write rb)) data (unat n)),
      rb_write := of_nat ((unat (rb_write rb) + unat n) mod unat (rb_size rb))\<rparr>"
  have wr: "util_ringbuffer_write rb data n = Some (rb', n)"
    using write_step [OF inv n(1)] n(2) by (simp add: rb'_def)
  have "(unat (rb_write rb) + unat n) mod unat (rb_size rb)
      = (unat (rb_read rb) + (length (rb_list rb) + unat n)) mod unat (rb_size rb)"
    using write_index [OF inv] by (simp add: mod_simps add.assoc)
  also have "\<dots> = unat (rb_read rb)"
    using n(2) inv by (simp add: rb_inv_def)
  finally have "rb_write rb' = rb_read rb'" by (simp add: rb'_def)
  then have "rb_list rb' = []" by (simp add: rb_list_def util_ringbuffer_can_read_def)
  with wr show ?thesis by blast
qed

text \<open>A write that leaves at least one byte of the buffer free is accepted whole, never
  touches memory outside the buffer, keeps the buffer well formed and appends exactly the given
  bytes to its contents; a write larger than the free space is refused and changes nothing.\<close>

theorem ringbuffer_write_spec:
  assumes "rb_inv rb" "unat n \<le> length data"
  shows "if length (rb_list rb) + unat n < unat (rb_size rb)
     then \<exists>rb'. util_ringbuffer_write rb data n = Some (rb', n) \<and> rb_inv rb' \<and>
            rb_size rb' = rb_size rb \<and> rb_list rb' = rb_list rb @ take (unat n) data
     else length (rb_list rb) + unat n > unat (rb_size rb) \<longrightarrow>
            util_ringbuffer_write rb data n = Some (rb, 0)"
proof (cases "length (rb_list rb) + unat n < unat (rb_size rb)")
  case True
  then show ?thesis using write_appends [OF assms] by (simp add: rb_cap_def)
next
  case False
  have "length (rb_list rb) \<le> unat (rb_size rb)"
    using length_rb_list_le_cap [OF assms(1)] by (simp add: rb_cap_def)
  then show ?thesis using False
    by (auto simp: util_ringbuffer_write_def word_less_nat_alt can_write_unat [OF assms(1)])
qed

definition rb_example :: ringbuffer where
  "rb_example = \<lparr>prb_buf = Some [1, 2, 3, 4, 5], rb_write = 1, rb_read = 3, can_read = 0,
     can_write = 0, rb_size = 5\<rparr>"

lemma rb_example_inv: "rb_inv rb_example"
  by (simp add: rb_inv_def rb_example_def)

lemma rb_example_list: "rb_list rb_example = [4, 5, 1]"
  by (simp add: rb_list_def rb_example_def util_ringbuffer_can_read_def upt_rec)

lemma rb_example_size: "unat (rb_size rb_example) = 5"
  by (simp add: rb_example_def)

theorem ringbuffer_write_spec_witness:
  "\<exists>rb'. util_ringbuffer_write rb_example [9, 9] 1 = Some (rb', 1) \<and> rb_list rb' = [4, 5, 1, 9]"
  using ringbuffer_write_spec [OF rb_example_inv, of 1 "[9, 9]"]
  by (auto simp: rb_example_list rb_example_size)

text \<open>A write of exactly the free space is accepted, and empties the buffer: the write index
  meets the read index, which the code reads as "no data", so both the stored and the new bytes
  are lost.\<close>

theorem ringbuffer_write_exact_fill_empties:
  assumes "rb_inv rb" "unat n \<le> length data" "n = util_ringbuffer_can_write rb"
  shows "\<exists>rb'. util_ringbuffer_write rb data n = Some (rb', n) \<and>
    util_ringbuffer_can_read rb' = 0 \<and> rb_list rb' = []"
proof -
  have "length (rb_list rb) + unat n = unat (rb_size rb)"
    using can_write_unat [OF assms(1)] length_rb_list_le_cap [OF assms(1)] assms(3)
    by (simp add: rb_cap_def)
  from write_full_loses [OF assms(1,2) this] obtain rb' where
    "util_ringbuffer_write rb data n = Some (rb', n)" "rb_list rb' = []" by blast
  moreover from this have "util_ringbuffer_can_read rb' = 0"
    using length_rb_list [of rb'] by (simp add: unat_eq_0)
  ultimately show ?thesis by blast
qed

theorem ringbuffer_write_exact_fill_empties_witness:
  "\<exists>rb'. util_ringbuffer_write rb_example [9, 9] 2 = Some (rb', 2) \<and>
    util_ringbuffer_can_read rb' = 0 \<and> rb_list rb' = []"
proof -
  have "2 = util_ringbuffer_can_write rb_example"
    by (simp add: util_ringbuffer_can_write_def util_ringbuffer_can_read_def rb_example_def)
  from ringbuffer_write_exact_fill_empties [OF rb_example_inv _ this, of "[9, 9]"]
  show ?thesis by simp
qed

text \<open>The scanning read takes the bytes up to and including the first terminator (or all it
  may read, when there is none), stores exactly those at the start of the caller's array and leaves
  the rest in the buffer.\<close>

theorem ringbuffer_end_ch_read_spec:
  fixes byte :: u8
  assumes "rb_inv rb" "rb_list rb \<noteq> []" "min (unat n) (length (rb_list rb)) \<le> length data"
  shows "\<exists>rb'. util_ringbuffer_end_ch_read rb data n byte =
      Some (rb', read_until byte (take (unat n) (rb_list rb)) @
                 drop (length (read_until byte (take (unat n) (rb_list rb)))) data,
            of_nat (length (read_until byte (take (unat n) (rb_list rb))))) \<and>
    rb_inv rb' \<and>
    rb_list rb = read_until byte (take (unat n) (rb_list rb)) @ rb_list rb'"
proof -
  let ?o = "read_until byte (take (unat n) (rb_list rb))"
  have pre: "read_until byte xs = take (length (read_until byte xs)) xs" for xs :: bytes
    by (induction xs) auto
  have "?o = take (length ?o) (rb_list rb)"
    using pre [of "take (unat n) (rb_list rb)"] length_read_until_le [of byte "take (unat n) (rb_list rb)"]
    by (simp add: min_def split: if_splits)
  then have "?o @ drop (length ?o) (rb_list rb) = rb_list rb"
    by (metis append_take_drop_id)
  with end_ch_read_reads [OF assms, of byte] show ?thesis by auto
qed

theorem ringbuffer_end_ch_read_spec_witness:
  "\<exists>rb'. util_ringbuffer_end_ch_read rb_example [0, 0, 0] 3 5 = Some (rb', [4, 5, 0], 2)"
  using ringbuffer_end_ch_read_spec [OF rb_example_inv, of 3 "[0, 0, 0]" 5]
  by (auto simp: rb_example_list)

text \<open>C23. FIFO delivery through the buffer: any run of writes and reads that never asks for the
  last free byte behaves as the same run on an unbounded list, so the bytes come out in the order
  they went in and none is lost or repeated.\<close>

theorem ringbuffer_stream_refines_list:
  assumes "rb_inv rb" "list_run (rb_cap rb) (rb_list rb) es = Some (zs, out)"
  shows "\<exists>rb'. pipe_run rb_put rb_get rb es = Some (rb', out) \<and> rb_inv rb' \<and>
     rb_list rb @ put_bytes es = out @ rb_list rb'"
  using rb.run_refines [OF assms] list_run_fifo [OF assms(2)] by auto

theorem ringbuffer_stream_refines_list_witness:
  "\<exists>rb'. pipe_run rb_put rb_get rb_example [Put [7], Get 2, Put [8, 9], Get 3] =
      Some (rb', [4, 5, 1, 7, 8])"
proof -
  have "list_run (rb_cap rb_example) (rb_list rb_example) [Put [7], Get 2, Put [8, 9], Get 3] =
      Some ([9], [4, 5, 1, 7, 8])"
    by (simp add: rb_example_list rb_cap_def) (simp add: rb_example_def)
  from ringbuffer_stream_refines_list [OF rb_example_inv this] show ?thesis by blast
qed

end
