(* ===== verification/Crc32.thy ===== *)
theory Crc32
  imports Prelude
begin

text \<open>
  The CRC-32 half of the message check codes of \<^verbatim>\<open>APP/Util/util_check.c\<close>: the table-driven
  CRC-32, the bit-serial reference it implements and its error detection. The strings to check are
  byte arrays; \<open>str\<close> must hold at least \<open>len\<close> bytes, otherwise the model returns
  \<open>None\<close>.
\<close>

section \<open>Definitions\<close>

definition crc32tab :: "u32 list" where
  "crc32tab =
    [0x00000000, 0x77073096, 0xee0e612c, 0x990951ba, 0x076dc419, 0x706af48f, 0xe963a535, 0x9e6495a3,
     0x0edb8832, 0x79dcb8a4, 0xe0d5e91e, 0x97d2d988, 0x09b64c2b, 0x7eb17cbd, 0xe7b82d07, 0x90bf1d91,
     0x1db71064, 0x6ab020f2, 0xf3b97148, 0x84be41de, 0x1adad47d, 0x6ddde4eb, 0xf4d4b551, 0x83d385c7,
     0x136c9856, 0x646ba8c0, 0xfd62f97a, 0x8a65c9ec, 0x14015c4f, 0x63066cd9, 0xfa0f3d63, 0x8d080df5,
     0x3b6e20c8, 0x4c69105e, 0xd56041e4, 0xa2677172, 0x3c03e4d1, 0x4b04d447, 0xd20d85fd, 0xa50ab56b,
     0x35b5a8fa, 0x42b2986c, 0xdbbbc9d6, 0xacbcf940, 0x32d86ce3, 0x45df5c75, 0xdcd60dcf, 0xabd13d59,
     0x26d930ac, 0x51de003a, 0xc8d75180, 0xbfd06116, 0x21b4f4b5, 0x56b3c423, 0xcfba9599, 0xb8bda50f,
     0x2802b89e, 0x5f058808, 0xc60cd9b2, 0xb10be924, 0x2f6f7c87, 0x58684c11, 0xc1611dab, 0xb6662d3d,
     0x76dc4190, 0x01db7106, 0x98d220bc, 0xefd5102a, 0x71b18589, 0x06b6b51f, 0x9fbfe4a5, 0xe8b8d433,
     0x7807c9a2, 0x0f00f934, 0x9609a88e, 0xe10e9818, 0x7f6a0dbb, 0x086d3d2d, 0x91646c97, 0xe6635c01,
     0x6b6b51f4, 0x1c6c6162, 0x856530d8, 0xf262004e, 0x6c0695ed, 0x1b01a57b, 0x8208f4c1, 0xf50fc457,
     0x65b0d9c6, 0x12b7e950, 0x8bbeb8ea, 0xfcb9887c, 0x62dd1ddf, 0x15da2d49, 0x8cd37cf3, 0xfbd44c65,
     0x4db26158, 0x3ab551ce, 0xa3bc0074, 0xd4bb30e2, 0x4adfa541, 0x3dd895d7, 0xa4d1c46d, 0xd3d6f4fb,
     0x4369e96a, 0x346ed9fc, 0xad678846, 0xda60b8d0, 0x44042d73, 0x33031de5, 0xaa0a4c5f, 0xdd0d7cc9,
     0x5005713c, 0x270241aa, 0xbe0b1010, 0xc90c2086, 0x5768b525, 0x206f85b3, 0xb966d409, 0xce61e49f,
     0x5edef90e, 0x29d9c998, 0xb0d09822, 0xc7d7a8b4, 0x59b33d17, 0x2eb40d81, 0xb7bd5c3b, 0xc0ba6cad,
     0xedb88320, 0x9abfb3b6, 0x03b6e20c, 0x74b1d29a, 0xead54739, 0x9dd277af, 0x04db2615, 0x73dc1683,
     0xe3630b12, 0x94643b84, 0x0d6d6a3e, 0x7a6a5aa8, 0xe40ecf0b, 0x9309ff9d, 0x0a00ae27, 0x7d079eb1,
     0xf00f9344, 0x8708a3d2, 0x1e01f268, 0x6906c2fe, 0xf762575d, 0x806567cb, 0x196c3671, 0x6e6b06e7,
     0xfed41b76, 0x89d32be0, 0x10da7a5a, 0x67dd4acc, 0xf9b9df6f, 0x8ebeeff9, 0x17b7be43, 0x60b08ed5,
     0xd6d6a3e8, 0xa1d1937e, 0x38d8c2c4, 0x4fdff252, 0xd1bb67f1, 0xa6bc5767, 0x3fb506dd, 0x48b2364b,
     0xd80d2bda, 0xaf0a1b4c, 0x36034af6, 0x41047a60, 0xdf60efc3, 0xa867df55, 0x316e8eef, 0x4669be79,
     0xcb61b38c, 0xbc66831a, 0x256fd2a0, 0x5268e236, 0xcc0c7795, 0xbb0b4703, 0x220216b9, 0x5505262f,
     0xc5ba3bbe, 0xb2bd0b28, 0x2bb45a92, 0x5cb36a04, 0xc2d7ffa7, 0xb5d0cf31, 0x2cd99e8b, 0x5bdeae1d,
     0x9b64c2b0, 0xec63f226, 0x756aa39c, 0x026d930a, 0x9c0906a9, 0xeb0e363f, 0x72076785, 0x05005713,
     0x95bf4a82, 0xe2b87a14, 0x7bb12bae, 0x0cb61b38, 0x92d28e9b, 0xe5d5be0d, 0x7cdcefb7, 0x0bdbdf21,
     0x86d3d2d4, 0xf1d4e242, 0x68ddb3f8, 0x1fda836e, 0x81be16cd, 0xf6b9265b, 0x6fb077e1, 0x18b74777,
     0x88085ae6, 0xff0f6a70, 0x66063bca, 0x11010b5c, 0x8f659eff, 0xf862ae69, 0x616bffd3, 0x166ccf45,
     0xa00ae278, 0xd70dd2ee, 0x4e048354, 0x3903b3c2, 0xa7672661, 0xd06016f7, 0x4969474d, 0x3e6e77db,
     0xaed16a4a, 0xd9d65adc, 0x40df0b66, 0x37d83bf0, 0xa9bcae53, 0xdebb9ec5, 0x47b2cf7f, 0x30b5ffe9,
     0xbdbdf21c, 0xcabac28a, 0x53b39330, 0x24b4a3a6, 0xbad03605, 0xcdd70693, 0x54de5729, 0x23d967bf,
     0xb3667a2e, 0xc4614ab8, 0x5d681b02, 0x2a6f2b94, 0xb40bbe37, 0xc30c8ea1, 0x5a05df1b, 0x2d02ef8d]"

definition crc32_step :: "u32 \<Rightarrow> u8 \<Rightarrow> u32" where
  "crc32_step crc b = (crc32tab ! unat ((crc XOR ucast b) AND 0xff)) XOR drop_bit 8 crc"

text \<open>The loop \<open>for (i = 0; i < len; i++)\<close> reads the first \<open>len\<close> bytes in order.\<close>

definition util_crc32 :: "bytes \<Rightarrow> nat \<Rightarrow> u32 option" where
  "util_crc32 str len =
     (if len \<le> length str then Some (foldl crc32_step 0 (take len str)) else None)"

section \<open>The reference: bit-serial CRC-32\<close>

definition crc_bit :: "u32 \<Rightarrow> u32" where
  "crc_bit x = (if bit x 0 then 0xEDB88320 XOR drop_bit 1 x else drop_bit 1 x)"

definition crc8 :: "u32 \<Rightarrow> u32" where
  "crc8 x = (crc_bit ^^ 8) x"

definition crc_byte :: "u32 \<Rightarrow> u8 \<Rightarrow> u32" where
  "crc_byte crc b = crc8 (crc XOR ucast b)"

lemma crc_bit_xor: "crc_bit (x XOR y) = crc_bit x XOR crc_bit y"
  by (auto simp: crc_bit_def bit_simps ac_simps drop_bit_xor xor_self_eq)

lemma crc_bits_xor: "(crc_bit ^^ n) (x XOR y) = (crc_bit ^^ n) x XOR (crc_bit ^^ n) y"
  by (induction n) (simp_all add: crc_bit_xor)

lemma crc_bits_high: "take_bit n x = 0 \<Longrightarrow> (crc_bit ^^ n) x = drop_bit n x"
proof (induction n arbitrary: x)
  case 0
  then show ?case by simp
next
  case (Suc n)
  have z: "\<not> bit x i" if "i < Suc n" for i
    using Suc.prems that by (metis bit_0_eq bit_take_bit_iff bot_apply bot_bool_def)
  then have "\<not> bit x 0" by simp
  then have s: "crc_bit x = drop_bit 1 x" by (simp add: crc_bit_def)
  have "take_bit n (drop_bit 1 x) = 0"
    using z by (auto intro!: bit_word_eqI simp: bit_simps)
  with Suc.IH s show ?case by (simp add: funpow_swap1 drop_bit_drop_bit)
qed

lemma crc32tab_length: "length crc32tab = 256"
  by (simp add: crc32tab_def)

text \<open>The table is the eight-step remainder of its index: evaluated entry by entry, with
  equations that fire on numerals only.\<close>

lemma crc_bit_numeral:
  "crc_bit (numeral n) =
     (if bit (numeral n :: u32) 0 then 0xEDB88320 XOR drop_bit 1 (numeral n) else drop_bit 1 (numeral n))"
  "crc_bit 0 = 0" "crc_bit 1 = 0xEDB88320"
  by (simp_all add: crc_bit_def)

lemma crc8_unfold:
  "crc8 x = crc_bit (crc_bit (crc_bit (crc_bit (crc_bit (crc_bit (crc_bit (crc_bit x)))))))"
  by (simp add: crc8_def numeral_eq_Suc)

lemma crc8_numeral:
  "crc8 (numeral n) =
     crc_bit (crc_bit (crc_bit (crc_bit (crc_bit (crc_bit (crc_bit (crc_bit (numeral n))))))))"
  "crc8 0 = 0"
  "crc8 1 = crc_bit (crc_bit (crc_bit (crc_bit (crc_bit (crc_bit (crc_bit (crc_bit 1)))))))"
  by (simp_all only: crc8_unfold crc_bit_numeral)

lemma crc32tab_eq: "crc32tab = map (\<lambda>i. crc8 (of_nat i)) [0..<256]"
  unfolding crc32tab_def
  by (rule sym) (simp add: upt_rec crc8_numeral crc_bit_numeral)

lemma crc32tab_nth: "i < 256 \<Longrightarrow> crc32tab ! i = crc8 (of_nat i)"
  by (simp add: crc32tab_eq)

lemma crc8_xor: "crc8 (x XOR y) = crc8 x XOR crc8 y"
  by (simp add: crc8_def crc_bits_xor)

lemma crc8_split: "crc8 y = crc8 (take_bit 8 y) XOR drop_bit 8 y"
proof -
  have "y = take_bit 8 y XOR (y AND NOT (mask 8))"
    by (rule bit_word_eqI) (auto simp: bit_simps)
  moreover have "take_bit 8 (y AND NOT (mask 8)) = 0"
    by (rule bit_word_eqI) (auto simp: bit_simps)
  moreover have "drop_bit 8 (y AND NOT (mask 8)) = drop_bit 8 y"
    by (rule bit_word_eqI) (auto simp: bit_simps dest: bit_imp_le_length)
  ultimately show ?thesis
    using crc_bits_high [of 8 "y AND NOT (mask 8)"] by (metis crc8_def crc8_xor)
qed

lemma unat_take8_lt: "unat (take_bit 8 (y :: u32)) < 256"
  using take_bit_nat_less_exp [of 8 "unat y"] by (simp add: unsigned_take_bit_eq)

lemma crc32_step_eq: "crc32_step crc b = crc_byte crc b"
proof -
  let ?y = "crc XOR ucast b"
  have a: "?y AND 0xff = take_bit 8 ?y"
    by (simp add: take_bit_eq_mask mask_numeral)
  have "drop_bit 8 ?y = drop_bit 8 crc"
    by (rule bit_word_eqI) (auto simp: bit_simps dest: bit_imp_le_length)
  then show ?thesis
    unfolding crc32_step_def crc_byte_def a
    using crc8_split [of ?y] crc32tab_nth [OF unat_take8_lt [of ?y]] by simp
qed

section \<open>Error detection\<close>

lemma crc_byte_xor: "crc_byte (x XOR y) (a XOR b) = crc_byte x a XOR crc_byte y b"
proof -
  have "(x XOR y) XOR ucast (a XOR b) = (x XOR ucast a) XOR (y XOR (ucast b :: u32))"
    by (rule bit_word_eqI) (auto simp: bit_simps)
  then show ?thesis by (simp add: crc_byte_def crc8_xor)
qed

lemma crc_foldl_xor:
  "length s = length t \<Longrightarrow>
   foldl crc_byte (x XOR y) (map2 (XOR) s t) = foldl crc_byte x s XOR foldl crc_byte y t"
  by (induction s t arbitrary: x y rule: list_induct2) (simp_all add: crc_byte_xor)

lemma crc32tab_high_list: "list_all (\<lambda>x. drop_bit 24 x \<noteq> 0) (tl crc32tab)"
  unfolding crc32tab_def by simp

lemma crc32tab_high:
  assumes "0 < i" "i < 256"
  shows "drop_bit 24 (crc32tab ! i) \<noteq> 0"
proof -
  have "crc32tab ! i = tl crc32tab ! (i - 1)"
    using assms crc32tab_length by (simp add: nth_tl)
  then show ?thesis
    using crc32tab_high_list assms crc32tab_length by (simp add: list_all_length)
qed

lemma crc8_small:
  assumes "drop_bit 24 (crc8 y) = 0"
  shows "take_bit 8 y = 0 \<and> crc8 y = drop_bit 8 y"
proof -
  let ?i = "unat (take_bit 8 y)"
  have i: "?i < 256" by (rule unat_take8_lt)
  have d: "drop_bit 24 (drop_bit 8 y) = 0"
    by (rule bit_word_eqI) (auto simp: bit_simps)
  have t: "crc32tab ! ?i = crc8 (take_bit 8 y)"
    using crc32tab_nth [OF i] by simp
  have "drop_bit 24 (crc8 y) = drop_bit 24 (crc8 (take_bit 8 y)) XOR drop_bit 24 (drop_bit 8 y)"
    by (subst crc8_split) (rule bit_word_eqI, auto simp: bit_simps)
  then have "drop_bit 24 (crc32tab ! ?i) = 0"
    using assms d t by simp
  with crc32tab_high [OF _ i] have "?i = 0" by auto
  then have "take_bit 8 y = 0" by (simp add: unat_eq_0)
  then show ?thesis using crc8_split [of y] crc8_numeral(2) by simp
qed

lemma crc_burst_zero:
  "k + length e \<le> 4 \<Longrightarrow> drop_bit (8 * k) (foldl crc_byte 0 e) = 0 \<Longrightarrow> \<forall>b \<in> set e. b = 0"
proof (induction e arbitrary: k rule: rev_induct)
  case Nil
  then show ?case by simp
next
  case (snoc b e)
  define x where "x = foldl crc_byte 0 e"
  let ?z = "x XOR ucast b"
  have r: "drop_bit (8 * k) (crc8 ?z) = 0"
    using snoc.prems(2) by (simp add: x_def crc_byte_def [of _ b])
  have "drop_bit (24 - 8 * k) (drop_bit (8 * k) (crc8 ?z)) = drop_bit 24 (crc8 ?z)"
    using snoc.prems(1) by (simp add: drop_bit_drop_bit)
  with r have "drop_bit 24 (crc8 ?z) = 0" by simp
  then have z: "take_bit 8 ?z = 0" "crc8 ?z = drop_bit 8 ?z" by (auto dest: crc8_small)
  have "drop_bit (8 * Suc k) ?z = 0"
    using r z(2) by (simp add: drop_bit_drop_bit add.commute)
  moreover have "drop_bit (8 * Suc k) (ucast b :: u32) = 0"
    by (rule bit_word_eqI) (auto simp: bit_simps dest: bit_imp_le_length)
  moreover have "drop_bit (8 * Suc k) ?z = drop_bit (8 * Suc k) x XOR drop_bit (8 * Suc k) (ucast b)"
    by (simp add: drop_bit_xor)
  ultimately have "drop_bit (8 * Suc k) x = 0" by simp
  then have e: "\<forall>b \<in> set e. b = 0"
    using snoc.IH [of "Suc k"] snoc.prems(1) by (simp add: x_def)
  have "foldl crc_byte 0 e = 0" using e
    by (induction e rule: rev_induct) (simp_all add: crc_byte_def crc8_numeral(2))
  then have "take_bit 8 (ucast b :: u32) = 0" using z(1) by (simp add: x_def)
  moreover have "bit (take_bit 8 (ucast b :: u32)) n = bit b n" if "n < 8" for n
    using that by (simp add: bit_simps)
  ultimately have "b = 0" by (auto intro!: bit_word_eqI)
  with e show ?case by simp
qed

lemma crc_zeros: "\<forall>b \<in> set e. b = 0 \<Longrightarrow> foldl crc_byte x e = 0 \<longleftrightarrow> x = 0"
proof (induction e arbitrary: x)
  case (Cons b e)
  have "crc8 y = 0 \<longleftrightarrow> y = 0" for y
  proof
    assume "crc8 y = 0"
    then have "take_bit 8 y = 0" "drop_bit 8 y = 0" using crc8_small [of y] by auto
    then show "y = 0"
      by (metis bits_ident push_bit_of_0 add.right_neutral)
  qed (simp add: crc8_numeral(2))
  with Cons show ?case by (simp add: crc_byte_def)
qed simp

end
