(* ===== verification/CLib.thy ===== *)
theory CLib
  imports Prelude
begin

text \<open>
  The functions of the C standard library that the sources call on text, on NUL-free character
  lists: a C string is the list of its characters up to the terminator.
\<close>

section \<open>Comparison and search\<close>

text \<open>\<open>strcmp\<close> and \<open>strncmp\<close> are used only through a comparison of the result with 0.\<close>

definition strcmp_eq :: "string \<Rightarrow> string \<Rightarrow> bool" where
  "strcmp_eq a b \<longleftrightarrow> a = b"

definition strncmp_eq :: "string \<Rightarrow> string \<Rightarrow> nat \<Rightarrow> bool" where
  "strncmp_eq a b n \<longleftrightarrow> take n a = take n b"

text \<open>The idiom \<open>strncmp(s, k, strlen(k)) == 0\<close>: \<open>k\<close> is a prefix of \<open>s\<close>.\<close>

abbreviation starts_with :: "string \<Rightarrow> string \<Rightarrow> bool" where
  "starts_with s k \<equiv> strncmp_eq s k (length k)"

lemma starts_with_iff: "starts_with s k \<longleftrightarrow> (\<exists>t. s = k @ t)"
  by (auto simp: strncmp_eq_def) (metis append_take_drop_id)

text \<open>\<open>strchr\<close>: the suffix that starts at the first occurrence.\<close>

fun strchr :: "string \<Rightarrow> char \<Rightarrow> string option" where
  "strchr [] c = None"
| "strchr (x # xs) c = (if x = c then Some (x # xs) else strchr xs c)"

section \<open>Numbers\<close>

definition isspace :: "char \<Rightarrow> bool" where
  "isspace c \<longleftrightarrow> c = CHR '' '' \<or> (9 \<le> (of_char c :: nat) \<and> (of_char c :: nat) \<le> 13)"

definition digit_val :: "char \<Rightarrow> nat option" where
  "digit_val c =
     (let n = (of_char c :: nat) in
      if 48 \<le> n \<and> n \<le> 57 then Some (n - 48)
      else if 65 \<le> n \<and> n \<le> 90 then Some (n - 55)
      else if 97 \<le> n \<and> n \<le> 122 then Some (n - 87)
      else None)"

definition is_digit_of :: "nat \<Rightarrow> char \<Rightarrow> bool" where
  "is_digit_of base c \<longleftrightarrow> (case digit_val c of None \<Rightarrow> False | Some d \<Rightarrow> d < base)"

fun digits_value :: "nat \<Rightarrow> nat \<Rightarrow> string \<Rightarrow> nat" where
  "digits_value base acc [] = acc"
| "digits_value base acc (c # cs) =
     (case digit_val c of None \<Rightarrow> acc | Some d \<Rightarrow>
       if d < base then digits_value base (acc * base + d) cs else acc)"

text \<open>\<open>strtoul(s, &end, base)\<close> for base 10 or 16: the value and the unparsed rest.\<close>

definition strtoul_digits :: "nat \<Rightarrow> string \<Rightarrow> string" where
  "strtoul_digits base s =
     (case s of
        z # x # d # r \<Rightarrow>
          if base = 16 \<and> z = CHR ''0'' \<and> (x = CHR ''x'' \<or> x = CHR ''X'') \<and> is_digit_of 16 d then d # r else s
      | _ \<Rightarrow> s)"

definition strtoul :: "string \<Rightarrow> nat \<Rightarrow> u32 \<times> string" where
  "strtoul s base =
     (let t = dropWhile isspace s;
          neg = (t \<noteq> [] \<and> hd t = CHR ''-'');
          u = (if t \<noteq> [] \<and> (hd t = CHR ''-'' \<or> hd t = CHR ''+'') then tl t else t);
          d = strtoul_digits base u;
          v = digits_value base 0 d;
          w = (if 2 ^ 32 \<le> v then 0xFFFFFFFF else if neg then - of_nat v else of_nat v)
      in if takeWhile (is_digit_of base) d = [] then (0, s)
         else (w, dropWhile (is_digit_of base) d))"

lemma digits_value_takeWhile:
  "digits_value base acc (takeWhile (is_digit_of base) s) = digits_value base acc s"
  by (induction s arbitrary: acc) (auto simp: is_digit_of_def split: option.splits)

end
