(* ===== verification/CheckCode.thy ===== *)
theory CheckCode
  imports Crc32 CLib
begin

text \<open>
  The comparison of a computed check code with the hexadecimal code that the receiver sends as
  text (\<^verbatim>\<open>APP/Util/util_check.c\<close>). A null pointer argument is \<open>None\<close>; the outer
  \<open>None\<close> of a result is a read past the end of \<open>str\<close>.
\<close>

section \<open>Definitions\<close>

definition util_xor :: "bytes option \<Rightarrow> nat \<Rightarrow> u8 option" where
  "util_xor str len =
     (case str of None \<Rightarrow> Some 0
      | Some s \<Rightarrow> if len \<le> length s then Some (foldl (\<lambda>x b. x XOR b) 0 (take len s)) else None)"

definition CHECKCODE_EQ :: u8 where "CHECKCODE_EQ = 0"
definition CHECKCODE_NOEQ :: u8 where "CHECKCODE_NOEQ = 1"

definition util_check_crc32 :: "bytes option \<Rightarrow> nat \<Rightarrow> string option \<Rightarrow> u8 option" where
  "util_check_crc32 str len checkcode =
     (case (str, checkcode) of
        (Some s, Some code) \<Rightarrow>
          map_option (\<lambda>new. if new \<noteq> fst (strtoul code 16) then CHECKCODE_NOEQ else CHECKCODE_EQ)
            (util_crc32 s len)
      | _ \<Rightarrow> Some CHECKCODE_NOEQ)"

definition util_xor_check :: "bytes option \<Rightarrow> nat \<Rightarrow> string option \<Rightarrow> u8 option" where
  "util_xor_check str len checkcode =
     (case (str, checkcode) of
        (Some s, Some code) \<Rightarrow>
          map_option (\<lambda>new. if new \<noteq> ucast (fst (strtoul code 16)) then CHECKCODE_NOEQ
                             else CHECKCODE_EQ)
            (util_xor str len)
      | _ \<Rightarrow> Some CHECKCODE_NOEQ)"

section \<open>Properties\<close>

text \<open>The same positions of \<open>s\<close> and \<open>t\<close> outside four consecutive ones hold the same
  byte.\<close>

definition differ_in_burst :: "bytes \<Rightarrow> bytes \<Rightarrow> nat \<Rightarrow> bool" where
  "differ_in_burst s t i \<longleftrightarrow>
     length s = length t \<and> s \<noteq> t \<and> (\<forall>j < length s. j < i \<or> i + 4 \<le> j \<longrightarrow> s ! j = t ! j)"

lemma crc_burst_detected:
  assumes "differ_in_burst s t i"
  shows "foldl crc_byte x s \<noteq> foldl crc_byte x t"
proof
  assume eq: "foldl crc_byte x s = foldl crc_byte x t"
  define d where "d = map2 (XOR) s t"
  have len: "length s = length t" and ne: "s \<noteq> t"
    and same: "\<And>j. j < length s \<Longrightarrow> j < i \<or> i + 4 \<le> j \<Longrightarrow> s ! j = t ! j"
    using assms by (auto simp: differ_in_burst_def)
  have ld: "length d = length s" using len by (simp add: d_def)
  have nth: "d ! j = s ! j XOR t ! j" if "j < length s" for j
    using that len by (simp add: d_def)
  have zero: "d ! j = 0" if "j < length s" "j < i \<or> i + 4 \<le> j" for j
    using nth [OF that(1)] same [OF that] by simp
  have pre: "\<forall>b \<in> set (take i d). b = 0"
    using zero ld by (auto simp: in_set_conv_nth)
  have post: "\<forall>b \<in> set (drop (i + 4) d). b = 0"
    using zero ld by (auto simp: in_set_conv_nth)
  have "foldl crc_byte 0 d = 0"
    using crc_foldl_xor [OF len, of x x] eq by (simp add: d_def)
  moreover have "d = take i d @ take 4 (drop i d) @ drop (i + 4) d"
    by (metis append_take_drop_id drop_drop add.commute)
  ultimately have "foldl crc_byte 0 (take i d @ take 4 (drop i d) @ drop (i + 4) d) = 0"
    by metis
  moreover have "foldl crc_byte 0 (take i d) = 0" using crc_zeros [OF pre] by blast
  ultimately have "foldl crc_byte 0 (take 4 (drop i d)) = 0"
    using crc_zeros [OF post] by simp
  then have mid: "\<forall>b \<in> set (take 4 (drop i d)). b = 0"
    using crc_burst_zero [of 0 "take 4 (drop i d)"] by simp
  have "d ! j = 0" if "j < length s" for j
  proof (cases "j < i \<or> i + 4 \<le> j")
    case False
    then have "j - i < length (take 4 (drop i d))" "take 4 (drop i d) ! (j - i) = d ! j"
      using that ld by auto
    with mid show ?thesis by (metis nth_mem)
  qed (use zero that in blast)
  then have "s ! j = t ! j" if "j < length s" for j
    using nth [OF that] that by (simp add: xor_zero_eq)
  with len ne show False by (metis nth_equalityI)
qed

lemma util_crc32_eq: "len \<le> length s \<Longrightarrow> util_crc32 s len = Some (foldl crc_byte 0 (take len s))"
proof -
  have "foldl crc32_step x l = foldl crc_byte x l" for x l
    by (induction l arbitrary: x) (simp_all add: crc32_step_eq)
  then show "len \<le> length s \<Longrightarrow> ?thesis" by (simp add: util_crc32_def)
qed

text \<open>C14. The table-driven CRC computes the bit-serial CRC-32 with the reflected polynomial
  0xEDB88320 and initial value 0 over the first \<open>len\<close> bytes, on every input.\<close>

theorem util_crc32_is_bitserial:
  "util_crc32 str len =
     (if len \<le> length str
      then Some (foldl (\<lambda>crc b. (crc_bit ^^ 8) (crc XOR ucast b)) 0 (take len str)) else None)"
proof -
  have "foldl (\<lambda>crc b. (crc_bit ^^ 8) (crc XOR ucast b)) x l = foldl crc_byte x l" for x l
    by (induction l arbitrary: x) (simp_all add: crc_byte_def crc8_def)
  then show ?thesis using util_crc32_eq by (simp add: util_crc32_def)
qed

text \<open>The sender's text form of a code, as \<open>%08x\<close> prints it.\<close>

definition hex_digit :: "nat \<Rightarrow> char" where
  "hex_digit d = ''0123456789abcdef'' ! d"

fun hex_string :: "nat \<Rightarrow> nat \<Rightarrow> string" where
  "hex_string 0 v = []"
| "hex_string (Suc k) v = hex_string k (v div 16) @ [hex_digit (v mod 16)]"

lemma hex_digit_props:
  assumes "d < 16"
  shows "digit_val (hex_digit d) = Some d" "\<not> isspace (hex_digit d)"
    "hex_digit d \<noteq> CHR ''-''" "hex_digit d \<noteq> CHR ''+''"
    "hex_digit d \<noteq> CHR ''x''" "hex_digit d \<noteq> CHR ''X''"
proof -
  have "d \<in> set [0..<16]" using assms by simp
  then show "digit_val (hex_digit d) = Some d" "\<not> isspace (hex_digit d)"
    "hex_digit d \<noteq> CHR ''-''" "hex_digit d \<noteq> CHR ''+''"
    "hex_digit d \<noteq> CHR ''x''" "hex_digit d \<noteq> CHR ''X''"
    by (simp add: upt_rec; elim disjE; simp add: hex_digit_def digit_val_def isspace_def)+
qed

lemma hex_string_digits: "c \<in> set (hex_string k v) \<Longrightarrow> \<exists>d < 16. c = hex_digit d"
  by (induction k v rule: hex_string.induct) (auto intro: exI [of _ "_ mod 16"])

lemma length_hex_string: "length (hex_string k v) = k"
  by (induction k v rule: hex_string.induct) auto

lemma digits_value_append:
  "\<forall>c \<in> set a. is_digit_of base c \<Longrightarrow>
   digits_value base acc (a @ b) = digits_value base (digits_value base acc a) b"
  by (induction a arbitrary: acc) (auto simp: is_digit_of_def split: option.splits)

lemma hex_string_is_digit: "c \<in> set (hex_string k v) \<Longrightarrow> is_digit_of 16 c"
  using hex_string_digits hex_digit_props(1) by (fastforce simp: is_digit_of_def)

lemma hex_string_value: "digits_value 16 0 (hex_string k v) = v mod 16 ^ k"
proof (induction k v rule: hex_string.induct)
  case (2 k v)
  have "(v div 16) mod 16 ^ k * 16 + v mod 16 = v mod (16 * 16 ^ k)"
    by (simp add: mod_mult2_eq)
  with 2 show ?case
    by (simp add: digits_value_append hex_string_is_digit hex_digit_props(1))
qed simp

lemma strtoul_hex_string:
  assumes "0 < k" "k \<le> 8"
  shows "strtoul (hex_string k v) 16 = (of_nat (v mod 16 ^ k), [])"
proof -
  let ?h = "hex_string k v"
  from assms(1) obtain c cs where h: "?h = c # cs"
    using length_hex_string [of k v] by (cases ?h) auto
  have allp: "\<exists>d < 16. x = hex_digit d" if "x \<in> set ?h" for x
    using hex_string_digits that by blast
  then obtain d where "d < 16" "c = hex_digit d" using h by (metis list.set_intros(1))
  then have c: "\<not> isspace c" "c \<noteq> CHR ''-''" "c \<noteq> CHR ''+''"
    using hex_digit_props(2,3,4) by simp_all
  have nox: "x \<noteq> CHR ''x''" "x \<noteq> CHR ''X''" if "x \<in> set ?h" for x
    using allp [OF that] by (auto simp: hex_digit_props(5,6))
  have sd: "strtoul_digits 16 ?h = ?h"
    using nox unfolding strtoul_digits_def by (auto split: list.splits)
  have "(16::nat) ^ k \<le> 16 ^ 8" using assms(2) by (rule power_increasing) simp
  moreover have "v mod 16 ^ k < 16 ^ k" by (rule mod_less_divisor) simp
  ultimately have "v mod 16 ^ k < 16 ^ 8" by (rule order.strict_trans2 [rotated])
  then have lt: "v mod 16 ^ k < 2 ^ 32" by simp
  have all: "takeWhile (is_digit_of 16) ?h = ?h" "dropWhile (is_digit_of 16) ?h = []"
    using hex_string_is_digit by (auto simp: takeWhile_eq_all_conv)
  have ws: "dropWhile isspace ?h = ?h" using c h by simp
  have hd: "?h \<noteq> []" "hd ?h = c" using h by simp_all
  have u: "(if ?h \<noteq> [] \<and> (hd ?h = CHR ''-'' \<or> hd ?h = CHR ''+'') then tl ?h else ?h) = ?h"
    using hd c by simp
  show ?thesis
    unfolding strtoul_def Let_def ws u sd all
    using hd c lt by (simp add: hex_string_value)
qed

text \<open>C16. The receiver accepts a message with the code its sender computed and printed in
  hexadecimal, and rejects every message in which some bytes inside a window of four consecutive
  bytes were changed.\<close>

theorem util_check_crc32_detects_bursts:
  assumes sent: "util_crc32 msg len = Some code" "len = length msg"
  shows "util_check_crc32 (Some msg) len (Some (hex_string 8 (unat code))) = Some CHECKCODE_EQ \<and>
    (\<forall>recv i. differ_in_burst recv msg i \<longrightarrow>
       util_check_crc32 (Some recv) len (Some (hex_string 8 (unat code))) = Some CHECKCODE_NOEQ)"
proof -
  have "unat code mod 16 ^ 8 = unat code"
    using unat32_lt [of code] by simp
  then have c: "fst (strtoul (hex_string 8 (unat code)) 16) = code"
    using strtoul_hex_string [of 8 "unat code"] by simp
  have code: "code = foldl crc_byte 0 msg"
    using util_crc32_eq [of len msg] sent by simp
  have "util_check_crc32 (Some recv) len (Some (hex_string 8 (unat code))) = Some CHECKCODE_NOEQ"
    if "differ_in_burst recv msg i" for recv i
  proof -
    have "length recv = len" using that sent(2) by (simp add: differ_in_burst_def)
    then have "util_crc32 recv len = Some (foldl crc_byte 0 recv)"
      using util_crc32_eq [of len recv] by simp
    with crc_burst_detected [OF that, of 0] show ?thesis by (simp add: util_check_crc32_def c [unfolded code] code)
  qed
  then show ?thesis using sent(1) by (simp add: util_check_crc32_def c)
qed

theorem util_check_crc32_detects_bursts_witness:
  "\<exists>code. util_crc32 [1, 2, 3] 3 = Some code \<and>
     util_check_crc32 (Some [1, 7, 3]) 3 (Some (hex_string 8 (unat code))) = Some CHECKCODE_NOEQ"
proof -
  obtain code where c: "util_crc32 [1, 2, 3] 3 = Some code"
    by (simp add: util_crc32_def)
  have "differ_in_burst [1, 7, 3] [1, 2, 3] 1"
    by (auto simp: differ_in_burst_def less_Suc_eq)
  with util_check_crc32_detects_bursts [OF c] c show ?thesis by auto
qed

end
