(* ===== verification/Flash.thy ===== *)
theory Flash
  imports Prelude
begin

text \<open>
  The internal flash as the application sees it: the half-word programming and sector erase of the
  driver (\<^verbatim>\<open>BSP/STM32/STM32F4xx_StdPeriph_Driver/src/stm32f4xx_flash.c\<close>) over a model of
  the flash cells, and the sector arithmetic of \<^verbatim>\<open>APP/src/flash.c\<close>.

  The flash array and its controller are hardware. The model states what the reference manual says
  of them: programming a half word can only clear bits, erasing a sector sets every bit of it, and
  the controller latches the status of a failed operation until the flags are cleared (by a reset
  here), so that the driver refuses every later operation. Which operations fail is not
  determined by the program: the list \<open>outcomes\<close> holds the results of the next operations, and
  an empty list means that all of them succeed. An operation that fails leaves the cells as they
  were, so a failure also models a power loss just before the operation.
\<close>

definition FLASH_COMPLETE :: u16 where "FLASH_COMPLETE = 8"
definition FLASH_ERROR_OPERATION :: u16 where "FLASH_ERROR_OPERATION = 7"

datatype flash_outcome = Done | Fail u16

record flash =
  cells :: "nat \<Rightarrow> u16"       \<comment> \<open>half word at an even byte address\<close>
  latched :: u16              \<comment> \<open>what \<open>FLASH_WaitForLastOperation\<close> reports\<close>
  outcomes :: "flash_outcome list"

definition flash_next :: "flash \<Rightarrow> flash_outcome \<times> flash" where
  "flash_next f = (case outcomes f of [] \<Rightarrow> (Done, f) | r # rs \<Rightarrow> (r, f\<lparr>outcomes := rs\<rparr>))"

text \<open>The failure codes of the driver are the values of \<open>FLASH_Status\<close> below \<open>FLASH_COMPLETE\<close>.\<close>

definition fail_code :: "u16 \<Rightarrow> u16" where
  "fail_code c = (if 1 \<le> c \<and> c < FLASH_COMPLETE then c else FLASH_ERROR_OPERATION)"

definition FLASH_WaitForLastOperation :: "flash \<Rightarrow> u16" where
  "FLASH_WaitForLastOperation f = latched f"

definition FLASH_ProgramHalfWord :: "nat \<Rightarrow> u16 \<Rightarrow> flash \<Rightarrow> u16 \<times> flash" where
  "FLASH_ProgramHalfWord a d f =
     (if FLASH_WaitForLastOperation f = FLASH_COMPLETE then
        (case flash_next f of
           (Done, f) \<Rightarrow> (FLASH_COMPLETE, f\<lparr>cells := (cells f)(a := cells f a AND d)\<rparr>)
         | (Fail c, f) \<Rightarrow> (fail_code c, f\<lparr>latched := fail_code c\<rparr>))
      else (FLASH_WaitForLastOperation f, f))"

text \<open>A sector is given by its first address and its size.\<close>

definition FLASH_EraseSector :: "nat \<Rightarrow> nat \<Rightarrow> flash \<Rightarrow> u16 \<times> flash" where
  "FLASH_EraseSector base len f =
     (if FLASH_WaitForLastOperation f = FLASH_COMPLETE then
        (case flash_next f of
           (Done, f) \<Rightarrow> (FLASH_COMPLETE,
              f\<lparr>cells := (\<lambda>x. if base \<le> x \<and> x < base + len then 0xFFFF else cells f x)\<rparr>)
         | (Fail c, f) \<Rightarrow> (fail_code c, f\<lparr>latched := fail_code c\<rparr>))
      else (FLASH_WaitForLastOperation f, f))"

text \<open>After a reset the status flags are clear; the array keeps its contents.\<close>

definition flash_reset :: "flash \<Rightarrow> flash" where
  "flash_reset f = f\<lparr>latched := FLASH_COMPLETE, outcomes := []\<rparr>"

section \<open>Facts about the driver\<close>

lemma fail_code_less: "fail_code c < FLASH_COMPLETE"
  by (simp add: fail_code_def FLASH_COMPLETE_def FLASH_ERROR_OPERATION_def)

lemma blank_and [simp]: "(0xFFFF :: u16) AND d = d"
proof -
  have "(0xFFFF :: u16) = - 1" by simp
  then show ?thesis by (simp only: and.left_neutral)
qed

lemma flash_next_cases:
  obtains (ok) g where "flash_next f = (Done, g)" "cells g = cells f" "latched g = latched f"
      "outcomes g = drop 1 (outcomes f)"
  | (failed) g c where "flash_next f = (Fail c, g)" "cells g = cells f" "outcomes f \<noteq> [] \<and> outcomes f ! 0 \<noteq> Done"
proof (cases "outcomes f")
  case Nil
  then show ?thesis using that(1) [of f] by (simp add: flash_next_def)
next
  case (Cons r rs)
  then show ?thesis
    using that(1) [of "f\<lparr>outcomes := rs\<rparr>"] that(2) [of _ "f\<lparr>outcomes := rs\<rparr>"]
    by (cases r) (simp_all add: flash_next_def)
qed

text \<open>Every operation either completes with its effect or fails and leaves the cells alone.\<close>

lemma program_cases:
  assumes "latched f = FLASH_COMPLETE"
  obtains (ok) f' where "FLASH_ProgramHalfWord a d f = (FLASH_COMPLETE, f')"
      "latched f' = FLASH_COMPLETE" "cells f' = (cells f)(a := cells f a AND d)"
      "outcomes f' = drop 1 (outcomes f)"
  | (failed) f' c where "FLASH_ProgramHalfWord a d f = (c, f')" "c < FLASH_COMPLETE" "latched f' = c"
      "cells f' = cells f" "outcomes f \<noteq> [] \<and> outcomes f ! 0 \<noteq> Done"
proof (cases rule: flash_next_cases [of f])
  case (ok g)
  with assms show ?thesis
    by (intro that(1) [of "snd (FLASH_ProgramHalfWord a d f)"]) (simp_all add: FLASH_ProgramHalfWord_def FLASH_WaitForLastOperation_def)
next
  case (failed g c)
  with assms show ?thesis
    by (intro that(2) [of "fail_code c" "snd (FLASH_ProgramHalfWord a d f)"]) (simp_all add: FLASH_ProgramHalfWord_def FLASH_WaitForLastOperation_def fail_code_less)
qed

lemma erase_cases:
  assumes "latched f = FLASH_COMPLETE"
  obtains (ok) f' where "FLASH_EraseSector b n f = (FLASH_COMPLETE, f')"
      "latched f' = FLASH_COMPLETE"
      "cells f' = (\<lambda>x. if b \<le> x \<and> x < b + n then 0xFFFF else cells f x)"
      "outcomes f' = drop 1 (outcomes f)"
  | (failed) f' c where "FLASH_EraseSector b n f = (c, f')" "c < FLASH_COMPLETE" "latched f' = c"
      "cells f' = cells f" "outcomes f \<noteq> [] \<and> outcomes f ! 0 \<noteq> Done"
proof (cases rule: flash_next_cases [of f])
  case (ok g)
  with assms show ?thesis
    by (intro that(1) [of "snd (FLASH_EraseSector b n f)"]) (simp_all cong: if_cong add: FLASH_EraseSector_def FLASH_WaitForLastOperation_def)
next
  case (failed g c)
  with assms show ?thesis
    by (intro that(2) [of "fail_code c" "snd (FLASH_EraseSector b n f)"]) (simp_all cong: if_cong add: FLASH_EraseSector_def FLASH_WaitForLastOperation_def fail_code_less)
qed

end
