(* ===== verification/Eeprom.thy ===== *)
theory Eeprom
  imports Flash
begin

text \<open>
  The EEPROM emulation of \<^verbatim>\<open>APP/Eeprom/eeprom.c\<close>: 16-bit variables, identified by a virtual
  address, are kept as a log of (data, virtual address) records in one of two flash sectors. A
  write appends a record; when the sector is full, the latest record of every variable moves to the
  other sector. The header half word of each sector records its role, and \<open>EE_Init\<close> repairs the
  roles after a power loss.

  One definition per C function, on the state of the module: the flash, the global
  \<^verbatim>\<open>CurWrAddress\<close> and the global \<^verbatim>\<open>DataVar\<close>. Addresses are natural numbers: the code's
  addresses stay below \<^verbatim>\<open>0x08100000\<close>, far from the end of \<^verbatim>\<open>uint32_t\<close>.
\<close>

section \<open>Constants and state (eeprom.h)\<close>

definition PAGE_SIZE :: nat where "PAGE_SIZE = 0x20000"
definition EEPROM_START_ADDRESS :: nat where "EEPROM_START_ADDRESS = 0x080C0000"
definition PAGE0 :: u16 where "PAGE0 = 0"
definition PAGE1 :: u16 where "PAGE1 = 1"
definition NO_VALID_PAGE :: u16 where "NO_VALID_PAGE = 0xAB"
definition ERASED :: u16 where "ERASED = 0xFFFF"
definition RECEIVE_DATA :: u16 where "RECEIVE_DATA = 0xEEEE"
definition VALID_PAGE :: u16 where "VALID_PAGE = 0"
definition PAGE_FULL :: u16 where "PAGE_FULL = 0x80"
definition NB_OF_VAR :: nat where "NB_OF_VAR = 0x8000 - 1"
definition START_VIR_ADD :: nat where "START_VIR_ADD = 1"

datatype ee_operation = READ_FROM_VALID_PAGE | WRITE_IN_VALID_PAGE

record eeprom =
  chip :: flash
  CurWrAddress :: nat
  DataVar :: u16

abbreviation ee_cells :: "eeprom \<Rightarrow> nat \<Rightarrow> u16" where
  "ee_cells s \<equiv> cells (chip s)"

definition page_base :: "u16 \<Rightarrow> nat" where
  "page_base p = EEPROM_START_ADDRESS + unat p * PAGE_SIZE"

text \<open>Driver calls, with the flash taken from the module's state.\<close>

definition ee_program :: "nat \<Rightarrow> u16 \<Rightarrow> eeprom \<Rightarrow> u16 \<times> eeprom" where
  "ee_program a d s = (case FLASH_ProgramHalfWord a d (chip s) of (st, f) \<Rightarrow> (st, s\<lparr>chip := f\<rparr>))"

definition ee_erase :: "u16 \<Rightarrow> eeprom \<Rightarrow> u16 \<times> eeprom" where
  "ee_erase p s = (case FLASH_EraseSector (page_base p) PAGE_SIZE (chip s) of (st, f) \<Rightarrow> (st, s\<lparr>chip := f\<rparr>))"

text \<open>The early return after a driver call: \<open>if (FlashStatus != FLASH_COMPLETE) return FlashStatus\<close>.\<close>

definition ee_then :: "u16 \<times> eeprom \<Rightarrow> (eeprom \<Rightarrow> u16 \<times> eeprom) \<Rightarrow> u16 \<times> eeprom" where
  "ee_then r k = (case r of (st, s) \<Rightarrow> if st \<noteq> FLASH_COMPLETE then (st, s) else k s)"

section \<open>Operations\<close>

definition EE_FindValidPage :: "ee_operation \<Rightarrow> eeprom \<Rightarrow> u16" where
  "EE_FindValidPage operation s =
     (let PageStatus0 = ee_cells s (page_base PAGE0); PageStatus1 = ee_cells s (page_base PAGE1) in
      case operation of
        WRITE_IN_VALID_PAGE \<Rightarrow>
          if PageStatus1 = VALID_PAGE then
            (if PageStatus0 = RECEIVE_DATA then PAGE0 else PAGE1)
          else if PageStatus0 = VALID_PAGE then
            (if PageStatus1 = RECEIVE_DATA then PAGE1 else PAGE0)
          else NO_VALID_PAGE
      | READ_FROM_VALID_PAGE \<Rightarrow>
          if PageStatus0 = VALID_PAGE then PAGE0
          else if PageStatus1 = VALID_PAGE then PAGE1
          else NO_VALID_PAGE)"

text \<open>The scan for the first free record: from \<open>a\<close>, in steps of 4, below \<open>e\<close>.\<close>

function scan_free :: "(nat \<Rightarrow> u16) \<Rightarrow> nat \<Rightarrow> nat \<Rightarrow> nat" where
  "scan_free c a e =
     (if a < e then (if c a = 0xFFFF \<and> c (a + 2) = 0xFFFF then a else scan_free c (a + 4) e) else a)"
  by pat_completeness auto
termination
  by (relation "measure (\<lambda>(c, a, e). e - a)") auto

definition InitCurrWrAddress :: "eeprom \<Rightarrow> u16 \<times> eeprom" where
  "InitCurrWrAddress s =
     (let ValidPage = EE_FindValidPage WRITE_IN_VALID_PAGE s in
      if ValidPage = NO_VALID_PAGE
      then (NO_VALID_PAGE, s\<lparr>CurWrAddress := EEPROM_START_ADDRESS - 4 + 2 * PAGE_SIZE\<rparr>)
      else
        let PageEndAddress = page_base ValidPage + PAGE_SIZE - 2;
            a = scan_free (ee_cells s) (page_base ValidPage) PageEndAddress
        in (if a < PageEndAddress then FLASH_COMPLETE else PAGE_FULL, s\<lparr>CurWrAddress := a\<rparr>))"

text \<open>The backward search for the latest record of a variable: from \<open>a\<close> down, in steps of 4,
  above \<open>lo\<close>. The result is the record's data.\<close>

function find_latest :: "(nat \<Rightarrow> u16) \<Rightarrow> nat \<Rightarrow> nat \<Rightarrow> u16 \<Rightarrow> u16 option" where
  "find_latest c a lo va =
     (if a > lo then (if c a = va then Some (c (a - 2)) else find_latest c (a - 4) lo va) else None)"
  by pat_completeness auto
termination
  by (relation "measure (\<lambda>(c, a, lo, va). a)") auto

declare scan_free.simps [simp del] find_latest.simps [simp del]

definition ee_read_start :: "u16 \<Rightarrow> eeprom \<Rightarrow> nat" where
  "ee_read_start ValidPage s =
     (if ee_cells s (page_base PAGE0) = RECEIVE_DATA \<or> ee_cells s (page_base PAGE1) = RECEIVE_DATA
      then page_base ValidPage + PAGE_SIZE - 2 else CurWrAddress s - 2)"

text \<open>The result is the status and the new value of \<open>*Data\<close>.\<close>

definition EE_ReadVariable :: "u16 \<Rightarrow> u16 \<Rightarrow> eeprom \<Rightarrow> u16 \<times> u16" where
  "EE_ReadVariable VirtAddress data s =
     (let ValidPage = EE_FindValidPage READ_FROM_VALID_PAGE s in
      if ValidPage = NO_VALID_PAGE then (NO_VALID_PAGE, data)
      else case find_latest (ee_cells s) (ee_read_start ValidPage s) (page_base ValidPage + 2) VirtAddress of
             Some d \<Rightarrow> (0, d)
           | None \<Rightarrow> (1, data))"

text \<open>The byte variant overwrites its computed start with the end of the page. It stores the two
  bytes of the half word, low byte first, when \<open>Width\<close> is not 0.\<close>

definition EE_ReadVariableByte :: "u16 \<Rightarrow> u8 \<times> u8 \<Rightarrow> nat \<Rightarrow> eeprom \<Rightarrow> u16 \<times> u8 \<times> u8" where
  "EE_ReadVariableByte VirtAddress data Width s =
     (let ValidPage = EE_FindValidPage READ_FROM_VALID_PAGE s in
      if ValidPage = NO_VALID_PAGE then (NO_VALID_PAGE, data)
      else case find_latest (ee_cells s) (page_base ValidPage + PAGE_SIZE - 2) (page_base ValidPage + 2)
                  VirtAddress of
             Some d \<Rightarrow> (0, if Width = 0 then data else (ucast d, ucast (drop_bit 8 d)))
           | None \<Rightarrow> (1, data))"

definition EE_VerifyPageFullWriteVariable :: "u16 \<Rightarrow> u16 \<Rightarrow> eeprom \<Rightarrow> u16 \<times> eeprom" where
  "EE_VerifyPageFullWriteVariable VirtAddress Data s =
     (let ValidPage = EE_FindValidPage WRITE_IN_VALID_PAGE s in
      if ValidPage = NO_VALID_PAGE then (NO_VALID_PAGE, s)
      else
        let s = snd (InitCurrWrAddress s);
            PageEndAddress = page_base ValidPage + PAGE_SIZE - 2;
            a = scan_free (ee_cells s) (CurWrAddress s) PageEndAddress;
            s = s\<lparr>CurWrAddress := a\<rparr>
        in if a < PageEndAddress
           then ee_then (ee_program a Data s) (\<lambda>s.
                  case ee_program (CurWrAddress s + 2) VirtAddress s of
                    (st, s) \<Rightarrow> (st, s\<lparr>CurWrAddress := CurWrAddress s + 4\<rparr>))
           else (PAGE_FULL, s))"

text \<open>The loop over all variables that copies their latest values to the receiving page, shared by
  the page transfer and the recovery; \<open>skip\<close> is the test that leaves a variable out.\<close>

fun transfer_loop ::
  "((nat \<Rightarrow> u16) \<Rightarrow> u16 \<Rightarrow> bool) \<Rightarrow> u16 list \<Rightarrow> eeprom \<Rightarrow> u16 \<times> eeprom" where
  "transfer_loop skip [] s = (FLASH_COMPLETE, s)"
| "transfer_loop skip (v # vs) s =
     (if skip (ee_cells s) v then transfer_loop skip vs s
      else case EE_ReadVariable v (DataVar s) s of (ReadStatus, d) \<Rightarrow>
        let s = s\<lparr>DataVar := d\<rparr> in
        if ReadStatus \<noteq> 1
        then ee_then (EE_VerifyPageFullWriteVariable v (DataVar s) s) (transfer_loop skip vs)
        else transfer_loop skip vs s)"

definition all_vars :: "u16 list" where
  "all_vars = map (\<lambda>VarIdx. of_nat (START_VIR_ADD + VarIdx)) [0..<NB_OF_VAR]"

definition EE_PageTransfer :: "u16 \<Rightarrow> u16 \<Rightarrow> eeprom \<Rightarrow> u16 \<times> eeprom" where
  "EE_PageTransfer VirtAddress Data s =
     (let ValidPage = EE_FindValidPage READ_FROM_VALID_PAGE s in
      if ValidPage = PAGE1 \<or> ValidPage = PAGE0 then
        let NewPage = (if ValidPage = PAGE1 then PAGE0 else PAGE1) in
        ee_then (ee_program (page_base NewPage) RECEIVE_DATA s) (\<lambda>s.
        ee_then (EE_VerifyPageFullWriteVariable VirtAddress Data (snd (InitCurrWrAddress s))) (\<lambda>s.
        ee_then (transfer_loop (\<lambda>_ v. v = VirtAddress) all_vars s) (\<lambda>s.
        ee_then (ee_erase ValidPage s) (\<lambda>s.
        ee_program (page_base NewPage) VALID_PAGE s))))
      else (NO_VALID_PAGE, s))"

definition EE_WriteVariable :: "u16 \<Rightarrow> u16 \<Rightarrow> eeprom \<Rightarrow> u16 \<times> eeprom" where
  "EE_WriteVariable VirtAddress Data s =
     (case EE_VerifyPageFullWriteVariable VirtAddress Data s of
        (Status, s) \<Rightarrow> if Status = PAGE_FULL then EE_PageTransfer VirtAddress Data s else (Status, s))"

definition EE_WriteVariableByte :: "u16 \<Rightarrow> u8 \<times> u8 \<Rightarrow> eeprom \<Rightarrow> u16 \<times> eeprom" where
  "EE_WriteVariableByte VirtAddress bytes s =
     (let HalfWord = ucast (fst bytes) OR push_bit 8 (ucast (snd bytes)) in
      case EE_VerifyPageFullWriteVariable VirtAddress HalfWord s of
        (Status, s) \<Rightarrow> if Status = PAGE_FULL then EE_PageTransfer VirtAddress HalfWord s else (Status, s))"

definition EE_Format :: "eeprom \<Rightarrow> u16 \<times> eeprom" where
  "EE_Format s =
     ee_then (ee_erase PAGE0 s) (\<lambda>s.
     ee_then (ee_program (page_base PAGE0) VALID_PAGE s) (\<lambda>s.
     ee_erase PAGE1 s))"

text \<open>The recovery transfer from \<open>old\<close> to \<open>new\<close>: the variable whose record is the first of
  the receiving page is left out.\<close>

definition EE_recover :: "u16 \<Rightarrow> u16 \<Rightarrow> eeprom \<Rightarrow> u16 \<times> eeprom" where
  "EE_recover old new s =
     ee_then (transfer_loop (\<lambda>c v. c (page_base new + 6) = v) all_vars s) (\<lambda>s.
     ee_then (ee_program (page_base new) VALID_PAGE s) (\<lambda>s.
     ee_erase old s))"

definition EE_Init :: "eeprom \<Rightarrow> u16 \<times> eeprom" where
  "EE_Init s =
     (let PageStatus0 = ee_cells s (page_base PAGE0); PageStatus1 = ee_cells s (page_base PAGE1) in
      if PageStatus0 = ERASED then
        (if PageStatus1 = VALID_PAGE then ee_erase PAGE0 s
         else if PageStatus1 = RECEIVE_DATA then
           ee_then (ee_erase PAGE0 s) (ee_program (page_base PAGE1) VALID_PAGE)
         else EE_Format s)
      else if PageStatus0 = RECEIVE_DATA then
        (if PageStatus1 = VALID_PAGE then EE_recover PAGE1 PAGE0 s
         else if PageStatus1 = ERASED then
           ee_then (ee_erase PAGE1 s) (ee_program (page_base PAGE0) VALID_PAGE)
         else EE_Format s)
      else if PageStatus0 = VALID_PAGE then
        (if PageStatus1 = VALID_PAGE then EE_Format s
         else if PageStatus1 = ERASED then ee_erase PAGE1 s
         else EE_recover PAGE0 PAGE1 s)
      else EE_Format s)"

definition EE_Initialize :: "eeprom \<Rightarrow> eeprom" where
  "EE_Initialize s = snd (InitCurrWrAddress (snd (EE_Init s)))"

end
