(* ===== verification/EepromPages.thy ===== *)
theory EepromPages
  imports Eeprom
begin

text \<open>
  The contents of an EEPROM page as a list. \<open>page_is c p h l\<close> says that page \<open>p\<close> of the
  cells \<open>c\<close> has the header \<open>h\<close> and the records \<open>l\<close>, oldest first, and is blank after
  them; the lemmas give the effect of every flash operation and of both address scans in these
  terms.
\<close>

section \<open>Pages as logs\<close>

definition SLOTS :: nat where "SLOTS = 0x7FFF"

definition slot_free :: "(nat \<Rightarrow> u16) \<Rightarrow> nat \<Rightarrow> nat \<Rightarrow> bool" where
  "slot_free c b k \<longleftrightarrow> c (b + 4 * k) = 0xFFFF \<and> c (b + 4 * k + 2) = 0xFFFF"

definition slot :: "(nat \<Rightarrow> u16) \<Rightarrow> nat \<Rightarrow> nat \<Rightarrow> u16 \<times> u16" where
  "slot c b k = (c (b + 4 * k + 2), c (b + 4 * k))"

definition page_log :: "(nat \<Rightarrow> u16) \<Rightarrow> nat \<Rightarrow> nat \<Rightarrow> (u16 \<times> u16) list" where
  "page_log c b n = map (slot c b) [1..<Suc n]"

definition page_is :: "(nat \<Rightarrow> u16) \<Rightarrow> u16 \<Rightarrow> u16 \<Rightarrow> (u16 \<times> u16) list \<Rightarrow> bool" where
  "page_is c p h l \<longleftrightarrow>
     c (page_base p) = h \<and> length l \<le> SLOTS \<and> (0xFFFF, 0xFFFF) \<notin> set l \<and>
     page_log c (page_base p) (length l) = l \<and>
     (\<forall>k. length l < k \<and> k \<le> SLOTS \<longrightarrow> slot_free c (page_base p) k)"

text \<open>The value a log gives a variable: its latest record.\<close>

definition latest :: "(u16 \<times> u16) list \<Rightarrow> u16 \<Rightarrow> u16 option" where
  "latest l = map_of (rev l)"

lemma page_log_Suc: "page_log c b (Suc n) = page_log c b n @ [slot c b (Suc n)]"
  by (simp add: page_log_def)

lemma page_log_0 [simp]: "page_log c b 0 = []"
  by (simp add: page_log_def)

lemma length_page_log [simp]: "length (page_log c b n) = n"
  by (simp add: page_log_def)

lemma page_log_nth: "k < n \<Longrightarrow> page_log c b n ! k = slot c b (Suc k)"
  by (simp add: page_log_def del: upt_Suc)

lemma latest_Nil [simp]: "latest [] v = None"
  by (simp add: latest_def)

lemma latest_snoc: "latest (l @ [(v, d)]) = (latest l)(v \<mapsto> d)"
  by (simp add: latest_def)

lemma latest_append: "latest (l @ m) = latest l ++ latest m"
  by (simp add: latest_def map_add_def fun_eq_iff split: option.splits)

lemma latest_in_set: "latest l v = Some d \<Longrightarrow> (v, d) \<in> set l"
  unfolding latest_def by (drule map_of_SomeD) simp

lemma latest_None_iff: "latest l v = None \<longleftrightarrow> v \<notin> fst ` set l"
  by (simp add: latest_def map_of_eq_None_iff image_set del: set_map image_set)

section \<open>The scans\<close>

lemma scan_free_to:
  assumes "i + j = n" "n \<le> SLOTS + 1" "\<And>k. i \<le> k \<Longrightarrow> k < n \<Longrightarrow> \<not> slot_free c b k"
    "n \<le> SLOTS \<Longrightarrow> slot_free c b n"
  shows "scan_free c (b + 4 * i) (b + PAGE_SIZE - 2) = b + 4 * n"
  using assms
proof (induction j arbitrary: i)
  case 0
  then show ?case
    by (subst scan_free.simps) (auto simp: slot_free_def SLOTS_def PAGE_SIZE_def)
next
  case (Suc j)
  have "scan_free c (b + 4 * Suc i) (b + PAGE_SIZE - 2) = b + 4 * n"
    using Suc.prems by (intro Suc.IH) auto
  moreover have "b + 4 * Suc i = b + 4 * i + 4" by simp
  moreover have "\<not> slot_free c b i" using Suc.prems by auto
  then have "scan_free c (b + 4 * i) (b + PAGE_SIZE - 2) = scan_free c (b + 4 * i + 4) (b + PAGE_SIZE - 2)"
    using Suc.prems(1,2) by (subst scan_free.simps) (auto simp: slot_free_def SLOTS_def PAGE_SIZE_def)
  ultimately show ?case by metis
qed

lemma find_latest_log: "find_latest c (b + 4 * n + 2) (b + 2) v = latest (page_log c b n) v"
proof (induction n)
  case 0
  then show ?case by (subst find_latest.simps) simp
next
  case (Suc n)
  have "b + 4 * Suc n + 2 - 4 = b + 4 * n + 2" "b + 4 * Suc n + 2 - 2 = b + 4 * Suc n" by simp_all
  then have "find_latest c (b + 4 * Suc n + 2) (b + 2) v =
      (if c (b + 4 * Suc n + 2) = v then Some (c (b + 4 * Suc n)) else find_latest c (b + 4 * n + 2) (b + 2) v)"
    by (subst find_latest.simps) (simp add: ac_simps)
  then show ?case unfolding Suc page_log_Suc slot_def latest_snoc by simp
qed

lemma page_log_slots_used:
  assumes "page_log c b n = l" "(0xFFFF, 0xFFFF) \<notin> set l" "1 \<le> k" "k \<le> n"
  shows "\<not> slot_free c b k"
proof
  assume "slot_free c b k"
  then have "slot c b k = (0xFFFF, 0xFFFF)" by (simp add: slot_free_def slot_def)
  moreover have "page_log c b n ! (k - 1) = slot c b k" using assms(3,4) by (simp add: page_log_nth)
  ultimately have "(0xFFFF, 0xFFFF) \<in> set (page_log c b n)"
    using nth_mem [of "k - 1" "page_log c b n"] assms(3,4) by simp
  then show False using assms(1,2) by simp
qed

lemma page_scan:
  assumes "page_is c p h l" "h \<noteq> 0xFFFF" "i \<le> Suc (length l)"
  shows "scan_free c (page_base p + 4 * i) (page_base p + PAGE_SIZE - 2) = page_base p + 4 * Suc (length l)"
proof (rule scan_free_to [where j = "Suc (length l) - i"])
  fix k assume k: "i \<le> k" "k < Suc (length l)"
  show "\<not> slot_free c (page_base p) k"
  proof (cases "k = 0")
    case True then show ?thesis using assms by (simp add: slot_free_def page_is_def)
  next
    case False then show ?thesis
      using assms k by (intro page_log_slots_used [of c _ "length l" l]) (simp_all add: page_is_def)
  qed
qed (use assms in \<open>auto simp: page_is_def\<close>)

lemma page_find:
  assumes "page_is c p h l"
  shows "find_latest c (page_base p + 4 * length l + 2) (page_base p + 2) v = latest l v"
  using assms by (metis find_latest_log page_is_def)

text \<open>A search from the end of the page skips the blank slots.\<close>

lemma page_find_from:
  assumes "page_is c p h l" "v \<noteq> 0xFFFF" "length l + j \<le> SLOTS"
  shows "find_latest c (page_base p + 4 * (length l + j) + 2) (page_base p + 2) v = latest l v"
  using assms(3)
proof (induction j)
  case 0
  then show ?case using page_find [OF assms(1)] by simp
next
  case (Suc j)
  have "slot_free c (page_base p) (Suc (length l + j))" using assms(1) Suc.prems by (auto simp: page_is_def)
  then show ?case
    using Suc.IH Suc.prems assms(2) by (subst find_latest.simps) (auto simp: slot_free_def algebra_simps)
qed

lemma page_find_end:
  assumes "page_is c p h l" "v \<noteq> 0xFFFF"
  shows "find_latest c (page_base p + PAGE_SIZE - 2) (page_base p + 2) v = latest l v"
proof -
  have "length l + (SLOTS - length l) = SLOTS" using assms by (simp add: page_is_def)
  then show ?thesis
    using page_find_from [OF assms, of "SLOTS - length l"] by (simp add: SLOTS_def PAGE_SIZE_def add.commute)
qed

section \<open>Effects of the flash operations on a page\<close>

lemma page_is_cong:
  assumes "\<And>x. page_base p \<le> x \<Longrightarrow> x < page_base p + PAGE_SIZE \<Longrightarrow> c' x = c x"
  shows "page_is c' p h l = page_is c p h l"
proof (cases "length l \<le> SLOTS")
  case True
  have s: "slot c' (page_base p) k = slot c (page_base p) k" if "k \<le> SLOTS" for k
    using that by (auto simp: slot_def SLOTS_def PAGE_SIZE_def intro!: assms)
  then have "page_log c' (page_base p) (length l) = page_log c (page_base p) (length l)"
    using True by (auto simp: page_log_def)
  moreover have "slot_free c' (page_base p) k = slot_free c (page_base p) k" if "k \<le> SLOTS" for k
    using s [OF that] by (simp add: slot_free_def slot_def)
  moreover have "c' (page_base p) = c (page_base p)" by (rule assms) (simp_all add: PAGE_SIZE_def)
  ultimately show ?thesis by (auto simp: page_is_def)
qed (simp add: page_is_def)

lemma page_is_header:
  assumes "page_is c p h l"
  shows "page_is (c(page_base p := h')) p h' l"
proof -
  have "slot (c(page_base p := h')) (page_base p) k = slot c (page_base p) k" if "1 \<le> k" for k
    using that by (simp add: slot_def)
  moreover from this have "page_log (c(page_base p := h')) (page_base p) n = page_log c (page_base p) n" for n
    by (auto simp: page_log_def)
  moreover have "slot_free (c(page_base p := h')) (page_base p) k = slot_free c (page_base p) k" if "1 \<le> k" for k
    using that by (simp add: slot_free_def)
  ultimately show ?thesis using assms by (auto simp: page_is_def)
qed

lemma page_is_erased:
  assumes "\<And>x. page_base p \<le> x \<Longrightarrow> x < page_base p + PAGE_SIZE \<Longrightarrow> c x = 0xFFFF"
  shows "page_is c p ERASED []"
  using assms by (auto simp: page_is_def ERASED_def slot_free_def SLOTS_def PAGE_SIZE_def)

lemma page_is_append:
  assumes p: "page_is c p h l" and len: "length l < SLOTS" and ne: "(v, d) \<noteq> (0xFFFF, 0xFFFF)"
  shows "page_is (c(page_base p + 4 * Suc (length l) := d, page_base p + 4 * Suc (length l) + 2 := v))
           p h (l @ [(v, d)])" (is "page_is ?c p h _")
proof -
  let ?b = "page_base p" and ?n = "length l"
  have other: "slot ?c ?b k = slot c ?b k" if "k \<noteq> Suc ?n" for k
    using that by (auto simp: slot_def)
  have "page_log ?c ?b ?n = page_log c ?b ?n"
    unfolding page_log_def by (intro map_cong refl other) auto
  moreover have "slot ?c ?b (Suc ?n) = (v, d)" by (simp add: slot_def)
  ultimately have "page_log ?c ?b (Suc ?n) = l @ [(v, d)]"
    using p by (simp add: page_log_Suc page_is_def)
  moreover have "slot_free ?c ?b k" if "Suc ?n < k" "k \<le> SLOTS" for k
  proof -
    have "slot_free c ?b k" using p that by (simp add: page_is_def)
    then show ?thesis using other [of k] that by (simp add: slot_free_def slot_def)
  qed
  ultimately show ?thesis using p len ne by (auto simp: page_is_def)
qed

text \<open>An append that stopped between its two half words leaves a record without a variable, or no
  record when its data was blank.\<close>

definition torn :: "u16 \<Rightarrow> (u16 \<times> u16) list" where
  "torn d = (if d = 0xFFFF then [] else [(0xFFFF, d)])"

lemma page_is_torn:
  assumes p: "page_is c p h l" and len: "length l < SLOTS"
  shows "page_is (c(page_base p + 4 * Suc (length l) := d)) p h (l @ torn d)"
proof -
  let ?b = "page_base p" and ?n = "length l"
  have free: "slot_free c ?b (Suc ?n)" using p len by (auto simp: page_is_def)
  show ?thesis
  proof (cases "d = 0xFFFF")
    case True
    then have "c(?b + 4 * Suc ?n := d) = c" using free by (auto simp: slot_free_def)
    then show ?thesis using p True by (simp add: torn_def)
  next
    case False
    have "c(?b + 4 * Suc ?n := d) = c(?b + 4 * Suc ?n := d, ?b + 4 * Suc ?n + 2 := 0xFFFF)"
      using free by (auto simp: slot_free_def fun_eq_iff)
    then show ?thesis using page_is_append [OF p len, of "0xFFFF" d] False by (simp add: torn_def)
  qed
qed

section \<open>The two pages\<close>

definition other_page :: "u16 \<Rightarrow> u16" where
  "other_page p = (if p = PAGE1 then PAGE0 else PAGE1)"

definition is_page :: "u16 \<Rightarrow> bool" where
  "is_page p \<longleftrightarrow> p = PAGE0 \<or> p = PAGE1"

lemma page_neq: "PAGE0 \<noteq> PAGE1" "PAGE1 \<noteq> PAGE0" "PAGE0 \<noteq> NO_VALID_PAGE" "PAGE1 \<noteq> NO_VALID_PAGE"
  by (simp_all add: PAGE0_def PAGE1_def NO_VALID_PAGE_def)

lemma header_neq: "VALID_PAGE \<noteq> ERASED" "VALID_PAGE \<noteq> RECEIVE_DATA" "RECEIVE_DATA \<noteq> ERASED"
  "ERASED \<noteq> VALID_PAGE" "RECEIVE_DATA \<noteq> VALID_PAGE" "ERASED \<noteq> RECEIVE_DATA"
  by (simp_all add: VALID_PAGE_def ERASED_def RECEIVE_DATA_def)

lemma other_page_simps [simp]: "other_page PAGE0 = PAGE1" "other_page PAGE1 = PAGE0"
  by (simp_all add: other_page_def page_neq)

lemma is_page_other [simp]: "is_page (other_page p)"
  by (simp add: is_page_def other_page_def)

lemma other_other: "is_page p \<Longrightarrow> other_page (other_page p) = p"
  by (auto simp: is_page_def)

lemma page_bases: "page_base PAGE0 = 0x080C0000" "page_base PAGE1 = 0x080E0000"
  by (simp_all add: page_base_def PAGE0_def PAGE1_def EEPROM_START_ADDRESS_def PAGE_SIZE_def)

lemma other_page_outside:
  assumes "is_page p" "page_base p \<le> x" "x < page_base p + PAGE_SIZE"
  shows "\<not> (page_base (other_page p) \<le> x \<and> x < page_base (other_page p) + PAGE_SIZE)"
  using assms by (auto simp: is_page_def page_bases PAGE_SIZE_def)

lemma page_is_other:
  assumes "is_page p" "\<And>x. \<not> (page_base (other_page p) \<le> x \<and> x < page_base (other_page p) + PAGE_SIZE) \<Longrightarrow> c' x = c x"
  shows "page_is c' p h l = page_is c p h l"
  by (rule page_is_cong) (use assms other_page_outside in blast)

text \<open>Page \<open>p\<close> and the other page, each with its header and records.\<close>

definition pages_are :: "(nat \<Rightarrow> u16) \<Rightarrow> u16 \<Rightarrow> u16 \<Rightarrow> (u16 \<times> u16) list \<Rightarrow> u16 \<Rightarrow> (u16 \<times> u16) list \<Rightarrow> bool" where
  "pages_are c p h l h' l' \<longleftrightarrow> is_page p \<and> page_is c p h l \<and> page_is c (other_page p) h' l'"

lemma pages_are_swap: "pages_are c p h l h' l' \<Longrightarrow> pages_are c (other_page p) h' l' h l"
  by (simp add: pages_are_def other_other)

lemma pages_are_headers:
  "pages_are c p h l h' l' \<Longrightarrow> c (page_base p) = h \<and> c (page_base (other_page p)) = h'"
  by (simp add: pages_are_def page_is_def)

lemma pages_header:
  assumes "pages_are c p h l h' l'"
  shows "pages_are (c(page_base p := k)) p k l h' l'"
proof -
  have "page_is (c(page_base p := k)) (other_page p) h' l' = page_is c (other_page p) h' l'"
    using assms by (intro page_is_other) (auto simp: pages_are_def other_other PAGE_SIZE_def)
  then show ?thesis using assms by (auto simp: pages_are_def intro: page_is_header)
qed

lemma pages_erase:
  assumes "pages_are c p h l h' l'"
    "c' = (\<lambda>x. if page_base p \<le> x \<and> x < page_base p + PAGE_SIZE then 0xFFFF else c x)"
  shows "pages_are c' p ERASED [] h' l'"
proof -
  have "page_is c' (other_page p) h' l' = page_is c (other_page p) h' l'"
    using assms by (intro page_is_other) (auto simp: pages_are_def other_other)
  then show ?thesis using assms by (auto simp: pages_are_def intro: page_is_erased)
qed

lemma pages_append:
  assumes "pages_are c p h l h' l'" "length l < SLOTS" "(v, d) \<noteq> (0xFFFF, 0xFFFF)"
  shows "pages_are (c(page_base p + 4 * Suc (length l) := d, page_base p + 4 * Suc (length l) + 2 := v))
           p h (l @ [(v, d)]) h' l'" (is "pages_are ?c _ _ _ _ _")
proof -
  have "page_is ?c (other_page p) h' l' = page_is c (other_page p) h' l'"
    using assms by (intro page_is_other) (auto simp: pages_are_def other_other PAGE_SIZE_def SLOTS_def)
  then show ?thesis using assms page_is_append [of c p h l v d] by (auto simp: pages_are_def)
qed

lemma pages_torn:
  assumes "pages_are c p h l h' l'" "length l < SLOTS"
  shows "pages_are (c(page_base p + 4 * Suc (length l) := d)) p h (l @ torn d) h' l'" (is "pages_are ?c _ _ _ _ _")
proof -
  have "page_is ?c (other_page p) h' l' = page_is c (other_page p) h' l'"
    using assms by (intro page_is_other) (auto simp: pages_are_def other_other PAGE_SIZE_def SLOTS_def)
  then show ?thesis using assms page_is_torn [of c p h l d] by (auto simp: pages_are_def)
qed

end
