(* ===== verification/EepromProofs.thy ===== *)
theory EepromProofs
  imports EepromPages
begin

text \<open>
  Correctness of the EEPROM emulation. \<open>ee_runs k s r Q E\<close> is a specification with a crash
  condition: the operation started in \<open>s\<close> with the result \<open>r\<close> either completes, after
  \<open>k\<close> flash operations, in a state that satisfies \<open>Q\<close>, or one of these operations failed
  (or the power was lost) and the cells it left satisfy \<open>E\<close>.
\<close>

section \<open>Specifications with a crash condition\<close>

definition ready :: "eeprom \<Rightarrow> bool" where
  "ready s \<longleftrightarrow> latched (chip s) = FLASH_COMPLETE"

abbreviation pending :: "eeprom \<Rightarrow> flash_outcome list" where
  "pending s \<equiv> outcomes (chip s)"

definition ee_runs ::
  "nat \<Rightarrow> eeprom \<Rightarrow> u16 \<times> eeprom \<Rightarrow> (eeprom \<Rightarrow> bool) \<Rightarrow> ((nat \<Rightarrow> u16) \<Rightarrow> bool) \<Rightarrow> bool" where
  "ee_runs k s r Q E \<longleftrightarrow>
     fst r = FLASH_COMPLETE \<and> ready (snd r) \<and> pending (snd r) = drop k (pending s) \<and> Q (snd r) \<or>
     fst r < FLASH_COMPLETE \<and> \<not> ready (snd r) \<and>
     (\<exists>i<k. i < length (pending s) \<and> pending s ! i \<noteq> Done) \<and> E (ee_cells (snd r))"

lemma ee_runs_weaken:
  assumes "ee_runs k s r Q E" "\<And>s'. ready s' \<Longrightarrow> Q s' \<Longrightarrow> Q' s'" "\<And>c. E c \<Longrightarrow> E' c"
  shows "ee_runs k s r Q' E'"
  using assms by (auto simp: ee_runs_def)

lemma ee_runs_then:
  assumes r: "ee_runs j s r Q E" and f: "\<And>s'. ready s' \<Longrightarrow> Q s' \<Longrightarrow> ee_runs k s' (f s') Q' E"
  shows "ee_runs (j + k) s (ee_then r f) Q' E"
proof (cases "fst r = FLASH_COMPLETE")
  case True
  then have "ready (snd r)" and p: "pending (snd r) = drop j (pending s)" and "Q (snd r)"
    using r by (auto simp: ee_runs_def)
  with f [of "snd r"] have "ee_runs k (snd r) (f (snd r)) Q' E" by auto
  then have "ee_runs (j + k) s (f (snd r)) Q' E"
    unfolding ee_runs_def p
  proof (elim disjE conjE exE)
    fix i assume "fst (f (snd r)) < FLASH_COMPLETE" "\<not> ready (snd (f (snd r)))" "i < k" "i < length (drop j (pending s))"
      "drop j (pending s) ! i \<noteq> Done" "E (ee_cells (snd (f (snd r))))"
    then have "j + i < j + k \<and> j + i < length (pending s) \<and> pending s ! (j + i) \<noteq> Done" by auto
    then show "fst (f (snd r)) = FLASH_COMPLETE \<and> ready (snd (f (snd r))) \<and>
        pending (snd (f (snd r))) = drop (j + k) (pending s) \<and> Q' (snd (f (snd r))) \<or>
        fst (f (snd r)) < FLASH_COMPLETE \<and> \<not> ready (snd (f (snd r))) \<and> (\<exists>i<j + k. i < length (pending s) \<and> pending s ! i \<noteq> Done) \<and>
        E (ee_cells (snd (f (snd r))))"
      using \<open>fst (f (snd r)) < FLASH_COMPLETE\<close> \<open>\<not> ready (snd (f (snd r)))\<close> \<open>E (ee_cells (snd (f (snd r))))\<close> by blast
  qed (simp add: add.commute)
  with True show ?thesis by (simp add: ee_then_def split_beta)
next
  case False
  then show ?thesis using r by (auto simp: ee_then_def split_beta ee_runs_def intro: trans_less_add1)
qed

lemma ee_runs_return: "ready s \<Longrightarrow> Q s \<Longrightarrow> ee_runs 0 s (FLASH_COMPLETE, s) Q E"
  by (simp add: ee_runs_def)

lemma ee_runs_success:
  assumes "ee_runs k s r Q E" "\<And>i. i < k \<Longrightarrow> i < length (pending s) \<Longrightarrow> pending s ! i = Done"
  shows "fst r = FLASH_COMPLETE \<and> ready (snd r) \<and> pending (snd r) = drop k (pending s) \<and> Q (snd r)"
  using assms by (auto simp: ee_runs_def)

text \<open>A step that only changes the globals may be done first.\<close>

lemma ee_runs_from:
  "ee_runs k s' r Q E \<Longrightarrow> chip s' = chip s \<Longrightarrow> ee_runs k s r Q E"
  by (simp add: ee_runs_def)

lemma ee_runs_program:
  assumes "ready s" "E (ee_cells s)"
    "\<And>s'. ee_cells s' = (ee_cells s)(a := ee_cells s a AND d) \<Longrightarrow> CurWrAddress s' = CurWrAddress s \<Longrightarrow> Q s'"
  shows "ee_runs 1 s (ee_program a d s) Q E"
proof -
  from assms(1) have "latched (chip s) = FLASH_COMPLETE" by (simp add: ready_def)
  then show ?thesis
    by (cases rule: program_cases [of "chip s" a d])
      (use assms in \<open>auto simp: ee_program_def ee_runs_def ready_def\<close>)
qed

lemma ee_runs_erase:
  assumes "ready s" "E (ee_cells s)"
    "\<And>s'. ee_cells s' = (\<lambda>x. if page_base p \<le> x \<and> x < page_base p + PAGE_SIZE then 0xFFFF else ee_cells s x) \<Longrightarrow>
      CurWrAddress s' = CurWrAddress s \<Longrightarrow> Q s'"
  shows "ee_runs 1 s (ee_erase p s) Q E"
proof -
  from assms(1) have "latched (chip s) = FLASH_COMPLETE" by (simp add: ready_def)
  then show ?thesis
    by (cases rule: erase_cases [of "chip s" "page_base p" PAGE_SIZE])
      (use assms in \<open>auto simp: ee_erase_def ee_runs_def ready_def\<close>)
qed

section \<open>Roles of the pages\<close>

lemma find_read_valid:
  assumes "pages_are (ee_cells s) p VALID_PAGE l h' l'" "h' \<noteq> VALID_PAGE"
  shows "EE_FindValidPage READ_FROM_VALID_PAGE s = p"
  using assms pages_are_headers [OF assms(1)]
  by (auto simp: EE_FindValidPage_def pages_are_def is_page_def)

lemma find_write_valid:
  assumes "pages_are (ee_cells s) p VALID_PAGE l ERASED []"
  shows "EE_FindValidPage WRITE_IN_VALID_PAGE s = p"
  using assms pages_are_headers [OF assms(1)]
  by (auto simp: EE_FindValidPage_def pages_are_def is_page_def header_neq)

lemma find_write_receive:
  assumes "pages_are (ee_cells s) p VALID_PAGE l RECEIVE_DATA l'"
  shows "EE_FindValidPage WRITE_IN_VALID_PAGE s = other_page p"
  using assms pages_are_headers [OF assms(1)]
  by (auto simp: EE_FindValidPage_def pages_are_def is_page_def header_neq)

lemma InitCurrWrAddress_page:
  assumes "EE_FindValidPage WRITE_IN_VALID_PAGE s = w" "pages_are (ee_cells s) w h l h' l'" "h \<noteq> ERASED"
  shows "snd (InitCurrWrAddress s) = s\<lparr>CurWrAddress := page_base w + 4 * Suc (length l)\<rparr>"
proof -
  have "scan_free (ee_cells s) (page_base w) (page_base w + PAGE_SIZE - 2) = page_base w + 4 * Suc (length l)"
    using page_scan [of "ee_cells s" w h l 0] assms by (simp add: pages_are_def ERASED_def)
  moreover have "w \<noteq> NO_VALID_PAGE" using assms(2) page_neq by (auto simp: pages_are_def is_page_def)
  ultimately show ?thesis by (simp add: InitCurrWrAddress_def assms(1) Let_def)
qed

lemma verify_unfold:
  assumes "EE_FindValidPage WRITE_IN_VALID_PAGE s = w" "pages_are (ee_cells s) w h l h' l'" "h \<noteq> ERASED"
  shows "EE_VerifyPageFullWriteVariable v d s =
    (let s' = s\<lparr>CurWrAddress := page_base w + 4 * Suc (length l)\<rparr> in
     if length l < SLOTS
     then ee_then (ee_program (page_base w + 4 * Suc (length l)) d s') (\<lambda>s.
            case ee_program (CurWrAddress s + 2) v s of (st, s) \<Rightarrow> (st, s\<lparr>CurWrAddress := CurWrAddress s + 4\<rparr>))
     else (PAGE_FULL, s'))"
proof -
  have scan: "scan_free (ee_cells s) (page_base w + 4 * Suc (length l)) (page_base w + PAGE_SIZE - 2) =
      page_base w + 4 * Suc (length l)"
    using assms by (intro page_scan [of "ee_cells s" w h]) (auto simp: pages_are_def ERASED_def)
  have lt: "page_base w + 4 * Suc (length l) < page_base w + PAGE_SIZE - 2 \<longleftrightarrow> length l < SLOTS"
    using assms(2) by (auto simp: pages_are_def page_is_def SLOTS_def PAGE_SIZE_def)
  have w: "w \<noteq> NO_VALID_PAGE" using assms(2) page_neq by (auto simp: pages_are_def is_page_def)
  let ?a = "page_base w + 4 * Suc (length l)"
  let ?s = "s\<lparr>CurWrAddress := ?a\<rparr>"
  have s: "ee_cells ?s = ee_cells s" "CurWrAddress ?s = ?a" "?s\<lparr>CurWrAddress := ?a\<rparr> = ?s" by simp_all
  show ?thesis
    unfolding EE_VerifyPageFullWriteVariable_def InitCurrWrAddress_page [OF assms] Let_def assms(1) s scan lt
    using w by simp
qed

text \<open>Appending a record to a page with room for it.\<close>

lemma verify_runs:
  assumes rdy: "ready s" and w: "EE_FindValidPage WRITE_IN_VALID_PAGE s = w"
    and p: "pages_are (ee_cells s) w h l h' l'" and h: "h \<noteq> ERASED"
    and len: "length l < SLOTS" and v: "v \<noteq> 0xFFFF"
  shows "ee_runs 2 s (EE_VerifyPageFullWriteVariable v d s)
     (\<lambda>s'. pages_are (ee_cells s') w h (l @ [(v, d)]) h' l' \<and>
        CurWrAddress s' = page_base w + 4 * Suc (length (l @ [(v, d)])))
     (\<lambda>c. pages_are c w h l h' l' \<or> pages_are c w h (l @ torn d) h' l')"
proof -
  let ?a = "page_base w + 4 * Suc (length l)"
  let ?s = "s\<lparr>CurWrAddress := ?a\<rparr>"
  have free: "ee_cells s ?a = 0xFFFF" "ee_cells s (?a + 2) = 0xFFFF"
    using p len by (auto simp: pages_are_def page_is_def slot_free_def)
  have "ee_runs (1 + 1) ?s
     (ee_then (ee_program ?a d ?s) (\<lambda>s.
        case ee_program (CurWrAddress s + 2) v s of (st, s) \<Rightarrow> (st, s\<lparr>CurWrAddress := CurWrAddress s + 4\<rparr>)))
     (\<lambda>s'. pages_are (ee_cells s') w h (l @ [(v, d)]) h' l' \<and>
        CurWrAddress s' = page_base w + 4 * Suc (length (l @ [(v, d)])))
     (\<lambda>c. pages_are c w h l h' l' \<or> pages_are c w h (l @ torn d) h' l')"
  proof (rule ee_runs_then)
    show "ee_runs 1 ?s (ee_program ?a d ?s)
       (\<lambda>s'. ee_cells s' = (ee_cells s)(?a := d) \<and> CurWrAddress s' = ?a)
       (\<lambda>c. pages_are c w h l h' l' \<or> pages_are c w h (l @ torn d) h' l')"
      using rdy p free by (intro ee_runs_program) (auto simp: ready_def)
  next
    fix t assume "ready t" and t: "ee_cells t = (ee_cells s)(?a := d) \<and> CurWrAddress t = ?a"
    have "ee_runs 1 t (ee_program (CurWrAddress t + 2) v t)
       (\<lambda>s'. ee_cells s' = (ee_cells s)(?a := d, ?a + 2 := v) \<and> CurWrAddress s' = ?a)
       (\<lambda>c. pages_are c w h l h' l' \<or> pages_are c w h (l @ torn d) h' l')"
      using \<open>ready t\<close> t free pages_torn [OF p len, of d] by (intro ee_runs_program) auto
    moreover have "pages_are ((ee_cells s)(?a := d, ?a + 2 := v)) w h (l @ [(v, d)]) h' l'"
      using pages_append [OF p len] v by simp
    ultimately show "ee_runs 1 t
       (case ee_program (CurWrAddress t + 2) v t of (st, s) \<Rightarrow> (st, s\<lparr>CurWrAddress := CurWrAddress s + 4\<rparr>))
       (\<lambda>s'. pages_are (ee_cells s') w h (l @ [(v, d)]) h' l' \<and>
          CurWrAddress s' = page_base w + 4 * Suc (length (l @ [(v, d)])))
       (\<lambda>c. pages_are c w h l h' l' \<or> pages_are c w h (l @ torn d) h' l')"
      by (cases "ee_program (CurWrAddress t + 2) v t") (auto simp: ee_runs_def ready_def)
  qed
  then show ?thesis
    unfolding verify_unfold [OF w p h] using len
    by (simp only: Let_def if_True one_add_one) (erule ee_runs_from, simp)
qed

section \<open>Variables\<close>

text \<open>The variables of the module: the virtual addresses \<open>1\<close> to \<open>NB_OF_VAR\<close>.\<close>

definition is_var :: "u16 \<Rightarrow> bool" where
  "is_var v \<longleftrightarrow> 1 \<le> unat v \<and> unat v \<le> NB_OF_VAR"

definition vars_of :: "(u16 \<times> u16) list \<Rightarrow> u16 \<Rightarrow> u16 option" where
  "vars_of l v = (if is_var v then latest l v else None)"

lemma is_var_neq: "is_var v \<Longrightarrow> v \<noteq> 0xFFFF"
  by (auto simp: is_var_def NB_OF_VAR_def)

lemma set_all_vars: "set all_vars = {v. is_var v}"
proof -
  have "is_var (of_nat (START_VIR_ADD + i))" if "i < NB_OF_VAR" for i
    using that by (simp only: is_var_def NB_OF_VAR_def START_VIR_ADD_def) (simp add: unat_of_nat16 flip: of_nat_Suc)
  moreover have "v \<in> (\<lambda>i. of_nat (START_VIR_ADD + i)) ` {0..<NB_OF_VAR}" if "is_var v" for v
  proof (rule image_eqI)
    have "START_VIR_ADD + (unat v - 1) = unat v" using that by (simp add: is_var_def START_VIR_ADD_def)
    then show "v = of_nat (START_VIR_ADD + (unat v - 1))" by (simp only: word_of_nat_eq_iff) simp
  qed (use that in \<open>auto simp: is_var_def\<close>)
  ultimately show ?thesis by (auto simp: all_vars_def)
qed

lemma distinct_all_vars: "distinct all_vars"
proof -
  have "inj_on (\<lambda>i. of_nat (START_VIR_ADD + i) :: u16) {0..<NB_OF_VAR}"
  proof (rule inj_onI)
    fix i j assume i: "i \<in> {0..<NB_OF_VAR}" and j: "j \<in> {0..<NB_OF_VAR}"
      and e: "(of_nat (START_VIR_ADD + i) :: u16) = of_nat (START_VIR_ADD + j)"
    have lt: "START_VIR_ADD + i < 65536" "START_VIR_ADD + j < 65536"
      using i j by (simp_all add: START_VIR_ADD_def NB_OF_VAR_def)
    show "i = j" using arg_cong [OF e, of unat] unfolding lt [THEN unat_of_nat16] by simp
  qed
  then show ?thesis by (simp add: all_vars_def distinct_map)
qed

lemma length_all_vars: "length all_vars = NB_OF_VAR"
  by (simp add: all_vars_def)

text \<open>The records a transfer appends: the latest value of every variable that is not left out.\<close>

definition moved :: "(u16 \<Rightarrow> bool) \<Rightarrow> (u16 \<times> u16) list \<Rightarrow> u16 list \<Rightarrow> (u16 \<times> u16) list" where
  "moved sk l vs = map (\<lambda>v. (v, the (latest l v))) (filter (\<lambda>v. \<not> sk v \<and> latest l v \<noteq> None) vs)"

lemma moved_simps [simp]:
  "moved sk l [] = []"
  "moved sk l (v # vs) =
     (if sk v then moved sk l vs
      else case latest l v of None \<Rightarrow> moved sk l vs | Some d \<Rightarrow> (v, d) # moved sk l vs)"
  by (auto simp: moved_def split: option.splits)

lemma moved_latest: "latest (moved sk l vs) v = (if v \<in> set vs \<and> \<not> sk v then latest l v else None)"
proof (cases "v \<in> set vs \<and> \<not> sk v \<and> latest l v \<noteq> None")
  case True
  then have "v \<in> fst ` set (moved sk l vs)" by (force simp: moved_def)
  then obtain d where "latest (moved sk l vs) v = Some d" using latest_None_iff by fastforce
  moreover from latest_in_set [OF this] have "latest l v = Some d" by (auto simp: moved_def)
  ultimately show ?thesis using True by simp
next
  case False
  then have "v \<notin> fst ` set (moved sk l vs)" by (auto simp: moved_def)
  then show ?thesis using False by (auto simp flip: latest_None_iff)
qed

lemma length_moved:
  assumes "distinct vs" "finite A" "{v \<in> set vs. \<not> sk v \<and> latest l v \<noteq> None} \<subseteq> A"
  shows "length (moved sk l vs) \<le> card A"
proof -
  have "length (moved sk l vs) = card {v \<in> set vs. \<not> sk v \<and> latest l v \<noteq> None}"
    using assms(1) by (simp add: moved_def flip: distinct_card)
  also have "\<dots> \<le> card A" using assms(2,3) by (rule card_mono)
  finally show ?thesis .
qed

section \<open>Transferring the variables\<close>

lemma read_from_full_page:
  assumes "pages_are (ee_cells s) p VALID_PAGE l RECEIVE_DATA l'" "is_var v"
  shows "EE_ReadVariable v d s = (case latest l v of Some d \<Rightarrow> (0, d) | None \<Rightarrow> (1, d))"
proof -
  have "p \<noteq> NO_VALID_PAGE" using assms(1) page_neq by (auto simp: pages_are_def is_page_def)
  moreover have "ee_read_start p s = page_base p + PAGE_SIZE - 2"
    using assms(1) pages_are_headers [OF assms(1)] by (auto simp: ee_read_start_def pages_are_def is_page_def)
  moreover have "find_latest (ee_cells s) (page_base p + PAGE_SIZE - 2) (page_base p + 2) v = latest l v"
    using assms is_var_neq by (intro page_find_end [of _ _ VALID_PAGE]) (auto simp: pages_are_def)
  ultimately show ?thesis
    using find_read_valid [OF assms(1)] header_neq by (simp add: EE_ReadVariable_def)
qed

text \<open>What the receiving page may hold after a transfer that was interrupted.\<close>

definition partial :: "(u16 \<times> u16) list \<Rightarrow> (u16 \<times> u16) list \<Rightarrow> bool" where
  "partial full l \<longleftrightarrow> (\<exists>y z d. l = y @ z \<and> (\<exists>r. full = y @ r) \<and> (z = [] \<or> z = torn d))"

lemma partial_Nil: "partial full []"
  by (auto simp: partial_def)

lemma partial_torn: "partial full (torn d)"
  unfolding partial_def by (rule exI [of _ "[]"]) auto

lemma partial_Cons: "partial full l \<Longrightarrow> partial (a # full) (a # l)"
  unfolding partial_def
proof (elim exE conjE)
  fix y z d r assume "l = y @ z" "full = y @ r" "z = [] \<or> z = torn d"
  then show "\<exists>y z d. a # l = y @ z \<and> (\<exists>r. a # full = y @ r) \<and> (z = [] \<or> z = torn d)"
    by (intro exI [of _ "a # y"] exI [of _ z] exI [of _ d]) auto
qed

lemma transfer_loop_runs:
  assumes "ready s" "pages_are (ee_cells s) p VALID_PAGE l RECEIVE_DATA (l0 @ x)"
    "distinct vs" "set vs \<subseteq> {v. is_var v}" "set vs \<inter> fst ` set x = {}"
    "length (l0 @ x) + length (moved sk l vs) \<le> SLOTS"
    and skip: "\<And>c v x. pages_are c p VALID_PAGE l RECEIVE_DATA (l0 @ x) \<Longrightarrow> is_var v \<Longrightarrow> v \<notin> fst ` set x \<Longrightarrow>
       skip c v = sk v"
  shows "ee_runs (2 * length (moved sk l vs)) s (transfer_loop skip vs s)
     (\<lambda>s'. pages_are (ee_cells s') p VALID_PAGE l RECEIVE_DATA (l0 @ x @ moved sk l vs) \<and>
        (CurWrAddress s = page_base (other_page p) + 4 * Suc (length (l0 @ x)) \<longrightarrow>
         CurWrAddress s' = page_base (other_page p) + 4 * Suc (length (l0 @ x @ moved sk l vs))))
     (\<lambda>c. \<exists>m. partial (moved sk l vs) m \<and> pages_are c p VALID_PAGE l RECEIVE_DATA (l0 @ x @ m))"
  using assms(1-6)
proof (induction vs arbitrary: s x)
  case Nil
  then show ?case by (auto intro: ee_runs_return)
next
  case (Cons v vs)
  have v: "is_var v" "v \<notin> fst ` set x" using Cons.prems by auto
  have sk: "skip (ee_cells s) v = sk v" using skip [OF Cons.prems(2) v] .
  have page: "other_page (other_page p) = p" using Cons.prems(2) by (auto simp: pages_are_def other_other)
  show ?case
  proof (cases "sk v \<or> latest l v = None")
    case True
    have read: "latest l v = None \<Longrightarrow> EE_ReadVariable v (DataVar s) s = (1, DataVar s)"
      using read_from_full_page [OF Cons.prems(2) v(1)] by simp
    have "transfer_loop skip (v # vs) s = transfer_loop skip vs s"
      using True sk read by (auto simp: Let_def)
    moreover have "moved sk l (v # vs) = moved sk l vs" using True by auto
    ultimately show ?thesis using Cons.prems by (simp only:) (rule Cons.IH, auto)
  next
    case False
    then obtain d where d: "latest l v = Some d" by auto
    let ?s = "s\<lparr>DataVar := d\<rparr>"
    have loop: "transfer_loop skip (v # vs) s =
        ee_then (EE_VerifyPageFullWriteVariable v d ?s) (transfer_loop skip vs)"
      using False sk read_from_full_page [OF Cons.prems(2) v(1), of "DataVar s"] d by (simp add: Let_def)
    have m: "moved sk l (v # vs) = (v, d) # moved sk l vs" using False d by simp
    have k: "2 * length ((v, d) # moved sk l vs) = 2 + 2 * length (moved sk l vs)" by simp
    have "ee_runs (2 + 2 * length (moved sk l vs)) ?s (ee_then (EE_VerifyPageFullWriteVariable v d ?s) (transfer_loop skip vs))
       (\<lambda>s'. pages_are (ee_cells s') p VALID_PAGE l RECEIVE_DATA ((l0 @ x) @ (v, d) # moved sk l vs) \<and>
          CurWrAddress s' = page_base (other_page p) + 4 * Suc (length ((l0 @ x) @ (v, d) # moved sk l vs)))
       (\<lambda>c. \<exists>m. partial ((v, d) # moved sk l vs) m \<and> pages_are c p VALID_PAGE l RECEIVE_DATA (l0 @ x @ m))"
    proof (rule ee_runs_then)
      have "pages_are (ee_cells ?s) (other_page p) RECEIVE_DATA (l0 @ x) VALID_PAGE l"
        using pages_are_swap [OF Cons.prems(2)] by simp
      moreover have "EE_FindValidPage WRITE_IN_VALID_PAGE ?s = other_page p"
        using find_write_receive [of ?s] Cons.prems(2) by simp
      ultimately have "ee_runs 2 ?s (EE_VerifyPageFullWriteVariable v d ?s)
         (\<lambda>s'. pages_are (ee_cells s') (other_page p) RECEIVE_DATA ((l0 @ x) @ [(v, d)]) VALID_PAGE l \<and>
            CurWrAddress s' = page_base (other_page p) + 4 * Suc (length ((l0 @ x) @ [(v, d)])))
         (\<lambda>c. pages_are c (other_page p) RECEIVE_DATA (l0 @ x) VALID_PAGE l \<or>
            pages_are c (other_page p) RECEIVE_DATA ((l0 @ x) @ torn d) VALID_PAGE l)"
        using Cons.prems(1,6) v m header_neq is_var_neq by (intro verify_runs) (auto simp: ready_def)
      then show "ee_runs 2 ?s (EE_VerifyPageFullWriteVariable v d ?s)
         (\<lambda>s'. pages_are (ee_cells s') p VALID_PAGE l RECEIVE_DATA (l0 @ x @ [(v, d)]) \<and>
            CurWrAddress s' = page_base (other_page p) + 4 * Suc (length (l0 @ x @ [(v, d)])))
         (\<lambda>c. \<exists>m. partial ((v, d) # moved sk l vs) m \<and> pages_are c p VALID_PAGE l RECEIVE_DATA (l0 @ x @ m))"
      proof (rule ee_runs_weaken)
        fix c assume "pages_are c (other_page p) RECEIVE_DATA (l0 @ x) VALID_PAGE l \<or>
            pages_are c (other_page p) RECEIVE_DATA ((l0 @ x) @ torn d) VALID_PAGE l"
        then have "pages_are c p VALID_PAGE l RECEIVE_DATA (l0 @ x @ []) \<or>
            pages_are c p VALID_PAGE l RECEIVE_DATA (l0 @ x @ torn d)"
          using page pages_are_swap by fastforce
        then show "\<exists>m. partial ((v, d) # moved sk l vs) m \<and> pages_are c p VALID_PAGE l RECEIVE_DATA (l0 @ x @ m)"
          using partial_Nil partial_torn by blast
      qed (use page pages_are_swap in fastforce)
    next
      fix t assume "ready t" and t: "pages_are (ee_cells t) p VALID_PAGE l RECEIVE_DATA (l0 @ x @ [(v, d)]) \<and>
          CurWrAddress t = page_base (other_page p) + 4 * Suc (length (l0 @ x @ [(v, d)]))"
      have "ee_runs (2 * length (moved sk l vs)) t (transfer_loop skip vs t)
         (\<lambda>s'. pages_are (ee_cells s') p VALID_PAGE l RECEIVE_DATA (l0 @ (x @ [(v, d)]) @ moved sk l vs) \<and>
            (CurWrAddress t = page_base (other_page p) + 4 * Suc (length (l0 @ x @ [(v, d)])) \<longrightarrow>
             CurWrAddress s' = page_base (other_page p) + 4 * Suc (length (l0 @ (x @ [(v, d)]) @ moved sk l vs))))
         (\<lambda>c. \<exists>m. partial (moved sk l vs) m \<and> pages_are c p VALID_PAGE l RECEIVE_DATA (l0 @ (x @ [(v, d)]) @ m))"
        using Cons.prems t m \<open>ready t\<close> by (intro Cons.IH) auto
      then show "ee_runs (2 * length (moved sk l vs)) t (transfer_loop skip vs t)
         (\<lambda>s'. pages_are (ee_cells s') p VALID_PAGE l RECEIVE_DATA ((l0 @ x) @ (v, d) # moved sk l vs) \<and>
            CurWrAddress s' = page_base (other_page p) + 4 * Suc (length ((l0 @ x) @ (v, d) # moved sk l vs)))
         (\<lambda>c. \<exists>m. partial ((v, d) # moved sk l vs) m \<and> pages_are c p VALID_PAGE l RECEIVE_DATA (l0 @ x @ m))"
      proof (rule ee_runs_weaken)
        fix c assume "\<exists>m. partial (moved sk l vs) m \<and> pages_are c p VALID_PAGE l RECEIVE_DATA (l0 @ (x @ [(v, d)]) @ m)"
        then obtain m where "partial (moved sk l vs) m" "pages_are c p VALID_PAGE l RECEIVE_DATA (l0 @ x @ (v, d) # m)"
          by auto
        then show "\<exists>m. partial ((v, d) # moved sk l vs) m \<and> pages_are c p VALID_PAGE l RECEIVE_DATA (l0 @ x @ m)"
          using partial_Cons by blast
      qed (use t in auto)
    qed
    then show ?thesis
      unfolding loop m k by (rule ee_runs_weaken [OF ee_runs_from]) auto
  qed
qed

end
