(* ===== verification/EepromWrite.thy ===== *)
theory EepromWrite
  imports EepromProofs
begin

text \<open>
  Reading and writing variables: a read returns the latest value written, a write updates the
  variable and nothing else, also when the page is full and its variables move to the other page,
  and a write that is cut short by a power loss leaves one of a few states of the two pages.
\<close>

section \<open>The page transfer\<close>

abbreviation transferred :: "(u16 \<times> u16) list \<Rightarrow> u16 \<Rightarrow> u16 \<Rightarrow> (u16 \<times> u16) list" where
  "transferred l v d \<equiv> (v, d) # moved (\<lambda>u. u = v) l all_vars"

lemma length_transferred: "is_var v \<Longrightarrow> length (transferred l v d) \<le> SLOTS"
proof -
  assume v: "is_var v"
  have "length (moved (\<lambda>u. u = v) l all_vars) \<le> card (set all_vars - {v})"
    by (rule length_moved) (auto simp: distinct_all_vars)
  moreover have "card (set all_vars - {v}) = NB_OF_VAR - 1"
    using v distinct_card [OF distinct_all_vars] by (simp add: card_Diff_singleton set_all_vars length_all_vars)
  ultimately show ?thesis by (simp add: NB_OF_VAR_def SLOTS_def)
qed

lemma vars_of_transferred: "is_var v \<Longrightarrow> vars_of (transferred l v d) = (vars_of l)(v \<mapsto> d)"
proof
  fix u assume v: "is_var v"
  have "latest (transferred l v d) = latest [(v, d)] ++ latest (moved (\<lambda>u. u = v) l all_vars)"
    by (metis append_Cons append_Nil latest_append)
  then have "latest (transferred l v d) u = (if is_var u \<and> u \<noteq> v then
      (case latest l u of None \<Rightarrow> latest [(v, d)] u | Some x \<Rightarrow> Some x) else latest [(v, d)] u)"
    by (auto simp: map_add_def moved_latest set_all_vars split: option.splits)
  then show "vars_of (transferred l v d) u = ((vars_of l)(v \<mapsto> d)) u"
    using v by (auto simp: vars_of_def latest_def split: option.splits)
qed

lemma vars_of_torn: "vars_of (l @ torn d) = vars_of l"
  using is_var_neq by (fastforce simp: vars_of_def torn_def latest_snoc)

lemma vars_of_snoc: "is_var v \<Longrightarrow> vars_of (l @ [(v, d)]) = (vars_of l)(v \<mapsto> d)"
  by (auto simp: vars_of_def latest_snoc)

text \<open>What a receiving page holds while the value \<open>d\<close> of \<open>v\<close> is written.\<close>

definition receiving :: "(u16 \<times> u16) list \<Rightarrow> u16 \<Rightarrow> u16 \<Rightarrow> (u16 \<times> u16) list \<Rightarrow> bool" where
  "receiving l v d l' \<longleftrightarrow>
     l' = [] \<or> l' = torn d \<or> (\<exists>m. l' = (v, d) # m \<and> partial (moved (\<lambda>u. u = v) l all_vars) m)"

text \<open>The cells a write of \<open>d\<close> to \<open>v\<close> may leave when a flash operation fails or the
  power is lost, from page \<open>p\<close> with the records \<open>l\<close>.\<close>

definition write_crash :: "u16 \<Rightarrow> (u16 \<times> u16) list \<Rightarrow> u16 \<Rightarrow> u16 \<Rightarrow> (nat \<Rightarrow> u16) \<Rightarrow> bool" where
  "write_crash p l v d c \<longleftrightarrow>
     pages_are c p VALID_PAGE l ERASED [] \<or>
     pages_are c p VALID_PAGE (l @ torn d) ERASED [] \<or>
     (\<exists>l'. receiving l v d l' \<and> pages_are c p VALID_PAGE l RECEIVE_DATA l') \<or>
     pages_are c p ERASED [] RECEIVE_DATA (transferred l v d)"

definition written :: "u16 \<Rightarrow> (u16 \<times> u16) list \<Rightarrow> eeprom \<Rightarrow> bool" where
  "written p l s \<longleftrightarrow>
     pages_are (ee_cells s) p VALID_PAGE l ERASED [] \<and>
     CurWrAddress s = page_base p + 4 * Suc (length l)"

lemma transfer_copies:
  assumes "ready s" "pages_are (ee_cells s) p VALID_PAGE l RECEIVE_DATA [(v, d)]" "is_var v"
    "CurWrAddress s = page_base (other_page p) + 8"
  shows "ee_runs (2 * length (moved (\<lambda>u. u = v) l all_vars)) s (transfer_loop (\<lambda>_ u. u = v) all_vars s)
     (\<lambda>s'. pages_are (ee_cells s') p VALID_PAGE l RECEIVE_DATA (transferred l v d) \<and>
        CurWrAddress s' = page_base (other_page p) + 4 * Suc (length (transferred l v d)))
     (write_crash p l v d)"
proof -
  have "ee_runs (2 * length (moved (\<lambda>u. u = v) l all_vars)) s (transfer_loop (\<lambda>_ u. u = v) all_vars s)
     (\<lambda>s'. pages_are (ee_cells s') p VALID_PAGE l RECEIVE_DATA ([(v, d)] @ [] @ moved (\<lambda>u. u = v) l all_vars) \<and>
        (CurWrAddress s = page_base (other_page p) + 4 * Suc (length ([(v, d)] @ [])) \<longrightarrow>
         CurWrAddress s' = page_base (other_page p) +
           4 * Suc (length ([(v, d)] @ [] @ moved (\<lambda>u. u = v) l all_vars))))
     (\<lambda>c. \<exists>m. partial (moved (\<lambda>u. u = v) l all_vars) m \<and>
        pages_are c p VALID_PAGE l RECEIVE_DATA ([(v, d)] @ [] @ m))"
    by (rule transfer_loop_runs)
      (use assms length_transferred [of v d l] in \<open>auto simp: distinct_all_vars set_all_vars\<close>)
  then show ?thesis
  proof (rule ee_runs_weaken)
    fix c assume "\<exists>m. partial (moved (\<lambda>u. u = v) l all_vars) m \<and>
        pages_are c p VALID_PAGE l RECEIVE_DATA ([(v, d)] @ [] @ m)"
    then show "write_crash p l v d c" by (auto simp: write_crash_def receiving_def)
  qed (use assms(4) in auto)
qed

lemma pages_erase_swap:
  assumes "pages_are c p h l h' l'"
  shows "pages_are (\<lambda>x. if page_base p \<le> x \<and> x < page_base p + PAGE_SIZE then 0xFFFF else c x) p ERASED [] h' l'"
  using pages_erase [OF assms refl] .

lemma receive_and_valid: "RECEIVE_DATA AND VALID_PAGE = VALID_PAGE" "ERASED AND RECEIVE_DATA = RECEIVE_DATA"
  "VALID_PAGE AND VALID_PAGE = VALID_PAGE" "ERASED AND VALID_PAGE = VALID_PAGE"
  by (simp_all add: RECEIVE_DATA_def VALID_PAGE_def ERASED_def)

lemma transfer_runs:
  assumes rdy: "ready s" and p: "pages_are (ee_cells s) p VALID_PAGE l ERASED []" and v: "is_var v"
  shows "ee_runs (1 + (2 + (2 * length (moved (\<lambda>u. u = v) l all_vars) + (1 + 1)))) s (EE_PageTransfer v d s)
     (\<lambda>s'. written (other_page p) (transferred l v d) s') (write_crash p l v d)"
proof -
  let ?q = "other_page p" and ?E = "write_crash p l v d"
  have pq: "other_page ?q = p" "is_page p" using p by (auto simp: pages_are_def other_other)
  have new: "(if p = PAGE1 then PAGE0 else PAGE1) = ?q" by (simp add: other_page_def)
  have start: "EE_PageTransfer v d s =
    ee_then (ee_program (page_base ?q) RECEIVE_DATA s) (\<lambda>s.
    ee_then (EE_VerifyPageFullWriteVariable v d (snd (InitCurrWrAddress s))) (\<lambda>s.
    ee_then (transfer_loop (\<lambda>_ u. u = v) all_vars s) (\<lambda>s.
    ee_then (ee_erase p s) (ee_program (page_base ?q) VALID_PAGE))))"
    using find_read_valid [OF p] header_neq pq(2) new by (auto simp: EE_PageTransfer_def Let_def is_page_def)
  show ?thesis unfolding start
  proof (intro ee_runs_then)
    show "ee_runs 1 s (ee_program (page_base ?q) RECEIVE_DATA s)
       (\<lambda>s'. pages_are (ee_cells s') p VALID_PAGE l RECEIVE_DATA []) ?E"
    proof (rule ee_runs_program [OF rdy])
      fix t assume t: "ee_cells t = (ee_cells s)(page_base ?q := ee_cells s (page_base ?q) AND RECEIVE_DATA)"
      have "ee_cells s (page_base ?q) = ERASED" using pages_are_headers [OF p] by simp
      then show "pages_are (ee_cells t) p VALID_PAGE l RECEIVE_DATA []"
        using pages_header [OF pages_are_swap [OF p], of RECEIVE_DATA] t
        by (simp add: pages_are_def pq receive_and_valid)
    qed (use p in \<open>auto simp: write_crash_def\<close>)
  next
    fix t assume "ready t" and t: "pages_are (ee_cells t) p VALID_PAGE l RECEIVE_DATA []"
    have sw: "pages_are (ee_cells t) ?q RECEIVE_DATA [] VALID_PAGE l" using pages_are_swap [OF t] .
    let ?t = "t\<lparr>CurWrAddress := page_base ?q + 4 * Suc (length ([] :: (u16 \<times> u16) list))\<rparr>"
    have init: "snd (InitCurrWrAddress t) = ?t"
      by (rule InitCurrWrAddress_page [OF find_write_receive [OF t] sw header_neq(3)])
    have "ee_runs 2 ?t (EE_VerifyPageFullWriteVariable v d ?t)
       (\<lambda>s'. pages_are (ee_cells s') ?q RECEIVE_DATA ([] @ [(v, d)]) VALID_PAGE l \<and>
          CurWrAddress s' = page_base ?q + 4 * Suc (length ([] @ [(v, d)])))
       (\<lambda>c. pages_are c ?q RECEIVE_DATA [] VALID_PAGE l \<or> pages_are c ?q RECEIVE_DATA ([] @ torn d) VALID_PAGE l)"
      using \<open>ready t\<close> find_write_receive [of ?t p l "[]"] t sw header_neq is_var_neq [OF v]
      by (intro verify_runs) (auto simp: ready_def SLOTS_def)
    then have "ee_runs 2 t (EE_VerifyPageFullWriteVariable v d ?t)
       (\<lambda>s'. pages_are (ee_cells s') ?q RECEIVE_DATA ([] @ [(v, d)]) VALID_PAGE l \<and>
          CurWrAddress s' = page_base ?q + 4 * Suc (length ([] @ [(v, d)])))
       (\<lambda>c. pages_are c ?q RECEIVE_DATA [] VALID_PAGE l \<or> pages_are c ?q RECEIVE_DATA ([] @ torn d) VALID_PAGE l)"
      by (rule ee_runs_from) simp
    then show "ee_runs 2 t (EE_VerifyPageFullWriteVariable v d (snd (InitCurrWrAddress t)))
       (\<lambda>s'. pages_are (ee_cells s') p VALID_PAGE l RECEIVE_DATA [(v, d)] \<and>
          CurWrAddress s' = page_base ?q + 8) ?E"
      unfolding init
    proof (rule ee_runs_weaken)
      fix c assume "pages_are c ?q RECEIVE_DATA [] VALID_PAGE l \<or> pages_are c ?q RECEIVE_DATA ([] @ torn d) VALID_PAGE l"
      then have "\<exists>l'. receiving l v d l' \<and> pages_are c p VALID_PAGE l RECEIVE_DATA l'"
        using pages_are_swap pq by (fastforce simp: receiving_def)
      then show "?E c" by (auto simp: write_crash_def)
    qed (use pages_are_swap pq in fastforce)
  next
    fix t assume "ready t" "pages_are (ee_cells t) p VALID_PAGE l RECEIVE_DATA [(v, d)] \<and>
       CurWrAddress t = page_base ?q + 8"
    then show "ee_runs (2 * length (moved (\<lambda>u. u = v) l all_vars)) t (transfer_loop (\<lambda>_ u. u = v) all_vars t)
       (\<lambda>s'. pages_are (ee_cells s') p VALID_PAGE l RECEIVE_DATA (transferred l v d) \<and>
          CurWrAddress s' = page_base ?q + 4 * Suc (length (transferred l v d))) ?E"
      using v by (intro transfer_copies) auto
  next
    fix t assume "ready t" and t: "pages_are (ee_cells t) p VALID_PAGE l RECEIVE_DATA (transferred l v d) \<and>
       CurWrAddress t = page_base ?q + 4 * Suc (length (transferred l v d))"
    have "receiving l v d (transferred l v d)"
      unfolding receiving_def partial_def
      by (intro disjI2 exI [of _ "moved (\<lambda>u. u = v) l all_vars"] conjI refl exI [of _ "[]"]) auto
    then show "ee_runs 1 t (ee_erase p t)
       (\<lambda>s'. pages_are (ee_cells s') p ERASED [] RECEIVE_DATA (transferred l v d) \<and>
          CurWrAddress s' = page_base ?q + 4 * Suc (length (transferred l v d))) ?E"
      using \<open>ready t\<close> t pages_erase_swap by (intro ee_runs_erase) (auto simp: write_crash_def)
  next
    fix t assume "ready t" and t: "pages_are (ee_cells t) p ERASED [] RECEIVE_DATA (transferred l v d) \<and>
       CurWrAddress t = page_base ?q + 4 * Suc (length (transferred l v d))"
    show "ee_runs 1 t (ee_program (page_base ?q) VALID_PAGE t) (written ?q (transferred l v d)) ?E"
    proof (rule ee_runs_program [OF \<open>ready t\<close>])
      fix u assume u: "ee_cells u = (ee_cells t)(page_base ?q := ee_cells t (page_base ?q) AND VALID_PAGE)"
        "CurWrAddress u = CurWrAddress t"
      have "ee_cells t (page_base ?q) = RECEIVE_DATA" using pages_are_headers t by blast
      then show "written ?q (transferred l v d) u"
        using pages_header [OF pages_are_swap [of "ee_cells t"], of p ERASED "[]" RECEIVE_DATA "transferred l v d" VALID_PAGE] t u
        by (simp add: written_def receive_and_valid)
    qed (use t in \<open>auto simp: write_crash_def\<close>)
  qed
qed

section \<open>Writing a variable\<close>

text \<open>The records after a write, and the number of flash operations it takes.\<close>

definition wrote :: "(u16 \<times> u16) list \<Rightarrow> u16 \<Rightarrow> u16 \<Rightarrow> (u16 \<times> u16) list" where
  "wrote l v d = (if length l < SLOTS then l @ [(v, d)] else transferred l v d)"

definition write_steps :: "(u16 \<times> u16) list \<Rightarrow> u16 \<Rightarrow> nat" where
  "write_steps l v = (if length l < SLOTS then 2 else 5 + 2 * length (moved (\<lambda>u. u = v) l all_vars))"

lemma vars_of_wrote: "is_var v \<Longrightarrow> vars_of (wrote l v d) = (vars_of l)(v \<mapsto> d)"
  by (simp add: wrote_def vars_of_snoc vars_of_transferred)

lemma write_runs_exact:
  assumes rdy: "ready s" and p: "written p l s" and v: "is_var v"
  shows "ee_runs (write_steps l v) s (EE_WriteVariable v d s)
     (\<lambda>s'. \<exists>p'. written p' (wrote l v d) s') (write_crash p l v d)"
proof (cases "length l < SLOTS")
  case True
  have pg: "pages_are (ee_cells s) p VALID_PAGE l ERASED []" using p by (simp add: written_def)
  have V: "ee_runs 2 s (EE_VerifyPageFullWriteVariable v d s)
     (\<lambda>s'. \<exists>p'. written p' (l @ [(v, d)]) s') (write_crash p l v d)"
    by (rule ee_runs_weaken [OF verify_runs [OF rdy find_write_valid [OF pg] pg header_neq(1) True is_var_neq [OF v]]])
      (fold written_def, blast, auto simp: write_crash_def)
  then have "fst (EE_VerifyPageFullWriteVariable v d s) \<noteq> PAGE_FULL"
    by (auto simp: ee_runs_def PAGE_FULL_def FLASH_COMPLETE_def)
  then have "EE_WriteVariable v d s = EE_VerifyPageFullWriteVariable v d s"
    by (simp add: EE_WriteVariable_def split_beta)
  then show ?thesis using V True by (simp add: write_steps_def wrote_def)
next
  case False
  let ?s = "s\<lparr>CurWrAddress := page_base p + 4 * Suc (length l)\<rparr>"
  have pg: "pages_are (ee_cells s) p VALID_PAGE l ERASED []" using p by (simp add: written_def)
  have "EE_WriteVariable v d s = EE_PageTransfer v d ?s"
    using verify_unfold [OF find_write_valid [OF pg] pg header_neq(1), of v d] False
    by (simp add: EE_WriteVariable_def)
  moreover have "ee_runs (1 + (2 + (2 * length (moved (\<lambda>u. u = v) l all_vars) + (1 + 1)))) ?s (EE_PageTransfer v d ?s)
     (\<lambda>s'. written (other_page p) (transferred l v d) s') (write_crash p l v d)"
    using rdy pg by (intro transfer_runs [OF _ _ v]) (auto simp: ready_def)
  then have "ee_runs (1 + (2 + (2 * length (moved (\<lambda>u. u = v) l all_vars) + (1 + 1)))) s (EE_PageTransfer v d ?s)
     (\<lambda>s'. written (other_page p) (transferred l v d) s') (write_crash p l v d)"
    by (rule ee_runs_from) simp
  moreover have "1 + (2 + (2 * n + (1 + 1))) = 5 + 2 * n" for n :: nat by simp
  ultimately show ?thesis
    using False unfolding write_steps_def wrote_def
    by (simp only: if_False) (erule ee_runs_weaken; blast)
qed

lemma write_runs:
  assumes "ready s" "written p l s" "is_var v"
  shows "ee_runs (write_steps l v) s (EE_WriteVariable v d s)
     (\<lambda>s'. \<exists>p' l'. written p' l' s' \<and> vars_of l' = (vars_of l)(v \<mapsto> d)) (write_crash p l v d)"
  by (rule ee_runs_weaken [OF write_runs_exact [OF assms]]) (use vars_of_wrote [OF assms(3)] in blast)+

text \<open>A write whose first flash operation fails changes no cell.\<close>

lemma program_fails:
  assumes "ready s" "pending s = Fail e # os"
  shows "fst (ee_program a d s) < FLASH_COMPLETE \<and> ee_cells (snd (ee_program a d s)) = ee_cells s \<and>
    \<not> ready (snd (ee_program a d s))"
  using assms fail_code_less [of e]
  by (simp add: ready_def ee_program_def FLASH_ProgramHalfWord_def FLASH_WaitForLastOperation_def flash_next_def)

lemma then_fails: "fst r < FLASH_COMPLETE \<Longrightarrow> ee_then r f = r"
  by (cases r) (auto simp: ee_then_def)

lemma write_fails:
  assumes "ready s" "written p l s" "pending s = Fail e # os"
  shows "ee_cells (snd (EE_WriteVariable v d s)) = ee_cells s \<and> \<not> ready (snd (EE_WriteVariable v d s))"
proof -
  have pg: "pages_are (ee_cells s) p VALID_PAGE l ERASED []" using assms(2) by (simp add: written_def)
  let ?s = "s\<lparr>CurWrAddress := page_base p + 4 * Suc (length l)\<rparr>"
  have s: "ready ?s" "pending ?s = Fail e # os" "ee_cells ?s = ee_cells s" using assms by (simp_all add: ready_def)
  note f = program_fails [OF s(1,2), unfolded s(3)]
  note V = verify_unfold [OF find_write_valid [OF pg] pg header_neq(1), of v d]
  have lt: "x < FLASH_COMPLETE \<Longrightarrow> x \<noteq> PAGE_FULL" for x by (auto simp: FLASH_COMPLETE_def PAGE_FULL_def)
  show ?thesis
  proof (cases "length l < SLOTS")
    case True
    then show ?thesis
      using f [of "page_base p + 4 * Suc (length l)" d] lt
      by (simp add: EE_WriteVariable_def V Let_def then_fails split_beta)
  next
    case False
    have "pages_are (ee_cells ?s) p VALID_PAGE l ERASED []" using pg by simp
    then have "EE_FindValidPage READ_FROM_VALID_PAGE ?s = p" by (rule find_read_valid) (simp add: header_neq)
    moreover have "p = PAGE1 \<or> p = PAGE0" using pg by (auto simp: pages_are_def is_page_def)
    ultimately show ?thesis
      using False f by (simp add: EE_WriteVariable_def V Let_def EE_PageTransfer_def then_fails)
  qed
qed

lemma write_byte_is_write:
  "EE_WriteVariableByte v bs s = EE_WriteVariable v (ucast (fst bs) OR push_bit 8 (ucast (snd bs))) s"
  by (simp add: EE_WriteVariableByte_def EE_WriteVariable_def Let_def)

section \<open>The abstraction\<close>

text \<open>\<open>ee_holds s m\<close>: the module is initialised, no flash operation has failed since the last
  reset, and the variables have the values \<open>m\<close>.\<close>

definition ee_holds :: "eeprom \<Rightarrow> (u16 \<Rightarrow> u16 option) \<Rightarrow> bool" where
  "ee_holds s m \<longleftrightarrow> ready s \<and> (\<exists>p l. written p l s \<and> vars_of l = m)"

lemma ee_holds_dom: "ee_holds s m \<Longrightarrow> m v = Some d \<Longrightarrow> is_var v"
  by (auto simp: ee_holds_def vars_of_def split: if_splits)

lemma read_written:
  assumes "written p l s"
  shows "EE_ReadVariable v d s = (case latest l v of Some d \<Rightarrow> (0, d) | None \<Rightarrow> (1, d))"
proof -
  have pg: "pages_are (ee_cells s) p VALID_PAGE l ERASED []" using assms by (simp add: written_def)
  have "p \<noteq> NO_VALID_PAGE" using pg page_neq by (auto simp: pages_are_def is_page_def)
  moreover have "ee_read_start p s = page_base p + 4 * length l + 2"
    using assms pg pages_are_headers [OF pg] header_neq
    by (auto simp: ee_read_start_def pages_are_def is_page_def written_def)
  ultimately show ?thesis
    using find_read_valid [OF pg] header_neq page_find [of "ee_cells s" p VALID_PAGE l] pg
    by (simp add: EE_ReadVariable_def pages_are_def)
qed

lemma read_byte_written:
  assumes "written p l s" "is_var v"
  shows "EE_ReadVariableByte v bs n s =
    (case latest l v of Some d \<Rightarrow> (0, if n = 0 then bs else (ucast d, ucast (drop_bit 8 d))) | None \<Rightarrow> (1, bs))"
proof -
  have pg: "pages_are (ee_cells s) p VALID_PAGE l ERASED []" using assms by (simp add: written_def)
  have "p \<noteq> NO_VALID_PAGE" using pg page_neq by (auto simp: pages_are_def is_page_def)
  then show ?thesis
    using find_read_valid [OF pg] header_neq page_find_end [of "ee_cells s" p VALID_PAGE l v] is_var_neq [OF assms(2)] pg
    by (simp add: EE_ReadVariableByte_def pages_are_def)
qed

section \<open>Recovery\<close>

lemma first_record:
  assumes "page_is c q h l" "length l \<le> SLOTS"
  shows "c (page_base q + 6) = (case l of [] \<Rightarrow> 0xFFFF | r # _ \<Rightarrow> fst r)"
proof (cases l)
  case Nil
  then have "slot_free c (page_base q) 1" using assms by (simp add: page_is_def SLOTS_def)
  then show ?thesis using Nil by (simp add: slot_free_def numeral_eq_Suc)
next
  case (Cons r rs)
  have "page_log c (page_base q) (length l) ! 0 = slot c (page_base q) 1"
    using Cons by (subst page_log_nth) auto
  moreover have "page_log c (page_base q) (length l) = l" using assms by (simp add: page_is_def)
  ultimately have "r = slot c (page_base q) 1" using Cons by simp
  then show ?thesis using Cons by (simp add: slot_def numeral_eq_Suc)
qed

text \<open>Which variable the recovery leaves out, from the records the receiving page held.\<close>

definition left_out :: "(u16 \<times> u16) list \<Rightarrow> u16 \<Rightarrow> bool" where
  "left_out l' u \<longleftrightarrow> (\<exists>d m. l' = (u, d) # m)"

lemma ee_then_assoc: "ee_then r (\<lambda>s. ee_then (f s) g) = ee_then (ee_then r f) g"
  by (simp add: ee_then_def split: prod.splits)

definition EE_recover_copy :: "u16 \<Rightarrow> eeprom \<Rightarrow> u16 \<times> eeprom" where
  "EE_recover_copy new s =
     ee_then (transfer_loop (\<lambda>c v. c (page_base new + 6) = v) all_vars s) (ee_program (page_base new) VALID_PAGE)"

lemma EE_recover_split: "EE_recover old new s = ee_then (EE_recover_copy new s) (ee_erase old)"
  unfolding EE_recover_def EE_recover_copy_def by (rule ee_then_assoc)

abbreviation recovered :: "(u16 \<times> u16) list \<Rightarrow> (u16 \<times> u16) list \<Rightarrow> (u16 \<times> u16) list" where
  "recovered l l' \<equiv> moved (left_out l') l all_vars"

lemma recover_copy_runs:
  assumes rdy: "ready s" and p: "pages_are (ee_cells s) p VALID_PAGE l RECEIVE_DATA l'"
    and len: "length l' + length (recovered l l') \<le> SLOTS"
  shows "ee_runs (2 * length (recovered l l') + 1) s (EE_recover_copy (other_page p) s)
     (\<lambda>s'. pages_are (ee_cells s') p VALID_PAGE l VALID_PAGE (l' @ recovered l l'))
     (\<lambda>c. \<exists>m. partial (recovered l l') m \<and> pages_are c p VALID_PAGE l RECEIVE_DATA (l' @ m))"
    (is "ee_runs _ s _ _ ?E")
proof -
  let ?q = "other_page p" and ?m = "recovered l l'"
  have pq: "other_page ?q = p" "is_page p" using p by (auto simp: pages_are_def other_other)
  have skip: "(c (page_base ?q + 6) = u) = left_out l' u"
    if "pages_are c p VALID_PAGE l RECEIVE_DATA (l' @ x)" "is_var u" "u \<notin> fst ` set x" for c u x
  proof -
    have "c (page_base ?q + 6) = (case l' @ x of [] \<Rightarrow> 0xFFFF | r # _ \<Rightarrow> fst r)"
      using that(1) by (intro first_record [of c ?q RECEIVE_DATA]) (auto simp: pages_are_def page_is_def)
    then show ?thesis
      using that(2,3) is_var_neq [OF that(2)] by (cases l'; cases x) (auto simp: left_out_def)
  qed
  show ?thesis unfolding EE_recover_copy_def
  proof (rule ee_runs_then)
    have "ee_runs (2 * length ?m) s (transfer_loop (\<lambda>c v. c (page_base ?q + 6) = v) all_vars s)
       (\<lambda>s'. pages_are (ee_cells s') p VALID_PAGE l RECEIVE_DATA (l' @ [] @ ?m) \<and>
          (CurWrAddress s = page_base ?q + 4 * Suc (length (l' @ [])) \<longrightarrow>
           CurWrAddress s' = page_base ?q + 4 * Suc (length (l' @ [] @ ?m))))
       (\<lambda>c. \<exists>m. partial ?m m \<and> pages_are c p VALID_PAGE l RECEIVE_DATA (l' @ [] @ m))"
      by (rule transfer_loop_runs)
        (use rdy p len skip in \<open>auto simp: distinct_all_vars set_all_vars\<close>)
    then show "ee_runs (2 * length ?m) s (transfer_loop (\<lambda>c v. c (page_base ?q + 6) = v) all_vars s)
       (\<lambda>s'. pages_are (ee_cells s') p VALID_PAGE l RECEIVE_DATA (l' @ ?m)) ?E"
      by (rule ee_runs_weaken) auto
  next
    fix t assume "ready t" and t: "pages_are (ee_cells t) p VALID_PAGE l RECEIVE_DATA (l' @ ?m)"
    show "ee_runs 1 t (ee_program (page_base ?q) VALID_PAGE t)
       (\<lambda>s'. pages_are (ee_cells s') p VALID_PAGE l VALID_PAGE (l' @ ?m)) ?E"
    proof (rule ee_runs_program [OF \<open>ready t\<close>])
      have "partial ?m ?m" unfolding partial_def by (intro exI [of _ ?m] exI [of _ "[]"]) auto
      then show "?E (ee_cells t)" using t by blast
    next
      fix u assume u: "ee_cells u = (ee_cells t)(page_base ?q := ee_cells t (page_base ?q) AND VALID_PAGE)"
      have "ee_cells t (page_base ?q) = RECEIVE_DATA" using pages_are_headers [OF t] by simp
      then show "pages_are (ee_cells u) p VALID_PAGE l VALID_PAGE (l' @ ?m)"
        using pages_header [OF pages_are_swap [OF t], of VALID_PAGE] u
        by (simp add: pages_are_def pq receive_and_valid)
    qed
  qed
qed

lemma recover_runs:
  assumes rdy: "ready s" and p: "pages_are (ee_cells s) p VALID_PAGE l RECEIVE_DATA l'"
    and len: "length l' + length (recovered l l') \<le> SLOTS"
  shows "ee_runs (2 * length (recovered l l') + 1 + 1) s (EE_recover p (other_page p) s)
     (\<lambda>s'. pages_are (ee_cells s') (other_page p) VALID_PAGE (l' @ recovered l l') ERASED [])
     (\<lambda>c. (\<exists>m. partial (recovered l l') m \<and> pages_are c p VALID_PAGE l RECEIVE_DATA (l' @ m)) \<or>
        pages_are c p VALID_PAGE l VALID_PAGE (l' @ recovered l l'))" (is "ee_runs _ _ _ _ ?E")
  unfolding EE_recover_split
proof (rule ee_runs_then)
  show "ee_runs (2 * length (recovered l l') + 1) s (EE_recover_copy (other_page p) s)
     (\<lambda>s'. pages_are (ee_cells s') p VALID_PAGE l VALID_PAGE (l' @ recovered l l')) ?E"
    by (rule ee_runs_weaken [OF recover_copy_runs [OF assms]]) auto
next
  fix t assume "ready t" and t: "pages_are (ee_cells t) p VALID_PAGE l VALID_PAGE (l' @ recovered l l')"
  show "ee_runs 1 t (ee_erase p t)
     (\<lambda>s'. pages_are (ee_cells s') (other_page p) VALID_PAGE (l' @ recovered l l') ERASED []) ?E"
    using \<open>ready t\<close> t pages_are_swap [OF pages_erase_swap [OF t]] by (intro ee_runs_erase) auto
qed

end
