(* ===== verification/EepromSafety.thy ===== *)
theory EepromSafety
  imports EepromWrite
begin

text \<open>
  What the EEPROM emulation promises to its callers: reads and writes behave as on a finite map, a
  power loss during a write is repaired at the next start, and a power loss at one point of
  the repair itself loses every variable.
\<close>

section \<open>Start-up\<close>

text \<open>A reset clears the driver's flags and the globals; then \<open>EE_Initialize\<close> runs.\<close>

definition ee_boot :: "eeprom \<Rightarrow> eeprom" where
  "ee_boot s = EE_Initialize \<lparr>chip = flash_reset (chip s),
     CurWrAddress = EEPROM_START_ADDRESS - 4 + 2 * PAGE_SIZE, DataVar = 0\<rparr>"

lemma init_valid_receive:
  assumes "pages_are (ee_cells s) p VALID_PAGE l RECEIVE_DATA l'"
  shows "EE_Init s = EE_recover p (other_page p) s"
proof -
  note h = pages_are_headers [OF assms]
  from assms have "p = PAGE0 \<or> p = PAGE1" by (simp add: pages_are_def is_page_def)
  then show ?thesis using h header_neq by (elim disjE) (simp_all add: EE_Init_def)
qed

lemma init_valid_erased:
  assumes "pages_are (ee_cells s) p VALID_PAGE l ERASED l'"
  shows "EE_Init s = ee_erase (other_page p) s"
proof -
  note h = pages_are_headers [OF assms]
  from assms have "p = PAGE0 \<or> p = PAGE1" by (simp add: pages_are_def is_page_def)
  then show ?thesis using h header_neq by (elim disjE) (simp_all add: EE_Init_def)
qed

lemma init_erased_receive:
  assumes "pages_are (ee_cells s) p ERASED l RECEIVE_DATA l'"
  shows "EE_Init s = ee_then (ee_erase p s) (ee_program (page_base (other_page p)) VALID_PAGE)"
proof -
  note h = pages_are_headers [OF assms]
  from assms have "p = PAGE0 \<or> p = PAGE1" by (simp add: pages_are_def is_page_def)
  then show ?thesis using h header_neq by (elim disjE) (simp_all add: EE_Init_def)
qed

lemma init_both_valid:
  assumes "pages_are (ee_cells s) p VALID_PAGE l VALID_PAGE l'"
  shows "EE_Init s = EE_Format s"
proof -
  note h = pages_are_headers [OF assms]
  from assms have "p = PAGE0 \<or> p = PAGE1" by (simp add: pages_are_def is_page_def)
  then show ?thesis using h header_neq by (elim disjE) (simp_all add: EE_Init_def)
qed

lemma init_then_written:
  assumes "ee_runs k s (EE_Init s) (\<lambda>s'. pages_are (ee_cells s') p VALID_PAGE l ERASED []) E" "pending s = []"
  shows "ready (EE_Initialize s) \<and> pending (EE_Initialize s) = [] \<and> written p l (EE_Initialize s)"
proof -
  let ?t = "snd (EE_Init s)"
  have t: "ready ?t" "pending ?t = []" "pages_are (ee_cells ?t) p VALID_PAGE l ERASED []"
    using ee_runs_success [OF assms(1)] assms(2) by auto
  have "EE_Initialize s = ?t\<lparr>CurWrAddress := page_base p + 4 * Suc (length l)\<rparr>"
    unfolding EE_Initialize_def by (rule InitCurrWrAddress_page [OF find_write_valid [OF t(3)] t(3) header_neq(1)])
  then show ?thesis using t by (simp add: written_def ready_def)
qed

lemma boot_written:
  assumes "\<And>s. ee_cells s = c \<Longrightarrow> ready s \<Longrightarrow>
      ee_runs k s (EE_Init s) (\<lambda>s'. pages_are (ee_cells s') p VALID_PAGE l ERASED []) E" "ee_cells s = c"
  shows "ready (ee_boot s) \<and> pending (ee_boot s) = [] \<and> written p l (ee_boot s)"
  unfolding ee_boot_def
  by (rule init_then_written [OF assms(1)]) (use assms(2) in \<open>auto simp: flash_reset_def ready_def\<close>)

lemma boot_good:
  assumes "pages_are (ee_cells s) p VALID_PAGE l ERASED []"
  shows "ready (ee_boot s) \<and> pending (ee_boot s) = [] \<and> written p l (ee_boot s)"
proof (rule boot_written [OF _ refl])
  fix t assume t: "ee_cells t = ee_cells s" "ready t"
  then have p: "pages_are (ee_cells t) p VALID_PAGE l ERASED []" "other_page (other_page p) = p"
    using assms by (auto simp: pages_are_def other_other)
  show "ee_runs 1 t (EE_Init t) (\<lambda>s'. pages_are (ee_cells s') p VALID_PAGE l ERASED []) (\<lambda>_. True)"
    unfolding init_valid_erased [OF p(1)]
    using t(2) pages_are_swap [OF pages_erase_swap [OF pages_are_swap [OF p(1)]]] p(2)
    by (intro ee_runs_erase) simp_all
qed

lemma boot_received:
  assumes "pages_are (ee_cells s) p ERASED [] RECEIVE_DATA l"
  shows "ready (ee_boot s) \<and> pending (ee_boot s) = [] \<and> written (other_page p) l (ee_boot s)"
proof (rule boot_written [OF _ refl])
  fix t assume t: "ee_cells t = ee_cells s" "ready t"
  then have p: "pages_are (ee_cells t) p ERASED [] RECEIVE_DATA l" using assms by simp
  show "ee_runs (1 + 1) t (EE_Init t) (\<lambda>s'. pages_are (ee_cells s') (other_page p) VALID_PAGE l ERASED []) (\<lambda>_. True)"
    unfolding init_erased_receive [OF p]
  proof (rule ee_runs_then)
    show "ee_runs 1 t (ee_erase p t) (\<lambda>s'. pages_are (ee_cells s') p ERASED [] RECEIVE_DATA l) (\<lambda>_. True)"
      using t(2) pages_erase_swap [OF p] by (intro ee_runs_erase) simp_all
  next
    fix u assume "ready u" and u: "pages_are (ee_cells u) p ERASED [] RECEIVE_DATA l"
    then show "ee_runs 1 u (ee_program (page_base (other_page p)) VALID_PAGE u)
       (\<lambda>s'. pages_are (ee_cells s') (other_page p) VALID_PAGE l ERASED []) (\<lambda>_. True)"
      using pages_header [OF pages_are_swap [OF u], of VALID_PAGE] pages_are_headers [OF u]
      by (intro ee_runs_program) (simp_all add: receive_and_valid)
  qed
qed

lemma boot_recovers:
  assumes "pages_are (ee_cells s) p VALID_PAGE l RECEIVE_DATA l'"
    "length l' + length (moved (left_out l') l all_vars) \<le> SLOTS"
  shows "ready (ee_boot s) \<and> pending (ee_boot s) = [] \<and>
    written (other_page p) (l' @ moved (left_out l') l all_vars) (ee_boot s)"
proof (rule boot_written [OF _ refl])
  fix t assume t: "ee_cells t = ee_cells s" "ready t"
  then have p: "pages_are (ee_cells t) p VALID_PAGE l RECEIVE_DATA l'" using assms by simp
  show "ee_runs (2 * length (moved (left_out l') l all_vars) + 1 + 1) t (EE_Init t)
     (\<lambda>s'. pages_are (ee_cells s') (other_page p) VALID_PAGE (l' @ moved (left_out l') l all_vars) ERASED [])
     (\<lambda>_. True)"
    unfolding init_valid_receive [OF p] using recover_runs [OF t(2) p assms(2)] by (rule ee_runs_weaken) auto
qed

lemma boot_formats:
  assumes "pages_are (ee_cells s) p VALID_PAGE l VALID_PAGE l'"
  shows "ready (ee_boot s) \<and> pending (ee_boot s) = [] \<and> written PAGE0 [] (ee_boot s)"
proof (rule boot_written [OF _ refl])
  fix t assume t: "ee_cells t = ee_cells s" "ready t"
  then have p: "pages_are (ee_cells t) p VALID_PAGE l VALID_PAGE l'" using assms by simp
  obtain l1 l2 where q: "pages_are (ee_cells t) PAGE0 VALID_PAGE l1 VALID_PAGE l2"
    using p pages_are_swap [OF p] by (auto simp: pages_are_def is_page_def)
  show "ee_runs (1 + (1 + 1)) t (EE_Init t) (\<lambda>s'. pages_are (ee_cells s') PAGE0 VALID_PAGE [] ERASED []) (\<lambda>_. True)"
    unfolding init_both_valid [OF p] EE_Format_def
  proof (intro ee_runs_then)
    show "ee_runs 1 t (ee_erase PAGE0 t) (\<lambda>s'. pages_are (ee_cells s') PAGE0 ERASED [] VALID_PAGE l2) (\<lambda>_. True)"
      using t(2) pages_erase_swap [OF q] by (intro ee_runs_erase) simp_all
  next
    fix u assume "ready u" and u: "pages_are (ee_cells u) PAGE0 ERASED [] VALID_PAGE l2"
    then show "ee_runs 1 u (ee_program (page_base PAGE0) VALID_PAGE u)
       (\<lambda>s'. pages_are (ee_cells s') PAGE0 VALID_PAGE [] VALID_PAGE l2) (\<lambda>_. True)"
      using pages_header [OF u, of VALID_PAGE] pages_are_headers [OF u]
      by (intro ee_runs_program) (simp_all add: receive_and_valid)
  next
    fix u assume "ready u" and u: "pages_are (ee_cells u) PAGE0 VALID_PAGE [] VALID_PAGE l2"
    then show "ee_runs 1 u (ee_erase PAGE1 u) (\<lambda>s'. pages_are (ee_cells s') PAGE0 VALID_PAGE [] ERASED []) (\<lambda>_. True)"
      using pages_are_swap [OF pages_erase_swap [OF pages_are_swap [OF u]]] by (intro ee_runs_erase) simp_all
  qed
qed

section \<open>The variables after a recovery\<close>

lemma partial_keys:
  assumes "partial (moved sk l vs) m" "u \<in> fst ` set m" "u \<noteq> 0xFFFF"
  shows "u \<in> set vs \<and> \<not> sk u \<and> latest l u \<noteq> None"
proof -
  obtain y z d r where m: "m = y @ z" "moved sk l vs = y @ r" "z = [] \<or> z = torn d"
    using assms(1) by (auto simp: partial_def)
  then have "u \<in> fst ` set (moved sk l vs)" using assms(2,3) by (auto simp: torn_def split: if_splits)
  then show ?thesis by (auto simp: moved_def)
qed

lemma partial_length: "partial full m \<Longrightarrow> length m \<le> Suc (length full)"
  by (auto simp: partial_def torn_def)

lemma length_moved_vars: "length (moved sk l all_vars) \<le> card (dom (vars_of l))"
proof (rule length_moved [OF distinct_all_vars])
  have "dom (vars_of l) \<subseteq> set all_vars" by (auto simp: vars_of_def set_all_vars split: if_splits)
  then show "finite (dom (vars_of l))" by (rule finite_subset) simp
  show "{v \<in> set all_vars. \<not> sk v \<and> latest l v \<noteq> None} \<subseteq> dom (vars_of l)"
    by (auto simp: vars_of_def set_all_vars)
qed

lemma vars_of_moved: "vars_of (moved sk l all_vars) v = (if sk v then None else vars_of l v)"
  by (simp add: vars_of_def moved_latest set_all_vars)

lemma vars_of_append: "vars_of (l @ m) = vars_of l ++ vars_of m"
  by (auto simp: vars_of_def latest_append map_add_def fun_eq_iff split: option.splits)

lemma vars_recovered:
  assumes r: "receiving l v d l'" and v: "is_var v"
  shows "vars_of (l' @ moved (left_out l') l all_vars) =
    (if l' = [] \<or> l' = torn d then vars_of l else (vars_of l)(v \<mapsto> d))"
proof (cases "l' = [] \<or> l' = torn d")
  case True
  then have "vars_of l' = Map.empty" using is_var_neq by (auto simp: vars_of_def torn_def latest_def fun_eq_iff)
  moreover have "\<not> left_out l' u" if "is_var u" for u
    using True is_var_neq [OF that] by (auto simp: left_out_def torn_def split: if_splits)
  ultimately have "vars_of (l' @ moved (left_out l') l all_vars) u = vars_of l u" for u
    by (cases "is_var u") (auto simp: vars_of_append map_add_def vars_of_moved vars_of_def moved_latest set_all_vars split: option.splits)
  then show ?thesis using True by auto
next
  case False
  then obtain m where l': "l' = (v, d) # m" and m: "partial (moved (\<lambda>u. u = v) l all_vars) m"
    using r by (auto simp: receiving_def)
  have skip: "left_out l' = (\<lambda>u. u = v)" using l' by (auto simp: left_out_def)
  have keys: "u \<noteq> v \<and> vars_of l u \<noteq> None" if "vars_of m u \<noteq> None" for u
  proof -
    have "is_var u" "u \<in> fst ` set m" using that latest_None_iff [of m u] by (fastforce simp: vars_of_def split: if_splits)+
    then show ?thesis using partial_keys [OF m] is_var_neq [of u] by (auto simp: vars_of_def)
  qed
  have e: "vars_of l' = vars_of [(v, d)] ++ vars_of m" unfolding l' using vars_of_append [of "[(v, d)]" m] by simp
  have "vars_of (l' @ moved (left_out l') l all_vars) u = ((vars_of l)(v \<mapsto> d)) u" for u
  proof (cases "u = v")
    case True
    then have "vars_of m u = None" using keys by blast
    then show ?thesis using True v
      by (simp add: vars_of_append e skip vars_of_moved map_add_def) (simp add: vars_of_def latest_def)
  next
    case False
    have "vars_of [(v, d)] u = None" using False by (simp add: vars_of_def latest_def)
    then show ?thesis using False keys [of u]
      by (auto simp: vars_of_append e skip vars_of_moved map_add_def split: option.splits)
  qed
  then show ?thesis using False by auto
qed

lemma receiving_length: "receiving l v d l' \<Longrightarrow> length l' \<le> card (dom (vars_of l)) + 2"
  using length_moved_vars [of "\<lambda>u. u = v" l]
  by (auto simp: receiving_def torn_def dest!: partial_length)

lemma boot_after_crash:
  assumes "write_crash p l v d (ee_cells s)" and v: "is_var v" and space: "2 * card (dom (vars_of l)) + 2 \<le> SLOTS"
  shows "pending (ee_boot s) = [] \<and> (ee_holds (ee_boot s) (vars_of l) \<or> ee_holds (ee_boot s) ((vars_of l)(v \<mapsto> d)))"
  using assms(1) unfolding write_crash_def
proof (elim disjE exE conjE)
  fix l' assume r: "receiving l v d l'" and p: "pages_are (ee_cells s) p VALID_PAGE l RECEIVE_DATA l'"
  have "length l' + length (moved (left_out l') l all_vars) \<le> SLOTS"
    using receiving_length [OF r] length_moved_vars [of "left_out l'" l] space by linarith
  from boot_recovers [OF p this] show ?thesis
    unfolding ee_holds_def using vars_recovered [OF r v] by metis
next
  assume "pages_are (ee_cells s) p VALID_PAGE (l @ torn d) ERASED []"
  from boot_good [OF this] show ?thesis unfolding ee_holds_def using vars_of_torn by metis
next
  assume "pages_are (ee_cells s) p VALID_PAGE l ERASED []"
  from boot_good [OF this] show ?thesis unfolding ee_holds_def by metis
next
  assume "pages_are (ee_cells s) p ERASED [] RECEIVE_DATA (transferred l v d)"
  from boot_received [OF this] show ?thesis unfolding ee_holds_def using vars_of_transferred [OF v] by metis
qed


section \<open>Properties\<close>

text \<open>An empty, formatted EEPROM, for the witnesses.\<close>

definition blank_eeprom :: "flash_outcome list \<Rightarrow> eeprom" where
  "blank_eeprom os =
     \<lparr>chip = \<lparr>cells = (\<lambda>_. 0xFFFF)(page_base PAGE0 := VALID_PAGE), latched = FLASH_COMPLETE, outcomes = os\<rparr>,
      CurWrAddress = page_base PAGE0 + 4, DataVar = 0\<rparr>"

lemma blank_written: "written PAGE0 [] (blank_eeprom os)"
proof -
  have "pages_are (\<lambda>_. 0xFFFF) PAGE0 ERASED [] ERASED []"
    by (auto simp: pages_are_def is_page_def intro: page_is_erased)
  from pages_header [OF this, of VALID_PAGE] show ?thesis by (simp add: written_def blank_eeprom_def)
qed

lemma vars_of_Nil: "vars_of [] = Map.empty"
  by (auto simp: vars_of_def)

lemma blank_holds: "ee_holds (blank_eeprom os) Map.empty"
  unfolding ee_holds_def
  by (intro conjI exI [of _ PAGE0] exI [of _ "[]"] blank_written vars_of_Nil) (simp add: ready_def blank_eeprom_def)

text \<open>C12. A read returns the value of the variable with status 0, or leaves the caller's data alone
  and returns status 1 when the variable was never written; the byte variant returns the same
  value as two bytes, low byte first.\<close>

theorem EE_ReadVariable_spec:
  assumes "ee_holds s m" "is_var v" "0 < n"
  shows "EE_ReadVariable v d s = (case m v of Some x \<Rightarrow> (0, x) | None \<Rightarrow> (1, d)) \<and>
    EE_ReadVariableByte v bs n s =
      (case m v of Some x \<Rightarrow> (0, ucast x, ucast (drop_bit 8 x)) | None \<Rightarrow> (1, bs))"
proof -
  obtain p l where "written p l s" "m = vars_of l" using assms(1) by (auto simp: ee_holds_def)
  then show ?thesis
    using read_written [of p l s] read_byte_written [of p l s v] assms(2,3) by (auto simp: vars_of_def split: option.splits)
qed

theorem EE_ReadVariable_spec_witness:
  "EE_ReadVariable 5 9 (blank_eeprom []) = (1, 9)"
  using EE_ReadVariable_spec [OF blank_holds [of "[]"], of 5 1 9] by (simp add: is_var_def NB_OF_VAR_def)

text \<open>C2. A write of a variable, by half word or by bytes, that meets no flash failure returns
  \<open>FLASH_COMPLETE\<close> and changes exactly that variable, for any contents of the page: also when the
  page is full and all variables move to the other page, even if all 32767 of them are in use.\<close>

theorem EE_WriteVariable_spec:
  assumes "ee_holds s m" "pending s = []" "is_var v"
  shows "fst (EE_WriteVariable v d s) = FLASH_COMPLETE \<and>
    ee_holds (snd (EE_WriteVariable v d s)) (m(v \<mapsto> d)) \<and> pending (snd (EE_WriteVariable v d s)) = [] \<and>
    EE_WriteVariableByte v (ucast d, ucast (drop_bit 8 d)) s = EE_WriteVariable v d s"
proof -
  obtain p l where s: "ready s" "written p l s" "m = vars_of l" using assms(1) by (auto simp: ee_holds_def)
  have halves: "ucast (ucast d :: u8) OR push_bit 8 (ucast (ucast (drop_bit 8 d) :: u8)) = d" for d :: u16
    by (rule bit_word_eqI) (auto simp: bit_simps)
  show ?thesis
    using ee_runs_success [OF write_runs [OF s(1,2) assms(3), of d]] assms(2) s(3)
    by (auto simp: ee_holds_def write_byte_is_write halves)
qed

theorem EE_WriteVariable_spec_witness:
  "fst (EE_WriteVariable 5 77 (blank_eeprom [])) = FLASH_COMPLETE \<and>
   ee_holds (snd (EE_WriteVariable 5 77 (blank_eeprom []))) [5 \<mapsto> 77]"
  using EE_WriteVariable_spec [OF blank_holds [of "[]"], of 5 77]
  by (simp add: is_var_def NB_OF_VAR_def) (simp add: blank_eeprom_def)

text \<open>C1. Whatever flash operations fail during a write, and wherever the power is lost, the next
  start leaves a working EEPROM in which the written variable has its old or its new value and every
  other variable is unchanged; a write that returned \<open>FLASH_COMPLETE\<close> is never undone. The
  variables in use must fit twice in a page, for a recovery repeats the copying into the page
  the interrupted transfer had begun to fill.\<close>

theorem EE_WriteVariable_crash_safe:
  assumes "ee_holds s m" "is_var v" "2 * card (dom m) + 2 \<le> SLOTS"
  shows "ee_holds (ee_boot (snd (EE_WriteVariable v d s))) m \<and> fst (EE_WriteVariable v d s) \<noteq> FLASH_COMPLETE \<or>
    ee_holds (ee_boot (snd (EE_WriteVariable v d s))) (m(v \<mapsto> d))"
proof -
  let ?r = "EE_WriteVariable v d s"
  obtain p l where s: "ready s" "written p l s" "m = vars_of l" using assms(1) by (auto simp: ee_holds_def)
  have "fst ?r = FLASH_COMPLETE \<and> (\<exists>p' l'. written p' l' (snd ?r) \<and> vars_of l' = m(v \<mapsto> d)) \<or>
      fst ?r < FLASH_COMPLETE \<and> write_crash p l v d (ee_cells (snd ?r))"
    using write_runs [OF s(1,2) assms(2), of d] s(3) by (auto simp: ee_runs_def)
  then show ?thesis
  proof (elim disjE conjE exE)
    fix p' l' assume w: "written p' l' (snd ?r)" "vars_of l' = m(v \<mapsto> d)"
    then have "pages_are (ee_cells (snd ?r)) p' VALID_PAGE l' ERASED []" by (simp add: written_def)
    from boot_good [OF this] show ?thesis unfolding ee_holds_def using w(2) by metis
  next
    assume "fst ?r < FLASH_COMPLETE" "write_crash p l v d (ee_cells (snd ?r))"
    then show ?thesis using boot_after_crash [OF _ assms(2)] assms(3) s(3) by auto
  qed
qed

theorem EE_WriteVariable_crash_safe_witness:
  "ee_holds (ee_boot (snd (EE_WriteVariable 5 77 (blank_eeprom [Done, Fail 6])))) Map.empty \<or>
   ee_holds (ee_boot (snd (EE_WriteVariable 5 77 (blank_eeprom [Done, Fail 6])))) [5 \<mapsto> 77]"
proof -
  have "2 * card (dom (Map.empty :: u16 \<Rightarrow> u16 option)) + 2 \<le> SLOTS" by (simp add: SLOTS_def)
  from EE_WriteVariable_crash_safe [OF blank_holds _ this, of 5 77 "[Done, Fail 6]"] show ?thesis
    by (auto simp: is_var_def NB_OF_VAR_def)
qed

text \<open>C18. The recovery of an interrupted transfer marks the receiving page valid before it erases the
  old page. If the power is lost between these two steps, both pages are valid, the next start takes
  this for a corrupt state and formats: every variable is lost.\<close>

theorem EE_Init_interrupted_recovery_loses_all:
  assumes "ready s" "pages_are (ee_cells s) p VALID_PAGE l RECEIVE_DATA l'"
    "length l' + length (moved (left_out l') l all_vars) \<le> SLOTS"
    "pending s = replicate (2 * length (moved (left_out l') l all_vars) + 1) Done @ [Fail c]"
  shows "ee_holds (ee_boot (snd (EE_Init s))) Map.empty"
proof -
  let ?r = "EE_recover_copy (other_page p) s"
  define k where "k = 2 * length (moved (left_out l') l all_vars) + 1"
  have k: "pending s = replicate k Done @ [Fail c]" using assms(4) by (simp only: k_def)
  have r: "fst ?r = FLASH_COMPLETE" "ready (snd ?r)" "pending (snd ?r) = [Fail c]"
      "pages_are (ee_cells (snd ?r)) p VALID_PAGE l VALID_PAGE (l' @ moved (left_out l') l all_vars)"
    using ee_runs_success [OF recover_copy_runs [OF assms(1-3)], folded k_def] by (simp_all add: k nth_append)
  have "EE_Init s = ee_erase p (snd ?r)"
    unfolding init_valid_receive [OF assms(2)] EE_recover_split using r(1) by (simp add: ee_then_def split_beta)
  then have "ee_cells (snd (EE_Init s)) = ee_cells (snd ?r)"
    using r(2,3) by (simp add: ee_erase_def FLASH_EraseSector_def FLASH_WaitForLastOperation_def ready_def flash_next_def)
  then have "ready (ee_boot (snd (EE_Init s))) \<and> written PAGE0 [] (ee_boot (snd (EE_Init s)))"
    using boot_formats [of "snd (EE_Init s)"] r(4) by simp
  then show ?thesis unfolding ee_holds_def using vars_of_Nil by blast
qed

text \<open>The witness: a page with the record \<open>(1, 7)\<close> whose transfer was cut off right after the other
  page was marked as receiving.\<close>

definition interrupted_eeprom :: "flash_outcome list \<Rightarrow> eeprom" where
  "interrupted_eeprom os =
     \<lparr>chip = \<lparr>cells = ((\<lambda>_. 0xFFFF)(page_base PAGE0 := VALID_PAGE))
          (page_base PAGE0 + 4 * Suc (length ([] :: (u16 \<times> u16) list)) := 7,
           page_base PAGE0 + 4 * Suc (length ([] :: (u16 \<times> u16) list)) + 2 := 1,
           page_base PAGE1 := RECEIVE_DATA), latched = FLASH_COMPLETE, outcomes = os\<rparr>,
      CurWrAddress = 0, DataVar = 0\<rparr>"

lemma interrupted_pages:
  "pages_are (ee_cells (interrupted_eeprom os)) PAGE0 VALID_PAGE [(1, 7)] RECEIVE_DATA []"
proof -
  have "pages_are ((\<lambda>_. 0xFFFF)(page_base PAGE0 := VALID_PAGE)) PAGE0 VALID_PAGE [] ERASED []"
    using blank_written by (simp add: written_def blank_eeprom_def)
  from pages_append [OF this, of 1 7] have "pages_are (((\<lambda>_. 0xFFFF)(page_base PAGE0 := VALID_PAGE))
      (page_base PAGE0 + 4 * Suc (length ([] :: (u16 \<times> u16) list)) := 7,
       page_base PAGE0 + 4 * Suc (length ([] :: (u16 \<times> u16) list)) + 2 := 1)) PAGE0 VALID_PAGE [(1, 7)] ERASED []"
    by (simp add: SLOTS_def)
  from pages_are_swap [OF pages_header [OF pages_are_swap [OF this], of RECEIVE_DATA]]
  show ?thesis unfolding interrupted_eeprom_def by simp
qed

lemma interrupted_moved: "length (moved (left_out []) [(1, 7)] all_vars) = 1"
proof -
  have "moved (left_out []) [(1, 7)] all_vars = map (\<lambda>v. (v, 7)) (filter (\<lambda>v. v = 1) all_vars)"
    unfolding moved_def by (rule map_cong [OF filter_cong]) (auto simp: left_out_def latest_def)
  moreover have "length (filter (\<lambda>v. v = 1) all_vars) = card ({v. is_var v} \<inter> {1})"
    using distinct_card [of "filter (\<lambda>v. v = 1) all_vars"] distinct_all_vars
    by (simp add: set_all_vars Int_def)
  moreover have "{v. is_var v} \<inter> {1} = {1}" by (auto simp: is_var_def NB_OF_VAR_def)
  ultimately show ?thesis by simp
qed

theorem EE_Init_interrupted_recovery_loses_all_witness:
  "ee_holds (ee_boot (snd (EE_Init (interrupted_eeprom [Done, Done, Done, Fail 6])))) Map.empty"
  by (rule EE_Init_interrupted_recovery_loses_all [OF _ interrupted_pages, where c = 6])
    (simp_all add: interrupted_moved SLOTS_def eval_nat_numeral, simp_all add: interrupted_eeprom_def ready_def)

end
