(* ===== verification/ConfigStore.thy ===== *)
theory ConfigStore
  imports EepromSafety
begin

text \<open>
  The non-volatile configuration of \<^verbatim>\<open>APP/Config/config.c\<close>: the parameter block is kept in the
  EEPROM as one variable for every two bytes, loaded at start-up when its first two bytes are the
  magic \<^verbatim>\<open>A5 AA\<close>, and replaced by the factory block otherwise. A parameter block is the
  list of the bytes of a \<^verbatim>\<open>tConfigParameters\<close>; the factory block, a constant table, is an
  argument.
\<close>

section \<open>Arrays of bytes in a store of byte pairs\<close>

text \<open>The loops over a block, for any operation that writes or reads one pair.\<close>

fun save_pairs :: "(u16 \<Rightarrow> u8 \<times> u8 \<Rightarrow> 's \<Rightarrow> 's) \<Rightarrow> u16 \<Rightarrow> bytes \<Rightarrow> 's \<Rightarrow> 's" where
  "save_pairs wr k (a # b # bs) s = save_pairs wr (k + 1) bs (wr k (a, b) s)"
| "save_pairs wr k _ s = s"

fun load_pairs :: "(u16 \<Rightarrow> u8 \<times> u8 \<Rightarrow> 's \<Rightarrow> u8 \<times> u8) \<Rightarrow> u16 \<Rightarrow> bytes \<Rightarrow> 's \<Rightarrow> bytes" where
  "load_pairs rd k (a # b # bs) s = (case rd k (a, b) s of (x, y) \<Rightarrow> x # y # load_pairs rd (k + 1) bs s)"
| "load_pairs rd k bs s = bs"

text \<open>The variables of a block: one for each pair, from the key \<open>k\<close> on.\<close>

fun pairs_of :: "bytes \<Rightarrow> (u8 \<times> u8) list" where
  "pairs_of (a # b # bs) = (a, b) # pairs_of bs"
| "pairs_of _ = []"

fun block_map :: "u16 \<Rightarrow> (u8 \<times> u8) list \<Rightarrow> u16 \<Rightarrow> (u8 \<times> u8) option" where
  "block_map k [] = Map.empty"
| "block_map k (p # ps) = (block_map (k + 1) ps)(k \<mapsto> p)"

lemma length_pairs_of: "length (pairs_of bs) = length bs div 2"
  by (induction bs rule: pairs_of.induct) auto

lemma pairs_of_nth: "i < length bs div 2 \<Longrightarrow> pairs_of bs ! i = (bs ! (2 * i), bs ! (2 * i + 1))"
proof (induction bs arbitrary: i rule: pairs_of.induct)
  case (1 a b bs)
  then show ?case by (cases i) auto
qed auto

lemma dom_block_map: "unat k + length ps \<le> 65536 \<Longrightarrow> block_map k ps j \<noteq> None \<Longrightarrow> unat k \<le> unat j \<and> unat j < unat k + length ps"
proof (induction k ps arbitrary: j rule: block_map.induct)
  case (2 k p ps)
  show ?case
  proof (cases "j = k \<or> ps = []")
    case False
    then have "unat k + 1 < 65536" using 2(2) by (cases ps) auto
    then have "unat (k + 1) = unat k + 1" by (simp add: unat_add16)
    then show ?thesis using 2(1) [of j] 2(2,3) False by fastforce
  qed (use 2 in \<open>auto split: if_splits\<close>)
qed simp

lemma block_map_fresh:
  assumes "unat k + Suc (length ps) \<le> 65536"
  shows "block_map (k + 1) ps k = None"
proof (cases ps)
  case (Cons q qs)
  then have u: "unat (k + 1) = unat k + 1" using assms by (intro unat_inc16) simp
  have le: "unat (k + 1) + length ps \<le> 65536" using assms u by simp
  show ?thesis
  proof (rule ccontr)
    assume "block_map (k + 1) ps k \<noteq> None"
    from dom_block_map [OF le this] u show False by simp
  qed
qed simp

lemma block_map_at:
  assumes "unat k + length ps \<le> 65536"
  shows "block_map k ps x =
    (if unat k \<le> unat x \<and> unat x < unat k + length ps then Some (ps ! (unat x - unat k)) else None)"
  using assms
proof (induction k ps rule: block_map.induct)
  case (2 k p ps)
  show ?case
  proof (cases "ps = []")
    case False
    then have u: "unat (k + 1) = unat k + 1" using 2(2) by (intro unat_inc16) (cases ps; simp)
    have x: "x = k \<longleftrightarrow> unat x = unat k" by (rule word_unat_eq_iff)
    have "block_map k (p # ps) x = (if unat x = unat k then Some p else block_map (k + 1) ps x)" by (simp add: x)
    also have "block_map (k + 1) ps x =
      (if unat k + 1 \<le> unat x \<and> unat x < unat k + 1 + length ps then Some (ps ! (unat x - (unat k + 1))) else None)"
      using 2(1) 2(2) u by simp
    finally show ?thesis by (auto simp: nth_Cons')
  qed (auto simp: word_unat_eq_iff)
qed simp

text \<open>The contract of such a store: a read returns the last pair written under its key, or leaves
  the caller's pair alone; a write changes only its key. The keys are \<open>lo\<close> to \<open>hi - 1\<close>.\<close>

locale pair_store =
  fixes holds :: "'s \<Rightarrow> (u16 \<Rightarrow> (u8 \<times> u8) option) \<Rightarrow> bool"
    and lo hi :: nat
    and wr :: "u16 \<Rightarrow> u8 \<times> u8 \<Rightarrow> 's \<Rightarrow> 's"
    and rd :: "u16 \<Rightarrow> u8 \<times> u8 \<Rightarrow> 's \<Rightarrow> u8 \<times> u8"
  assumes hi: "hi < 65536"
    and wr_law: "holds s m \<Longrightarrow> lo \<le> unat k \<Longrightarrow> unat k < hi \<Longrightarrow> holds (wr k p s) (m(k \<mapsto> p))"
    and rd_law: "holds s m \<Longrightarrow> lo \<le> unat k \<Longrightarrow> unat k < hi \<Longrightarrow>
      rd k p s = (case m k of Some q \<Rightarrow> q | None \<Rightarrow> p)"
begin

lemma save_holds:
  assumes "holds s m" "lo \<le> unat k" "unat k + length bs div 2 \<le> hi"
  shows "holds (save_pairs wr k bs s) (m ++ block_map k (pairs_of bs))"
  using assms
proof (induction bs arbitrary: k s m rule: pairs_of.induct)
  case (1 a b bs)
  have k: "unat (k + 1) = unat k + 1" using 1(4) hi by (intro unat_inc16) simp
  have "holds (save_pairs wr (k + 1) bs (wr k (a, b) s)) (m(k \<mapsto> (a, b)) ++ block_map (k + 1) (pairs_of bs))"
    using 1(2-4) k by (intro 1(1) wr_law) simp_all
  moreover have "block_map (k + 1) (pairs_of bs) k = None"
    using 1(4) hi by (intro block_map_fresh) (simp add: length_pairs_of)
  then have "m(k \<mapsto> (a, b)) ++ block_map (k + 1) (pairs_of bs) = m ++ block_map k (pairs_of (a # b # bs))"
    by (auto simp: map_add_def fun_eq_iff split: option.splits)
  ultimately show ?case by (simp only: save_pairs.simps)
qed auto

lemma load_saved:
  assumes "holds s m" "block_map k (pairs_of bs) \<subseteq>\<^sub>m m" "lo \<le> unat k" "unat k + length bs div 2 \<le> hi"
    "length buf = length bs" "even (length bs)"
  shows "load_pairs rd k buf s = bs"
  using assms(2-6)
proof (induction bs arbitrary: k buf rule: pairs_of.induct)
  case (1 a b bs)
  from 1(5) obtain x y bf where buf: "buf = x # y # bf" "length bf = length bs"
    by (cases buf; cases "tl buf") auto
  have k: "unat (k + 1) = unat k + 1" using 1(4) hi by (intro unat_inc16) simp
  have fresh: "block_map (k + 1) (pairs_of bs) k = None"
    using 1(4) hi by (intro block_map_fresh) (simp add: length_pairs_of)
  have "block_map (k + 1) (pairs_of bs) \<subseteq>\<^sub>m m"
    using 1(2) fresh by (fastforce simp: map_le_def dom_def)
  then have "load_pairs rd (k + 1) bf s = bs" using 1(3,4,6) buf(2) k by (intro 1(1)) simp_all
  moreover have "m k = Some (a, b)" using 1(2) by (simp add: map_le_def dom_def)
  then have "rd k (x, y) s = (a, b)" using rd_law [OF assms(1), of k "(x, y)"] 1(3,4) by simp
  ultimately show ?case by (simp add: buf)
qed auto

lemma load_none:
  assumes "holds s Map.empty" "lo \<le> unat k" "unat k + length buf div 2 \<le> hi"
  shows "load_pairs rd k buf s = buf"
  using assms(2,3)
proof (induction buf arbitrary: k rule: pairs_of.induct)
  case (1 a b bs)
  have "unat (k + 1) = unat k + 1" using 1(3) hi by (intro unat_inc16) simp
  then have "load_pairs rd (k + 1) bs s = bs" using 1(2,3) by (intro 1(1)) simp_all
  moreover have "rd k (a, b) s = (a, b)" using rd_law [OF assms(1), of k "(a, b)"] 1(2,3) by simp
  ultimately show ?case by simp
qed auto

end

text \<open>An EEPROM without pending failures, with the variables read as byte pairs.\<close>

definition halves :: "u16 \<Rightarrow> u8 \<times> u8" where
  "halves d = (ucast d, ucast (drop_bit 8 d))"

definition joined :: "u8 \<times> u8 \<Rightarrow> u16" where
  "joined p = ucast (fst p) OR push_bit 8 (ucast (snd p))"

lemma halves_joined [simp]: "halves (joined p) = p"
proof -
  have "ucast (ucast a OR push_bit 8 (ucast b :: u16)) = a" for a b :: u8
    by (rule bit_word_eqI) (auto simp: bit_simps)
  moreover have "ucast (drop_bit 8 (ucast a OR push_bit 8 (ucast b :: u16))) = b" for a b :: u8
    by (rule bit_word_eqI) (auto simp: bit_simps dest: bit_imp_le_length)
  ultimately show ?thesis by (cases p) (simp add: halves_def joined_def)
qed

definition ee_pairs :: "eeprom \<Rightarrow> (u16 \<Rightarrow> (u8 \<times> u8) option) \<Rightarrow> bool" where
  "ee_pairs s m \<longleftrightarrow> pending s = [] \<and> (\<exists>v. ee_holds s v \<and> m = map_option halves \<circ> v)"

lemma write_holds:
  assumes "ee_holds s m" "pending s = []" "is_var v"
  shows "ee_holds (snd (EE_WriteVariable v d s)) (m(v \<mapsto> d)) \<and> pending (snd (EE_WriteVariable v d s)) = []"
proof -
  obtain p l where s: "ready s" "written p l s" "m = vars_of l" using assms(1) by (auto simp: ee_holds_def)
  show ?thesis
    using ee_runs_success [OF write_runs [OF s(1,2) assms(3), of d]] assms(2) s(3) by (auto simp: ee_holds_def)
qed

lemma read_holds:
  assumes "ee_holds s m" "is_var v" "0 < n"
  shows "EE_ReadVariableByte v bs n s = (case m v of Some x \<Rightarrow> (0, halves x) | None \<Rightarrow> (1, bs))"
proof -
  obtain p l where "written p l s" "m = vars_of l" using assms(1) by (auto simp: ee_holds_def)
  then show ?thesis
    using read_byte_written [of p l s v] assms(2,3) by (auto simp: vars_of_def halves_def split: option.splits)
qed

lemma write_byte_joined: "EE_WriteVariableByte v p s = EE_WriteVariable v (joined p) s"
  by (simp add: write_byte_is_write joined_def)

interpretation cfg: pair_store ee_pairs START_VIR_ADD "Suc NB_OF_VAR"
  "\<lambda>k p s. snd (EE_WriteVariableByte k p s)" "\<lambda>k p s. snd (EE_ReadVariableByte k p 2 s)"
proof unfold_locales
  fix s m and k :: u16 and p :: "u8 \<times> u8"
  assume h: "ee_pairs s m" and "START_VIR_ADD \<le> unat k" "unat k < Suc NB_OF_VAR"
  then have k: "is_var k" by (simp add: is_var_def START_VIR_ADD_def NB_OF_VAR_def)
  from h obtain v where v: "ee_holds s v" "m = map_option halves \<circ> v" "pending s = []"
    by (auto simp: ee_pairs_def)
  show "ee_pairs (snd (EE_WriteVariableByte k p s)) (m(k \<mapsto> p))"
    unfolding ee_pairs_def write_byte_joined
    using write_holds [OF v(1,3) k, of "joined p"] v(2)
    by (intro conjI exI [of _ "v(k \<mapsto> joined p)"]) (auto simp: fun_eq_iff)
  show "snd (EE_ReadVariableByte k p 2 s) = (case m k of Some q \<Rightarrow> q | None \<Rightarrow> p)"
    unfolding read_holds [OF v(1) k, of 2, simplified] using v(2) by (auto split: option.splits)
qed (simp add: NB_OF_VAR_def)

section \<open>The configuration\<close>

datatype default_block = FactoryBlock | SavedBlock  \<comment> \<open>what \<open>g_psDefaultParameters\<close> points to\<close>

record config =
  nvram :: eeprom
  g_sParameters :: bytes
  g_sWorkingDefaultParameters :: bytes
  CurrentConfig :: bytes
  g_pucFlashPBCurrent :: bool  \<comment> \<open>points to \<open>CurrentConfig\<close>, or is NULL\<close>
  g_psDefaultParameters :: default_block

definition FlashPBSave :: "bytes \<Rightarrow> eeprom \<Rightarrow> bytes \<times> eeprom" where
  "FlashPBSave pucBuffer e =
     (let pucBuffer = pucBuffer[0 := 0xA5, 1 := 0xAA]
      in (pucBuffer, save_pairs (\<lambda>k p s. snd (EE_WriteVariableByte k p s)) (of_nat START_VIR_ADD) pucBuffer e))"

definition FlashPBGet :: "config \<Rightarrow> bytes option" where
  "FlashPBGet c = (if g_pucFlashPBCurrent c then Some (CurrentConfig c) else None)"

definition ConfigSave :: "config \<Rightarrow> config" where
  "ConfigSave c =
     (case FlashPBSave (g_sWorkingDefaultParameters c) (nvram c) of (buf, e) \<Rightarrow>
        let c = c\<lparr>g_sWorkingDefaultParameters := buf, nvram := e\<rparr> in
        c\<lparr>g_psDefaultParameters := (if FlashPBGet c \<noteq> None then SavedBlock else FactoryBlock)\<rparr>)"

definition ConfigReadFlash :: "config \<Rightarrow> bool \<times> config" where
  "ConfigReadFlash c =
     (let cur = load_pairs (\<lambda>k p s. snd (EE_ReadVariableByte k p 2 s)) (of_nat START_VIR_ADD) (CurrentConfig c) (nvram c);
          c = c\<lparr>CurrentConfig := cur\<rparr>
      in if cur ! 0 = 0xA5 \<and> cur ! 1 = 0xAA then (True, c) else (False, ConfigSave c))"

definition ConfigLoadFactory :: "bytes \<Rightarrow> config \<Rightarrow> config" where
  "ConfigLoadFactory factory c = c\<lparr>g_sParameters := factory, g_sWorkingDefaultParameters := factory\<rparr>"

definition ConfigLoad :: "config \<Rightarrow> config" where
  "ConfigLoad c =
     (case FlashPBGet c of
        Some pucBuffer \<Rightarrow> c\<lparr>g_sParameters := pucBuffer, g_sWorkingDefaultParameters := pucBuffer\<rparr>
      | None \<Rightarrow> c)"

text \<open>\<open>ConfigInit\<close> up to the choice of the default block; the rest of it parses the trap
  address with LwIP's \<^verbatim>\<open>inet_addr\<close> and copies the MAC address.\<close>

definition ConfigInit :: "bytes \<Rightarrow> config \<Rightarrow> config" where
  "ConfigInit factory c =
     (case ConfigReadFlash (ConfigLoadFactory factory c) of (found, c) \<Rightarrow>
        let c = ConfigLoad (c\<lparr>g_pucFlashPBCurrent := found\<rparr>)
        in c\<lparr>g_psDefaultParameters := (if FlashPBGet c \<noteq> None then SavedBlock else FactoryBlock)\<rparr>)"

text \<open>A start of the device: \<open>EE_Initialize\<close> and cleared variables, then \<open>ConfigInit\<close>.\<close>

definition config_start :: "bytes \<Rightarrow> eeprom \<Rightarrow> config" where
  "config_start factory e =
     ConfigInit factory \<lparr>nvram = ee_boot e, g_sParameters = replicate (length factory) 0,
       g_sWorkingDefaultParameters = replicate (length factory) 0,
       CurrentConfig = replicate (length factory) 0, g_pucFlashPBCurrent = False,
       g_psDefaultParameters = FactoryBlock\<rparr>"

definition stamped :: "bytes \<Rightarrow> bytes" where
  "stamped b = b[0 := 0xA5, 1 := 0xAA]"

section \<open>Start-up loads what was saved\<close>

lemma boot_holds:
  assumes "ee_holds s m"
  shows "ee_holds (ee_boot s) m \<and> pending (ee_boot s) = []"
proof -
  obtain p l where w: "written p l s" "vars_of l = m" using assms by (auto simp: ee_holds_def)
  then have "pages_are (ee_cells s) p VALID_PAGE l ERASED []" by (simp add: written_def)
  from boot_good [OF this] w show ?thesis by (auto simp: ee_holds_def)
qed

lemma boot_pairs: "ee_pairs s m \<Longrightarrow> ee_pairs (ee_boot s) m"
  unfolding ee_pairs_def using boot_holds by blast

lemma stamped_nth: "2 \<le> length b \<Longrightarrow> stamped b ! 0 = 0xA5 \<and> stamped b ! 1 = 0xAA"
  by (cases b; cases "tl b") (auto simp: stamped_def)

definition config_size :: "nat \<Rightarrow> bool" where
  "config_size n \<longleftrightarrow> 2 \<le> n \<and> even n \<and> n \<le> 2 * NB_OF_VAR"

lemma config_size_keys: "config_size n \<Longrightarrow> unat (of_nat START_VIR_ADD :: u16) + n div 2 \<le> Suc NB_OF_VAR"
  by (auto simp: config_size_def START_VIR_ADD_def)

lemma START_VIR_ADD_unat: "START_VIR_ADD \<le> unat (of_nat START_VIR_ADD :: u16)"
  by (simp add: START_VIR_ADD_def)

lemma read_saved:
  assumes "ee_pairs e m" "block_map (of_nat START_VIR_ADD) (pairs_of bs) \<subseteq>\<^sub>m m"
    "config_size (length bs)" "length buf = length bs"
  shows "load_pairs (\<lambda>k p s. snd (EE_ReadVariableByte k p 2 s)) (of_nat START_VIR_ADD) buf e = bs"
  using assms(3) config_size_keys
  by (intro cfg.load_saved [OF assms(1,2) START_VIR_ADD_unat _ assms(4)]) (auto simp: config_size_def)

lemma config_start_saved:
  assumes "ee_pairs (ee_boot e) m" "block_map (of_nat START_VIR_ADD) (pairs_of (stamped bs)) \<subseteq>\<^sub>m m"
    "config_size (length bs)" "length factory = length bs"
  shows "g_sParameters (config_start factory e) = stamped bs \<and>
    g_sWorkingDefaultParameters (config_start factory e) = stamped bs \<and>
    CurrentConfig (config_start factory e) = stamped bs \<and>
    g_psDefaultParameters (config_start factory e) = SavedBlock \<and> nvram (config_start factory e) = ee_boot e"
proof -
  have "load_pairs (\<lambda>k p s. snd (EE_ReadVariableByte k p 2 s)) (of_nat START_VIR_ADD)
      (replicate (length factory) 0) (ee_boot e) = stamped bs"
    using assms(3,4) by (intro read_saved [OF assms(1,2)]) (simp_all add: stamped_def)
  then show ?thesis
    using stamped_nth [of bs] assms(3)
    by (simp add: config_start_def ConfigInit_def ConfigReadFlash_def ConfigLoadFactory_def ConfigLoad_def
        FlashPBGet_def Let_def config_size_def)
qed

lemma ConfigSave_pairs:
  assumes "ee_pairs (nvram c) m" "config_size (length (g_sWorkingDefaultParameters c))"
  shows "ee_pairs (nvram (ConfigSave c))
    (m ++ block_map (of_nat START_VIR_ADD) (pairs_of (stamped (g_sWorkingDefaultParameters c))))"
  using cfg.save_holds [OF assms(1) START_VIR_ADD_unat, of "stamped (g_sWorkingDefaultParameters c)"]
    config_size_keys [OF assms(2)]
  by (simp add: ConfigSave_def FlashPBSave_def stamped_def Let_def)

section \<open>A save that is cut short\<close>

text \<open>After a failed operation the driver refuses every later one.\<close>

lemma program_not_ready: "\<not> ready s \<Longrightarrow> ee_program a d s = (latched (chip s), s)"
  by (simp add: ready_def ee_program_def FLASH_ProgramHalfWord_def FLASH_WaitForLastOperation_def)

lemma InitCurrWrAddress_chip: "chip (snd (InitCurrWrAddress s)) = chip s"
  by (simp add: InitCurrWrAddress_def Let_def)

lemma verify_not_ready:
  assumes "\<not> ready s"
  shows "chip (snd (EE_VerifyPageFullWriteVariable v d s)) = chip s"
proof -
  have "\<not> ready t" if "chip t = chip s" for t using assms that by (simp add: ready_def)
  then show ?thesis
    by (auto simp: EE_VerifyPageFullWriteVariable_def Let_def InitCurrWrAddress_chip ee_then_def program_not_ready ready_def
        split: prod.splits)
qed

lemma write_not_ready:
  assumes "\<not> ready s"
  shows "chip (snd (EE_WriteVariable v d s)) = chip s"
proof -
  have "chip (snd (EE_PageTransfer v d t)) = chip s" if t: "chip t = chip s" for t
  proof -
    have "\<not> ready t" "latched (chip t) \<noteq> FLASH_COMPLETE" using assms t by (simp_all add: ready_def)
    then show ?thesis using t by (auto simp: EE_PageTransfer_def Let_def ee_then_def program_not_ready)
  qed
  then show ?thesis
    using verify_not_ready [OF assms, of v d] by (auto simp: EE_WriteVariable_def split: prod.splits)
qed

lemma save_not_ready:
  "\<not> ready s \<Longrightarrow> chip (save_pairs (\<lambda>k p s. snd (EE_WriteVariableByte k p s)) k bs s) = chip s"
proof (induction bs arbitrary: k s rule: pairs_of.induct)
  case (1 a b bs)
  then have "chip (snd (EE_WriteVariableByte k (a, b) s)) = chip s" by (simp add: write_byte_joined write_not_ready)
  with 1 show ?case by (simp add: ready_def)
qed auto

lemma boot_cong: "ee_cells s = ee_cells t \<Longrightarrow> ee_boot s = ee_boot t"
proof -
  assume "ee_cells s = ee_cells t"
  then have "flash_reset (chip s) = flash_reset (chip t)" by (simp add: flash_reset_def)
  then show ?thesis by (simp only: ee_boot_def)
qed

lemma write_or_crash:
  assumes "ee_holds s m" "is_var v" "2 * card (dom m) + 2 \<le> SLOTS"
  shows "ee_holds (snd (EE_WriteVariable v d s)) (m(v \<mapsto> d)) \<or>
    \<not> ready (snd (EE_WriteVariable v d s)) \<and>
    pending (ee_boot (snd (EE_WriteVariable v d s))) = [] \<and>
    (\<exists>m'. ee_holds (ee_boot (snd (EE_WriteVariable v d s))) m' \<and> (m' = m \<or> m' = m(v \<mapsto> d)))"
proof -
  let ?r = "EE_WriteVariable v d s"
  obtain p l where s: "ready s" "written p l s" "m = vars_of l" using assms(1) by (auto simp: ee_holds_def)
  have "ready (snd ?r) \<and> (\<exists>p' l'. written p' l' (snd ?r) \<and> vars_of l' = m(v \<mapsto> d)) \<or>
      \<not> ready (snd ?r) \<and> write_crash p l v d (ee_cells (snd ?r))"
    using write_runs [OF s(1,2) assms(2), of d] s(3) by (auto simp: ee_runs_def)
  then show ?thesis
  proof (elim disjE conjE)
    assume "\<not> ready (snd ?r)" "write_crash p l v d (ee_cells (snd ?r))"
    then show ?thesis using boot_after_crash [OF _ assms(2)] assms(3) s(3) by blast
  qed (simp add: ee_holds_def)
qed

text \<open>Whatever fails, a prefix of the pairs is stored.\<close>

lemma save_prefix:
  assumes "ee_holds s v" "\<And>j. j < length bs div 2 \<Longrightarrow> is_var (k + of_nat j) \<and> v (k + of_nat j) \<noteq> None"
    "2 * card (dom v) + 2 \<le> SLOTS" "unat k + length bs div 2 \<le> 65535"
  shows "\<exists>j \<le> length bs div 2.
    ee_pairs (ee_boot (save_pairs (\<lambda>k p s. snd (EE_WriteVariableByte k p s)) k bs s))
      ((map_option halves \<circ> v) ++ block_map k (take j (pairs_of bs)))"
  using assms
proof (induction bs arbitrary: k s v rule: pairs_of.induct)
  case (1 a b bs)
  let ?sv = "save_pairs (\<lambda>k p s. snd (EE_WriteVariableByte k p s))"
  let ?d = "joined (a, b)" and ?t = "snd (EE_WriteVariableByte k (a, b) s)"
  have k: "is_var k" "v k \<noteq> None" using 1(3) [of 0] by auto
  have v': "map_option halves \<circ> v(k \<mapsto> ?d) = (map_option halves \<circ> v)(k \<mapsto> (a, b))" by (auto simp: fun_eq_iff)
  have dom: "dom (v(k \<mapsto> ?d)) = dom v" using k(2) by auto
  from write_or_crash [OF 1(2) k(1) 1(4), of ?d]
  consider (completed) "ee_holds (snd (EE_WriteVariable k ?d s)) (v(k \<mapsto> ?d))"
    | (crashed) m' where "\<not> ready (snd (EE_WriteVariable k ?d s))" "pending (ee_boot (snd (EE_WriteVariable k ?d s))) = []"
      "ee_holds (ee_boot (snd (EE_WriteVariable k ?d s))) m'" "m' = v \<or> m' = v(k \<mapsto> ?d)" by blast
  then show ?case
  proof cases
    case completed
    note t = completed
    have "\<exists>j \<le> length bs div 2. ee_pairs (ee_boot (?sv (k + 1) bs ?t))
        ((map_option halves \<circ> v(k \<mapsto> ?d)) ++ block_map (k + 1) (take j (pairs_of bs)))"
    proof (rule 1(1))
      show "ee_holds ?t (v(k \<mapsto> ?d))" using t by (simp add: write_byte_joined)
      show "is_var (k + 1 + of_nat j) \<and> (v(k \<mapsto> ?d)) (k + 1 + of_nat j) \<noteq> None" if "j < length bs div 2" for j
        using 1(3) [of "Suc j"] that by (simp add: add.assoc)
      show "2 * card (dom (v(k \<mapsto> ?d))) + 2 \<le> SLOTS" unfolding dom by (rule 1(4))
      show "unat (k + 1) + length bs div 2 \<le> 65535" using 1(5) unat_inc16 [of k] by auto
    qed
    then obtain j where j: "j \<le> length bs div 2" "ee_pairs (ee_boot (?sv (k + 1) bs ?t))
        ((map_option halves \<circ> v)(k \<mapsto> (a, b)) ++ block_map (k + 1) (take j (pairs_of bs)))" unfolding v' by auto
    have "block_map (k + 1) (take j (pairs_of bs)) k = None"
      using 1(5) j(1) by (intro block_map_fresh) (auto simp: length_pairs_of)
    then have "(map_option halves \<circ> v)(k \<mapsto> (a, b)) ++ block_map (k + 1) (take j (pairs_of bs)) =
        (map_option halves \<circ> v) ++ block_map k (take (Suc j) (pairs_of (a # b # bs)))"
      by (auto simp: map_add_def fun_eq_iff split: option.splits)
    then have "ee_pairs (ee_boot (?sv k (a # b # bs) s))
        ((map_option halves \<circ> v) ++ block_map k (take (Suc j) (pairs_of (a # b # bs))))"
      using j(2) by (simp only: save_pairs.simps)
    moreover have "Suc j \<le> length (a # b # bs) div 2" using j(1) by simp
    ultimately show ?thesis by blast
  next
    case (crashed m')
    note nr = crashed(1,2) and m' = crashed(3) and alt = crashed(4)
    have "ee_boot (?sv (k + 1) bs ?t) = ee_boot ?t"
    proof (rule boot_cong)
      have "chip (?sv (k + 1) bs ?t) = chip ?t"
        by (rule save_not_ready) (use nr(1) in \<open>simp add: write_byte_joined\<close>)
      then show "ee_cells (?sv (k + 1) bs ?t) = ee_cells ?t" by (rule arg_cong)
    qed
    moreover have "ee_pairs (ee_boot ?t) (map_option halves \<circ> m')"
      using m' nr(2) by (auto simp: ee_pairs_def write_byte_joined)
    ultimately have p: "ee_pairs (ee_boot (?sv k (a # b # bs) s)) (map_option halves \<circ> m')" by simp
    show ?thesis
    proof (cases "m' = v")
      case True
      moreover have "(map_option halves \<circ> v) ++ block_map k (take 0 (pairs_of (a # b # bs))) = map_option halves \<circ> v"
        by simp
      ultimately show ?thesis using p by (metis le0)
    next
      case False
      then have "map_option halves \<circ> m' = (map_option halves \<circ> v) ++ block_map k (take 1 (pairs_of (a # b # bs)))"
        using alt v' by simp
      moreover have "1 \<le> length (a # b # bs) div 2" by simp
      ultimately show ?thesis using p by metis
    qed
  qed
qed (auto simp: ee_pairs_def intro: boot_holds [THEN conjunct1] dest: boot_holds [THEN conjunct2])

text \<open>The flash operations from now on have the results \<open>os\<close>.\<close>

definition ee_flash :: "flash_outcome list \<Rightarrow> eeprom \<Rightarrow> eeprom" where
  "ee_flash os s = s\<lparr>chip := (chip s)\<lparr>outcomes := os\<rparr>\<rparr>"

lemma ee_flash_holds: "ee_holds s v \<Longrightarrow> ee_holds (ee_flash os s) v"
  by (simp add: ee_holds_def written_def ready_def ee_flash_def)

text \<open>Every prefix is reached: some number of completed flash operations, with the next one failing,
  leaves exactly that many pairs.\<close>

lemma boot_written_pairs:
  assumes "ready s" "written p l s"
  shows "ee_pairs (ee_boot s) (map_option halves \<circ> vars_of l)"
proof -
  have "ee_holds s (vars_of l)" using assms by (auto simp: ee_holds_def)
  then show ?thesis using boot_holds by (auto simp: ee_pairs_def)
qed

lemma save_reaches:
  assumes "j \<le> length bs div 2" "\<And>i. i < length bs div 2 \<Longrightarrow> is_var (k + of_nat i)"
    "unat k + length bs div 2 \<le> 65535"
  shows "\<exists>n. \<forall>s p. ready s \<longrightarrow> written p l s \<longrightarrow> pending s = replicate n Done @ [Fail e] \<longrightarrow>
    ee_pairs (ee_boot (save_pairs (\<lambda>k p s. snd (EE_WriteVariableByte k p s)) k bs s))
      ((map_option halves \<circ> vars_of l) ++ block_map k (take j (pairs_of bs)))"
  using assms
proof (induction bs arbitrary: j k l rule: pairs_of.induct)
  case (1 a b bs)
  let ?sv = "save_pairs (\<lambda>k p s. snd (EE_WriteVariableByte k p s))"
  let ?d = "joined (a, b)" and ?t = "\<lambda>s. snd (EE_WriteVariableByte k (a, b) s)"
  have k: "is_var k" using 1(3) [of 0] by simp
  show ?case
  proof (cases j)
    case 0
    have "ee_pairs (ee_boot (?sv k (a # b # bs) s)) (map_option halves \<circ> vars_of l)"
      if s: "ready s" "written p l s" "pending s = [Fail e]" for s p
    proof -
      have t: "ee_cells (?t s) = ee_cells s" "\<not> ready (?t s)"
        using write_fails [OF s] by (simp_all add: write_byte_joined)
      have "chip (?sv (k + 1) bs (?t s)) = chip (?t s)" by (rule save_not_ready [OF t(2)])
      then have "ee_boot (?sv k (a # b # bs) s) = ee_boot s" using t(1) by (intro boot_cong) simp
      then show ?thesis using boot_written_pairs [OF s(1,2)] by simp
    qed
    moreover have "(map_option halves \<circ> vars_of l) ++ block_map k (take j (pairs_of (a # b # bs))) =
        map_option halves \<circ> vars_of l" by (simp add: 0)
    ultimately show ?thesis by (metis append_Nil replicate_0)
  next
    case (Suc i)
    have "\<exists>n. \<forall>s p. ready s \<longrightarrow> written p (wrote l k ?d) s \<longrightarrow> pending s = replicate n Done @ [Fail e] \<longrightarrow>
        ee_pairs (ee_boot (?sv (k + 1) bs s))
          ((map_option halves \<circ> vars_of (wrote l k ?d)) ++ block_map (k + 1) (take i (pairs_of bs)))"
    proof (rule 1(1))
      show "is_var (k + 1 + of_nat x)" if "x < length bs div 2" for x
        using 1(3) [of "Suc x"] that by (simp add: add.assoc)
      show "unat (k + 1) + length bs div 2 \<le> 65535" using 1(4) unat_inc16 [of k] by auto
    qed (use 1(2) Suc in simp)
    then obtain n where n: "ready s \<Longrightarrow> written p (wrote l k ?d) s \<Longrightarrow> pending s = replicate n Done @ [Fail e] \<Longrightarrow>
        ee_pairs (ee_boot (?sv (k + 1) bs s))
          ((map_option halves \<circ> vars_of (wrote l k ?d)) ++ block_map (k + 1) (take i (pairs_of bs)))" for s p by blast
    have "block_map (k + 1) (take i (pairs_of bs)) k = None"
      using 1(2,4) Suc by (intro block_map_fresh) (auto simp: length_pairs_of)
    then have m: "(map_option halves \<circ> vars_of (wrote l k ?d)) ++ block_map (k + 1) (take i (pairs_of bs)) =
        (map_option halves \<circ> vars_of l) ++ block_map k (take j (pairs_of (a # b # bs)))"
      using k by (auto simp: Suc vars_of_wrote map_add_def fun_eq_iff split: option.splits)
    have "ee_pairs (ee_boot (?sv k (a # b # bs) s))
        ((map_option halves \<circ> vars_of l) ++ block_map k (take j (pairs_of (a # b # bs))))"
      if s: "ready s" "written p l s" and os: "pending s = replicate (write_steps l k + n) Done @ [Fail e]" for s p
    proof -
      have "pending s ! x = Done" if "x < write_steps l k" for x using that by (simp add: os nth_append)
      from ee_runs_success [OF write_runs_exact [OF s k, of ?d] this]
      obtain p' where "ready (?t s)" "written p' (wrote l k ?d) (?t s)" "pending (?t s) = replicate n Done @ [Fail e]"
        by (auto simp: write_byte_joined os)
      from n [OF this] show ?thesis unfolding m by simp
    qed
    then show ?thesis by blast
  qed
qed (auto simp: boot_written_pairs [unfolded comp_def] comp_def)

text \<open>A save of the working parameters during which the flash operations have the results \<open>os\<close>, and
  the block the next start loads: \<open>j\<close> new pairs, and the rest of the old block.\<close>

definition cut_save :: "flash_outcome list \<Rightarrow> config \<Rightarrow> config" where
  "cut_save os c = ConfigSave (c\<lparr>nvram := ee_flash os (nvram c)\<rparr>)"

definition started_with :: "bytes \<Rightarrow> config \<Rightarrow> bytes \<Rightarrow> bool" where
  "started_with factory c block \<longleftrightarrow>
     g_sParameters (config_start factory (nvram c)) = block \<and>
     g_sWorkingDefaultParameters (config_start factory (nvram c)) = block \<and>
     g_psDefaultParameters (config_start factory (nvram c)) = SavedBlock"

definition mixed :: "nat \<Rightarrow> bytes \<Rightarrow> bytes \<Rightarrow> bytes" where
  "mixed j new old = take (2 * j) (stamped new) @ drop (2 * j) (stamped old)"

definition saved_pairs :: "flash_outcome list \<Rightarrow> config \<Rightarrow> eeprom" where
  "saved_pairs os c = save_pairs (\<lambda>k p s. snd (EE_WriteVariableByte k p s)) (of_nat START_VIR_ADD)
     (stamped (g_sWorkingDefaultParameters c)) (ee_flash os (nvram c))"

lemma nvram_cut_save: "nvram (cut_save os c) = saved_pairs os c"
  by (simp add: cut_save_def saved_pairs_def ConfigSave_def FlashPBSave_def stamped_def Let_def)

lemma config_block_keys:
  assumes "config_size n"
  shows "unat (of_nat START_VIR_ADD :: u16) = 1" "unat (of_nat START_VIR_ADD :: u16) + n div 2 \<le> 65535"
    "j < n div 2 \<Longrightarrow> unat (of_nat START_VIR_ADD + of_nat j :: u16) = 1 + j \<and> is_var (of_nat START_VIR_ADD + of_nat j)"
proof -
  have n: "n div 2 \<le> NB_OF_VAR" using assms by (auto simp: config_size_def)
  then show "unat (of_nat START_VIR_ADD :: u16) = 1" "unat (of_nat START_VIR_ADD :: u16) + n div 2 \<le> 65535"
    by (simp_all add: START_VIR_ADD_def NB_OF_VAR_def)
  assume j: "j < n div 2"
  then have "1 + j < 65536" using n by (simp add: NB_OF_VAR_def)
  moreover have "of_nat START_VIR_ADD + of_nat j = (of_nat (1 + j) :: u16)" by (simp add: START_VIR_ADD_def)
  ultimately have "unat (of_nat START_VIR_ADD + of_nat j :: u16) = 1 + j" by (simp only: unat_of_nat16)
  then show "unat (of_nat START_VIR_ADD + of_nat j :: u16) = 1 + j \<and> is_var (of_nat START_VIR_ADD + of_nat j)"
    using j n by (simp add: is_var_def)
qed

lemma block_at:
  assumes "config_size n" "length ps \<le> n div 2"
  shows "block_map (of_nat START_VIR_ADD) ps x =
    (if 1 \<le> unat x \<and> unat x < 1 + length ps then Some (ps ! (unat x - 1)) else None)"
  using block_map_at [of "of_nat START_VIR_ADD" ps x] config_block_keys(1,2) [OF assms(1)] assms(2) by simp

lemma block_stored:
  assumes "block_map (of_nat START_VIR_ADD) (pairs_of (stamped old)) \<subseteq>\<^sub>m map_option halves \<circ> v"
    "config_size (length old)" "j < length old div 2"
  shows "v (of_nat START_VIR_ADD + of_nat j) \<noteq> None"
proof -
  have "block_map (of_nat START_VIR_ADD) (pairs_of (stamped old)) (of_nat START_VIR_ADD + of_nat j) \<noteq> None"
    using block_at [OF assms(2), of "pairs_of (stamped old)"] config_block_keys(3) [OF assms(2,3)] assms(3)
    by (simp add: length_pairs_of stamped_def)
  then show ?thesis using assms(1) by (fastforce simp: map_le_def dom_def)
qed

lemma stamped_mixed:
  assumes "j \<le> length old div 2" "config_size (length old)" "length new = length old"
  shows "length (mixed j new old) = length old \<and> stamped (mixed j new old) = mixed j new old"
proof -
  have len: "length (mixed j new old) = length old" using assms by (auto simp: mixed_def stamped_def)
  moreover have "stamped (mixed j new old) = mixed j new old"
  proof (rule nth_equalityI)
    fix i assume "i < length (stamped (mixed j new old))"
    then have i: "i < length old" using len by (simp add: stamped_def)
    consider "i = 0" | "i = 1" | "2 \<le> i" by linarith
    then show "stamped (mixed j new old) ! i = mixed j new old ! i"
      using i len assms stamped_nth [of new] stamped_nth [of old] stamped_nth [of "mixed j new old"]
      by cases (auto simp: nth_append config_size_def mixed_def stamped_def)
  qed (simp add: stamped_def)
  ultimately show ?thesis by simp
qed

lemma start_mixed:
  assumes p: "ee_pairs (ee_boot (saved_pairs os c)) ((map_option halves \<circ> v) ++
      block_map (of_nat START_VIR_ADD) (take j (pairs_of (stamped (g_sWorkingDefaultParameters c)))))"
    and old: "block_map (of_nat START_VIR_ADD) (pairs_of (stamped old)) \<subseteq>\<^sub>m map_option halves \<circ> v"
    and j: "j \<le> length old div 2" and size: "config_size (length old)"
    and len: "length (g_sWorkingDefaultParameters c) = length old" "length factory = length old"
  shows "started_with factory (cut_save os c) (mixed j (g_sWorkingDefaultParameters c) old)"
proof -
  let ?k = "of_nat START_VIR_ADD :: u16" and ?new = "g_sWorkingDefaultParameters c"
  let ?mix = "mixed j ?new old" and ?m = "map_option halves \<circ> v"
  note mix = stamped_mixed [OF j size len(1)]
  have lens: "length (stamped ?new) = length old" "length (stamped old) = length old" using len by (simp_all add: stamped_def)
  have "block_map ?k (pairs_of ?mix) \<subseteq>\<^sub>m ?m ++ block_map ?k (take j (pairs_of (stamped ?new)))"
  proof (unfold map_le_def, intro ballI)
    fix x assume "x \<in> dom (block_map ?k (pairs_of ?mix))"
    then have x: "1 \<le> unat x" "unat x < 1 + length old div 2"
      using mix by (auto simp: block_at [OF size] length_pairs_of dom_def split: if_splits)
    then have i: "unat x - 1 < length old div 2" "2 * (unat x - 1) + 1 < length old" by auto
    have "block_map ?k (pairs_of (stamped old)) x = Some (pairs_of (stamped old) ! (unat x - 1))"
      using x lens by (simp add: block_at [OF size] length_pairs_of)
    then have stored: "?m x = Some (pairs_of (stamped old) ! (unat x - 1))" using old by (auto simp: map_le_def dom_def)
    have "block_map ?k (take j (pairs_of (stamped ?new))) x =
        (if unat x < 1 + j then Some (pairs_of (stamped ?new) ! (unat x - 1)) else None)"
      using x j lens by (auto simp: block_at [OF size] length_pairs_of)
    moreover have "pairs_of ?mix ! (unat x - 1) =
        (if unat x - 1 < j then pairs_of (stamped ?new) ! (unat x - 1) else pairs_of (stamped old) ! (unat x - 1))"
      using i mix lens j by (simp add: pairs_of_nth) (auto simp: mixed_def nth_append)
    ultimately show "block_map ?k (pairs_of ?mix) x = (?m ++ block_map ?k (take j (pairs_of (stamped ?new)))) x"
      using stored x mix by (auto simp: map_add_def block_at [OF size] length_pairs_of)
  qed
  then show ?thesis
    using config_start_saved [OF p, of ?mix factory] mix size len by (simp add: started_with_def nvram_cut_save)
qed

section \<open>Properties\<close>

lemma blank_pairs: "ee_pairs (blank_eeprom []) Map.empty"
  unfolding ee_pairs_def using blank_holds [of "[]"] by (auto simp: blank_eeprom_def fun_eq_iff)

text \<open>C21. A configuration that was saved without a flash failure survives a power cycle: the next
  start loads exactly the saved bytes, with the magic in the first two, as the active and as the
  working parameters, for every block size the variables of the EEPROM can hold.\<close>

theorem ConfigSave_survives_restart:
  assumes "ee_pairs (nvram c) m" "config_size (length (g_sWorkingDefaultParameters c))"
    "length factory = length (g_sWorkingDefaultParameters c)"
  shows "g_sParameters (config_start factory (nvram (ConfigSave c))) = stamped (g_sWorkingDefaultParameters c) \<and>
    g_sWorkingDefaultParameters (config_start factory (nvram (ConfigSave c))) = stamped (g_sWorkingDefaultParameters c) \<and>
    g_psDefaultParameters (config_start factory (nvram (ConfigSave c))) = SavedBlock"
  using config_start_saved [OF boot_pairs [OF ConfigSave_pairs [OF assms(1,2)]] map_le_map_add assms(2,3)] by blast

definition blank_config :: "bytes \<Rightarrow> eeprom \<Rightarrow> config" where
  "blank_config w e = \<lparr>nvram = e, g_sParameters = w, g_sWorkingDefaultParameters = w, CurrentConfig = w,
     g_pucFlashPBCurrent = False, g_psDefaultParameters = FactoryBlock\<rparr>"

theorem ConfigSave_survives_restart_witness:
  "g_sParameters (config_start [0, 0, 0, 0] (nvram (ConfigSave (blank_config [1, 2, 3, 4] (blank_eeprom []))))) =
   [0xA5, 0xAA, 3, 4]"
  using ConfigSave_survives_restart [of "blank_config [1, 2, 3, 4] (blank_eeprom [])" Map.empty "[0, 0, 0, 0]"] blank_pairs
  by (simp add: blank_config_def config_size_def NB_OF_VAR_def stamped_def)

text \<open>A device whose EEPROM holds no configuration starts with the factory block and stores it, so
  that the next start finds it there.\<close>

theorem ConfigInit_first_start:
  assumes "ee_pairs e Map.empty" "config_size (length factory)"
  shows "g_sParameters (config_start factory e) = factory \<and>
    g_psDefaultParameters (config_start factory e) = FactoryBlock \<and>
    g_sParameters (config_start factory (nvram (config_start factory e))) = stamped factory"
proof -
  define z where "z = \<lparr>nvram = ee_boot e, g_sParameters = factory, g_sWorkingDefaultParameters = factory,
       CurrentConfig = replicate (length factory) 0, g_pucFlashPBCurrent = False, g_psDefaultParameters = FactoryBlock\<rparr>"
  have e: "ee_pairs (ee_boot e) Map.empty" by (rule boot_pairs [OF assms(1)])
  have keep: "load_pairs (\<lambda>k p s. snd (EE_ReadVariableByte k p 2 s)) (of_nat START_VIR_ADD)
      (replicate (length factory) 0) (ee_boot e) = replicate (length factory) 0"
    using config_size_keys [OF assms(2)] by (intro cfg.load_none [OF e START_VIR_ADD_unat]) simp
  have ne: "replicate (length factory) (0 :: u8) ! 0 \<noteq> 0xA5" using assms(2) by (cases factory) (simp_all add: config_size_def)
  have read: "ConfigReadFlash z = (False, ConfigSave z)"
    using keep ne unfolding ConfigReadFlash_def Let_def z_def by simp
  have z: "ConfigLoadFactory factory \<lparr>nvram = ee_boot e, g_sParameters = replicate (length factory) 0,
       g_sWorkingDefaultParameters = replicate (length factory) 0, CurrentConfig = replicate (length factory) 0,
       g_pucFlashPBCurrent = False, g_psDefaultParameters = FactoryBlock\<rparr> = z"
    by (simp add: ConfigLoadFactory_def z_def)
  have saved: "g_pucFlashPBCurrent (ConfigSave z) = False" "g_psDefaultParameters (ConfigSave z) = FactoryBlock"
      "g_sParameters (ConfigSave z) = factory"
    by (simp_all add: ConfigSave_def z_def FlashPBGet_def Let_def split_beta)
  have a: "(ConfigSave z)\<lparr>g_pucFlashPBCurrent := False\<rparr> = ConfigSave z" using saved(1) by simp
  have b: "(ConfigSave z)\<lparr>g_psDefaultParameters := FactoryBlock\<rparr> = ConfigSave z" using saved(2) by simp
  have c: "FlashPBGet (ConfigSave z) = None" using saved(1) by (simp add: FlashPBGet_def)
  have start: "config_start factory e = ConfigSave z"
    by (simp only: config_start_def ConfigInit_def z read prod.case Let_def a ConfigLoad_def c option.case b
        simp_thms if_False)
  have zw: "g_sWorkingDefaultParameters z = factory" and zn: "ee_pairs (nvram z) Map.empty"
    using e by (simp_all add: z_def)
  have "ee_pairs (nvram (ConfigSave z)) (Map.empty ++ block_map (of_nat START_VIR_ADD) (pairs_of (stamped factory)))"
    using ConfigSave_pairs [OF zn] assms(2) unfolding zw by blast
  from config_start_saved [OF boot_pairs [OF this] map_le_map_add assms(2) refl]
  have "g_sParameters (config_start factory (nvram (ConfigSave z))) = stamped factory" by blast
  then show ?thesis unfolding start using saved by blast
qed

theorem ConfigInit_first_start_witness:
  "g_sParameters (config_start [0, 0, 7, 8] (nvram (config_start [0, 0, 7, 8] (blank_eeprom [])))) = [0xA5, 0xAA, 7, 8]"
  using ConfigInit_first_start [OF blank_pairs, of "[0, 0, 7, 8]"]
  by (simp add: config_size_def NB_OF_VAR_def stamped_def)

text \<open>C35. A save that is cut short, by a power loss or a flash failure, leaves a block of which some
  first pairs of bytes are new and the rest is old; and every such mixture does come about, for each
  number of first pairs there is a number of completed flash operations after which a failure leaves
  exactly these. The next start accepts the mixture, whose magic is intact, as a valid configuration:
  no check code is stored with the block. (The variables in use must fit twice in a page, as for a
  single write.)\<close>

theorem ConfigSave_cut_short_mixes_blocks:
  assumes "ee_holds (nvram c) v" "block_map (of_nat START_VIR_ADD) (pairs_of (stamped old)) \<subseteq>\<^sub>m map_option halves \<circ> v"
    "2 * card (dom v) + 2 \<le> SLOTS" "config_size (length old)"
    "length (g_sWorkingDefaultParameters c) = length old" "length factory = length old"
  shows "(\<forall>os. \<exists>j \<le> length old div 2. started_with factory (cut_save os c) (mixed j (g_sWorkingDefaultParameters c) old)) \<and>
    (\<forall>j \<le> length old div 2. \<exists>n. started_with factory (cut_save (replicate n Done @ [Fail e]) c)
      (mixed j (g_sWorkingDefaultParameters c) old))"
proof -
  let ?k = "of_nat START_VIR_ADD :: u16" and ?new = "stamped (g_sWorkingDefaultParameters c)"
  note size = config_block_keys [OF assms(4)]
  have len: "length ?new = length old" using assms(5) by (simp add: stamped_def)
  have var: "is_var (?k + of_nat j) \<and> v (?k + of_nat j) \<noteq> None" if "j < length ?new div 2" for j
    using block_stored [OF assms(2,4), of j] size(3) [of j] that len by auto
  obtain p l where l: "ready (nvram c)" "written p l (nvram c)" "vars_of l = v" using assms(1) by (auto simp: ee_holds_def)
  have start: "started_with factory (cut_save os c) (mixed j (g_sWorkingDefaultParameters c) old)"
    if "j \<le> length old div 2" "ee_pairs (ee_boot (saved_pairs os c)) ((map_option halves \<circ> v) ++ block_map ?k (take j (pairs_of ?new)))"
    for os j
    using start_mixed [OF that(2) assms(2) that(1) assms(4-6)] .
  show ?thesis
  proof (intro conjI allI impI)
    fix os
    show "\<exists>j \<le> length old div 2. started_with factory (cut_save os c) (mixed j (g_sWorkingDefaultParameters c) old)"
    proof -
      have "\<exists>j \<le> length ?new div 2. ee_pairs (ee_boot (saved_pairs os c))
          ((map_option halves \<circ> v) ++ block_map ?k (take j (pairs_of ?new)))"
        unfolding saved_pairs_def
        by (rule save_prefix [OF ee_flash_holds [OF assms(1)] var assms(3)]) (use size(2) len in simp_all)
      then show ?thesis using start unfolding len by blast
    qed
  next
    fix j assume j: "j \<le> length old div 2"
    show "\<exists>n. started_with factory (cut_save (replicate n Done @ [Fail e]) c) (mixed j (g_sWorkingDefaultParameters c) old)"
    proof -
      have "\<exists>n. \<forall>s p. ready s \<longrightarrow> written p l s \<longrightarrow> pending s = replicate n Done @ [Fail e] \<longrightarrow>
          ee_pairs (ee_boot (save_pairs (\<lambda>k p s. snd (EE_WriteVariableByte k p s)) ?k ?new s))
            ((map_option halves \<circ> vars_of l) ++ block_map ?k (take j (pairs_of ?new)))"
        by (rule save_reaches) (use j len size(2) var in auto)
      then obtain n where n: "ready s \<Longrightarrow> written p l s \<Longrightarrow> pending s = replicate n Done @ [Fail e] \<Longrightarrow>
          ee_pairs (ee_boot (save_pairs (\<lambda>k p s. snd (EE_WriteVariableByte k p s)) ?k ?new s))
            ((map_option halves \<circ> v) ++ block_map ?k (take j (pairs_of ?new)))" for s p
        unfolding l(3) by blast
      have "ready (ee_flash os (nvram c))" "written p l (ee_flash os (nvram c))" "pending (ee_flash os (nvram c)) = os" for os
        using l(1,2) by (simp_all add: ee_flash_def ready_def written_def)
      from n [OF this] start [OF j] show ?thesis unfolding saved_pairs_def by blast
    qed
  qed
qed

text \<open>The witness: a device whose EEPROM holds the block \<open>A5 AA 3 4 5 6\<close>. Some failure in the save
  of a new block leaves its second pair new and its third one old.\<close>

definition three_pairs_eeprom :: eeprom where
  "three_pairs_eeprom =
    (let p = page_base PAGE0;
         c = ((\<lambda>_. 0xFFFF)(p := VALID_PAGE))(p + 4 := 0xAAA5, p + 6 := 1, p + 8 := 0x0403, p + 10 := 2,
               p + 12 := 0x0605, p + 14 := 3) in
     \<lparr>chip = \<lparr>cells = c, latched = FLASH_COMPLETE, outcomes = []\<rparr>, CurWrAddress = p + 16, DataVar = 0\<rparr>)"

lemma three_pairs_holds: "ee_holds three_pairs_eeprom [1 \<mapsto> 0xAAA5, 2 \<mapsto> 0x0403, 3 \<mapsto> 0x0605]"
proof -
  let ?p = "page_base PAGE0" and ?c = "(\<lambda>_. 0xFFFF)(page_base PAGE0 := VALID_PAGE)"
  have ne: "(1 :: u16, 0xAAA5 :: u16) \<noteq> (0xFFFF, 0xFFFF)" "(2 :: u16, 0x0403 :: u16) \<noteq> (0xFFFF, 0xFFFF)"
    "(3 :: u16, 0x0605 :: u16) \<noteq> (0xFFFF, 0xFFFF)" by simp_all
  have "pages_are ?c PAGE0 VALID_PAGE [] ERASED []"
    using blank_written by (simp add: written_def blank_eeprom_def)
  from pages_append [OF this _ ne(1)]
  have "pages_are (?c(?p + 4 := 0xAAA5, ?p + 6 := 1)) PAGE0 VALID_PAGE [(1, 0xAAA5)] ERASED []"
    by (simp add: SLOTS_def ac_simps)
  from pages_append [OF this _ ne(2)]
  have "pages_are (?c(?p + 4 := 0xAAA5, ?p + 6 := 1, ?p + 8 := 0x0403, ?p + 10 := 2))
      PAGE0 VALID_PAGE [(1, 0xAAA5), (2, 0x0403)] ERASED []"
    by (simp add: SLOTS_def ac_simps)
  from pages_append [OF this _ ne(3)]
  have "written PAGE0 [(1, 0xAAA5), (2, 0x0403), (3, 0x0605)] three_pairs_eeprom"
    by (simp add: SLOTS_def written_def three_pairs_eeprom_def Let_def ac_simps)
  moreover have "vars_of [(1, 0xAAA5), (2, 0x0403), (3, 0x0605)] = [1 \<mapsto> 0xAAA5, 2 \<mapsto> 0x0403, 3 \<mapsto> 0x0605]"
    by (auto simp: vars_of_def latest_def is_var_def NB_OF_VAR_def fun_eq_iff)
  moreover have "ready three_pairs_eeprom" by (simp add: ready_def three_pairs_eeprom_def Let_def)
  ultimately show ?thesis unfolding ee_holds_def by blast
qed

theorem ConfigSave_cut_short_mixes_blocks_witness:
  "\<exists>n. g_sParameters (config_start [0, 0, 0, 0, 0, 0]
      (nvram (cut_save (replicate n Done @ [Fail 6]) (blank_config [0, 0, 7, 8, 9, 10] three_pairs_eeprom)))) =
    [0xA5, 0xAA, 7, 8, 5, 6]"
proof -
  let ?c = "blank_config [0, 0, 7, 8, 9, 10] three_pairs_eeprom"
  have block: "block_map (of_nat START_VIR_ADD) (pairs_of (stamped [0, 0, 3, 4, 5, 6])) \<subseteq>\<^sub>m
      map_option halves \<circ> [1 \<mapsto> 0xAAA5, 2 \<mapsto> 0x0403, 3 \<mapsto> 0x0605]"
    by (auto simp: stamped_def START_VIR_ADD_def map_le_def halves_def)
  have space: "2 * card (dom [1 \<mapsto> 0xAAA5 :: u16, 2 :: u16 \<mapsto> 0x0403, 3 \<mapsto> 0x0605]) + 2 \<le> SLOTS"
    by (simp add: SLOTS_def card_insert_if)
  have "ee_holds (nvram ?c) [1 \<mapsto> 0xAAA5, 2 \<mapsto> 0x0403, 3 \<mapsto> 0x0605]" using three_pairs_holds by (simp add: blank_config_def)
  from ConfigSave_cut_short_mixes_blocks [OF this block space, of "[0, 0, 0, 0, 0, 0]" 6]
  have "\<exists>n. started_with [0, 0, 0, 0, 0, 0] (cut_save (replicate n Done @ [Fail 6]) ?c)
      (mixed 2 [0, 0, 7, 8, 9, 10] [0, 0, 3, 4, 5, 6])"
    by (simp add: blank_config_def config_size_def NB_OF_VAR_def)
  moreover have "mixed 2 [0, 0, 7, 8, 9, 10] [0, 0, 3, 4, 5, 6] = [0xA5, 0xAA, 7, 8, 5, 6]"
    by (simp add: mixed_def stamped_def)
  ultimately show ?thesis unfolding started_with_def by metis
qed

end
