(* ===== verification/SnmpBer.thy ===== *)
theory SnmpBer
  imports Prelude
begin

text \<open>
  The BER routines of the SNMP agent, \<^verbatim>\<open>APP/Snmp/snmp_SNMP.c\<close>: reading and writing of
  lengths, integers, strings and object identifiers, and the comparison of encoded identifiers.

  A read pointer is the list of the bytes from it to the end of the memory it points into; reading
  past that end is \<open>None\<close>, as is a shift by the width of the operand, which C leaves undefined.
  The encoders write backwards: a write pointer is the number of bytes free below it and the bytes
  above it.
\<close>

section \<open>Types and pointers\<close>

definition Integer :: u16 where "Integer = 0x02"
definition Identifier :: u16 where "Identifier = 0x06"

type_synonym wptr = "nat \<times> bytes"

fun push :: "u8 \<Rightarrow> wptr \<Rightarrow> wptr option" where
  "push b (0, out) = None"
| "push b (Suc n, out) = Some (n, b # out)"

definition low_byte :: "int \<Rightarrow> u8" where
  "low_byte i = word_of_int i"

section \<open>Reading\<close>

fun read_len_bytes :: "nat \<Rightarrow> u16 \<Rightarrow> bytes \<Rightarrow> (u16 \<times> bytes) option" where
  "read_len_bytes 0 len p = Some (len, p)"
| "read_len_bytes (Suc i1) len [] = None"
| "read_len_bytes (Suc i1) len (b # p) = read_len_bytes i1 (push_bit 8 len OR ucast b) p"

text \<open>The result is the length, an \<^verbatim>\<open>s16_t\<close>, and the new value of \<open>*pp\<close>.\<close>

fun snmpReadLength :: "bytes \<Rightarrow> u16 \<Rightarrow> (int \<times> bytes) option" where
  "snmpReadLength [] type = None"
| "snmpReadLength (t # p) type =
     (if ucast t \<noteq> type then Some (-1, t # p)
      else case p of
        [] \<Rightarrow> None
      | l # p' \<Rightarrow>
          if l AND 0x80 \<noteq> 0 then
            let i1 = unat (l AND 0x7F) in
            if i1 = 0 \<or> i1 > 2 then Some (-1, t # p)
            else map_option (\<lambda>(len, q). (sint len, q)) (read_len_bytes i1 0 p')
          else Some (int (unat l), p'))"

fun read_int_bytes :: "nat \<Rightarrow> u32 \<Rightarrow> bytes \<Rightarrow> (u32 \<times> bytes) option" where
  "read_int_bytes 0 ul1 p = Some (ul1, p)"
| "read_int_bytes (Suc i1) ul1 [] = None"
| "read_int_bytes (Suc i1) ul1 (b # p) = read_int_bytes i1 (push_bit 8 ul1 + ucast b) p"

text \<open>The sign extension shifts by \<open>8 * len\<close>, which must be less than the width.\<close>

definition sign_extend :: "nat \<Rightarrow> u32 \<Rightarrow> u32 option" where
  "sign_extend len ul1 = (if 8 * len < 32 then Some (ul1 OR push_bit (8 * len) 0xFFFFFFFF) else None)"

text \<open>The result is the length, \<open>*outp\<close> and \<open>*inp\<close>.\<close>

definition snmpReadInt :: "u8 \<Rightarrow> bytes \<Rightarrow> u16 \<Rightarrow> (int \<times> u32 \<times> bytes) option" where
  "snmpReadInt olen inp type =
     do {
       (len, p) \<leftarrow> snmpReadLength inp type;
       if len \<ge> 0 \<and> len \<le> int (unat olen) + 1 then
         do {
           first \<leftarrow> rd_at p 0;
           (ul1, q) \<leftarrow> read_int_bytes (nat len) 0 p;
           ul1 \<leftarrow> (if type = Integer \<and> first AND 0x80 \<noteq> 0 \<and> len \<noteq> 0 then sign_extend (nat len) ul1 else Some ul1);
           Some (len, ul1, q)
         }
       else Some (len, 0, p)
     }"

text \<open>The result is the length, the bytes copied to \<open>outp\<close> and \<open>*inp\<close>.\<close>

definition snmpReadVal :: "u8 \<Rightarrow> bytes \<Rightarrow> u16 \<Rightarrow> (int \<times> bytes \<times> bytes) option" where
  "snmpReadVal olen inp type =
     do {
       (len, p) \<leftarrow> snmpReadLength inp type;
       if len \<ge> 0 \<and> len \<le> int (unat olen) then
         if nat len \<le> length p then Some (len, take (nat len) p, drop (nat len) p) else None
       else Some (len, [], p)
     }"

section \<open>Writing\<close>

definition snmpRWriteLength :: "wptr \<Rightarrow> u16 \<Rightarrow> int \<Rightarrow> wptr option" where
  "snmpRWriteLength p type len =
     do {
       p \<leftarrow> (if len > 0x7F then
               if len > 255 then do { p \<leftarrow> push (low_byte len) p; p \<leftarrow> push (low_byte (len div 256)) p; push (2 OR 0x80) p }
               else do { p \<leftarrow> push (low_byte len) p; push (1 OR 0x80) p }
             else push (low_byte len) p);
       push (ucast type) p
     }"

text \<open>The number of bytes of a negative value, without its redundant leading ones.\<close>

fun int_len :: "u32 \<Rightarrow> nat \<Rightarrow> nat" where
  "int_len val 0 = 1"
| "int_len val (Suc i1) =
     (if (ucast (drop_bit (8 * Suc i1) val) :: u8) = 0xFF \<and> drop_bit (8 * i1) val AND 0x80 \<noteq> 0
      then int_len val i1 else Suc (Suc i1))"

lemma drop_bit8_less: "(v :: u32) \<noteq> 0 \<Longrightarrow> unat (drop_bit 8 v) < unat v"
proof -
  assume "v \<noteq> 0"
  then have "0 < unat v" by (simp add: unat_gt_0)
  moreover have "unat (drop_bit 8 v) = unat v div 256" unfolding unat_drop_bit_eq by (simp add: drop_bit_eq_div)
  ultimately show ?thesis by simp
qed

text \<open>The \<open>do\<close> loop: \<open>nn\<close> asks for a clear sign bit, \<open>i1\<close> counts down from the length and
  may become negative.\<close>

function write_int_loop :: "bool \<Rightarrow> u32 \<Rightarrow> int \<Rightarrow> wptr \<Rightarrow> (int \<times> wptr) option" where
  "write_int_loop nn val i1 p =
     do {
       p \<leftarrow> push (ucast val) p;
       if drop_bit 8 val \<noteq> 0 \<and> i1 - 1 > 0 \<or> nn \<and> val AND 0x80 \<noteq> 0
       then write_int_loop nn (drop_bit 8 val) (i1 - 1) p
       else Some (i1 - 1, p)
     }"
  by pat_completeness auto

termination
proof (relation "measure (\<lambda>(nn, val, i1, p). unat val)")
  fix nn :: bool and val :: u32 and i1 :: int and p q :: wptr
  assume "drop_bit 8 val \<noteq> 0 \<and> i1 - 1 > 0 \<or> nn \<and> val AND 0x80 \<noteq> 0"
  then have "val \<noteq> 0" by auto
  then show "((nn, drop_bit 8 val, i1 - 1, q), (nn, val, i1, p)) \<in> measure (\<lambda>(nn, val, i1, p). unat val)"
    by (simp add: drop_bit8_less)
qed simp

declare write_int_loop.simps [simp del]

text \<open>A signed value of \<open>len\<close> bytes with its sign bit set loses its redundant leading bytes and
  gets no extra zero byte. The shifts need \<open>1 \<le> len \<le> 4\<close>.\<close>

definition snmpRWriteInt :: "wptr \<Rightarrow> u32 \<Rightarrow> u16 \<Rightarrow> nat \<Rightarrow> wptr option" where
  "snmpRWriteInt p val type len =
     do {
       (len, nn) \<leftarrow>
         (if type = Integer then
            if 1 \<le> len \<and> len \<le> 4 then
              Some (if drop_bit (8 * (len - 1)) val AND 0x80 \<noteq> 0 then (int_len val (len - 1), False) else (len, True))
            else None
          else Some (len, True));
       (i1, p) \<leftarrow> write_int_loop nn val (int len) p;
       snmpRWriteLength p type (int len - i1)
     }"

text \<open>The copy from the end, which leaves out \<open>0xFF\<close> bytes; the result has the number left out.\<close>

fun push_skipping :: "bytes \<Rightarrow> wptr \<Rightarrow> int \<Rightarrow> (int \<times> wptr) option" where
  "push_skipping [] p count = Some (count, p)"
| "push_skipping (val # vs) p count =
     (if val = 0xFF then push_skipping vs p (count + 1)
      else do { p \<leftarrow> push val p; push_skipping vs p count })"

fun push_all :: "bytes \<Rightarrow> wptr \<Rightarrow> wptr option" where
  "push_all [] p = Some p"
| "push_all (v # vs) p = do { p \<leftarrow> push v p; push_all vs p }"

text \<open>\<open>count\<close> is a \<^verbatim>\<open>u8_t\<close>.\<close>

definition snmpRWriteVal :: "wptr \<Rightarrow> bytes \<Rightarrow> u16 \<Rightarrow> nat \<Rightarrow> wptr option" where
  "snmpRWriteVal p vp type len =
     (if type = Identifier then
        do {
          first \<leftarrow> rd_at vp 0;
          if len > length vp then None
          else if first = 0x2B then
            do { (count, p) \<leftarrow> push_skipping (rev (take len vp)) p 0;
                 snmpRWriteLength p type (int len - count mod 256) }
          else
            do { (count, p) \<leftarrow> push_skipping (rev (drop 2 (take len vp))) p 0;
                 p \<leftarrow> push 0x2B p;
                 snmpRWriteLength p type (int len - count mod 256 - 1) }
        }
      else if len > length vp then None
      else do { p \<leftarrow> push_all (rev (take len vp)) p; snmpRWriteLength p type (int len) })"

section \<open>Object identifiers\<close>

fun snmpDecodeID_loop :: "u32 \<Rightarrow> bytes \<Rightarrow> (u32 \<times> bytes) option" where
  "snmpDecodeID_loop val [] = None"
| "snmpDecodeID_loop val (b # p) =
     (if b AND 0x80 \<noteq> 0 then snmpDecodeID_loop (push_bit 7 val OR (ucast b AND 0x7F)) p
      else Some (push_bit 7 val OR ucast b, p))"

definition snmpDecodeID :: "bytes \<Rightarrow> (u32 \<times> bytes) option" where
  "snmpDecodeID inp = snmpDecodeID_loop 0 inp"

fun encode_chunks :: "nat \<Rightarrow> u32 \<Rightarrow> wptr \<Rightarrow> wptr option" where
  "encode_chunks 0 val p = Some p"
| "encode_chunks (Suc olen) val p =
     do {
       p \<leftarrow> push (ucast val OR 0x80) p;
       if drop_bit 7 val = 0 then Some p else encode_chunks olen (drop_bit 7 val) p
     }"

text \<open>The chunk written first, the one just below the old pointer, loses its continuation bit. No
  caller asks for 0 chunks, which would change a byte that the encoder did not write.\<close>

definition snmpEncodeID :: "wptr \<Rightarrow> nat \<Rightarrow> u32 \<Rightarrow> wptr option" where
  "snmpEncodeID p olen val =
     do {
       (n, out) \<leftarrow> encode_chunks olen val p;
       let k = length out - length (snd p);
       if k = 0 then None else Some (n, out[k - 1 := out ! (k - 1) AND NOT 0x80])
     }"

text \<open>The value of an identifier part from its differing byte on.\<close>

definition rest_of_id :: "u8 \<Rightarrow> bytes \<Rightarrow> u32 option" where
  "rest_of_id v op = (if v AND 0x80 \<noteq> 0 then map_option fst (snmpDecodeID_loop (ucast v AND 0x7F) op) else Some (ucast v))"

text \<open>The loop over the common length: the result is \<open>cmp\<close> and \<open>len - i1\<close>.\<close>

fun compare_loop :: "bytes \<Rightarrow> bytes \<Rightarrow> nat \<Rightarrow> (int \<times> nat) option" where
  "compare_loop op1 op2 0 = Some (0, 0)"
| "compare_loop (v1 # op1) (v2 # op2) (Suc n) =
     (if v1 = v2 then compare_loop op1 op2 n
      else if v1 AND 0x80 \<noteq> 0 \<or> v2 AND 0x80 \<noteq> 0 then
        do { r1 \<leftarrow> rest_of_id v1 op1; r2 \<leftarrow> rest_of_id v2 op2; Some (if r1 > r2 then 1 else - 1, Suc n) }
      else Some (int (unat v1) - int (unat v2), n))"
| "compare_loop _ _ (Suc n) = None"

definition snmpVCompare :: "bytes \<Rightarrow> nat \<Rightarrow> bytes \<Rightarrow> nat \<Rightarrow> int option" where
  "snmpVCompare op1 len1 op2 len2 =
     do {
       (cmp, rest) \<leftarrow> compare_loop op1 op2 (if len1 > len2 then len2 else len1);
       Some (cmp * 65536 * (if rest \<noteq> 0 then int rest else 1) + int len1 - int len2)
     }"

text \<open>The table is the list of the names of its objects; the result is the index of the object
  found, if any, and the last comparison.\<close>

fun find_oid_loop :: "bytes list \<Rightarrow> nat \<Rightarrow> bytes \<Rightarrow> nat \<Rightarrow> int \<Rightarrow> (nat \<times> int) option" where
  "find_oid_loop [] i valp vlen r = Some (i, r)"
| "find_oid_loop (name # names) i valp vlen r =
     do {
       r \<leftarrow> snmpVCompare valp vlen name (length name);
       if r = 0 then Some (i, r) else find_oid_loop names (Suc i) valp vlen r
     }"

definition snmpFindOID :: "bytes list option \<Rightarrow> bytes \<Rightarrow> nat \<Rightarrow> (nat option \<times> int) option" where
  "snmpFindOID base valp vlen =
     (case base of
        None \<Rightarrow> Some (None, 1)
      | Some names \<Rightarrow> do { (low, r) \<leftarrow> find_oid_loop names 0 valp vlen 0; Some (if r \<noteq> 0 then None else Some low, r) })"

end
