(* ===== verification/CString.thy ===== *)
theory CString
  imports CLib
begin

text \<open>
  C strings in memory: a character array with the terminators in it, and a pointer as an index. A
  read that runs off the array is \<open>None\<close>. Used where the sources walk a text by pointer, cut it
  with \<open>strtok\<close> or write into an array of fixed size; texts that are only compared are the
  plain lists of \<open>CLib\<close>.
\<close>

definition NUL :: char where "NUL = CHR 0x00"

lemma NUL_eq: "NUL = c \<longleftrightarrow> CHR 0x00 = c" "c = NUL \<longleftrightarrow> c = CHR 0x00"
  by (simp_all add: NUL_def)

section \<open>Reading\<close>

definition cstr_at :: "string \<Rightarrow> nat \<Rightarrow> string option" where
  "cstr_at a p =
     (let t = drop p a in if NUL \<in> set t then Some (takeWhile (\<lambda>c. c \<noteq> NUL) t) else None)"

text \<open>The text held by a buffer, from its start.\<close>

definition text_of :: "string \<Rightarrow> string" where
  "text_of a = takeWhile (\<lambda>c. c \<noteq> NUL) a"

text \<open>\<open>strtok(p, ds)\<close>, and \<open>strtok(NULL, ds)\<close> with \<open>p\<close> the place where the
  previous call stopped: the array with the delimiter overwritten, the token (\<open>None\<close> is the null
  pointer) and the place for the next call.\<close>

definition strtok :: "string \<Rightarrow> nat \<Rightarrow> string \<Rightarrow> (string \<times> nat option \<times> nat) option" where
  "strtok a p ds =
     (let t = drop p a; k = length (takeWhile (\<lambda>c. c \<in> set ds) t) in
      do {
        c \<leftarrow> rd_at t k;
        if c = NUL then Some (a, None, p + k)
        else do {
          let n = length (takeWhile (\<lambda>c. c \<notin> set ds \<and> c \<noteq> NUL) (drop k t));
          e \<leftarrow> rd_at t (k + n);
          if e = NUL then Some (a, Some (p + k), p + k + n)
          else Some (a[p + k + n := NUL], Some (p + k), p + k + n + 1)
        }
      })"

section \<open>Writing\<close>

definition strcpy :: "string \<Rightarrow> nat \<Rightarrow> string \<Rightarrow> string option" where
  "strcpy dst di s = memcpy dst di (s @ [NUL]) 0 (Suc (length s))"

text \<open>The array after a text and its terminator were written over its start.\<close>

definition put_text :: "string \<Rightarrow> string \<Rightarrow> string" where
  "put_text dst s = s @ NUL # drop (Suc (length s)) dst"

lemma strcpy_0: "length s < length dst \<Longrightarrow> strcpy dst 0 s = Some (put_text dst s)"
  by (simp add: strcpy_def memcpy_def put_text_def)

lemma strcpy_too_long: "length dst \<le> di + length s \<Longrightarrow> strcpy dst di s = None"
  by (simp add: strcpy_def memcpy_def)

lemma length_put_text [simp]: "length s < length dst \<Longrightarrow> length (put_text dst s) = length dst"
  by (simp add: put_text_def)

lemma takeWhile_to_NUL: "NUL \<notin> set s \<Longrightarrow> takeWhile (\<lambda>c. c \<noteq> NUL) (s @ NUL # t) = s"
proof -
  assume "NUL \<notin> set s"
  then have "\<And>c. c \<in> set s \<Longrightarrow> c \<noteq> NUL" by blast
  then show ?thesis by (simp add: takeWhile_append2)
qed

lemma text_of_put_text [simp]: "NUL \<notin> set s \<Longrightarrow> text_of (put_text dst s) = s"
  by (simp add: text_of_def put_text_def takeWhile_to_NUL)

lemma cstr_at_append: "NUL \<notin> set s \<Longrightarrow> cstr_at (u @ s @ NUL # t) (length u) = Some s"
  by (simp add: cstr_at_def takeWhile_to_NUL)

lemma strtok_token:
  assumes "s \<noteq> []" "NUL \<notin> set s" "set s \<inter> set ds = {}" "d \<in> set ds" "d \<noteq> NUL"
  shows "strtok (u @ s @ d # t) (length u) ds = Some (u @ s @ NUL # t, Some (length u), length u + length s + 1)"
proof -
  have no: "takeWhile (\<lambda>c. c \<in> set ds) (s @ d # t) = []"
    using assms(1,3) by (cases s) auto
  have tok: "takeWhile (\<lambda>c. c \<notin> set ds \<and> c \<noteq> NUL) (s @ d # t) = s"
  proof -
    have "\<And>c. c \<in> set s \<Longrightarrow> c \<notin> set ds \<and> c \<noteq> NUL" using assms(2,3) by blast
    then show ?thesis using assms(4) by (simp add: takeWhile_append2)
  qed
  from assms(1,2) have h: "(s @ d # t) ! 0 \<noteq> NUL" by (cases s) auto
  show ?thesis using h assms(1,5)
    by (simp add: strtok_def no tok rd_at_def Let_def nth_append list_update_append)
qed

lemma strtok_last:
  assumes "s \<noteq> []" "NUL \<notin> set s" "set s \<inter> set ds = {}" "NUL \<notin> set ds"
  shows "strtok (u @ s @ NUL # t) (length u) ds = Some (u @ s @ NUL # t, Some (length u), length u + length s)"
proof -
  have no: "takeWhile (\<lambda>c. c \<in> set ds) (s @ NUL # t) = []"
    using assms(1,3) by (cases s) auto
  have tok: "takeWhile (\<lambda>c. c \<notin> set ds \<and> c \<noteq> NUL) (s @ NUL # t) = s"
  proof -
    have "\<And>c. c \<in> set s \<Longrightarrow> c \<notin> set ds \<and> c \<noteq> NUL" using assms(2,3) by blast
    then show ?thesis by (simp add: takeWhile_append2)
  qed
  from assms(1,2) have h: "(s @ NUL # t) ! 0 \<noteq> NUL" by (cases s) auto
  show ?thesis using h assms(1)
    by (simp add: strtok_def no tok rd_at_def Let_def nth_append)
qed

section \<open>Decimal numbers\<close>

text \<open>\<open>atoi\<close>: blanks, a sign and the leading digits.\<close>

definition atoi :: "string \<Rightarrow> int" where
  "atoi s =
     (let t = dropWhile isspace s in
      case t of [] \<Rightarrow> 0
      | c # u \<Rightarrow>
          if c = CHR ''-'' then - int (digits_value 10 0 u)
          else if c = CHR ''+'' then int (digits_value 10 0 u)
          else int (digits_value 10 0 t))"

text \<open>\<open>atoi\<close> of a token; of the null pointer it is undefined.\<close>

definition atoi_at :: "string \<Rightarrow> nat option \<Rightarrow> int option" where
  "atoi_at a p = do { p \<leftarrow> p; t \<leftarrow> cstr_at a p; Some (atoi t) }"

text \<open>\<open>%d\<close> and \<open>%u\<close> of a number that is not negative, and a minimum width.\<close>

fun dec :: "nat \<Rightarrow> string" where
  "dec n = (if n < 10 then [char_of (48 + n)] else dec (n div 10) @ [char_of (48 + n mod 10)])"

declare dec.simps [simp del]

definition pad_left :: "char \<Rightarrow> nat \<Rightarrow> string \<Rightarrow> string" where
  "pad_left c w s = replicate (w - length s) c @ s"

lemma digit_val_char: "n < 10 \<Longrightarrow> digit_val (char_of (48 + n)) = Some n"
  by (simp add: digit_val_def of_char_of)

lemma digits_value_snoc:
  assumes "\<forall>c \<in> set s. is_digit_of 10 c"
  shows "digits_value 10 a (s @ t) = digits_value 10 (digits_value 10 a s) t"
  using assms by (induction s arbitrary: a) (auto simp: is_digit_of_def split: option.splits)

lemma dec_digits: "\<forall>c \<in> set (dec n). is_digit_of 10 c"
proof (induction n rule: dec.induct)
  case (1 n)
  have d: "m < 10 \<Longrightarrow> is_digit_of 10 (char_of (48 + m))" for m :: nat
    by (simp add: is_digit_of_def digit_val_char)
  show ?case
  proof (cases "n < 10")
    case True then show ?thesis using d by (simp add: dec.simps [of n])
  next
    case False then show ?thesis using 1 d [of "n mod 10"] by (simp add: dec.simps [of n])
  qed
qed

lemma digits_value_dec: "digits_value 10 0 (dec n) = n"
proof (induction n rule: dec.induct)
  case (1 n)
  show ?case
  proof (cases "n < 10")
    case True then show ?thesis by (simp add: dec.simps [of n] digit_val_char)
  next
    case False
    then show ?thesis using 1 dec_digits [of "n div 10"]
      by (simp add: dec.simps [of n] digits_value_snoc digit_val_char)
  qed
qed

lemma dec_length_le: "n < 10 ^ k \<Longrightarrow> 0 < k \<Longrightarrow> length (dec n) \<le> k"
proof (induction k arbitrary: n)
  case (Suc k)
  show ?case
  proof (cases "n < 10")
    case False
    then have "0 < k" using Suc.prems by (cases k) auto
    moreover have "n div 10 < 10 ^ k" using Suc.prems by (simp add: div_less_iff_less_mult mult.commute)
    ultimately show ?thesis using Suc.IH [of "n div 10"] False by (simp add: dec.simps [of n])
  qed (simp add: dec.simps [of n])
qed simp

lemma digit_not:
  assumes "is_digit_of 10 c" "digit_val d = None"
  shows "c \<noteq> d"
  using assms by (auto simp: is_digit_of_def)

lemma dec_no: "digit_val d = None \<Longrightarrow> d \<notin> set (dec n)"
  using dec_digits [of n] digit_not by blast

lemma digit_not_space: "is_digit_of 10 c \<Longrightarrow> \<not> isspace c"
  by (auto simp: is_digit_of_def digit_val_def isspace_def Let_def split: if_splits)

lemma dec_Cons: "\<exists>c t. dec n = c # t \<and> is_digit_of 10 c"
proof -
  have "dec n \<noteq> []" by (simp add: dec.simps [of n])
  with dec_digits [of n] show ?thesis by (cases "dec n") auto
qed

lemma atoi_digits:
  assumes "s \<noteq> []" "\<forall>c \<in> set s. is_digit_of 10 c"
  shows "atoi s = int (digits_value 10 0 s)"
proof -
  obtain c t where s: "s = c # t" using assms(1) by (cases s) auto
  then have d: "is_digit_of 10 c" using assms(2) by simp
  then have "c \<noteq> CHR ''-''" "c \<noteq> CHR ''+''"
    by (auto simp: is_digit_of_def digit_val_def split: if_splits)
  with s digit_not_space [OF d] show ?thesis by (simp add: atoi_def)
qed

lemma atoi_dec: "atoi (dec n) = int n"
proof -
  have "dec n \<noteq> []" by (simp add: dec.simps [of n])
  then show ?thesis using atoi_digits [OF _ dec_digits] by (simp add: digits_value_dec)
qed

end
