(* ===== verification/SnmpMib.thy ===== *)
theory SnmpMib
  imports SnmpBer CString
begin

text \<open>
  The objects the SNMP agent serves: the memory they live in, the MIB with its variables, its table
  and its callbacks (\<^verbatim>\<open>APP/Snmp/snmp_mib.C\<close>, \<^verbatim>\<open>APP/Snmp/snmp_SNMP.h\<close>), their initial values
  (\<^verbatim>\<open>APP/Snmp/snmp_snmpInit.c\<close>), and the two routines of \<^verbatim>\<open>APP/Snmp/snmp_SNMP.c\<close> that
  walk the table.
\<close>

section \<open>Memory\<close>

text \<open>The objects, each the bytes of one C object; a pointer is an object and an offset in it.\<close>

record snmp =
  objs :: "bytes list"
  analogPropertyNO :: nat
  snmp_Context :: bytes

type_synonym ptr = "nat \<times> nat"

definition load :: "snmp \<Rightarrow> ptr \<Rightarrow> nat \<Rightarrow> bytes option" where
  "load st p n =
     (if fst p < length (objs st) \<and> snd p + n \<le> length (objs st ! fst p)
      then Some (take n (drop (snd p) (objs st ! fst p))) else None)"

definition store :: "snmp \<Rightarrow> ptr \<Rightarrow> bytes \<Rightarrow> snmp option" where
  "store st p bs =
     (if fst p < length (objs st) \<and> snd p + length bs \<le> length (objs st ! fst p)
      then Some (st\<lparr>objs := (objs st)[fst p := take (snd p) (objs st ! fst p) @ bs @ drop (snd p + length bs) (objs st ! fst p)]\<rparr>)
      else None)"

text \<open>\<open>strlen\<close> in memory: the bytes up to the first zero.\<close>

definition load_text :: "snmp \<Rightarrow> ptr \<Rightarrow> bytes option" where
  "load_text st p =
     (if fst p < length (objs st) \<and> 0 \<in> set (drop (snd p) (objs st ! fst p))
      then Some (takeWhile (\<lambda>b. b \<noteq> 0) (drop (snd p) (objs st ! fst p))) else None)"

section \<open>The MIB\<close>

abbreviation (input) "String \<equiv> (0x04 :: u16)"
abbreviation (input) "Null \<equiv> (0x05 :: u16)"
abbreviation (input) "OctetString \<equiv> (0x14 :: u16)"
abbreviation (input) "Sequence \<equiv> (0x30 :: u16)"
abbreviation (input) "Counter \<equiv> (0x41 :: u16)"
abbreviation (input) "Gauge \<equiv> (0x42 :: u16)"
abbreviation (input) "Ticks \<equiv> (0x43 :: u16)"

abbreviation (input) "IMMED \<equiv> (0x01 :: u16)"
abbreviation (input) "IMMED2 \<equiv> (0x02 :: u16)"
abbreviation (input) "BASE1 \<equiv> (0x03 :: u16)"
abbreviation (input) "SCALAR \<equiv> (0x04 :: u16)"
abbreviation (input) "W \<equiv> (0x08 :: u16)"
abbreviation (input) "SX \<equiv> (0x10 :: u16)"
abbreviation (input) "NWORDER \<equiv> (0x20 :: u16)"
abbreviation (input) "CAR \<equiv> (0x40 :: u16)"
abbreviation (input) "CAW \<equiv> (0x80 :: u16)"
abbreviation (input) "NOACCESS \<equiv> (0x200 :: u16)"

record mibvar =
  oid :: bytes
  opt :: u16
  var_type :: u16
  var_len :: nat
  ptr :: ptr

record mibtab =
  tab_oid :: bytes
  ix :: "nat list"
  tab_len :: nat

text \<open>Objects: the system group, then \<^verbatim>\<open>analogPropertyTable\<close>, rows of 20 bytes: the index, a
  byte of padding, the column and the address.\<close>

abbreviation (input) "sys_descr \<equiv> (0, 0) :: ptr"
abbreviation (input) "sysObjectID \<equiv> (1, 0) :: ptr"
abbreviation (input) "SysTime \<equiv> (2, 0) :: ptr"
abbreviation (input) "sys_contact \<equiv> (3, 0) :: ptr"
abbreviation (input) "sys_name \<equiv> (4, 0) :: ptr"
abbreviation (input) "sys_location \<equiv> (5, 0) :: ptr"
abbreviation (input) "analogPropertyTable \<equiv> (6 :: nat)"
abbreviation (input) "sizeof_AnalogPropertyTable \<equiv> (20 :: nat)"

abbreviation (input) "XanalogIpIndex \<equiv> (7 :: nat)"
abbreviation (input) "XanalogIpColIndication \<equiv> (8 :: nat)"
abbreviation (input) "XanalogIp \<equiv> (9 :: nat)"

definition mibvar_ace :: "mibvar list" where
  "mibvar_ace =
     [\<lparr>oid = [0x2b, 6, 1, 2, 1, 1, 1, 0], opt = 0, var_type = String, var_len = 16, ptr = sys_descr\<rparr>,
      \<lparr>oid = [0x2b, 6, 1, 2, 1, 1, 2, 0], opt = 0, var_type = Identifier, var_len = 9, ptr = sysObjectID\<rparr>,
      \<lparr>oid = [0x2b, 6, 1, 2, 1, 1, 3, 0], opt = 0, var_type = Ticks, var_len = 4, ptr = SysTime\<rparr>,
      \<lparr>oid = [0x2b, 6, 1, 2, 1, 1, 4, 0], opt = W, var_type = String, var_len = 16, ptr = sys_contact\<rparr>,
      \<lparr>oid = [0x2b, 6, 1, 2, 1, 1, 5, 0], opt = W, var_type = String, var_len = 16, ptr = sys_name\<rparr>,
      \<lparr>oid = [0x2b, 6, 1, 2, 1, 1, 6, 0], opt = W, var_type = String, var_len = 16, ptr = sys_location\<rparr>,
      \<lparr>oid = [0x2b, 6, 1, 2, 1, 1, 7, 0], opt = IMMED, var_type = Integer, var_len = 0x4f, ptr = (0, 0)\<rparr>,
      \<lparr>oid = [0x2b, 6, 1, 4, 1, 0x82, 0xb9, 0x6c, 1, 1, 1, 1, 1], opt = 0, var_type = Integer, var_len = 2,
        ptr = (analogPropertyTable, 0)\<rparr>,
      \<lparr>oid = [0x2b, 6, 1, 4, 1, 0x82, 0xb9, 0x6c, 1, 1, 1, 1, 2], opt = W + CAW, var_type = Integer, var_len = 2,
        ptr = (analogPropertyTable, 2)\<rparr>,
      \<lparr>oid = [0x2b, 6, 1, 4, 1, 0x82, 0xb9, 0x6c, 1, 1, 1, 1, 3], opt = W + CAW, var_type = String, var_len = 17,
        ptr = (analogPropertyTable, 4)\<rparr>]"

text \<open>The flag of the table is \<^verbatim>\<open>analogPropertyNO\<close>.\<close>

definition mibtab_ace :: "mibtab list" where
  "mibtab_ace =
     [\<lparr>tab_oid = [0x2b, 6, 1, 4, 1, 0x82, 0xb9, 0x6c, 1, 1, 1], ix = [XanalogIpIndex], tab_len = sizeof_AnalogPropertyTable\<rparr>]"

text \<open>Every case of the callback of a set is empty.\<close>

definition mibset_ace :: "nat \<Rightarrow> int \<Rightarrow> snmp \<Rightarrow> snmp \<times> int" where
  "mibset_ace varix tabix st = (st, 0)"

definition mibget_ace :: "nat \<Rightarrow> int \<Rightarrow> ptr \<Rightarrow> ptr" where
  "mibget_ace varix tabix vvptr =
     (if varix = XanalogIpIndex then (analogPropertyTable, sizeof_AnalogPropertyTable * nat tabix)
      else if varix = XanalogIpColIndication then (analogPropertyTable, sizeof_AnalogPropertyTable * nat tabix + 2)
      else if varix = XanalogIp then (analogPropertyTable, sizeof_AnalogPropertyTable * nat tabix + 4)
      else vvptr)"

definition mibindex_ace :: "nat \<Rightarrow> int \<Rightarrow> snmp \<Rightarrow> int" where
  "mibindex_ace varix tabix st =
     (if varix \<ge> XanalogIpIndex \<and> varix \<le> XanalogIp then if tabix \<ge> int (analogPropertyNO st) then -1 else 1 else -1)"

section \<open>Initial values\<close>

definition text16 :: "string \<Rightarrow> bytes" where
  "text16 s = map of_char s @ replicate (16 - length s) 0"

text \<open>\<open>strncpy\<close> of 16 bytes.\<close>

definition strncpy16 :: "bytes \<Rightarrow> bytes" where
  "strncpy16 bs = (let t = takeWhile (\<lambda>b. b \<noteq> 0) (take 16 bs) in t @ replicate (16 - length t) 0)"

definition table_row :: "nat \<Rightarrow> bytes \<Rightarrow> bytes" where
  "table_row i b = [of_nat (i + 1), 0, 1, 0] @ strncpy16 b"

text \<open>\<open>buf\<close> are the 64 addresses read from the flash, \<open>community\<close> the community of the
  configuration.\<close>

definition snmpInit :: "bytes \<Rightarrow> bytes list \<Rightarrow> snmp" where
  "snmpInit community buf =
     \<lparr>objs = [text16 ''MTFS_30'', [0x2b, 6, 1, 4, 1, 0x82, 0xb9, 0x6c, 1] @ replicate 7 0, replicate 4 0,
        text16 ''MTFS_30'', text16 ''MTFS_30'', text16 ''MTFS_30'', concat (map (\<lambda>i. table_row i (buf ! i)) [0..<64])],
      analogPropertyNO = 64, snmp_Context = take 16 community\<rparr>"

section \<open>The index of a row\<close>

definition Oid_Len :: u8 where "Oid_Len = 3"

text \<open>Bytes of a number, the low one first.\<close>

definition le_value :: "bytes \<Rightarrow> u32" where
  "le_value bs = foldr (\<lambda>b v. push_bit 8 v + ucast b) bs 0"

definition be_value :: "bytes \<Rightarrow> u32" where
  "be_value bs = foldl (\<lambda>v b. push_bit 8 v + ucast b) 0 bs"

definition is_number :: "u16 \<Rightarrow> bool" where
  "is_number t \<longleftrightarrow> t = Integer \<or> t = Gauge \<or> t = Ticks \<or> t = Counter"

text \<open>One index of a row. The object the number or the text is read from is that of the index
  variable when it belongs to the table, and that of the variable asked for otherwise.\<close>

definition encode_index :: "snmp \<Rightarrow> mibtab \<Rightarrow> int \<Rightarrow> nat \<Rightarrow> nat \<Rightarrow> wptr \<Rightarrow> wptr option" where
  "encode_index st mtp tabix mvpold k p = do {
     let mvp = mibvar_ace ! k;
     sl1 \<leftarrow> snmpVCompare (tab_oid mtp) (length (tab_oid mtp)) (oid mvp) (length (oid mvp) - 2);
     if opt mvp AND SX \<noteq> 0 \<and> sl1 = 0 then snmpEncodeID p 1 (1 + word_of_int tabix)
     else do {
       let vptr = ptr mvp;
       let vptr =
         (if sl1 = 0 then
            let vptr = (if opt mvp AND SCALAR = 0 then (fst vptr, snd vptr + tab_len mtp * nat tabix) else vptr) in
            if opt mvp AND CAR \<noteq> 0 then mibget_ace k tabix vptr else vptr
          else mibget_ace mvpold tabix vptr);
       if opt mvp AND BASE1 = BASE1 then do {
         b \<leftarrow> load st vptr 1;
         snmpEncodeID p 1 (ucast (hd b) + 1)
       } else if is_number (var_type mvp) then do {
         bs \<leftarrow> load st vptr (var_len mvp);
         let ul1 = (if opt mvp AND NWORDER = 0 then if var_len mvp \<in> {1, 2, 4} then le_value bs else 0 else be_value bs);
         snmpEncodeID p (var_len mvp + 1) ul1
       } else if var_type mvp = Identifier then do {
         bs \<leftarrow> load st vptr (var_len mvp);
         let bs = filter (\<lambda>b. b \<noteq> 255) bs;
         p \<leftarrow> push_all (rev bs) p;
         push (of_nat (length bs) - Oid_Len + 1) p
       } else do {
         bs \<leftarrow> load st vptr (var_len mvp);
         push_all (rev bs) p
       }
     }
   }"

fun encode_indices :: "snmp \<Rightarrow> mibtab \<Rightarrow> int \<Rightarrow> nat \<Rightarrow> nat list \<Rightarrow> wptr \<Rightarrow> wptr option" where
  "encode_indices st mtp tabix mvpold [] p = Some p"
| "encode_indices st mtp tabix mvpold (k # ks) p = do {
     p \<leftarrow> encode_index st mtp tabix mvpold k p;
     encode_indices st mtp tabix mvpold ks p
   }"

definition snmpEncodeIndex :: "snmp \<Rightarrow> mibtab \<Rightarrow> int \<Rightarrow> nat \<Rightarrow> wptr \<Rightarrow> wptr option" where
  "snmpEncodeIndex st mtp tabix mvpold p = encode_indices st mtp tabix mvpold (rev (ix mtp)) p"

abbreviation (input) "MAXKLEN \<equiv> (22 :: nat)"

text \<open>The comparison of the index of row \<open>i1\<close> with the index asked for.\<close>

definition compare_row :: "snmp \<Rightarrow> mibtab \<Rightarrow> nat \<Rightarrow> bytes \<Rightarrow> nat \<Rightarrow> int \<Rightarrow> int option" where
  "compare_row st mtp mvp reqixname reqixlen i1 = do {
     (_, cp) \<leftarrow> snmpEncodeIndex st mtp i1 mvp (MAXKLEN, []);
     snmpVCompare cp (length cp) reqixname reqixlen
   }"

text \<open>The rows in order, from \<open>i1\<close> on: the first that \<open>ok\<close> accepts, and the row the search stopped
  at.\<close>

function find_row :: "snmp \<Rightarrow> nat \<Rightarrow> (int \<Rightarrow> int option) \<Rightarrow> (int \<Rightarrow> bool) \<Rightarrow> int \<Rightarrow> (bool \<times> int) option" where
  "find_row st mvp cmp ok i1 =
     (let i3 = mibindex_ace mvp i1 st in
      if i3 < 0 then Some (False, i1)
      else if i3 = 0 then find_row st mvp cmp ok (i1 + 1)
      else do {
        sl1 \<leftarrow> cmp i1;
        if ok sl1 then Some (True, i1) else find_row st mvp cmp ok (i1 + 1)
      })"
  by pat_completeness auto
termination
  by (relation "measure (\<lambda>(st, mvp, cmp, ok, i1). nat (int (analogPropertyNO st) - i1))")
    (auto simp: mibindex_ace_def split: if_splits)

declare find_row.simps [simp del]

text \<open>The result is the row, and whether it was found.\<close>

definition snmpFindIndex :: "snmp \<Rightarrow> mibtab \<Rightarrow> nat \<Rightarrow> bytes \<Rightarrow> nat \<Rightarrow> bool \<Rightarrow> (int \<times> bool) option" where
  "snmpFindIndex st mtp mvp reqixname reqixlen nflag = do {
     let cmp = compare_row st mtp mvp reqixname reqixlen;
     (exact, i1) \<leftarrow> (if nflag then find_row st mvp cmp (\<lambda>sl1. sl1 = 0) 0 else Some (False, 0));
     if exact then
       if mibindex_ace mvp (i1 + 1) st > 0 then Some (i1 + 1, True) else Some (i1, False)
     else do {
       (found, i1) \<leftarrow> find_row st mvp cmp (if nflag then (\<lambda>sl1. sl1 \<ge> 255) else (\<lambda>sl1. sl1 = 0)) 0;
       Some (i1, found)
     }
   }"

end
