(* ===== verification/SnmpAgent.thy ===== *)
theory SnmpAgent
  imports SnmpMib
begin

text \<open>
  The SNMP agent, from the request to the reply: \<^verbatim>\<open>APP/Snmp/snmp_snmpAgent.c\<close> and the
  receiving half of \<^verbatim>\<open>APP/Snmp/snmp_main.c\<close>.
\<close>

section \<open>Constants\<close>

abbreviation (input) "GetRequest \<equiv> (0xa0 :: u8)"
abbreviation (input) "GetNextRequest \<equiv> (0xa1 :: u8)"
abbreviation (input) "GetResponse \<equiv> (0xa2 :: u16)"
abbreviation (input) "SetRequest \<equiv> (0xa3 :: u8)"
abbreviation (input) "GetBulkRequest \<equiv> (0xa5 :: u8)"

abbreviation (input) "tooBig \<equiv> (1 :: u8)"
abbreviation (input) "noSuchName \<equiv> (2 :: u8)"
abbreviation (input) "badValue \<equiv> (3 :: u8)"
abbreviation (input) "readOnly \<equiv> (4 :: u8)"
abbreviation (input) "genErr \<equiv> (5 :: u8)"
abbreviation (input) "noAccess \<equiv> (6 :: u8)"
abbreviation (input) "wrongLength \<equiv> (8 :: u8)"
abbreviation (input) "MAXVAR \<equiv> (60 :: nat)"

text \<open>\<open>strncmp\<close> of 16 bytes.\<close>

definition isAccessAllowed :: "snmp \<Rightarrow> bytes \<Rightarrow> bool" where
  "isAccessAllowed st contextName \<longleftrightarrow>
     takeWhile (\<lambda>b. b \<noteq> 0) (take 16 (contextName @ [0])) = takeWhile (\<lambda>b. b \<noteq> 0) (take 16 (snmp_Context st @ [0]))"

section \<open>The message\<close>

text \<open>\<open>None\<close> is undefined behaviour, \<open>Some None\<close> the label \<^verbatim>\<open>err_parse\<close>. The results of the
  loop are the places of the variable bindings, the read pointer behind them, and whether there were
  too many.\<close>

lemma read_length_shorter: "snmpReadLength inp t = Some (n, p) \<Longrightarrow> 0 < n \<Longrightarrow> length p < length inp"
proof -
  have r: "read_len_bytes k l q = Some (l', q') \<Longrightarrow> length q' \<le> length q" for k l q l' q'
    by (induction k l q rule: read_len_bytes.induct) (auto dest: le_SucI)
  assume "snmpReadLength inp t = Some (n, p)" "0 < n"
  then show ?thesis
    by (cases inp; cases "tl inp")
      (auto simp: Let_def split: if_splits dest!: r)
qed

function varbind_loop :: "bytes \<Rightarrow> bytes list \<Rightarrow> (bytes list \<times> bytes \<times> bool) option option" where
  "varbind_loop inp vs =
     (if inp = [] then Some (Some (vs, inp, False))
      else case snmpReadLength inp Sequence of
        None \<Rightarrow> None
      | Some (len2, p) \<Rightarrow>
          if len2 \<le> 0 \<or> length p < nat len2 then Some None
          else
            let inp' = drop (nat len2) p; vs' = vs @ [inp] in
            if length vs' \<ge> MAXVAR then Some (Some (vs', inp', True)) else varbind_loop inp' vs')"
  by pat_completeness auto
termination
  by (relation "measure (\<lambda>(inp, vs). length inp)") (auto dest!: read_length_shorter)

declare varbind_loop.simps [simp del]

record request =
  version :: u8
  contextName :: bytes
  reserved :: nat
  pdu :: u8
  reqid :: u32
  varbinds :: "bytes list"
  first :: bytes
  too_big :: bool

text \<open>The community is copied to the start of the output buffer when it has at most 64 bytes, the
  low byte of the size 320 of the buffer; a longer one is not copied and not skipped. \<open>reserved\<close> is
  the part of the buffer it takes.\<close>

definition read_context :: "nat \<Rightarrow> bytes \<Rightarrow> (bytes \<times> nat \<times> bytes) option option" where
  "read_context olen inp =
     (case snmpReadVal (of_nat olen) inp String of
        None \<Rightarrow> None
      | Some (len, bs, p) \<Rightarrow>
          if len < 0 \<or> nat len > olen then Some None
          else if nat len + 1 \<ge> olen then None
          else if nat len \<le> unat (of_nat olen :: u8) then Some (Some (takeWhile (\<lambda>b. b \<noteq> 0) bs, nat len + 2, p))
          else Some (Some ([], nat len + 2, p)))"

text \<open>\<open>need\<close> reads a number and gives up on the lengths \<open>bad\<close>.\<close>

definition need :: "(int \<Rightarrow> bool) \<Rightarrow> (int \<times> 'a) option \<Rightarrow> ('a \<Rightarrow> 'b option option) \<Rightarrow> 'b option option" where
  "need bad r k = (case r of None \<Rightarrow> None | Some (len, x) \<Rightarrow> if bad len then Some None else k x)"

definition read_request :: "nat \<Rightarrow> bytes \<Rightarrow> request option option" where
  "read_request olen ibp =
     (case snmpReadLength ibp Sequence of
        None \<Rightarrow> None
      | Some (len, inp) \<Rightarrow>
          if len \<le> 0 then Some None
          else
            let chkp = int (length inp) - len in
            need (\<lambda>len. len \<le> 0 \<or> len > 4) (snmpReadInt 4 inp Integer) (\<lambda>(ul1, inp).
              let version = (ucast ul1 :: u8) in
              if version \<noteq> 0 \<and> version \<noteq> 1 then Some None
              else case read_context olen inp of
                None \<Rightarrow> None
              | Some None \<Rightarrow> Some None
              | Some (Some (name, res, [])) \<Rightarrow> None
              | Some (Some (name, res, t # inp)) \<Rightarrow>
                  need (\<lambda>len. len \<le> 0) (snmpReadLength (t # inp) (ucast t)) (\<lambda>inp.
                  need (\<lambda>len. len < 1) (snmpReadInt 4 inp Integer) (\<lambda>(reqid, inp).
                  need (\<lambda>len. len \<le> 0) (snmpReadInt 4 inp Integer) (\<lambda>(nonrep, inp).
                  need (\<lambda>len. len \<le> 0) (snmpReadInt 4 inp Integer) (\<lambda>(maxrep, inp).
                  need (\<lambda>len. len < 0) (snmpReadLength inp Sequence) (\<lambda>inp.
                    case varbind_loop inp [] of
                      None \<Rightarrow> None
                    | Some None \<Rightarrow> Some None
                    | Some (Some (vs, rest, big)) \<Rightarrow>
                        if int (length rest) \<noteq> chkp then Some None
                        else Some (Some \<lparr>version = version, contextName = name, reserved = res, pdu = t, reqid = reqid,
                          varbinds = vs, first = inp, too_big = big\<rparr>))))))))"

section \<open>Search\<close>

datatype search = Found nat int "mibtab option" | Missing | No_Table

text \<open>\<open>snmpFindOID\<close> with the name of a variable without its last two identifiers.\<close>

definition table_of :: "mibvar \<Rightarrow> mibtab option option" where
  "table_of mvp = do {
     (low, sl1) \<leftarrow> snmpFindOID (Some (map tab_oid mibtab_ace)) (oid mvp) (length (oid mvp) - 2);
     case low of None \<Rightarrow> Some None
     | Some k \<Rightarrow> if k < length mibtab_ace then Some (if sl1 = 0 then Some (mibtab_ace ! k) else None) else None
   }"

definition column :: "mibvar \<Rightarrow> int" where "column mvp = int (unat (last (oid mvp))) - 1"

text \<open>The variables in order, from \<open>i\<close> on. \<open>get_or_set\<close> is false for a request of the next
  variable, and \<open>nflag\<close> its opposite. \<open>mtp\<close> is the table found last, \<open>cur\<close> the variable and column
  that the loop ends with: a variable without access is left in \<open>mvp\<close>.\<close>

fun search_mib :: "snmp \<Rightarrow> bool \<Rightarrow> bytes \<Rightarrow> nat \<Rightarrow> (nat \<times> mibvar) list \<Rightarrow> mibtab option \<Rightarrow> int \<Rightarrow> nat option \<Rightarrow> search option" where
  "search_mib st get_or_set inp len2 [] mtp tabix cur = Some (case cur of None \<Rightarrow> Missing | Some i \<Rightarrow> Found i tabix mtp)"
| "search_mib st get_or_set inp len2 ((i, mvp) # vs) mtp tabix cur =
     (if opt mvp = NOACCESS then search_mib st get_or_set inp len2 vs mtp tabix (Some i)
      else do {
        r \<leftarrow> snmpVCompare inp len2 (oid mvp) (length (oid mvp));
        let col = column mvp;
        if r = 0 then
          if col < 0 then
            if get_or_set then Some (Found i (-1) mtp) else search_mib st get_or_set inp len2 vs mtp col None
          else if get_or_set then search_mib st get_or_set inp len2 vs mtp col None
          else do {
            t \<leftarrow> table_of mvp;
            case t of None \<Rightarrow> Some No_Table
            | Some t \<Rightarrow>
                if analogPropertyNO st = 0 then search_mib st get_or_set inp len2 vs (Some t) col None
                else Some (Found i 0 (Some t))
          }
        else if r > 0 \<and> r < 255 then
          if col \<ge> 0 then do {
            t \<leftarrow> table_of mvp;
            case t of None \<Rightarrow> Some No_Table
            | Some t \<Rightarrow> do {
                let n = length (oid mvp);
                (tabix, sl1) \<leftarrow> snmpFindIndex st t i (drop n inp) (unat (of_nat (len2 - n) :: u8)) (\<not> get_or_set);
                if sl1 then Some (Found i tabix (Some t)) else search_mib st get_or_set inp len2 vs (Some t) tabix None
              }
          } else search_mib st get_or_set inp len2 vs mtp col None
        else if r < 0 then
          if get_or_set then Some Missing
          else if col < 0 then Some (Found i (-1) mtp)
          else do {
            t \<leftarrow> table_of mvp;
            case t of None \<Rightarrow> Some No_Table
            | Some t \<Rightarrow>
                if analogPropertyNO st = 0 then search_mib st get_or_set inp len2 vs (Some t) col None
                else Some (Found i 0 (Some t))
          }
        else search_mib st get_or_set inp len2 vs mtp tabix None
      })"

definition find_var :: "snmp \<Rightarrow> bool \<Rightarrow> bytes \<Rightarrow> nat \<Rightarrow> search option" where
  "find_var st get_or_set inp len2 = search_mib st get_or_set inp len2 (enumerate 0 mibvar_ace) None (-1) None"

section \<open>One variable\<close>

text \<open>What becomes of a variable: its value was written, an error has to be reported, or the whole
  request is dropped.\<close>

datatype outcome = Written snmp wptr | Error u8 bytes | Dropped snmp

text \<open>The length check of a set; \<open>inp\<close> is the value, \<open>chkp2\<close> the memory behind its length. The
  second component is the byte that fills a short number.\<close>

definition check_set :: "mibvar \<Rightarrow> bytes \<Rightarrow> ((u8 \<times> u8 \<times> bytes) option) option" where
  "check_set mvp inp = do {
     (len, chkp2) \<leftarrow> snmpReadLength inp (if var_type mvp = OctetString then String else var_type mvp);
     if len < 0 then Some None
     else if opt mvp AND W = 0 then Some (Some (readOnly, 0, chkp2))
     else if is_number (var_type mvp) \<or> var_type mvp = OctetString then do {
       c \<leftarrow> (if var_type mvp = Integer then rd_at chkp2 0 else Some 0);
       Some (Some (if len > int (var_len mvp) \<or> len < 1 then wrongLength else 0,
         if c AND 0x80 \<noteq> 0 then 0xff else 0, chkp2))
     } else if var_type mvp = String then Some (Some (if len \<ge> int (var_len mvp) then wrongLength else 0, 0, chkp2))
     else Some (Some (if len \<noteq> int (var_len mvp) then wrongLength else 0, 0, chkp2))
   }"

text \<open>The place of the value: the variable, or that of its row. The option \<open>SX\<close> in a row makes it the
  row number itself, which is not memory of an object.\<close>

definition value_ptr :: "bool \<Rightarrow> nat \<Rightarrow> int \<Rightarrow> mibtab option \<Rightarrow> ptr option" where
  "value_ptr wr i tabix mtp =
     (let mvp = mibvar_ace ! i;
          valp = (if \<not> wr \<and> opt mvp AND CAR \<noteq> 0 then mibget_ace i tabix (ptr mvp) else ptr mvp) in
      if tabix < 0 then Some valp
      else if opt mvp AND SX \<noteq> 0 then None
      else if opt mvp AND SCALAR = 0 \<and> opt mvp AND CAR = 0 then
        (case mtp of None \<Rightarrow> None | Some t \<Rightarrow> Some (fst valp, snd valp + tab_len t * nat tabix))
      else Some valp)"

definition put_number :: "bool \<Rightarrow> mibvar \<Rightarrow> ptr \<Rightarrow> u8 \<Rightarrow> bytes \<Rightarrow> snmp \<Rightarrow> snmp option option" where
  "put_number wr mvp valp i3 inp st =
     (if \<not> wr then Some (Some st)
      else do {
        (n, ul1, _) \<leftarrow> snmpReadInt (of_nat (var_len mvp)) inp (var_type mvp);
        if n < 1 then Some None
        else do {
          let i2 = min (nat n) (var_len mvp);
          let bs = map (\<lambda>k. ucast (drop_bit (8 * k) ul1)) [0..<i2] @ replicate (var_len mvp - i2) i3;
          st \<leftarrow> store st valp (if opt mvp AND NWORDER = 0 then bs else rev bs);
          Some (Some st)
        }
      })"

text \<open>A value of type \<open>t\<close> read to the place of a variable; \<open>z\<close> is what follows it.\<close>

definition put_bytes :: "bool \<Rightarrow> mibvar \<Rightarrow> u16 \<Rightarrow> bytes \<Rightarrow> ptr \<Rightarrow> bytes \<Rightarrow> snmp \<Rightarrow> snmp option option" where
  "put_bytes wr mvp t z valp inp st =
     (if \<not> wr then Some (Some st)
      else do {
        (n, bs, _) \<leftarrow> snmpReadVal (of_nat (var_len mvp)) inp t;
        if n < 0 \<or> n > int (var_len mvp) then Some None
        else do { st \<leftarrow> store st valp (bs @ z); Some (Some st) }
      })"

definition storage :: "bool \<Rightarrow> nat \<Rightarrow> int \<Rightarrow> ptr \<Rightarrow> u8 \<Rightarrow> bytes \<Rightarrow> bytes \<Rightarrow> snmp \<Rightarrow> wptr \<Rightarrow> outcome option" where
  "storage wr i tabix valp i3 chkp2 inp st outp =
     (let mvp = mibvar_ace ! i; o3 = opt mvp AND 7; t = var_type mvp in
      if o3 = IMMED then map_option (Written st) (snmpRWriteInt outp (of_nat (var_len mvp)) t 1)
      else if o3 = IMMED2 then map_option (Written st) (snmpRWriteInt outp (push_bit 8 (ucast t) + of_nat (var_len mvp)) Integer 2)
      else if o3 = BASE1 then do {
        c \<leftarrow> (if wr then rd_at chkp2 0 else Some 0);
        st \<leftarrow> (if wr then store st valp [c - 1] else Some st);
        b \<leftarrow> load st valp 1;
        map_option (Written st) (snmpRWriteInt outp (ucast (hd b) + 1) t (var_len mvp))
      } else if o3 = 0 \<or> o3 = SCALAR then
        if is_number t then do {
          st' \<leftarrow> put_number wr mvp valp i3 inp st;
          case st' of None \<Rightarrow> Some (Dropped st)
          | Some st \<Rightarrow> do {
              bs \<leftarrow> load st valp (var_len mvp);
              let ul1 = (if opt mvp AND SX \<noteq> 0 then word_of_int (tabix + 1)
                else if opt mvp AND NWORDER = 0 then le_value bs else be_value bs);
              map_option (Written st) (snmpRWriteInt outp ul1 t (var_len mvp))
            }
        } else if t = String then do {
          st' \<leftarrow> put_bytes wr mvp t [0] valp inp st;
          case st' of None \<Rightarrow> Some (Dropped st)
          | Some st \<Rightarrow> do {
              bs \<leftarrow> load_text st valp;
              map_option (Written st) (snmpRWriteVal outp bs String (length bs))
            }
        } else do {
          let t' = (if t = OctetString then String else t);
          st' \<leftarrow> put_bytes wr mvp t' [] valp inp st;
          case st' of None \<Rightarrow> Some (Dropped st)
          | Some st \<Rightarrow> do {
              bs \<leftarrow> load st valp (var_len mvp);
              map_option (Written st) (snmpRWriteVal outp bs t' (var_len mvp))
            }
        }
      else Some (Error genErr inp))"

text \<open>The value of a variable that was found; \<open>inp\<close> is the name asked for. An error of a set leaves
  the read pointer at the value.\<close>

definition var_value :: "bool \<Rightarrow> nat \<Rightarrow> int \<Rightarrow> mibtab option \<Rightarrow> bytes \<Rightarrow> nat \<Rightarrow> snmp \<Rightarrow> wptr \<Rightarrow> outcome option" where
  "var_value wr i tabix mtp inp len2 st outp = do {
     let mvp = mibvar_ace ! i;
     let data = (if wr then drop len2 inp else inp);
     chk \<leftarrow> (if \<not> wr then Some (Some (0, 0, [])) else if len2 \<le> length inp then check_set mvp data else None);
     case chk of
       None \<Rightarrow> Some (Dropped st)
     | Some (i1, i3, chkp2) \<Rightarrow>
         if i1 \<noteq> 0 then Some (Error i1 data)
         else do {
           valp \<leftarrow> value_ptr wr i tabix mtp;
           storage wr i tabix valp i3 chkp2 data st outp
         }
   }"

text \<open>The name of a variable, with the index of its row.\<close>

definition write_name :: "nat \<Rightarrow> int \<Rightarrow> mibtab option \<Rightarrow> snmp \<Rightarrow> wptr \<Rightarrow> wptr option" where
  "write_name i tabix mtp st outp =
     (let name = oid (mibvar_ace ! i) in
      if tabix < 0 then snmpRWriteVal outp name Identifier (length name)
      else do {
        t \<leftarrow> mtp;
        p \<leftarrow> snmpEncodeIndex st t tabix i outp;
        (n, out) \<leftarrow> snmpRWriteVal p name Identifier (length name);
        (_, rest) \<leftarrow> snmpReadLength out Identifier;
        let n' = n + (length out - length rest);
        snmpRWriteLength (n', rest) Identifier (int (fst outp) - int n')
      })"

section \<open>The reply\<close>

text \<open>One binding of the request: the state, the write pointer and, when it is set, the error. The
  callback of a set may fail after the value was written; then the value is taken back.\<close>

definition write_error :: "request \<Rightarrow> bool \<Rightarrow> u8 \<Rightarrow> u8 \<Rightarrow> bytes \<Rightarrow> nat \<Rightarrow> wptr \<Rightarrow> (wptr \<times> (u8 \<times> u8) option) option" where
  "write_error rq nflag vbcounter i1 inp len2 outp = do {
     p \<leftarrow> snmpRWriteVal outp [] (if version rq \<noteq> 0 then if nflag then 0x82 else 0x81 else Null) 0;
     p \<leftarrow> snmpRWriteVal p inp Identifier len2;
     Some (p, if version rq = 0 \<or> i1 \<noteq> noSuchName then Some (i1, vbcounter) else None)
   }"

definition process_found ::
  "request \<Rightarrow> bool \<Rightarrow> u8 \<Rightarrow> nat \<Rightarrow> int \<Rightarrow> mibtab option \<Rightarrow> bytes \<Rightarrow> nat \<Rightarrow> snmp \<Rightarrow> wptr \<Rightarrow>
     (snmp \<times> (wptr \<times> (u8 \<times> u8) option) option) option" where
  "process_found rq nflag vbcounter i tabix mtp inp len2 st outp = do {
     v \<leftarrow> var_value (pdu rq = SetRequest) i tabix mtp inp len2 st outp;
     case v of
       Dropped st \<Rightarrow> Some (st, None)
     | Error i1 inp \<Rightarrow> map_option (\<lambda>x. (st, Some x)) (write_error rq nflag vbcounter i1 inp len2 outp)
     | Written st p \<Rightarrow> do {
         let (st, i1) = (if pdu rq = SetRequest \<and> opt (mibvar_ace ! i) AND CAW \<noteq> 0 then mibset_ace i tabix st else (st, 0));
         if i1 < 0 then
           map_option (\<lambda>x. (st, Some x))
             (write_error rq nflag vbcounter (word_of_int i1) (if pdu rq = SetRequest then drop len2 inp else inp) len2 outp)
         else map_option (\<lambda>p. (st, Some (p, None))) (write_name i tabix mtp st p)
       }
   }"

definition process_var ::
  "request \<Rightarrow> bool \<Rightarrow> u8 \<Rightarrow> bytes \<Rightarrow> snmp \<Rightarrow> wptr \<Rightarrow> (snmp \<times> (wptr \<times> (u8 \<times> u8) option) option) option" where
  "process_var rq nflag vbcounter vb st outp = do {
     (_, inp) \<leftarrow> snmpReadLength vb Sequence;
     (len2, inp) \<leftarrow> snmpReadLength inp Identifier;
     if len2 \<le> 0 then Some (st, None)
     else do {
       let len2 = nat len2;
       r \<leftarrow> find_var st (\<not> nflag) inp len2;
       (st, w) \<leftarrow>
         (case r of
            No_Table \<Rightarrow> map_option (\<lambda>x. (st, Some x)) (write_error rq nflag vbcounter genErr inp len2 outp)
          | Missing \<Rightarrow>
              map_option (\<lambda>x. (st, Some x))
                (write_error rq nflag vbcounter (if version rq = 1 then noSuchName else 0) inp len2 outp)
          | Found i tabix mtp \<Rightarrow>
              if isAccessAllowed st (contextName rq) then process_found rq nflag vbcounter i tabix mtp inp len2 st outp
              else map_option (\<lambda>x. (st, Some x)) (write_error rq nflag vbcounter noAccess inp len2 outp));
       case w of
         None \<Rightarrow> Some (st, None)
       | Some (p, e) \<Rightarrow> do {
           p \<leftarrow> snmpRWriteLength p Sequence (int (fst outp) - int (fst p));
           Some (st, Some (p, e))
         }
     }
   }"

text \<open>All bindings; the last error that was set counts.\<close>

fun process_vars ::
  "request \<Rightarrow> bool \<Rightarrow> u8 \<Rightarrow> bytes list \<Rightarrow> snmp \<Rightarrow> wptr \<Rightarrow> u8 \<times> u8 \<Rightarrow> (snmp \<times> (wptr \<times> u8 \<times> u8) option) option" where
  "process_vars rq nflag k [] st outp e = Some (st, Some (outp, e))"
| "process_vars rq nflag k (vb # vbs) st outp e = do {
     (st, w) \<leftarrow> process_var rq nflag k vb st outp;
     case w of None \<Rightarrow> Some (st, None)
     | Some (outp, e') \<Rightarrow> process_vars rq nflag (k + 1) vbs st outp (case e' of None \<Rightarrow> e | Some e' \<Rightarrow> e')
   }"

definition map_error :: "u8 \<Rightarrow> u8" where
  "map_error errcode =
     (if errcode \<in> {10, 9, 7, 8, 12} then badValue
      else if errcode \<in> {6, 17, 11, 18} then noSuchName
      else if errcode \<in> {13, 14, 15} then genErr
      else if errcode = 16 then noSuchName
      else errcode)"

text \<open>The head of the reply, written in front of the bindings; \<open>room\<close> is the size of the buffer above
  the community.\<close>

definition write_head :: "request \<Rightarrow> nat \<Rightarrow> u8 \<Rightarrow> u8 \<Rightarrow> wptr \<Rightarrow> wptr option" where
  "write_head rq room errcode errix p = do {
     p \<leftarrow> snmpRWriteLength p Sequence (int room - int (fst p));
     p \<leftarrow> snmpRWriteInt p (ucast (if errcode = 0 then 0 else errix)) Integer 1;
     p \<leftarrow> snmpRWriteInt p (ucast (if errcode \<noteq> 0 \<and> version rq = 1 then map_error errcode else errcode)) Integer 1;
     p \<leftarrow> snmpRWriteInt p (reqid rq) Integer 4;
     p \<leftarrow> snmpRWriteLength p GetResponse (int room - int (fst p));
     p \<leftarrow> snmpRWriteVal p (contextName rq) String (length (contextName rq));
     p \<leftarrow> snmpRWriteInt p (ucast (version rq)) Integer 1;
     snmpRWriteLength p Sequence (int room - int (fst p))
   }"

text \<open>The new state and the reply, \<open>None\<close> when the function returns 0. A reply that would run into
  the community at the start of the buffer is not followed any further: there it overwrites its own
  input, and below it the memory in front of the buffer.\<close>

definition inReqOutRep :: "nat \<Rightarrow> bytes \<Rightarrow> snmp \<Rightarrow> (snmp \<times> bytes option) option" where
  "inReqOutRep olen ibp st = do {
     rq \<leftarrow> read_request olen ibp;
     case rq of
       None \<Rightarrow> Some (st, None)
     | Some rq \<Rightarrow>
         let t = pdu rq; bad_bulk = (t = GetBulkRequest \<and> version rq \<noteq> 1); room = olen - reserved rq in
         if t \<notin> {SetRequest, GetRequest, GetNextRequest, GetBulkRequest} then Some (st, None)
         else do {
           (st, w) \<leftarrow> process_vars rq (t = GetNextRequest \<or> t = GetBulkRequest) 0
             (if too_big rq \<or> bad_bulk then [] else varbinds rq) st (room, [])
             (if bad_bulk then 255 else if too_big rq then tooBig else 0, 0);
           case w of None \<Rightarrow> Some (st, None)
           | Some (p, errcode, errix) \<Rightarrow> do {
               p \<leftarrow> (if version rq = 0 \<and> errcode \<noteq> 0 then
                       if length (first rq) \<le> room then Some (room - length (first rq), first rq) else None
                     else Some p);
               p \<leftarrow> write_head rq room errcode errix p;
               Some (st, Some (snd p))
             }
         }
   }"

text \<open>One datagram of the server: nothing is sent back for more than 300 bytes, an empty datagram
  for a request that is not understood.\<close>

definition snmp_Maintask :: "bytes \<Rightarrow> snmp \<Rightarrow> (snmp \<times> bytes option) option" where
  "snmp_Maintask msg st =
     (if length msg > 300 then Some (st, None)
      else map_option (\<lambda>(st, r). (st, Some (case r of None \<Rightarrow> [] | Some b \<Rightarrow> b))) (inReqOutRep 320 msg st))"

end
