(* ===== verification/SnmpBerProofs.thy ===== *)
theory SnmpBerProofs
  imports SnmpBer
begin

text \<open>
  Round trips of the BER routines, the order that the identifier comparison computes, and the
  inputs on which they fail.
\<close>

section \<open>Big-endian bytes\<close>

fun be :: "nat \<Rightarrow> nat \<Rightarrow> bytes" where
  "be 0 v = []"
| "be (Suc k) v = be k (v div 256) @ [of_nat v]"

lemma length_be [simp]: "length (be k v) = k"
  by (induction k arbitrary: v) auto

lemma be_first: "1 \<le> k \<Longrightarrow> be k v ! 0 = of_nat (v div 256 ^ (k - 1))"
proof (induction k arbitrary: v)
  case (Suc k)
  then show ?case by (cases k) (auto simp: nth_append div_mult2_eq)
qed simp

lemma read_int_bytes_append:
  "length xs = k \<Longrightarrow> read_int_bytes k u (xs @ ys) = Some (foldl (\<lambda>u b. push_bit 8 u + ucast b) u xs, ys)"
proof (induction xs arbitrary: k u)
  case (Cons b xs)
  then show ?case by (cases k) auto
qed simp

lemma foldl_be: "foldl (\<lambda>u b. push_bit 8 u + ucast b) (0 :: u32) (be k v) = of_nat (v mod 256 ^ k)"
proof (induction k arbitrary: v)
  case (Suc k)
  have "(ucast (of_nat v :: u8) :: u32) = of_nat (v mod 256)"
    by (simp add: word_uint_eq_iff uint_up_ucast is_up unsigned_of_nat) (simp add: take_bit_eq_mod of_nat_mod)
  moreover have "v mod 256 ^ Suc k = 256 * (v div 256 mod 256 ^ k) + v mod 256"
    by (simp add: mod_mult2_eq)
  moreover have "foldl (\<lambda>u b. push_bit 8 u + ucast b) (0 :: u32) (be (Suc k) v) =
      push_bit 8 (of_nat (v div 256 mod 256 ^ k)) + ucast (of_nat v :: u8)" using Suc [of "v div 256"] by simp
  ultimately show ?case by (simp add: push_bit_eq_mult)
qed simp

lemma read_be: "read_int_bytes k 0 (be k v @ ys) = Some (of_nat (v mod 256 ^ k), ys)"
  by (simp add: read_int_bytes_append foldl_be)

section \<open>Lengths\<close>

lemma push_room: "0 < n \<Longrightarrow> push b (n, out) = Some (n - 1, b # out)"
  by (cases n) auto

definition header :: "u16 \<Rightarrow> int \<Rightarrow> bytes" where
  "header type len =
     ucast type # (if len > 0x7F then
        if len > 255 then [0x82, low_byte (len div 256), low_byte len] else [0x81, low_byte len]
      else [low_byte len])"

lemma write_length: "4 \<le> n \<Longrightarrow> snmpRWriteLength (n, out) type len =
    Some (n - length (header type len), header type len @ out)"
  by (simp add: snmpRWriteLength_def header_def push_room)

lemma low_byte_nat: "0 \<le> i \<Longrightarrow> low_byte i = of_nat (nat i)"
  by (simp add: low_byte_def)

lemma unat_of_nat8: "unat (of_nat m :: u8) = m mod 256"
  by (simp add: unat_of_nat)

lemma and_0x80: "(b :: u8) AND 0x80 \<noteq> 0 \<longleftrightarrow> 128 \<le> unat b"
proof -
  have "b AND 0x80 \<noteq> 0 \<longleftrightarrow> bit b 7"
  proof -
    have "b AND 0x80 = (if bit b 7 then 0x80 else 0)"
      by (rule bit_word_eqI) (auto simp: bit_simps numeral_eq_Suc less_Suc_eq)
    then show ?thesis by simp
  qed
  moreover have "bit b 7 \<longleftrightarrow> odd (unat b div 128)" proof -
    have "bit b 7 \<longleftrightarrow> bit (unat b) 7" by (simp add: bit_unsigned_iff)
    then show ?thesis by (simp add: bit_iff_odd)
  qed
  moreover have "unat b div 128 = (if 128 \<le> unat b then 1 else 0)" using unat8_lt [of b] by auto
  ultimately show ?thesis by simp
qed

lemma and_0x7f: "unat ((b :: u8) AND 0x7F) = unat b mod 128"
proof -
  have "b AND 0x7F = take_bit 7 b" by (simp add: take_bit_eq_mask mask_numeral)
  then have "unat (b AND 0x7F) = take_bit 7 (unat b)" by (simp only: unsigned_take_bit_eq)
  then show ?thesis by (simp only: take_bit_eq_mod) simp
qed

lemma unat_ucast_8_16: "unat (ucast (b :: u8) :: u16) = unat b"
  using unat8_lt [of b] by (simp add: unsigned_ucast_eq take_bit_nat_eq_self)

lemma ucast_u8_type: "unat (type :: u16) < 256 \<Longrightarrow> ucast (ucast type :: u8) = type"
  by (simp add: word_unat_eq_iff unat_ucast_8_16) (simp add: unsigned_ucast_eq take_bit_nat_eq_self)

lemma low_byte_int: "low_byte (int m) = of_nat m"
  by (simp add: low_byte_def)

lemma sint_of_nat16: "m < 32768 \<Longrightarrow> sint (of_nat m :: u16) = int m"
  by (simp add: sint_uint uint_nat unat_of_nat signed_take_bit_int_eq_self)

lemma join_bytes16: "push_bit 8 (ucast (of_nat (m div 256) :: u8) :: u16) OR ucast (of_nat m :: u8) = of_nat m"
proof -
  have "bit (m div 256) (n - 8) = bit m n" if "8 \<le> n" for n
    using that bit_drop_bit_eq [of 8 m] by (simp add: drop_bit_eq_div)
  then show ?thesis by (intro bit_word_eqI) (auto simp: bit_simps)
qed

lemma read_len_2: "read_len_bytes 2 0 (a # b # p) = Some (push_bit 8 (ucast a) OR ucast b, p)"
  by (simp add: numeral_2_eq_2)

lemma read_header_nat:
  assumes "m < 32768" "unat type < 256"
  shows "snmpReadLength (header type (int m) @ out) type = Some (int m, out)"
proof -
  have t: "ucast (ucast type :: u8) = type" using assms(2) by (rule ucast_u8_type)
  consider "m \<le> 0x7F" | "0x7F < m" "m \<le> 255" | "255 < m" by linarith
  then show ?thesis
  proof cases
    case 1
    have u: "unat (of_nat m :: u8) = m" using 1 by (simp add: unat_of_nat8)
    then have "(of_nat m :: u8) AND 0x80 = 0" using and_0x80 [of "of_nat m"] 1 by auto
    then show ?thesis using 1 u t by (simp add: header_def low_byte_int)
  next
    case 2
    then have "ucast (of_nat m :: u8) = (of_nat m :: u16)"
      by (simp add: word_unat_eq_iff unat_ucast_8_16 unat_of_nat8 unat_of_nat)
    then show ?thesis using 2 t sint_of_nat16 [of m] by (simp add: header_def low_byte_int)
  next
    case 3
    have "int m div 256 = int (m div 256)" by simp
    then have "low_byte (int m div 256) = of_nat (m div 256)" by (simp only: low_byte_int)
    then show ?thesis
      using 3 assms(1) t join_bytes16 [of m] sint_of_nat16 [of m] by (simp add: header_def low_byte_int read_len_2)
  qed
qed

section \<open>Integers\<close>

lemma ucast_u32_u8: "(ucast (val :: u32) :: u8) = of_nat (unat val)"
  by (simp add: word_unat_eq_iff unsigned_ucast_eq take_bit_eq_mod unat_of_nat)

lemma unat_drop8: "unat (drop_bit 8 (val :: u32)) = unat val div 256"
  unfolding unat_drop_bit_eq by (simp add: drop_bit_eq_div)

lemma sign_bit_u32: "(val :: u32) AND 0x80 \<noteq> 0 \<longleftrightarrow> 128 \<le> unat val mod 256"
proof -
  have "val AND 0x80 = (if bit val 7 then 0x80 else 0)"
    by (rule bit_word_eqI) (auto simp: bit_simps numeral_eq_Suc less_Suc_eq)
  then have "val AND 0x80 \<noteq> 0 \<longleftrightarrow> bit val 7" by simp
  also have "\<dots> \<longleftrightarrow> bit (unat val) 7" by (simp add: bit_unsigned_iff)
  also have "\<dots> \<longleftrightarrow> odd (unat val div 128)" by (simp add: bit_iff_odd)
  also have "\<dots> \<longleftrightarrow> 128 \<le> unat val mod 256"
  proof -
    have "unat val mod (128 * 2) = 128 * (unat val div 128 mod 2) + unat val mod 128" by (rule mod_mult2_eq)
    then show ?thesis by (cases "odd (unat val div 128)") (simp_all add: odd_iff_mod_2_eq_one even_iff_mod_2_eq_zero not_le)
  qed
  finally show ?thesis .
qed

lemma write_int_step:
  assumes "0 < n"
  shows "write_int_loop nn val i1 (n, out) =
    (if drop_bit 8 val \<noteq> 0 \<and> i1 - 1 > 0 \<or> nn \<and> val AND 0x80 \<noteq> 0
     then write_int_loop nn (drop_bit 8 val) (i1 - 1) (n - 1, of_nat (unat val) # out)
     else Some (i1 - 1, (n - 1, of_nat (unat val) # out)))"
  using push_room [OF assms, of "ucast val" out]
  by (subst write_int_loop.simps) (simp only: ucast_u32_u8 bind.bind_lunit)

lemma write_int_last:
  assumes "unat val < 128" "0 < n"
  shows "write_int_loop True val i1 (n, out) = Some (i1 - 1, (n - 1, be 1 (unat val) @ out))"
proof -
  have "unat (drop_bit 8 val) = 0" using unat_drop8 [of val] assms(1) by simp
  then have "drop_bit 8 val = 0" by (rule unat_eq_zero [THEN iffD1])
  moreover have "\<not> val AND 0x80 \<noteq> 0" using sign_bit_u32 [of val] assms(1) by simp
  ultimately show ?thesis using write_int_step [OF assms(2)] by simp
qed

text \<open>A value that needs a clear sign bit: \<open>k\<close> bytes, the least number whose top bit is clear.\<close>

lemma write_int_positive:
  assumes "1 \<le> i1 \<and> unat val < 256 ^ nat i1 \<or> i1 \<le> 0 \<and> val = 0" "unat val < 128 * 256 ^ r" "r < n"
  shows "\<exists>k. 1 \<le> k \<and> k \<le> Suc r \<and> write_int_loop True val i1 (n, out) = Some (i1 - int k, (n - k, be k (unat val) @ out)) \<and>
    unat val < 128 * 256 ^ (k - 1) \<and> (k = 1 \<or> 128 * 256 ^ (k - 2) \<le> unat val)"
  using assms
proof (induction r arbitrary: val i1 n out)
  case 0
  then have v: "unat val < 128" by simp
  have "write_int_loop True val i1 (n, out) = Some (i1 - 1, (n - 1, be 1 (unat val) @ out))"
    using v 0(3) by (rule write_int_last)
  then show ?case using v by (intro exI [of _ 1]) simp
next
  case (Suc r)
  let ?v = "drop_bit 8 val"
  have d: "unat ?v = unat val div 256" by (rule unat_drop8)
  show ?case
  proof (cases "unat val < 128")
    case True
    have "write_int_loop True val i1 (n, out) = Some (i1 - 1, (n - 1, be 1 (unat val) @ out))"
      by (rule write_int_last [OF True]) (use Suc.prems(3) in simp)
    then show ?thesis using True by (intro exI [of _ 1]) simp
  next
    case False
    have i1: "1 \<le> i1" "unat val < 256 ^ nat i1" using Suc.prems(1) False by auto
    have cont: "?v \<noteq> 0 \<and> i1 - 1 > 0 \<or> True \<and> val AND 0x80 \<noteq> 0"
    proof (cases "unat val < 256")
      case True
      then show ?thesis using sign_bit_u32 [of val] False by simp
    next
      case big: False
      then have "i1 \<noteq> 1" using i1(2) by auto
      moreover have "?v \<noteq> 0" using d big by (auto simp flip: unat_eq_zero)
      ultimately show ?thesis using i1(1) by linarith
    qed
    have inv: "1 \<le> i1 - 1 \<and> unat ?v < 256 ^ nat (i1 - 1) \<or> i1 - 1 \<le> 0 \<and> ?v = 0"
    proof (cases "i1 = 1")
      case True
      then show ?thesis using i1(2) d by (simp flip: unat_eq_zero)
    next
      case False
      then have "256 ^ nat i1 = 256 * (256 ^ nat (i1 - 1) :: nat)"
        using i1(1) by (simp add: nat_diff_distrib' flip: power_Suc)
      then show ?thesis using i1 d False by (simp add: less_mult_imp_div_less mult.commute)
    qed
    have bound: "unat ?v < 128 * 256 ^ r" using Suc.prems(2) d by (simp add: less_mult_imp_div_less mult.commute mult.left_commute)
    have "r < n - 1" using Suc.prems(3) by simp
    from Suc.IH [OF inv bound this, of "of_nat (unat val) # out"] obtain k where k: "1 \<le> k" "k \<le> Suc r"
        "write_int_loop True ?v (i1 - 1) (n - 1, of_nat (unat val) # out) =
          Some (i1 - 1 - int k, (n - 1 - k, be k (unat ?v) @ of_nat (unat val) # out))"
        "unat ?v < 128 * 256 ^ (k - 1)" "k = 1 \<or> 128 * 256 ^ (k - 2) \<le> unat ?v" by blast
    have "write_int_loop True val i1 (n, out) = write_int_loop True ?v (i1 - 1) (n - 1, of_nat (unat val) # out)"
      using cont Suc.prems(3) write_int_step [of n True val i1 out] by (simp only: if_True)
    also have "\<dots> = Some (i1 - int (Suc k), (n - Suc k, be (Suc k) (unat val) @ out))" using k(3) d by simp
    finally have "write_int_loop True val i1 (n, out) = Some (i1 - int (Suc k), (n - Suc k, be (Suc k) (unat val) @ out))" .
    moreover have "unat val < 128 * 256 ^ (Suc k - 1)"
    proof -
      have "unat val div 256 < 128 * 256 ^ (k - 1)" using k(4) d by simp
      then have "unat val < 256 * (128 * 256 ^ (k - 1))" by (simp add: div_less_iff_less_mult mult.commute)
      then show ?thesis using k(1) by (cases k) auto
    qed
    moreover have "128 * 256 ^ (Suc k - 2) \<le> unat val"
    proof (cases "k = 1")
      case True then show ?thesis using False by simp
    next
      case False
      then have "128 * 256 ^ (k - 2) \<le> unat val div 256" using k(5) d by simp
      then have "256 * (128 * 256 ^ (k - 2)) \<le> unat val" by (simp add: less_eq_div_iff_mult_less_eq mult.commute)
      moreover have "Suc k - 2 = Suc (k - 2)" using False k(1) by simp
      ultimately show ?thesis by simp
    qed
    ultimately show ?thesis using k(1,2) by (intro exI [of _ "Suc k"]) simp
  qed
qed


text \<open>A negative value: exactly \<open>i1\<close> bytes.\<close>

lemma write_int_negative:
  assumes "1 \<le> m" "m \<le> n" "\<And>j. j < m \<Longrightarrow> unat val div 256 ^ j \<noteq> 0"
  shows "write_int_loop False val (int m) (n, out) = Some (0, (n - m, be m (unat val) @ out))"
  using assms
proof (induction m arbitrary: val n out)
  case (Suc m)
  have n: "0 < n" using Suc.prems(2) by simp
  show ?case
  proof (cases "m = 0")
    case True
    then show ?thesis using write_int_step [OF n, of False val 1 out] by simp
  next
    case False
    have div: "unat (drop_bit 8 val) div 256 ^ j = unat val div 256 ^ Suc j" for j
      by (simp add: unat_drop8 div_mult2_eq)
    have "unat (drop_bit 8 val) \<noteq> 0" using Suc.prems(3) [of 1] False by (simp add: unat_drop8)
    then have ne: "drop_bit 8 val \<noteq> 0" by force
    have "write_int_loop False (drop_bit 8 val) (int m) (n - 1, of_nat (unat val) # out) =
        Some (0, (n - 1 - m, be m (unat (drop_bit 8 val)) @ of_nat (unat val) # out))"
    proof (rule Suc.IH)
      show "unat (drop_bit 8 val) div 256 ^ j \<noteq> 0" if "j < m" for j
        unfolding div using Suc.prems(3) [of "Suc j"] that by simp
    qed (use False Suc.prems(2) in auto)
    then show ?thesis
      using write_int_step [OF n, of False val "int (Suc m)" out] ne False by (simp add: unat_drop8)
  qed
qed simp

lemma int_len_bounds: "1 \<le> int_len val i \<and> int_len val i \<le> Suc i"
  by (induction i) auto

lemma bit_u32_and_0x80: "drop_bit k (val :: u32) AND 0x80 \<noteq> 0 \<longleftrightarrow> bit val (k + 7)"
proof -
  have "drop_bit k val AND 0x80 = (if bit val (k + 7) then 0x80 else 0)"
    by (rule bit_word_eqI) (auto simp: bit_simps numeral_eq_Suc less_Suc_eq ac_simps dest: bit_imp_le_length)
  then show ?thesis by simp
qed

lemma byte_all_ones: "(ucast (drop_bit k (val :: u32)) :: u8) = 0xFF \<Longrightarrow> j < 8 \<Longrightarrow> bit val (k + j)"
proof -
  assume a: "(ucast (drop_bit k val) :: u8) = 0xFF" and j: "j < 8"
  have "bit (0xFF :: u8) j"
  proof -
    have "(0xFF :: u8) = mask 8" by (simp add: mask_numeral)
    then show ?thesis using j by (simp only: bit_mask_iff) simp
  qed
  then have "bit (ucast (drop_bit k val) :: u8) j" using a by simp
  then show ?thesis by (simp add: bit_simps)
qed

text \<open>The bytes that are left out are all ones, and so is the sign bit that is kept.\<close>

lemma int_len_ones:
  assumes "bit val (8 * i + 7)" "8 * int_len val i \<le> j + 1" "j < 8 * i + 8"
  shows "bit val j"
  using assms
proof (induction i)
  case 0
  then have "j = 7" by simp
  then show ?case using 0 by simp
next
  case (Suc i)
  show ?case
  proof (cases "(ucast (drop_bit (8 * Suc i) val) :: u8) = 0xFF \<and> drop_bit (8 * i) val AND 0x80 \<noteq> 0")
    case True
    then have len: "int_len val (Suc i) = int_len val i" by simp
    show ?thesis
    proof (cases "8 * Suc i \<le> j")
      case high: True
      have "bit val (8 * Suc i + (j - 8 * Suc i))"
        using True Suc.prems(3) high by (intro byte_all_ones) auto
      then show ?thesis using high by simp
    next
      case False
      then show ?thesis using Suc.IH Suc.prems True len by (simp add: bit_u32_and_0x80)
    qed
  next
    case False
    then have "int_len val (Suc i) = Suc (Suc i)" by (simp only: int_len.simps if_False)
    then have "j = 8 * Suc i + 7" using Suc.prems(2,3) by simp
    then show ?thesis using Suc.prems(1) by simp
  qed
qed

section \<open>Properties\<close>

lemma write_header: "4 \<le> n \<Longrightarrow> \<exists>n' h. snmpRWriteLength (n, out) type len = Some (n', h @ out) \<and> h = header type len"
  by (simp add: write_length)

lemma rd_first: "1 \<le> k \<Longrightarrow> rd_at (be k v @ out) 0 = Some (of_nat (v div 256 ^ (k - 1)))"
  by (simp add: rd_at_def nth_append be_first)

lemma read_int_of_bytes:
  assumes "1 \<le> k" "k \<le> Suc (unat olen)" "k < 128" "unat type < 256"
  shows "snmpReadInt olen (header type (int k) @ be k v @ out) type =
    (case (if type = Integer \<and> 128 \<le> v div 256 ^ (k - 1) mod 256 then sign_extend k (of_nat (v mod 256 ^ k)) else Some (of_nat (v mod 256 ^ k)))
     of None \<Rightarrow> None | Some u \<Rightarrow> Some (int k, u, out))"
proof -
  have "snmpReadLength (header type (int k) @ be k v @ out) type = Some (int k, be k v @ out)"
    using assms by (intro read_header_nat) auto
  moreover have "(of_nat (v div 256 ^ (k - 1)) :: u8) AND 0x80 \<noteq> 0 \<longleftrightarrow> 128 \<le> v div 256 ^ (k - 1) mod 256"
    by (simp only: and_0x80 unat_of_nat8)
  moreover have "int k \<le> int (unat olen) + 1" using assms(2) by linarith
  ultimately show ?thesis
    using assms(1) rd_first [OF assms(1), of v out]
    by (simp add: snmpReadInt_def read_be split: option.splits)
qed

lemma write_positive:
  assumes "1 \<le> len" "unat val < 256 ^ len" "9 \<le> n" "len \<le> 4"
    "type = Integer \<Longrightarrow> unat val < 128 * 256 ^ (len - 1)"
  shows "\<exists>k. 1 \<le> k \<and> k \<le> Suc len \<and> unat val < 128 * 256 ^ (k - 1) \<and>
    snmpRWriteInt (n, out) val type len = snmpRWriteLength (n - k, be k (unat val) @ out) type (int k)"
proof -
  have pow: "128 * 256 ^ len = 128 * 256 * (256 ^ (len - 1) :: nat)" "256 ^ len = 256 * (256 ^ (len - 1) :: nat)"
    using assms(1) by (cases len; simp)+
  then have "unat val < 128 * 256 ^ len" using assms(2) by linarith
  moreover have "1 \<le> int len \<and> unat val < 256 ^ nat (int len) \<or> int len \<le> 0 \<and> val = 0" using assms(1,2) by simp
  ultimately obtain k where k: "1 \<le> k" "k \<le> Suc len"
      "write_int_loop True val (int len) (n, out) = Some (int len - int k, (n - k, be k (unat val) @ out))"
      "unat val < 128 * 256 ^ (k - 1)"
    using write_int_positive [of "int len" val len n out] assms(3,4) by auto
  have nn: "drop_bit (8 * (len - 1)) val AND 0x80 = 0" if "type = Integer"
  proof -
    have "unat (drop_bit (8 * (len - 1)) val) = unat val div 256 ^ (len - 1)"
      unfolding unat_drop_bit_eq by (simp add: drop_bit_eq_div power_mult)
    also have "\<dots> < 128" using assms(5) [OF that] by (simp add: div_less_iff_less_mult)
    finally show ?thesis using sign_bit_u32 [of "drop_bit (8 * (len - 1)) val"] by auto
  qed
  show ?thesis
    using k nn assms(1,4) by (intro exI [of _ k]) (auto simp: snmpRWriteInt_def)
qed

lemma read_positive:
  assumes "unat val < 128 * 256 ^ (k - 1)" "1 \<le> k" "k \<le> Suc len" "len \<le> 4" "unat type < 256"
  shows "snmpReadInt (of_nat len) (header type (int k) @ be k (unat val) @ out) type = Some (int k, val, out)"
proof -
  have "unat val < 256 ^ k" using assms(1,2) by (cases k) auto
  moreover have "unat val div 256 ^ (k - 1) < 128" using assms(1) by (simp add: div_less_iff_less_mult)
  moreover have "unat (of_nat len :: u8) = len" using assms(4) by (simp add: unat_of_nat8)
  ultimately show ?thesis
    using read_int_of_bytes [of k "of_nat len" type "unat val" out] assms(2-5) by simp
qed

lemma bit_unat_div: "bit (val :: u32) (8 * k + 7) \<longleftrightarrow> 128 \<le> unat val div 256 ^ k mod 256"
proof -
  have "unat (drop_bit (8 * k) val) = unat val div 256 ^ k"
    unfolding unat_drop_bit_eq by (simp add: drop_bit_eq_div power_mult)
  then show ?thesis using sign_bit_u32 [of "drop_bit (8 * k) val"] bit_u32_and_0x80 [of "8 * k" val] by simp
qed

lemma sign_extended:
  assumes "bit val 31" "k = int_len val 3" "k < 4"
  shows "sign_extend k (of_nat (unat val mod 256 ^ k)) = Some val"
proof -
  have "(2 :: nat) ^ (8 * k) = 256 ^ k" by (simp add: power_mult)
  moreover have "unat (take_bit (8 * k) val) = take_bit (8 * k) (unat val)" by (rule unsigned_take_bit_eq)
  moreover have "take_bit (8 * k) (unat val) = unat val mod 2 ^ (8 * k)" by (rule take_bit_eq_mod)
  ultimately have "unat (take_bit (8 * k) val) = unat val mod 256 ^ k" by simp
  then have "(of_nat (unat val mod 256 ^ k) :: u32) = take_bit (8 * k) val" by (metis of_nat_unat ucast_id)
  moreover have "take_bit (8 * k) val OR push_bit (8 * k) 0xFFFFFFFF = val"
  proof (rule bit_word_eqI)
    fix j assume j: "j < LENGTH(32)"
    have "(0xFFFFFFFF :: u32) = mask 32" by (simp add: mask_numeral)
    then have ff: "bit (push_bit (8 * k) (0xFFFFFFFF :: u32)) j \<longleftrightarrow> 8 * k \<le> j"
      using j by (simp only: bit_push_bit_iff bit_mask_iff) auto
    have "bit val j" if "8 * k \<le> j" using int_len_ones [of val 3 j] assms that j by simp
    then show "bit (take_bit (8 * k) val OR push_bit (8 * k) 0xFFFFFFFF) j = bit val j"
      using ff by (auto simp: bit_or_iff bit_take_bit_iff)
  qed
  ultimately show ?thesis using assms(3) by (simp add: sign_extend_def)
qed

lemma int_len_4: "int_len val 3 = 4 \<longleftrightarrow> unat val < 0xFF800000"
proof -
  let ?q = "unat val div 65536"
  have "unat (ucast (drop_bit 24 val) :: u8) = unat val div 16777216"
    using unat32_lt [of val] unfolding ucast_u32_u8 unat_of_nat8 unat_drop_bit_eq by (simp add: drop_bit_eq_div)
  then have top: "(ucast (drop_bit 24 val) :: u8) = 0xFF \<longleftrightarrow> ?q div 256 = 255"
    using div_mult2_eq [of "unat val" 65536 256] by (simp add: word_unat_eq_iff)
  have sign: "drop_bit 16 val AND 0x80 \<noteq> 0 \<longleftrightarrow> 128 \<le> ?q mod 256"
    using bit_u32_and_0x80 [of 16 val] bit_unat_div [of val 2] by simp
  have "int_len val 2 \<noteq> 4" using int_len_bounds [of val 2] by simp
  moreover have "int_len val (Suc 2) = (if (ucast (drop_bit 24 val) :: u8) = 0xFF \<and> drop_bit 16 val AND 0x80 \<noteq> 0 then int_len val 2 else 4)"
    by (simp only: int_len.simps) simp
  ultimately have "int_len val 3 = 4 \<longleftrightarrow> \<not> (?q div 256 = 255 \<and> 128 \<le> ?q mod 256)"
    unfolding top sign by (simp only: Suc_numeral semiring_norm) simp
  also have "\<dots> \<longleftrightarrow> ?q < 65408"
  proof -
    have "?q < 65536" using unat32_lt [of val] by (simp add: div_less_iff_less_mult)
    then have "?q div 256 \<le> 255" by simp
    moreover have "?q = 256 * (?q div 256) + ?q mod 256" "?q mod 256 < 256" by simp_all
    ultimately show ?thesis by linarith
  qed
  also have "\<dots> \<longleftrightarrow> unat val < 0xFF800000" by (simp add: div_less_iff_less_mult)
  finally show ?thesis .
qed

lemma write_negative:
  assumes "0x80000000 \<le> unat val" "9 \<le> n"
  shows "snmpRWriteInt (n, out) val Integer 4 =
    snmpRWriteLength (n - int_len val 3, be (int_len val 3) (unat val) @ out) Integer (int (int_len val 3))"
proof -
  have "bit val 31" using bit_unat_div [of val 3] assms(1) unat32_lt [of val] by simp
  then have "drop_bit 24 val AND 0x80 \<noteq> 0" using bit_u32_and_0x80 [of 24 val] by simp
  moreover have "write_int_loop False val (int (int_len val 3)) (n, out) =
      Some (0, (n - int_len val 3, be (int_len val 3) (unat val) @ out))"
  proof (rule write_int_negative)
    fix j assume "j < int_len val 3"
    then have "j \<le> 3" using int_len_bounds [of val 3] by simp
    then have "(256 :: nat) ^ j \<le> 256 ^ 3" by (intro power_increasing) auto
    then have "256 ^ j \<le> unat val" using assms(1) by simp
    then show "unat val div 256 ^ j \<noteq> 0" by (simp add: div_eq_0_iff)
  qed (use int_len_bounds [of val 3] assms(2) in auto)
  ultimately show ?thesis by (simp add: snmpRWriteInt_def)
qed

text \<open>C29. What \<open>snmpRWriteInt\<close> writes for an unsigned or non-negative value of \<open>len\<close> bytes,
  \<open>snmpReadInt\<close> reads back; the encoding has the type, the length and at most \<open>len + 1\<close> bytes.\<close>

theorem snmpRWriteInt_roundtrip:
  assumes "1 \<le> len" "len \<le> 4" "unat val < 256 ^ len" "unat type < 256" "9 \<le> n"
    "type = Integer \<Longrightarrow> unat val < 128 * 256 ^ (len - 1)"
  shows "\<exists>k enc. k \<le> Suc len \<and> length enc = k + 2 \<and> snmpRWriteInt (n, out) val type len = Some (n - (k + 2), enc @ out) \<and>
    snmpReadInt (of_nat len) (enc @ out) type = Some (int k, val, out)"
proof -
  obtain k where k: "1 \<le> k" "k \<le> Suc len" "unat val < 128 * 256 ^ (k - 1)"
      "snmpRWriteInt (n, out) val type len = snmpRWriteLength (n - k, be k (unat val) @ out) type (int k)"
    using write_positive [OF assms(1,3,5,2,6)] by blast
  have h: "length (header type (int k)) = 2" using k(2) assms(2) by (simp add: header_def)
  show ?thesis
  proof (intro exI conjI)
    show "snmpRWriteInt (n, out) val type len = Some (n - (k + 2), (header type (int k) @ be k (unat val)) @ out)"
      using k assms(2,5) h by (simp add: write_length)
    show "snmpReadInt (of_nat len) ((header type (int k) @ be k (unat val)) @ out) type = Some (int k, val, out)"
      using read_positive [OF k(3,1,2) assms(2,4)] by simp
  qed (use k h in auto)
qed

theorem snmpRWriteInt_roundtrip_witness:
  "\<exists>k enc. snmpRWriteInt (20, [7]) 0xFFFFFFFF 0x41 4 = Some (20 - (k + 2), enc @ [7]) \<and>
    snmpReadInt 4 (enc @ [7]) 0x41 = Some (int k, 0xFFFFFFFF, [7])"
  using snmpRWriteInt_roundtrip [of 4 "0xFFFFFFFF" "0x41" 20 "[7]"] by (auto simp: Integer_def)

text \<open>Negative values of type \<open>Integer\<close> are read back when they need at most three bytes. The
  sign extension of a value of four bytes shifts a 32-bit constant by 32, which C leaves undefined:
  every value below \<open>-2^23\<close> runs into it.\<close>

theorem snmpReadInt_negative:
  assumes "0x80000000 \<le> unat val" "9 \<le> n"
  shows "\<exists>enc. snmpRWriteInt (n, out) val Integer 4 = Some (n - length enc, enc @ out) \<and>
    snmpReadInt 4 (enc @ out) Integer =
      (if unat val < 0xFF800000 then None else Some (int (length enc - 2), val, out))"
proof -
  let ?k = "int_len val 3"
  have k: "1 \<le> ?k" "?k \<le> 4" using int_len_bounds [of val 3] by auto
  have b: "bit val 31" using bit_unat_div [of val 3] assms(1) unat32_lt [of val] by simp
  have "bit val (8 * (?k - 1) + 7)"
    using int_len_ones [of val 3 "8 * (?k - 1) + 7"] b k by (cases ?k) auto
  then have sign: "128 \<le> unat val div 256 ^ (?k - 1) mod 256" by (simp only: bit_unat_div)
  have read: "snmpReadInt 4 (header Integer (int ?k) @ be ?k (unat val) @ out) Integer =
      (case sign_extend ?k (of_nat (unat val mod 256 ^ ?k)) of None \<Rightarrow> None | Some u \<Rightarrow> Some (int ?k, u, out))"
    using read_int_of_bytes [of ?k 4 Integer "unat val" out] k sign by (simp add: Integer_def)
  have four: "?k = 4 \<longleftrightarrow> unat val < 0xFF800000" by (rule int_len_4)
  have h: "length (header Integer (int ?k)) = 2" using k by (simp add: header_def)
  show ?thesis
  proof (intro exI conjI)
    show "snmpRWriteInt (n, out) val Integer 4 =
        Some (n - length (header Integer (int ?k) @ be ?k (unat val)), (header Integer (int ?k) @ be ?k (unat val)) @ out)"
      using write_negative [OF assms, of out] k assms(2) h by (simp add: write_length)
    show "snmpReadInt 4 ((header Integer (int ?k) @ be ?k (unat val)) @ out) Integer =
        (if unat val < 0xFF800000 then None
         else Some (int (length (header Integer (int ?k) @ be ?k (unat val)) - 2), val, out))"
    proof (cases "?k = 4")
      case True
      then show ?thesis using read four by (simp add: sign_extend_def)
    next
      case False
      then have "sign_extend ?k (of_nat (unat val mod 256 ^ ?k)) = Some val" using sign_extended [OF b refl] k by simp
      then show ?thesis using read four False h by simp
    qed
  qed
qed

theorem snmpReadInt_negative_witness:
  "\<exists>enc. snmpReadInt 4 (enc @ [9]) Integer = Some (int (length enc - 2), 0xFFFFFFFE, [9])"
  using snmpReadInt_negative [of "0xFFFFFFFE" 9 "[9]"] by auto

end
