(* ===== verification/SnmpWrite.thy ===== *)
theory SnmpWrite
  imports SnmpAgent SnmpBerProofs
begin

text \<open>
  What the encoders of the SNMP agent write, as byte strings: a routine that writes a string puts it
  in front of what was written, or fails when the buffer has no room for it.
\<close>

section \<open>Routines that write a string\<close>

definition writes :: "(wptr \<Rightarrow> wptr option) \<Rightarrow> bytes \<Rightarrow> bool" where
  "writes f e \<longleftrightarrow> (\<forall>n out. f (n, out) = (if length e \<le> n then Some (n - length e, e @ out) else None))"

lemma writesD: "writes f e \<Longrightarrow> f (n, out) = (if length e \<le> n then Some (n - length e, e @ out) else None)"
  by (simp add: writes_def)

lemma writes_bind: "writes f e \<Longrightarrow> writes g d \<Longrightarrow> writes (\<lambda>p. do { p \<leftarrow> f p; g p }) (d @ e)"
  by (auto simp: writes_def)

lemma writes_push: "writes (push b) [b]"
  unfolding writes_def
proof (intro allI)
  fix n :: nat and out show "push b (n, out) = (if length [b] \<le> n then Some (n - length [b], [b] @ out) else None)"
    by (cases n) auto
qed

lemma writes_push_all: "writes (push_all vs) (rev vs)"
proof (induction vs)
  case Nil
  show ?case by (simp add: writes_def)
next
  case (Cons v vs)
  then show ?case using writes_bind [OF writes_push [of v] Cons] by (simp add: writes_def)
qed

lemma writes_length: "writes (\<lambda>p. snmpRWriteLength p t l) (header t l)"
  unfolding writes_def snmpRWriteLength_def header_def
  by (auto simp: writesD [OF writes_push])

definition tlv :: "u16 \<Rightarrow> bytes \<Rightarrow> bytes" where "tlv t vs = header t (int (length vs)) @ vs"

lemma writes_val:
  assumes "t \<noteq> Identifier"
  shows "writes (\<lambda>p. snmpRWriteVal p vs t (length vs)) (tlv t vs)"
  using writes_bind [OF writes_push_all [of "rev vs"] writes_length [of t "int (length vs)"]] assms
  by (simp add: writes_def snmpRWriteVal_def tlv_def)

lemma push_skipping_none: "0xFF \<notin> set vs \<Longrightarrow> push_skipping vs p c = map_option (Pair c) (push_all vs p)"
  by (induction vs arbitrary: p) (auto simp: map_option_bind comp_def intro: bind_option_cong)

lemma writes_oid:
  assumes "take 1 o' = [0x2B]" "0xFF \<notin> set o'"
  shows "writes (\<lambda>p. snmpRWriteVal p (o' @ x) Identifier (length o')) (tlv Identifier o')"
proof -
  obtain v where v: "o' = 0x2B # v" using assms(1) by (cases o') auto
  have h: "rd_at (o' @ x) 0 = Some 0x2B" by (simp add: v rd_at_def)
  have "push_skipping (rev o') p 0 = map_option (Pair 0) (push_all (rev o') p)" for p
    using assms(2) by (intro push_skipping_none) simp
  then show ?thesis
    using writes_bind [OF writes_push_all [of "rev o'"] writes_length [of Identifier "int (length o')"]]
    by (simp add: writes_def snmpRWriteVal_def h tlv_def Identifier_def comp_def bind_map_option)
qed

section \<open>Numbers\<close>

lemma write_loop_string:
  "\<exists>e. 1 \<le> length e \<and> length e \<le> Suc r \<and> (\<forall>n out. write_int_loop nn val i1 (n, out) =
     (if length e \<le> n then Some (i1 - int (length e), (n - length e, e @ out)) else None))"
  if "unat val < 256 ^ r" for r
  using that
proof (induction r arbitrary: val i1)
  case 0
  then have "val = 0" by (simp add: unat_eq_zero)
  then show ?case
    by (intro exI [of _ "[0]"]) (simp add: write_int_loop.simps [of _ 0] writesD [OF writes_push])
next
  case (Suc r)
  have d: "unat (drop_bit 8 val) < 256 ^ r" using Suc.prems by (simp add: unat_drop8 less_mult_imp_div_less mult.commute)
  obtain e where e: "1 \<le> length e" "length e \<le> Suc r" "\<forall>n out. write_int_loop nn (drop_bit 8 val) (i1 - 1) (n, out) =
      (if length e \<le> n then Some (i1 - 1 - int (length e), (n - length e, e @ out)) else None)" using Suc.IH [OF d] by blast
  show ?case
  proof (cases "drop_bit 8 val \<noteq> 0 \<and> i1 - 1 > 0 \<or> nn \<and> val AND 0x80 \<noteq> 0")
    case True
    have "\<forall>n out. write_int_loop nn val i1 (n, out) =
        (if length (e @ [ucast val]) \<le> n then Some (i1 - int (length (e @ [ucast val])), (n - length (e @ [ucast val]), (e @ [ucast val]) @ out)) else None)"
      using e(3) True by (subst write_int_loop.simps) (auto simp: writesD [OF writes_push])
    then show ?thesis using e(2) by (intro exI [of _ "e @ [ucast val]"]) simp
  next
    case False
    have "\<forall>n out. write_int_loop nn val i1 (n, out) =
        (if length [ucast val] \<le> n then Some (i1 - int (length [ucast val]), (n - length [ucast val], [ucast val] @ out)) else None)"
      using False by (subst write_int_loop.simps) (auto simp: writesD [OF writes_push])
    then show ?thesis by (intro exI [of _ "[ucast val]"]) simp
  qed
qed

definition num_tlv :: "u32 \<Rightarrow> u16 \<Rightarrow> nat \<Rightarrow> bytes" where
  "num_tlv val t l = (case snmpRWriteInt (16, []) val t l of None \<Rightarrow> [] | Some (_, e) \<Rightarrow> e)"

lemma writes_num:
  assumes "t = Integer \<Longrightarrow> 1 \<le> l \<and> l \<le> 4"
  shows "writes (\<lambda>p. snmpRWriteInt p val t l) (num_tlv val t l)"
proof -
  obtain l' nn where ln: "(if t = Integer then
            if 1 \<le> l \<and> l \<le> 4 then
              Some (if drop_bit (8 * (l - 1)) val AND 0x80 \<noteq> 0 then (int_len val (l - 1), False) else (l, True))
            else None
          else Some (l, True)) = Some (l' :: nat, nn :: bool)"
  proof -
    have "\<exists>x. (if t = Integer then
            if 1 \<le> l \<and> l \<le> 4 then
              Some (if drop_bit (8 * (l - 1)) val AND 0x80 \<noteq> 0 then (int_len val (l - 1), False) else (l, True))
            else None
          else Some (l, True)) = Some (x :: nat \<times> bool)" using assms by (cases "t = Integer") auto
    then show thesis using that by force
  qed
  obtain e where e: "length e \<le> 5" "\<forall>n out. write_int_loop nn val (int l') (n, out) =
      (if length e \<le> n then Some (int l' - int (length e), (n - length e, e @ out)) else None)"
    using write_loop_string [of val 4 nn "int l'"] unat32_lt [of val] by auto
  have w: "writes (\<lambda>p. snmpRWriteInt p val t l) (header t (int (length e)) @ e)"
    unfolding snmpRWriteInt_def ln writes_def by (auto simp: e(2) writesD [OF writes_length])
  have "length (header t (int (length e))) \<le> 4" by (simp add: header_def)
  then have "num_tlv val t l = header t (int (length e)) @ e" using e(1) writesD [OF w, of 16 "[]"] by (simp add: num_tlv_def)
  then show ?thesis using w by simp
qed

text \<open>A number whose sign bit is clear: its shortest big-endian form.\<close>

fun min_len :: "nat \<Rightarrow> nat" where
  "min_len v = (if v < 128 then 1 else Suc (min_len (v div 256)))"

declare min_len.simps [simp del]

lemma write_loop_min:
  assumes "1 \<le> i1 \<and> unat val < 256 ^ nat i1 \<or> i1 \<le> 0 \<and> val = 0" "min_len (unat val) \<le> n"
  shows "write_int_loop True val i1 (n, out) =
    Some (i1 - int (min_len (unat val)), (n - min_len (unat val), be (min_len (unat val)) (unat val) @ out))"
  using assms
proof (induction "unat val" arbitrary: val i1 n out rule: min_len.induct)
  case 1
  have d: "unat (drop_bit 8 val) = unat val div 256" by (rule unat_drop8)
  show ?case
  proof (cases "unat val < 128")
    case True
    then have m: "min_len (unat val) = 1" by (simp add: min_len.simps)
    then show ?thesis using write_int_last [OF True, of n i1 out] "1.prems"(2) by simp
  next
    case False
    then have m: "min_len (unat val) = Suc (min_len (unat (drop_bit 8 val)))" by (simp add: min_len.simps [of "unat val"] d)
    have i1: "1 \<le> i1" "unat val < 256 ^ nat i1" using "1.prems"(1) False by auto
    have cont: "drop_bit 8 val \<noteq> 0 \<and> i1 - 1 > 0 \<or> True \<and> val AND 0x80 \<noteq> 0"
    proof (cases "unat val < 256")
      case True
      then show ?thesis using sign_bit_u32 [of val] False by simp
    next
      case big: False
      then have "i1 \<noteq> 1" using i1(2) by auto
      moreover have "drop_bit 8 val \<noteq> 0" using d big by (auto simp flip: unat_eq_zero)
      ultimately show ?thesis using i1(1) by linarith
    qed
    have inv: "1 \<le> i1 - 1 \<and> unat (drop_bit 8 val) < 256 ^ nat (i1 - 1) \<or> i1 - 1 \<le> 0 \<and> drop_bit 8 val = 0"
    proof (cases "i1 = 1")
      case True
      then show ?thesis using i1(2) d by (simp flip: unat_eq_zero)
    next
      case False
      then have "256 ^ nat i1 = 256 * (256 ^ nat (i1 - 1) :: nat)"
        using i1(1) by (simp add: nat_diff_distrib' flip: power_Suc)
      then show ?thesis using i1 d False by (simp add: less_mult_imp_div_less mult.commute)
    qed
    have "min_len (unat (drop_bit 8 val)) \<le> n - 1" "0 < n" using "1.prems"(2) m by simp_all
    then show ?thesis
      using "1.hyps" [OF False d [symmetric] inv, of "n - 1" "of_nat (unat val) # out"] cont
        write_int_step [of n True val i1 out] by (simp add: m d)
  qed
qed

lemma num_tlv_min:
  assumes "v < 2 ^ 31"
  shows "num_tlv (of_nat v) Integer 4 = tlv Integer (be (min_len v) v)"
proof -
  have u: "unat (of_nat v :: u32) = v" using assms by (simp add: unat_of_nat)
  have "v div 2 ^ 31 = 0" using assms by simp
  then have "\<not> bit v 31" by (simp add: bit_iff_odd del: div_eq_0_iff)
  moreover have "bit (unat (of_nat v :: u32)) 31 \<longleftrightarrow> bit (of_nat v :: u32) 31" by (simp only: bit_unsigned_iff) simp
  ultimately have "\<not> bit (of_nat v :: u32) 31" by (simp only: u simp_thms)
  then have s: "\<not> drop_bit 24 (of_nat v :: u32) AND 0x80 \<noteq> 0" using bit_u32_and_0x80 [of 24 "of_nat v"] by simp
  have m: "min_len v \<le> 4" using assms by (simp add: min_len.simps)
  have "write_int_loop True (of_nat v) 4 (16, []) = Some (4 - int (min_len v), (16 - min_len v, be (min_len v) v))"
    using write_loop_min [of 4 "of_nat v" 16 "[]"] assms m by (simp add: u)
  then have "snmpRWriteInt (16, []) (of_nat v) Integer 4 = snmpRWriteLength (16 - min_len v, be (min_len v) v) Integer (int (min_len v))"
    using s by (simp add: snmpRWriteInt_def)
  then show ?thesis using m writesD [OF writes_length [of Integer "int (min_len v)"], of "16 - min_len v" "be (min_len v) v"]
    by (simp add: num_tlv_def tlv_def header_def)
qed

end
