(* ===== verification/SnmpOid.thy ===== *)
theory SnmpOid
  imports SnmpBerProofs "HOL-Library.Sublist"
begin

text \<open>
  Object identifiers: the base-128 encoding of a sub-identifier and its decoding, the comparison of
  encoded identifiers and the search built on it.
\<close>

section \<open>Sub-identifiers\<close>

fun chunks :: "nat \<Rightarrow> nat \<Rightarrow> bytes" where
  "chunks 0 v = []"
| "chunks (Suc k) v = chunks k (v div 128) @ [of_nat (v mod 128) OR 0x80]"

text \<open>The encoding with \<open>k + 1\<close> bytes.\<close>

definition id_bytes :: "nat \<Rightarrow> nat \<Rightarrow> bytes" where
  "id_bytes k v = chunks k (v div 128) @ [of_nat (v mod 128)]"

lemma length_chunks [simp]: "length (chunks k v) = k"
  by (induction k arbitrary: v) auto

lemma chunk_of_val: "(ucast (val :: u32) :: u8) OR 0x80 = of_nat (unat val mod 128) OR 0x80"
proof -
  have "bit (unat val mod 128) n \<longleftrightarrow> n < 7 \<and> bit val n" for n
    using take_bit_eq_mod [of 7 "unat val"] bit_take_bit_iff [of 7 "unat val" n] by (simp add: bit_unsigned_iff)
  moreover have "bit (0x80 :: u8) 7" by (simp add: bit_simps)
  ultimately show ?thesis
  proof (intro bit_word_eqI)
    fix n assume n: "n < LENGTH(8)" and b: "\<And>n. bit (unat val mod 128) n \<longleftrightarrow> n < 7 \<and> bit val n" "bit (0x80 :: u8) 7"
    show "bit (ucast val OR 0x80 :: u8) n = bit (of_nat (unat val mod 128) OR 0x80 :: u8) n"
    proof (cases "n = 7")
      case False
      then show ?thesis using n b(1) [of n] by (simp add: bit_simps)
    qed (use b(2) in \<open>simp add: bit_or_iff\<close>)
  qed
qed

lemma encode_step:
  "0 < n \<Longrightarrow> encode_chunks (Suc r) val (n, out) =
     (if drop_bit 7 val = 0 then Some (n - 1, (of_nat (unat val mod 128) OR 0x80) # out)
      else encode_chunks r (drop_bit 7 val) (n - 1, (of_nat (unat val mod 128) OR 0x80) # out))"
  by (simp only: encode_chunks.simps push_room bind.bind_lunit chunk_of_val)

lemma encode_chunks_spec:
  "unat val < 128 ^ Suc r \<Longrightarrow> Suc r \<le> n \<Longrightarrow>
   \<exists>k. 1 \<le> k \<and> k \<le> Suc r \<and> encode_chunks (Suc r) val (n, out) = Some (n - k, chunks k (unat val) @ out) \<and>
     unat val < 128 ^ k \<and> (k = 1 \<or> 128 ^ (k - 1) \<le> unat val)"
proof (induction r arbitrary: val n out)
  case 0
  have "unat (drop_bit 7 val) = unat val div 128" unfolding unat_drop_bit_eq by (simp add: drop_bit_eq_div)
  then have "unat (drop_bit 7 val) = 0" using 0(1) by simp
  then have "drop_bit 7 val = 0" by (rule unat_eq_zero [THEN iffD1])
  then have "encode_chunks (Suc 0) val (n, out) = Some (n - 1, chunks 1 (unat val) @ out)"
    using encode_step [of n 0 val out] 0(2) by simp
  then show ?case using 0(1) by (intro exI [of _ 1]) simp
next
  case (Suc r)
  let ?v = "drop_bit 7 val"
  have d: "unat ?v = unat val div 128" unfolding unat_drop_bit_eq by (simp add: drop_bit_eq_div)
  have enc: "encode_chunks (Suc (Suc r)) val (n, out) =
     (if ?v = 0 then Some (n - 1, (of_nat (unat val mod 128) OR 0x80) # out)
      else encode_chunks (Suc r) ?v (n - 1, (of_nat (unat val mod 128) OR 0x80) # out))"
    using encode_step [of n "Suc r" val out] Suc.prems(2) by simp
  show ?case
  proof (cases "?v = 0")
    case True
    then have "unat val < 128" using d by (simp add: div_eq_0_iff)
    then show ?thesis using True enc by (intro exI [of _ 1]) simp
  next
    case False
    then have big: "128 \<le> unat val" using d unat_gt_0 [of ?v] by (metis div_greater_zero_iff)
    have "unat ?v < 128 ^ Suc r" using Suc.prems(1) d by (simp add: less_mult_imp_div_less mult.commute mult.left_commute)
    moreover have "Suc r \<le> n - 1" using Suc.prems(2) by simp
    ultimately obtain k where k: "1 \<le> k" "k \<le> Suc r"
        "encode_chunks (Suc r) ?v (n - 1, (of_nat (unat val mod 128) OR 0x80) # out) =
          Some (n - 1 - k, chunks k (unat ?v) @ (of_nat (unat val mod 128) OR 0x80) # out)"
        "unat ?v < 128 ^ k" "k = 1 \<or> 128 ^ (k - 1) \<le> unat ?v"
      using Suc.IH by blast
    have "unat val < 128 ^ Suc k" using k(4) d by (simp add: div_less_iff_less_mult mult.commute)
    moreover have "128 ^ (Suc k - 1) \<le> unat val"
    proof (cases "k = 1")
      case True then show ?thesis using big by simp
    next
      case False
      then have "128 ^ (k - 1) \<le> unat val div 128" using k(5) d by simp
      then have "128 * 128 ^ (k - 1) \<le> unat val" by (simp add: less_eq_div_iff_mult_less_eq mult.commute)
      then show ?thesis using k(1) by (cases k) auto
    qed
    ultimately show ?thesis using k enc False d by (intro exI [of _ "Suc k"]) simp
  qed
qed

lemma clear_high: "(of_nat (v mod 128) OR 0x80) AND NOT 0x80 = (of_nat (v mod 128) :: u8)"
proof (rule bit_word_eqI)
  fix n assume n: "n < LENGTH(8)"
  have "bit (v mod 128) n \<longleftrightarrow> n < 7 \<and> bit v n" using take_bit_eq_mod [of 7 v] bit_take_bit_iff [of 7 v n] by simp
  moreover have "bit (0x80 :: u8) n \<longleftrightarrow> n = 7" using n by (auto simp: bit_simps numeral_eq_Suc less_Suc_eq)
  ultimately show "bit ((of_nat (v mod 128) OR 0x80) AND NOT 0x80 :: u8) n = bit (of_nat (v mod 128) :: u8) n"
    using n by (auto simp: bit_simps)
qed

lemma encode_id:
  assumes "unat val < 128 ^ olen" "1 \<le> olen" "olen \<le> n"
  shows "\<exists>k < olen. snmpEncodeID (n, out) olen val = Some (n - Suc k, id_bytes k (unat val) @ out) \<and>
    unat val < 128 ^ Suc k \<and> (k = 0 \<or> 128 ^ k \<le> unat val)"
proof -
  obtain r where r: "olen = Suc r" using assms(2) by (cases olen) auto
  obtain k where k: "1 \<le> k" "k \<le> Suc r" "encode_chunks (Suc r) val (n, out) = Some (n - k, chunks k (unat val) @ out)"
      "unat val < 128 ^ k" "k = 1 \<or> 128 ^ (k - 1) \<le> unat val"
    using encode_chunks_spec [of val r n out] assms r by auto
  obtain j where j: "k = Suc j" using k(1) by (cases k) auto
  have "snmpEncodeID (n, out) olen val = Some (n - Suc j, id_bytes j (unat val) @ out)"
    using k(3) clear_high [of "unat val", simplified]
    by (simp add: snmpEncodeID_def r j id_bytes_def nth_append list_update_append del: encode_chunks.simps)
  then show ?thesis using k j r by (intro exI [of _ j]) auto
qed

section \<open>Decoding\<close>

lemma decode_loop_append:
  "\<forall>b \<in> set xs. b AND 0x80 \<noteq> 0 \<Longrightarrow>
   snmpDecodeID_loop u (xs @ ys) = snmpDecodeID_loop (foldl (\<lambda>u b. push_bit 7 u OR (ucast b AND 0x7F)) u xs) ys"
  by (induction xs arbitrary: u) auto

lemma or_chunk: "x < 128 \<Longrightarrow> push_bit 7 (u :: 'a :: len word) OR of_nat x = u * 128 + of_nat x"
proof -
  assume x: "x < 128"
  have "take_bit 7 x = x" using x by (simp add: take_bit_nat_eq_self)
  then have "\<not> bit x n" if "7 \<le> n" for n using that bit_take_bit_iff [of 7 x n] by simp
  then have "push_bit 7 u + of_nat x = push_bit 7 u OR of_nat x"
    by (intro disjunctive_add_eq_or) (auto simp: bit_eq_iff bit_simps)
  then show ?thesis by (simp add: push_bit_eq_mult)
qed

lemma high_chunk: "unat (of_nat (v mod 128) OR 0x80 :: u8) = v mod 128 + 128"
proof -
  have "of_nat (v mod 128) OR 0x80 = push_bit 7 1 OR (of_nat (v mod 128) :: u8)" by (simp add: or.commute)
  also have "\<dots> = 1 * 128 + of_nat (v mod 128)" by (rule or_chunk) simp
  finally show ?thesis by (simp add: unat_word_ariths unat_of_nat8)
qed

lemma unat_ucast_8_32: "unat (ucast (b :: u8) :: u32) = unat b"
  using unat8_lt [of b] by (simp add: unsigned_ucast_eq take_bit_nat_eq_self)

lemma chunk_value: "(ucast (of_nat (v mod 128) OR 0x80 :: u8) :: u32) AND 0x7F = of_nat (v mod 128)"
proof -
  let ?w = "ucast (of_nat (v mod 128) OR 0x80 :: u8) :: u32"
  have "?w AND 0x7F = take_bit 7 ?w" by (simp add: take_bit_eq_mask mask_numeral)
  moreover have "unat (take_bit 7 ?w) = take_bit 7 (unat ?w)" by (rule unsigned_take_bit_eq)
  moreover have "take_bit 7 (unat ?w) = v mod 128" by (simp add: take_bit_eq_mod unat_ucast_8_32 high_chunk)
  ultimately have "unat (?w AND 0x7F) = v mod 128" by simp
  then show ?thesis by (metis of_nat_unat ucast_id)
qed

lemma chunks_high: "\<forall>b \<in> set (chunks k v). b AND 0x80 \<noteq> 0"
  by (induction k arbitrary: v) (auto simp: and_0x80 high_chunk)

lemma foldl_chunks:
  "foldl (\<lambda>u b. push_bit 7 u OR (ucast b AND 0x7F)) (0 :: u32) (chunks k v) = of_nat (v mod 128 ^ k)"
proof (induction k arbitrary: v)
  case (Suc k)
  have "v mod 128 ^ Suc k = 128 * (v div 128 mod 128 ^ k) + v mod 128" by (simp add: mod_mult2_eq)
  then show ?case by (simp add: Suc chunk_value or_chunk)
qed simp

lemma decode_id_bytes:
  "v < 128 ^ Suc k \<Longrightarrow> snmpDecodeID (id_bytes k v @ out) = Some (of_nat v, out)"
proof -
  assume v: "v < 128 ^ Suc k"
  have low: "(of_nat (v mod 128) :: u8) AND 0x80 = 0" 
  proof -
    have "\<not> 128 \<le> unat (of_nat (v mod 128) :: u8)" by (simp add: unat_of_nat8 not_le)
    then show ?thesis using and_0x80 by blast
  qed
  have "snmpDecodeID (id_bytes k v @ out) = snmpDecodeID_loop (of_nat (v div 128 mod 128 ^ k)) (of_nat (v mod 128) # out)"
    unfolding snmpDecodeID_def id_bytes_def append_assoc
    using decode_loop_append [OF chunks_high] foldl_chunks [of k "v div 128"] by simp
  also have "\<dots> = Some (push_bit 7 (of_nat (v div 128 mod 128 ^ k)) OR ucast (of_nat (v mod 128) :: u8), out)" using low by simp
  also have "v div 128 mod 128 ^ k = v div 128" using v by (simp add: less_mult_imp_div_less mult.commute)
  also have "(ucast (of_nat (v mod 128) :: u8) :: u32) = of_nat (v mod 128)"
    by (simp add: word_unat_eq_iff unat_ucast_8_32 unat_of_nat8 unat_of_nat)
  also have "push_bit 7 (of_nat (v div 128)) OR of_nat (v mod 128) = (of_nat (v div 128) * 128 + of_nat (v mod 128) :: u32)"
    by (rule or_chunk) simp
  also have "\<dots> = of_nat (v div 128 * 128 + v mod 128)" by (simp only: of_nat_add of_nat_mult of_nat_numeral)
  also have "v div 128 * 128 + v mod 128 = v" by simp
  finally show ?thesis .
qed

text \<open>C30. A sub-identifier that fits the requested number of chunks is decoded to the value that was
  encoded, and its encoding is the shortest one: \<open>k + 1\<close> bytes for a value of at least \<open>128 ^ k\<close>.\<close>

theorem snmpEncodeID_roundtrip:
  assumes "unat val < 128 ^ olen" "1 \<le> olen" "olen \<le> n"
  shows "\<exists>enc. snmpEncodeID (n, out) olen val = Some (n - length enc, enc @ out) \<and>
    snmpDecodeID (enc @ out) = Some (val, out) \<and> length enc \<le> olen \<and>
    (length enc = 1 \<or> 128 ^ (length enc - 1) \<le> unat val)"
proof -
  obtain k where k: "k < olen" "snmpEncodeID (n, out) olen val = Some (n - Suc k, id_bytes k (unat val) @ out)"
      "unat val < 128 ^ Suc k" "k = 0 \<or> 128 ^ k \<le> unat val"
    using encode_id [OF assms] by blast
  show ?thesis
    using k decode_id_bytes [OF k(3), of out] by (intro exI [of _ "id_bytes k (unat val)"]) (auto simp: id_bytes_def)
qed

theorem snmpEncodeID_roundtrip_witness:
  "\<exists>enc. snmpEncodeID (10, [1]) 5 0xFFFFFFFF = Some (10 - length enc, enc @ [1]) \<and>
    snmpDecodeID (enc @ [1]) = Some (0xFFFFFFFF, [1])"
  using snmpEncodeID_roundtrip [of "0xFFFFFFFF" 5 10 "[1]"] by auto

section \<open>Comparing identifiers\<close>

definition plain :: "bytes \<Rightarrow> bool" where
  "plain xs \<longleftrightarrow> (\<forall>b \<in> set xs. unat b < 128)"

lemma compare_loop_plain:
  assumes "plain xs" "plain ys"
  shows "\<exists>c m. compare_loop xs ys (min (length xs) (length ys)) = Some (c, m) \<and>
    (c = 0 \<longleftrightarrow> prefix xs ys \<or> prefix ys xs) \<and> (c < 0 \<longleftrightarrow> ord_class.lexordp xs ys \<and> \<not> prefix xs ys)"
  using assms
proof (induction xs arbitrary: ys)
  case (Cons x xs)
  show ?case
  proof (cases ys)
    case (Cons y ys')
    have low: "x AND 0x80 = 0" "y AND 0x80 = 0"
      using Cons.prems Cons and_0x80 [of x] and_0x80 [of y] by (auto simp: plain_def not_le)
    show ?thesis
    proof (cases "x = y")
      case True
      then show ?thesis using Cons.IH [of ys'] Cons.prems Cons by (auto simp: plain_def)
    next
      case False
      have "int (unat x) - int (unat y) < 0 \<longleftrightarrow> x < y" "int (unat x) - int (unat y) = 0 \<longleftrightarrow> x = y"
        by (simp_all add: word_less_def word_uint_eq_iff)
      moreover have "compare_loop (x # xs) ys (min (length (x # xs)) (length ys)) =
          Some (int (unat x) - int (unat y), min (length xs) (length ys'))"
        using False Cons low by (simp del: uint_nat of_nat_unat)
      ultimately show ?thesis using False Cons by (cases "x < y") (simp_all del: of_nat_unat)
    qed
  qed simp
qed simp

text \<open>C28. For identifiers whose sub-identifiers are all below 128, the comparison is the
  lexicographic order: the result is 0 for equal identifiers only, negative when the first one comes
  first, and between 1 and 254 exactly when the second one is a proper prefix of the first, which is
  how the agent recognises an instance of an object.\<close>

theorem snmpVCompare_lexicographic:
  assumes "plain xs" "plain ys" "length xs < 255" "length ys < 255"
  shows "\<exists>r. snmpVCompare xs (length xs) ys (length ys) = Some r \<and> (r = 0 \<longleftrightarrow> xs = ys) \<and>
    (r < 0 \<longleftrightarrow> ord_class.lexordp xs ys) \<and> (0 < r \<and> r < 255 \<longleftrightarrow> strict_prefix ys xs)"
proof -
  have m: "(if length xs > length ys then length ys else length xs) = min (length xs) (length ys)" by simp
  obtain c k where c: "compare_loop xs ys (min (length xs) (length ys)) = Some (c, k)"
      "c = 0 \<longleftrightarrow> prefix xs ys \<or> prefix ys xs" "c < 0 \<longleftrightarrow> ord_class.lexordp xs ys \<and> \<not> prefix xs ys"
    using compare_loop_plain [OF assms(1,2)] by blast
  define w where "w = 65536 * (if k \<noteq> 0 then int k else 1)"
  have w: "65536 \<le> w" by (auto simp: w_def)
  have r: "snmpVCompare xs (length xs) ys (length ys) = Some (c * w + int (length xs) - int (length ys))"
    using c(1) by (simp add: snmpVCompare_def m w_def mult.assoc)
  have neg: "ord_class.lexordp xs ys" if "strict_prefix xs ys" using that by (auto simp: strict_prefix_def prefix_def intro: lexordp_append_rightI)
  have irrefl: "\<not> ord_class.lexordp xs xs" by (simp add: lexordp_irreflexive)
  have asym: "\<not> ord_class.lexordp xs ys" if pre: "prefix ys xs"
  proof
    assume l: "ord_class.lexordp xs ys"
    from pre obtain zs where "xs = ys @ zs" by (auto simp: prefix_def)
    with l have "ord_class.lexordp (ys @ zs) (ys @ [])" by simp
    then have "ord_class.lexordp zs []" by (rule lexordp_append_leftD) auto
    then show False by simp
  qed
  consider "xs = ys" | "strict_prefix xs ys" | "strict_prefix ys xs" | "c < 0" | "c > 0"
    using c(2) by (fastforce simp: strict_prefix_def)
  then show ?thesis
  proof cases
    case 1
    then show ?thesis using r c(2) irrefl by auto
  next
    case 2
    then have "length xs < length ys" by (rule prefix_length_less)
    then show ?thesis using 2 r c(2) neg by (auto simp: strict_prefix_def dest: prefix_order.antisym)
  next
    case 3
    then have "length ys < length xs" by (rule prefix_length_less)
    then show ?thesis using 3 r c(2) asym assms(3) by (auto simp: strict_prefix_def dest: prefix_order.antisym)
  next
    case 4
    then have "c * w \<le> - 1 * w" using w by (intro mult_right_mono) auto
    then have "c * w + int (length xs) - int (length ys) < 0" using w assms(3) by linarith
    then show ?thesis using 4 r c by (auto simp: strict_prefix_def)
  next
    case 5
    then have "1 * w \<le> c * w" using w by (intro mult_right_mono) auto
    then have "255 \<le> c * w + int (length xs) - int (length ys)" using w assms(4) by linarith
    then show ?thesis using 5 r c by (auto simp: strict_prefix_def)
  qed
qed

theorem snmpVCompare_lexicographic_witness:
  "\<exists>r. snmpVCompare [43, 6, 1, 0] 4 [43, 6, 1] 3 = Some r \<and> 0 < r \<and> r < 255"
proof -
  have p: "plain [43, 6, 1, 0]" "plain [43, 6, 1]" "strict_prefix [43 :: u8, 6, 1] [43, 6, 1, 0]"
    by (simp_all add: plain_def strict_prefix_def)
  have l: "length [43 :: u8, 6, 1, 0] = 4" "length [43 :: u8, 6, 1] = 3" by simp_all
  then have "length [43 :: u8, 6, 1, 0] < 255" "length [43 :: u8, 6, 1] < 255" by simp_all
  from snmpVCompare_lexicographic [OF p(1,2) this] show ?thesis unfolding l using p(3) by blast
qed

text \<open>With larger sub-identifiers the comparison can be the wrong way round: it compares the rest of
  two encodings from their first differing byte as numbers, without their lengths, so that
  16385 (\<open>81 80 01\<close>) comes before 133 (\<open>81 05\<close>).\<close>

theorem snmpVCompare_misorders:
  "snmpVCompare (id_bytes 2 16385) 3 (id_bytes 1 133) 2 = Some (- 65535) \<and>
   snmpDecodeID (id_bytes 2 16385) = Some (16385, []) \<and> snmpDecodeID (id_bytes 1 133) = Some (133, [])"
proof -
  have e: "id_bytes 2 16385 = [0x81, 0x80, 0x01]" "id_bytes 1 133 = [0x81, 0x05]"
    by (simp_all add: id_bytes_def numeral_2_eq_2)
  have "snmpVCompare [0x81, 0x80, 0x01] 3 [0x81, 0x05] 2 = Some (- 65535)"
  proof -
    have "rest_of_id 0x80 [0x01] = Some 1" "rest_of_id 0x05 [] = Some 5" by (simp_all add: rest_of_id_def)
    then have "compare_loop [0x81, 0x80, 0x01] [0x81, 0x05] (Suc (Suc 0)) = Some (- 1, Suc 0)" by simp
    then show ?thesis by (simp add: snmpVCompare_def numeral_2_eq_2)
  qed
  then show ?thesis
    using decode_id_bytes [of 16385 2 "[]"] decode_id_bytes [of 133 1 "[]"] by (simp only: e) simp
qed

section \<open>Searching for an object\<close>

lemma find_oid_loop_plain:
  assumes "plain v" "length v < 255" "\<forall>name \<in> set names. plain name \<and> length name < 255"
  shows "\<exists>r'. find_oid_loop names i v (length v) r =
    Some (if v \<in> set names then (i + length (takeWhile (\<lambda>name. name \<noteq> v) names), 0) else (i + length names, r')) \<and>
    (if names = [] then r' = r else v \<in> set names \<or> r' \<noteq> 0)"
  using assms(3)
proof (induction names arbitrary: i r)
  case (Cons name names)
  obtain q where q: "snmpVCompare v (length v) name (length name) = Some q" "q = 0 \<longleftrightarrow> v = name"
    using snmpVCompare_lexicographic [of v name] assms(1,2) Cons.prems by auto
  show ?case
  proof (cases "q = 0")
    case True
    then show ?thesis using q by simp
  next
    case False
    obtain r' where "find_oid_loop names (Suc i) v (length v) q =
        Some (if v \<in> set names then (Suc i + length (takeWhile (\<lambda>name. name \<noteq> v) names), 0) else (Suc i + length names, r'))"
      "if names = [] then r' = q else v \<in> set names \<or> r' \<noteq> 0"
      using Cons.IH [of "Suc i" q] Cons.prems by auto
    then show ?thesis using q False by (intro exI [of _ r']) (auto split: if_splits)
  qed
qed simp

text \<open>A search in a non-empty table of objects with small sub-identifiers finds the first object
  with the given name if there is one, and no object otherwise. An empty table is reported as a match
  of its first element, which does not exist.\<close>

theorem snmpFindOID_spec:
  assumes "plain v" "length v < 255" "\<forall>name \<in> set names. plain name \<and> length name < 255" "names \<noteq> []"
  shows "(v \<in> set names \<longrightarrow> snmpFindOID (Some names) v (length v) =
      Some (Some (length (takeWhile (\<lambda>name. name \<noteq> v) names)), 0)) \<and>
    (v \<notin> set names \<longrightarrow> (\<exists>r. r \<noteq> 0 \<and> snmpFindOID (Some names) v (length v) = Some (None, r))) \<and>
    snmpFindOID (Some []) v (length v) = Some (Some 0, 0)"
  using find_oid_loop_plain [OF assms(1-3), of 0 0] assms(4) by (auto simp: snmpFindOID_def)

theorem snmpFindOID_spec_witness:
  "snmpFindOID (Some [[43, 6], [43, 7]]) [43, 7] 2 = Some (Some 1, 0)"
proof -
  have l: "length [43 :: u8, 7] = 2" by simp
  have "plain [43, 7]" "\<forall>name \<in> set [[43, 6], [43, 7]]. plain name \<and> length name < 255" by (simp_all add: plain_def)
  from snmpFindOID_spec [OF this(1) _ this(2)] show ?thesis unfolding l by simp
qed

section \<open>Values\<close>

lemma push_all_room: "length vs \<le> n \<Longrightarrow> push_all vs (n, out) = Some (n - length vs, rev vs @ out)"
  by (induction vs arbitrary: n out) (auto simp: push_room)

lemma push_skipping_room:
  "length vs \<le> n \<Longrightarrow> push_skipping vs (n, out) c =
     Some (c + int (length (filter (\<lambda>b. b = 0xFF) vs)),
       (n - length (filter (\<lambda>b. b \<noteq> 0xFF) vs), rev (filter (\<lambda>b. b \<noteq> 0xFF) vs) @ out))"
proof (induction vs arbitrary: n out c)
  case (Cons v vs)
  then show ?case by (cases "v = 0xFF") (auto simp: push_room)
qed simp

lemma length_filter_partition: "length (filter P xs) + length (filter (\<lambda>x. \<not> P x) xs) = length xs"
  by (induction xs) auto

text \<open>A string is read back as it was written. An object identifier below \<open>iso.org\<close>, whose first
  byte is \<open>2B\<close>, loses every byte \<open>FF\<close>: the writer takes them for padding, but they also occur in
  encodings of large sub-identifiers.\<close>

theorem snmpRWriteVal_roundtrip:
  assumes "length vp < 128" "unat type < 256" "length vp + 4 \<le> n" "type = Identifier \<Longrightarrow> vp \<noteq> [] \<and> hd vp = 0x2B"
  shows "\<exists>enc. snmpRWriteVal (n, out) vp type (length vp) = Some (n - length enc, enc @ out) \<and>
    snmpReadVal 127 (enc @ out) type =
      (let v = (if type = Identifier then filter (\<lambda>b. b \<noteq> 0xFF) vp else vp) in Some (int (length v), v, out))"
proof -
  define v where "v = (if type = Identifier then filter (\<lambda>b. b \<noteq> 0xFF) vp else vp)"
  have len: "length v \<le> length vp" by (simp add: v_def)
  have "snmpRWriteVal (n, out) vp type (length vp) = snmpRWriteLength (n - length v, v @ out) type (int (length v))"
  proof (cases "type = Identifier")
    case True
    define c where "c = length (filter (\<lambda>b. b = 0xFF) vp)"
    have c: "c + length v = length vp" using length_filter_partition [of "\<lambda>b. b = 0xFF" vp] True by (simp add: c_def v_def)
    have "push_skipping (rev vp) (n, out) 0 = Some (int c, (n - length v, v @ out))"
      using push_skipping_room [of "rev vp" n out 0] assms(3) True by (simp add: c_def v_def rev_filter flip: rev_filter)
    moreover have "rd_at vp 0 = Some 0x2B" using assms(4) [OF True] by (auto simp: rd_at_def hd_conv_nth)
    moreover have "int (length vp) - int c mod 256 = int (length v)" using c assms(1) by simp
    ultimately show ?thesis using True by (simp add: snmpRWriteVal_def)
  next
    case False
    then show ?thesis using assms(3) push_all_room [of "rev vp" n out] by (simp add: snmpRWriteVal_def v_def)
  qed
  also have "\<dots> = Some (n - length (header type (int (length v)) @ v), (header type (int (length v)) @ v) @ out)"
    using assms(1,3) len by (simp add: write_length)
  finally have w: "snmpRWriteVal (n, out) vp type (length vp) =
    Some (n - length (header type (int (length v)) @ v), (header type (int (length v)) @ v) @ out)" .
  have "snmpReadLength (header type (int (length v)) @ v @ out) type = Some (int (length v), v @ out)"
    using assms(1,2) len by (intro read_header_nat) auto
  then have "snmpReadVal 127 ((header type (int (length v)) @ v) @ out) type = Some (int (length v), v, out)"
    using assms(1) len by (simp add: snmpReadVal_def)
  then show ?thesis unfolding Let_def v_def [symmetric] using w by blast
qed

theorem snmpRWriteVal_roundtrip_witness:
  "\<exists>enc. snmpReadVal 127 (enc @ [1]) Identifier = Some (3, [0x2B, 6, 0x7F], [1])"
proof -
  have f: "filter (\<lambda>b. b \<noteq> 0xFF) [0x2B :: u8, 6, 0xFF, 0x7F] = [0x2B, 6, 0x7F]"
    "int (length [0x2B :: u8, 6, 0x7F]) = 3" "unat Identifier < 256" by (simp_all add: Identifier_def)
  have "length [0x2B :: u8, 6, 0xFF, 0x7F] < 128" "length [0x2B :: u8, 6, 0xFF, 0x7F] + 4 \<le> 20" by simp_all
  from snmpRWriteVal_roundtrip [OF this(1) f(3) this(2), of "[1]"] show ?thesis
    unfolding Let_def by (simp only: simp_thms if_True f list.simps list.sel) blast
qed

end
