(* ===== verification/SnmpWalk.thy ===== *)
theory SnmpWalk
  imports SnmpWrite SnmpOid
begin

text \<open>
  The instances of the MIB, in the order of their names, and how the agent finds the one asked for
  and the next one.
\<close>

section \<open>Instances\<close>

text \<open>A variable and a row; scalars have the row \<open>-1\<close>.\<close>

type_synonym inst = "nat \<times> int"

definition instances :: "inst list" where
  "instances = map (\<lambda>i. (i, -1)) [0..<7] @ concat (map (\<lambda>i. map (\<lambda>r. (i, int r)) [0..<64]) [7, 8, 9])"

definition inst_oid :: "inst \<Rightarrow> bytes" where
  "inst_oid x = oid (mibvar_ace ! fst x) @ (if snd x < 0 then [] else [word_of_int (snd x + 1)])"

definition inst_table :: "inst \<Rightarrow> mibtab option" where
  "inst_table x = (if fst x < 7 then None else Some (hd mibtab_ace))"

lemma set_instances: "(i, t) \<in> set instances \<longleftrightarrow> i < 7 \<and> t = -1 \<or> i \<in> {7, 8, 9} \<and> 0 \<le> t \<and> t < 64"
proof -
  have "(\<exists>r. t = int r \<and> r < 64) \<longleftrightarrow> 0 \<le> t \<and> t < 64" by (metis nat_eq_iff2 of_nat_0_le_iff of_nat_less_iff of_nat_numeral)
  then show ?thesis unfolding instances_def by (auto simp: image_iff)
qed

text \<open>The shape of the memory: the sizes of the objects, the terminated texts, the identifier of the
  device, and the rows with their index.\<close>

definition row :: "snmp \<Rightarrow> nat \<Rightarrow> bytes" where "row st r = take 20 (drop (20 * r) (objs st ! 6))"

definition mib_ok :: "snmp \<Rightarrow> bool" where
  "mib_ok st \<longleftrightarrow> map length (objs st) = [16, 16, 4, 16, 16, 16, 1280] \<and> analogPropertyNO st = 64 \<and>
     (\<forall>i \<in> {0, 3, 4, 5}. 0 \<in> set (objs st ! i)) \<and>
     objs st ! 1 = [0x2b, 6, 1, 4, 1, 0x82, 0xb9, 0x6c, 1] @ replicate 7 0 \<and>
     (\<forall>r < 64. take 2 (row st r) = [of_nat (r + 1), 0] \<and> 0 \<in> set (drop 4 (row st r)))"

section \<open>Rows\<close>

lemma take_drop_take: "k + n \<le> m \<Longrightarrow> take n (drop k (take m xs)) = take n (drop k xs)"
  by (simp add: drop_take min_def)

lemma mib_okD:
  assumes "mib_ok st"
  shows "length (objs st) = 7" "length (objs st ! 0) = 16" "length (objs st ! 1) = 16" "length (objs st ! 2) = 4"
    "length (objs st ! 3) = 16" "length (objs st ! 4) = 16" "length (objs st ! 5) = 16" "length (objs st ! 6) = 1280"
    "analogPropertyNO st = 64" "objs st ! 1 = [0x2b, 6, 1, 4, 1, 0x82, 0xb9, 0x6c, 1] @ replicate 7 0"
  using assms by (auto simp: mib_ok_def map_eq_Cons_conv)

lemma load_row:
  assumes "mib_ok st" "r < 64" "k + n \<le> 20"
  shows "load st (6, 20 * r + k) n = Some (take n (drop k (row st r)))"
proof -
  have "20 * r + k + n \<le> 1280" using assms(2,3) by linarith
  then show ?thesis
    using mib_okD(1,8) [OF assms(1)] by (simp add: load_def row_def take_drop_take [OF assms(3)] add.commute)
qed

text \<open>The encoding of the index of a row is one byte, the number of the row from 1 on.\<close>

lemma le_value2: "le_value [b, 0] = ucast b"
  by (simp add: le_value_def)

lemma encode_small_id:
  assumes "unat val < 128"
  shows "snmpEncodeID (Suc n, out) (Suc k) val = Some (n, of_nat (unat val) # out)"
proof -
  have "unat (drop_bit 7 val) = unat val div 128" unfolding unat_drop_bit_eq by (simp add: drop_bit_eq_div)
  then have "unat (drop_bit 7 val) = 0" using assms by simp
  then have "drop_bit 7 val = 0" by (rule unat_eq_zero [THEN iffD1])
  then have "encode_chunks (Suc k) val (Suc n, out) = Some (n, (of_nat (unat val mod 128) OR 0x80) # out)"
    using encode_step [of "Suc n" k val out] by simp
  then show ?thesis using clear_high [of "unat val"] assms by (simp add: snmpEncodeID_def del: encode_chunks.simps)
qed

lemma index_bytes_at:
  assumes l: "load st (6, 20 * r) 2 = Some [of_nat (r + 1), 0]" and r: "r < 64"
  shows "snmpEncodeIndex st (hd mibtab_ace) (int r) v (Suc n, out) = Some (n, of_nat (r + 1) # out)"
    and "snmpEncodeIndex st (hd mibtab_ace) (int r) v (0, out) = None"
proof -
  have c: "snmpVCompare (tab_oid (hd mibtab_ace)) (length (tab_oid (hd mibtab_ace))) (oid (mibvar_ace ! 7))
      (length (oid (mibvar_ace ! 7)) - 2) = Some 0" by code_simp
  have m: "ix (hd mibtab_ace) = [7]" "tab_len (hd mibtab_ace) = 20" "opt (mibvar_ace ! 7) = 0" "var_type (mibvar_ace ! 7) = Integer"
    "var_len (mibvar_ace ! 7) = 2" "ptr (mibvar_ace ! 7) = (6, 0)" by (simp_all add: mibtab_ace_def mibvar_ace_def)
  have u: "unat (ucast (of_nat (r + 1) :: u8) :: u32) = r + 1" using r
    by (simp only: unat_ucast_8_32 unat_of_nat8) simp
  have "snmpEncodeID (Suc n, out) 3 (ucast (of_nat (r + 1) :: u8)) = Some (n, of_nat (r + 1) # out)"
    using encode_small_id [of "ucast (of_nat (r + 1) :: u8)" n out 2] r by (simp only: u numeral_3_eq_3 numeral_2_eq_2)
  then show "snmpEncodeIndex st (hd mibtab_ace) (int r) v (Suc n, out) = Some (n, of_nat (r + 1) # out)"
    using l by (simp add: snmpEncodeIndex_def encode_index_def c m is_number_def Let_def le_value2)
  have "snmpEncodeID (0, out) 3 val = None" for val by (simp add: snmpEncodeID_def numeral_3_eq_3)
  then show "snmpEncodeIndex st (hd mibtab_ace) (int r) v (0, out) = None"
    using l by (simp add: snmpEncodeIndex_def encode_index_def c m is_number_def Let_def le_value2)
qed

lemma index_loaded: "mib_ok st \<Longrightarrow> r < 64 \<Longrightarrow> load st (6, 20 * r) 2 = Some [of_nat (r + 1), 0]"
  using load_row [of st r 0 2] by (simp add: mib_ok_def)

lemma index_bytes:
  assumes "mib_ok st" "r < 64"
  shows "snmpEncodeIndex st (hd mibtab_ace) (int r) v (Suc n, out) = Some (n, of_nat (r + 1) # out)"
  by (rule index_bytes_at(1) [OF index_loaded [OF assms] assms(2)])

text \<open>So the comparison of a row with an index of one byte is that of the numbers.\<close>

lemma compare_row_byte:
  assumes "mib_ok st" "r < 64" "r' < 64"
  shows "compare_row st (hd mibtab_ace) v (of_nat (r' + 1) # x) 1 (int r) =
    Some (if r = r' then 0 else (int r - int r') * 65536)"
proof -
  have e: "snmpEncodeIndex st (hd mibtab_ace) (int r) v (MAXKLEN, []) = Some (21, [of_nat (r + 1)])"
    using index_bytes [OF assms(1,2), of v 21 "[]"] by simp
  have u: "unat (of_nat (k + 1) :: u8) = k + 1" if "k < 64" for k using that by (simp only: unat_of_nat8) simp
  have "(of_nat (r + 1) :: u8) = of_nat (r' + 1) \<longleftrightarrow> r = r'" using u [OF assms(2)] u [OF assms(3)] by (metis add_right_imp_eq)
  moreover have "(of_nat (r + 1) :: u8) AND 0x80 = 0" "(of_nat (r' + 1) :: u8) AND 0x80 = 0"
    using and_0x80 [of "of_nat (r + 1)"] and_0x80 [of "of_nat (r' + 1)"] u [OF assms(2)] u [OF assms(3)] assms(2,3) by auto
  ultimately show ?thesis using u [OF assms(2)] u [OF assms(3)]
    by (auto simp: compare_row_def e snmpVCompare_def left_diff_distrib simp del: of_nat_add of_nat_Suc) (simp_all add: algebra_simps)
qed

lemma find_exact:
  assumes "mib_ok st" "r' < 64" "k \<le> r'" "v \<in> {7, 8, 9}"
  shows "find_row st v (compare_row st (hd mibtab_ace) v (of_nat (r' + 1) # x) 1) (\<lambda>sl1. sl1 = 0) (int k) = Some (True, int r')"
  using assms(3)
proof (induction "r' - k" arbitrary: k)
  case 0
  then have k: "k = r'" by simp
  have "mibindex_ace v (int r') st = 1" using assms(2,4) mib_okD(9) [OF assms(1)] by (auto simp: mibindex_ace_def)
  then show ?case unfolding k using compare_row_byte [OF assms(1,2,2), of v x] by (subst find_row.simps) simp
next
  case (Suc m)
  then have k: "k < r'" "m = r' - Suc k" "Suc k \<le> r'" by simp_all
  have "mibindex_ace v (int k) st = 1" using assms(2,4) k(1) mib_okD(9) [OF assms(1)] by (auto simp: mibindex_ace_def)
  moreover have "find_row st v (compare_row st (hd mibtab_ace) v (of_nat (r' + 1) # x) 1) (\<lambda>sl1. sl1 = 0) (int k + 1) = Some (True, int r')"
    using Suc.hyps(1) [OF k(2,3)] by (simp add: add.commute)
  ultimately show ?case using compare_row_byte [OF assms(1) _ assms(2), of k v x] k(1) assms(2) by (subst find_row.simps) simp
qed

lemma find_index:
  assumes "mib_ok st" "r < 64" "v \<in> {7, 8, 9}"
  shows "snmpFindIndex st (hd mibtab_ace) v (of_nat (r + 1) # x) 1 False = Some (int r, True)"
    and "snmpFindIndex st (hd mibtab_ace) v (of_nat (r + 1) # x) 1 True = Some (if r < 63 then (int r + 1, True) else (63, False))"
proof -
  note f = find_exact [OF assms(1,2) _ assms(3), of 0 x, simplified]
  show "snmpFindIndex st (hd mibtab_ace) v (of_nat (r + 1) # x) 1 False = Some (int r, True)"
    using f by (simp add: snmpFindIndex_def Let_def)
  have "mibindex_ace v (int r + 1) st = (if r < 63 then 1 else -1)"
    using assms(2,3) mib_okD(9) [OF assms(1)] by (auto simp: mibindex_ace_def)
  then show "snmpFindIndex st (hd mibtab_ace) v (of_nat (r + 1) # x) 1 True = Some (if r < 63 then (int r + 1, True) else (63, False))"
    using f assms(2) by (simp add: snmpFindIndex_def Let_def)
qed

section \<open>The search\<close>

lemma compare_loop_num [simp]:
  "compare_loop (v1 # op1) (v2 # op2) (numeral k) =
     (if v1 = v2 then compare_loop op1 op2 (pred_numeral k)
      else if v1 AND 0x80 \<noteq> 0 \<or> v2 AND 0x80 \<noteq> 0 then
        do { r1 \<leftarrow> rest_of_id v1 op1; r2 \<leftarrow> rest_of_id v2 op2; Some (if r1 > r2 then 1 else - 1, numeral k) }
      else Some (int (unat v1) - int (unat v2), pred_numeral k))"
  by (simp add: numeral_eq_Suc)

lemma vars_numbered:
  "enumerate 0 mibvar_ace =
     [(0, mibvar_ace ! 0), (1, mibvar_ace ! 1), (2, mibvar_ace ! 2), (3, mibvar_ace ! 3), (4, mibvar_ace ! 4),
      (5, mibvar_ace ! 5), (6, mibvar_ace ! 6), (7, mibvar_ace ! 7), (8, mibvar_ace ! 8), (9, mibvar_ace ! 9)]"
  by (simp add: mibvar_ace_def enumerate_eq_zip upt_rec)

lemma var_oids:
  "oid (mibvar_ace ! 0) = [43, 6, 1, 2, 1, 1, 1, 0]" "oid (mibvar_ace ! Suc 0) = [43, 6, 1, 2, 1, 1, 2, 0]"
  "oid (mibvar_ace ! 2) = [43, 6, 1, 2, 1, 1, 3, 0]" "oid (mibvar_ace ! 3) = [43, 6, 1, 2, 1, 1, 4, 0]"
  "oid (mibvar_ace ! 4) = [43, 6, 1, 2, 1, 1, 5, 0]" "oid (mibvar_ace ! 5) = [43, 6, 1, 2, 1, 1, 6, 0]"
  "oid (mibvar_ace ! 6) = [43, 6, 1, 2, 1, 1, 7, 0]"
  "oid (mibvar_ace ! 7) = [43, 6, 1, 4, 1, 0x82, 0xb9, 0x6c, 1, 1, 1, 1, 1]"
  "oid (mibvar_ace ! 8) = [43, 6, 1, 4, 1, 0x82, 0xb9, 0x6c, 1, 1, 1, 1, 2]"
  "oid (mibvar_ace ! 9) = [43, 6, 1, 4, 1, 0x82, 0xb9, 0x6c, 1, 1, 1, 1, 3]"
  by (simp_all add: mibvar_ace_def)

lemma var_opts:
  "opt (mibvar_ace ! 0) = 0" "opt (mibvar_ace ! Suc 0) = 0" "opt (mibvar_ace ! 2) = 0" "opt (mibvar_ace ! 3) = 8"
  "opt (mibvar_ace ! 4) = 8" "opt (mibvar_ace ! 5) = 8" "opt (mibvar_ace ! 6) = 1" "opt (mibvar_ace ! 7) = 0"
  "opt (mibvar_ace ! 8) = 0x88" "opt (mibvar_ace ! 9) = 0x88"
  by (simp_all add: mibvar_ace_def)

lemma var_tables:
  "table_of (mibvar_ace ! 7) = Some (Some (hd mibtab_ace))" "table_of (mibvar_ace ! 8) = Some (Some (hd mibtab_ace))"
  "table_of (mibvar_ace ! 9) = Some (Some (hd mibtab_ace))"
  by code_simp+

lemmas search_simps = find_var_def vars_numbered var_oids var_opts var_tables snmpVCompare_def column_def

lemma scalar_cases: "i < 7 \<Longrightarrow> i = 0 \<or> i = 1 \<or> i = 2 \<or> i = 3 \<or> i = 4 \<or> i = 5 \<or> i = (6 :: nat)"
  by auto

text \<open>The name of an instance is found, and the instance behind it is the next one.\<close>

definition inst_next :: "inst \<Rightarrow> inst" where
  "inst_next x =
     (if fst x < 6 then (fst x + 1, -1) else if fst x = 6 then (7, 0)
      else if snd x < 63 then (fst x, snd x + 1) else (fst x + 1, 0))"

definition last_inst :: inst where "last_inst = (9, 63)"

lemma scalar_found:
  assumes "mib_ok st" "i < 7"
  shows "find_var st True (oid (mibvar_ace ! i) @ y) 8 = Some (Found i (-1) None)"
    and "find_var st False (oid (mibvar_ace ! i) @ y) 8 =
      Some (if i < 6 then Found (i + 1) (-1) None else Found 7 0 (Some (hd mibtab_ace)))"
  using scalar_cases [OF assms(2)] mib_okD(9) [OF assms(1)] by (elim disjE; simp add: search_simps)+

lemma cell_found:
  assumes "mib_ok st" "i \<in> {7, 8, 9}" "r < 64"
  shows "find_var st True (oid (mibvar_ace ! i) @ of_nat (r + 1) # y) 14 = Some (Found i (int r) (Some (hd mibtab_ace)))"
    and "find_var st False (oid (mibvar_ace ! i) @ of_nat (r + 1) # y) 14 =
      Some (if r < 63 then Found i (int r + 1) (Some (hd mibtab_ace))
        else if i < 9 then Found (i + 1) 0 (Some (hd mibtab_ace)) else Missing)"
proof -
  note f = find_index [OF assms(1,3), simplified]
  show "find_var st True (oid (mibvar_ace ! i) @ of_nat (r + 1) # y) 14 = Some (Found i (int r) (Some (hd mibtab_ace)))"
    using assms(2) f mib_okD(9) [OF assms(1)] by (elim insertE emptyE; simp add: search_simps)
  show "find_var st False (oid (mibvar_ace ! i) @ of_nat (r + 1) # y) 14 =
      Some (if r < 63 then Found i (int r + 1) (Some (hd mibtab_ace))
        else if i < 9 then Found (i + 1) 0 (Some (hd mibtab_ace)) else Missing)"
    using assms(2) f mib_okD(9) [OF assms(1)] by (elim insertE emptyE; simp add: search_simps)
qed

end
