(* ===== verification/SnmpReply.thy ===== *)
theory SnmpReply
  imports SnmpWalk
begin

text \<open>
  What the agent writes for the instances of its MIB: the value, the name, the binding, and the
  reply around the bindings.
\<close>

section \<open>Values\<close>

definition text_bytes :: "bytes \<Rightarrow> bytes" where "text_bytes bs = takeWhile (\<lambda>b. b \<noteq> 0) bs"

definition served :: "snmp \<Rightarrow> inst \<Rightarrow> bytes" where
  "served st x =
     (let i = fst x; r = row st (nat (snd x)) in
      if i = 1 then tlv Identifier (take 9 (objs st ! 1))
      else if i = 2 then num_tlv (le_value (objs st ! 2)) Ticks 4
      else if i = 6 then num_tlv 79 Integer 1
      else if i < 7 then tlv String (text_bytes (objs st ! i))
      else if i = 7 then num_tlv (le_value (take 2 r)) Integer 2
      else if i = 8 then num_tlv (le_value (take 2 (drop 2 r))) Integer 2
      else tlv String (text_bytes (drop 4 r)))"

lemma var_fields:
  "map var_type mibvar_ace = [String, Identifier, Ticks, String, String, String, Integer, Integer, Integer, String]"
  "map var_len mibvar_ace = [16, 9, 4, 16, 16, 16, 79, 2, 2, 17]"
  "map ptr mibvar_ace = [(0, 0), (1, 0), (2, 0), (3, 0), (4, 0), (5, 0), (0, 0), (6, 0), (6, 2), (6, 4)]"
  by (simp_all add: mibvar_ace_def)

lemma var_types:
  "var_type (mibvar_ace ! 0) = String" "var_type (mibvar_ace ! Suc 0) = Identifier" "var_type (mibvar_ace ! 2) = Ticks"
  "var_type (mibvar_ace ! 3) = String" "var_type (mibvar_ace ! 4) = String" "var_type (mibvar_ace ! 5) = String"
  "var_type (mibvar_ace ! 6) = Integer" "var_type (mibvar_ace ! 7) = Integer" "var_type (mibvar_ace ! 8) = Integer"
  "var_type (mibvar_ace ! 9) = String"
  by (simp_all add: mibvar_ace_def)

lemma var_lens:
  "var_len (mibvar_ace ! 0) = 16" "var_len (mibvar_ace ! Suc 0) = 9" "var_len (mibvar_ace ! 2) = 4"
  "var_len (mibvar_ace ! 3) = 16" "var_len (mibvar_ace ! 4) = 16" "var_len (mibvar_ace ! 5) = 16"
  "var_len (mibvar_ace ! 6) = 79" "var_len (mibvar_ace ! 7) = 2" "var_len (mibvar_ace ! 8) = 2" "var_len (mibvar_ace ! 9) = 17"
  by (simp_all add: mibvar_ace_def)

lemma var_ptrs:
  "ptr (mibvar_ace ! 0) = (0, 0)" "ptr (mibvar_ace ! Suc 0) = (1, 0)" "ptr (mibvar_ace ! 2) = (2, 0)"
  "ptr (mibvar_ace ! 3) = (3, 0)" "ptr (mibvar_ace ! 4) = (4, 0)" "ptr (mibvar_ace ! 5) = (5, 0)"
  "ptr (mibvar_ace ! 6) = (0, 0)" "ptr (mibvar_ace ! 7) = (6, 0)" "ptr (mibvar_ace ! 8) = (6, 2)" "ptr (mibvar_ace ! 9) = (6, 4)"
  by (simp_all add: mibvar_ace_def)

lemmas var_simps = var_oids var_opts var_types var_lens var_ptrs

lemma load_text_row:
  assumes "mib_ok st" "r < 64"
  shows "load_text st (6, 20 * r + 4) = Some (text_bytes (drop 4 (row st r)))"
proof -
  have z: "0 \<in> set (drop 4 (row st r))" using assms by (simp add: mib_ok_def)
  define rest where "rest = drop 20 (drop (20 * r) (objs st ! 6))"
  have e: "drop (20 * r) (objs st ! 6) = row st r @ rest" by (simp only: row_def rest_def append_take_drop_id)
  have l: "length (row st r) = 20" using mib_okD(8) [OF assms(1)] assms(2) by (simp add: row_def)
  have "drop (20 * r + 4) (objs st ! 6) = drop 4 (drop (20 * r) (objs st ! 6))" by (simp add: add.commute)
  also have "\<dots> = drop 4 (row st r) @ rest" unfolding e using l by simp
  finally have "drop (20 * r + 4) (objs st ! 6) = drop 4 (row st r) @ rest" .
  then show ?thesis
    using z mib_okD(1) [OF assms(1)] by (auto simp: load_text_def text_bytes_def takeWhile_append)
qed

lemma value_written:
  assumes "mib_ok st" "(i, t) \<in> set instances"
  shows "var_value False i t (inst_table (i, t)) inp len2 st (n, out) =
    (let e = served st (i, t) in if length e \<le> n then Some (Written st (n - length e, e @ out)) else None)"
proof -
  have num: "is_number Integer" "is_number Ticks" "\<not> is_number String" "\<not> is_number Identifier"
    by (simp_all add: is_number_def Integer_def Identifier_def)
  have ne: "String \<noteq> Integer" "String \<noteq> Identifier" "Identifier \<noteq> OctetString" by (simp_all add: Integer_def Identifier_def)
  consider "i < 7" "t = -1" | r where "i \<in> {7, 8, 9}" "t = int r" "r < 64"
    using assms(2) unfolding set_instances by (metis zero_le_imp_eq_int of_nat_less_numeral_iff)
  then show ?thesis
  proof cases
    case 1
    have z: "0 \<in> set (objs st ! 0)" "0 \<in> set (objs st ! 3)" "0 \<in> set (objs st ! 4)" "0 \<in> set (objs st ! 5)"
      using assms(1) by (auto simp: mib_ok_def)
    have "writes (\<lambda>p. snmpRWriteVal p (take 9 (objs st ! 1)) Identifier 9) (tlv Identifier (take 9 (objs st ! 1)))"
      using writes_oid [of "take 9 (objs st ! 1)" "[]"] mib_okD(10) [OF assms(1)] by simp
    note w = this writes_num [of Ticks 4 "le_value (objs st ! 2)"] writes_num [of Integer 1 79]
      writes_val [of String "text_bytes (objs st ! 0)"] writes_val [of String "text_bytes (objs st ! 3)"]
      writes_val [of String "text_bytes (objs st ! 4)"] writes_val [of String "text_bytes (objs st ! 5)"]
    show ?thesis
      using scalar_cases [OF 1(1)] 1(2) mib_okD [OF assms(1)] z w [THEN writesD, of n out] ne num
      by (elim disjE; simp add: var_value_def var_simps value_ptr_def storage_def put_number_def put_bytes_def load_def
          load_text_def served_def text_bytes_def Let_def)
  next
    case (2 r)
    have l: "load st (6, 20 * r) 2 = Some (take 2 (row st r))" "load st (6, 2 + 20 * r) 2 = Some (take 2 (drop 2 (row st r)))"
      "load_text st (6, 4 + 20 * r) = Some (text_bytes (drop 4 (row st r)))"
      using load_row [OF assms(1) 2(3), of 0 2] load_row [OF assms(1) 2(3), of 2 2] load_text_row [OF assms(1) 2(3)]
      by (simp_all add: add.commute)
    note w = writes_num [of Integer 2 "le_value (take 2 (row st r))"] writes_num [of Integer 2 "le_value (take 2 (drop 2 (row st r)))"]
      writes_val [of String "text_bytes (drop 4 (row st r))"]
    have t: "inst_table (i, t) = Some (hd mibtab_ace)" "tab_len (hd mibtab_ace) = 20"
      using 2(1) by (auto simp: inst_table_def mibtab_ace_def)
    show ?thesis
      using 2(1,2) l w [THEN writesD, of n out] ne num t
      by (elim insertE emptyE; simp add: var_value_def var_simps value_ptr_def storage_def put_number_def put_bytes_def
          served_def Let_def)
  qed
qed

section \<open>Names and bindings\<close>

lemma oid_plain: "i < 10 \<Longrightarrow> take 1 (oid (mibvar_ace ! i)) = [0x2B] \<and> 0xFF \<notin> set (oid (mibvar_ace ! i))"
proof -
  assume "i < 10"
  moreover have "list_all (\<lambda>v. take 1 (oid v) = [0x2B] \<and> 0xFF \<notin> set (oid v)) mibvar_ace" by code_simp
  moreover have "length mibvar_ace = 10" by (simp add: mibvar_ace_def)
  ultimately show ?thesis by (simp add: list_all_length)
qed

lemma header_short: "m < 128 \<Longrightarrow> header t (int m) = [ucast t, of_nat m]"
  by (simp add: header_def low_byte_int)

lemma inst_oid_scalar: "i < 7 \<Longrightarrow> inst_oid (i, -1) = oid (mibvar_ace ! i) \<and> length (oid (mibvar_ace ! i)) = 8"
  by (drule scalar_cases) (elim disjE; simp add: inst_oid_def var_oids)

lemma inst_oid_cell: "i \<in> {7, 8, 9} \<Longrightarrow> inst_oid (i, int r) = oid (mibvar_ace ! i) @ [of_nat (r + 1)] \<and> length (oid (mibvar_ace ! i)) = 13"
  by (elim insertE emptyE; simp add: inst_oid_def var_oids)

lemma inst_cases:
  assumes "(i, t) \<in> set instances"
  obtains "i < 7" "t = -1" | r where "i \<in> {7, 8, 9}" "t = int r" "r < 64"
  using assms unfolding set_instances by (metis zero_le_imp_eq_int of_nat_less_numeral_iff)

lemma inst_oid_length: "x \<in> set instances \<Longrightarrow> length (inst_oid x) = 8 \<or> length (inst_oid x) = 14"
proof -
  assume "x \<in> set instances"
  then have "(fst x, snd x) \<in> set instances" by simp
  then show ?thesis
  proof (cases rule: inst_cases)
    case 1
    then show ?thesis using inst_oid_scalar [of "fst x"] by (cases x) simp
  next
    case (2 r)
    then show ?thesis using inst_oid_cell [OF 2(1), of r] by (cases x) simp
  qed
qed

lemma name_written_at:
  assumes "7 \<le> i \<Longrightarrow> load st (6, 20 * nat t) 2 = Some [of_nat (nat t + 1), 0]" "(i, t) \<in> set instances"
  shows "write_name i t (inst_table (i, t)) st (n, out) =
    (let e = tlv Identifier (inst_oid (i, t)) in if length e \<le> n then Some (n - length e, e @ out) else None)"
  using assms(2)
proof (cases rule: inst_cases)
  case 1
  then have "writes (\<lambda>p. snmpRWriteVal p (oid (mibvar_ace ! i)) Identifier (length (oid (mibvar_ace ! i)))) (tlv Identifier (inst_oid (i, t)))"
    using writes_oid [of "oid (mibvar_ace ! i)" "[]"] oid_plain [of i] inst_oid_scalar [of i] by simp
  from writesD [OF this, of n out] show ?thesis using 1 by (simp add: write_name_def Let_def)
next
  case (2 r)
  let ?o = "oid (mibvar_ace ! i)"
  have l0: "load st (6, 20 * r) 2 = Some [of_nat (r + 1), 0]" using assms(1) 2 by auto
  have o: "length ?o = 13" "inst_oid (i, t) = ?o @ [of_nat (r + 1)]" using inst_oid_cell [of i r] 2 by simp_all
  have w: "writes (\<lambda>p. snmpRWriteVal p ?o Identifier 13) (tlv Identifier ?o)"
    using writes_oid [of ?o "[]"] oid_plain [of i] 2(1) o by auto
  have l: "length (tlv Identifier ?o) = 15" "length (tlv Identifier (inst_oid (i, t))) = 16"
    using header_short [of 13 Identifier] header_short [of 14 Identifier] o by (simp_all add: tlv_def)
  have t: "inst_table (i, x) = Some (hd mibtab_ace)" for x using 2(1) by (auto simp: inst_table_def)
  have ne: "tlv Identifier (inst_oid (i, t)) \<noteq> []" using l(2) by auto
  show ?thesis
  proof (cases n)
    case 0
    then show ?thesis using index_bytes_at(2) [OF l0 2(3)] 2(2) ne by (simp add: write_name_def t Let_def)
  next
    case (Suc m)
    have i: "snmpEncodeIndex st (hd mibtab_ace) t i (Suc m, out) = Some (m, of_nat (r + 1) # out)"
      using index_bytes_at(1) [OF l0 2(3)] 2(2) by simp
    have rd: "snmpReadLength (tlv Identifier ?o @ of_nat (r + 1) # out) Identifier = Some (13, ?o @ of_nat (r + 1) # out)"
      using read_header_nat [of 13 Identifier "?o @ of_nat (r + 1) # out"] o(1) by (simp add: tlv_def Identifier_def)
    show ?thesis
    proof (cases "16 \<le> n")
      case True
      then show ?thesis
        using writesD [OF w, of m "of_nat (r + 1) # out"] i rd Suc 2(2) o l
          writesD [OF writes_length [of Identifier 14], of "n - 14" "?o @ of_nat (r + 1) # out"] header_short [of 14 Identifier]
        by (simp add: write_name_def t Let_def tlv_def)
    next
      case False
      then show ?thesis
        using writesD [OF w, of m "of_nat (r + 1) # out"] i Suc 2(2) l by (simp add: write_name_def t o(1) Let_def)
    qed
  qed
qed

lemma name_written:
  assumes "mib_ok st" "(i, t) \<in> set instances"
  shows "write_name i t (inst_table (i, t)) st (n, out) =
    (let e = tlv Identifier (inst_oid (i, t)) in if length e \<le> n then Some (n - length e, e @ out) else None)"
  by (rule name_written_at [OF _ assms(2)]) (rule index_loaded [OF assms(1)], use assms(2) in \<open>auto simp: set_instances\<close>)

definition binding :: "snmp \<Rightarrow> inst \<Rightarrow> bytes" where
  "binding st x = tlv Sequence (tlv Identifier (inst_oid x) @ served st x)"

text \<open>The instance that a request asks for: the one named, or the next.\<close>

definition asked :: "bool \<Rightarrow> inst \<Rightarrow> inst" where "asked nflag x = (if nflag then inst_next x else x)"

definition answerable :: "bool \<Rightarrow> inst \<Rightarrow> bool" where
  "answerable nflag x \<longleftrightarrow> x \<in> set instances \<and> (nflag \<longrightarrow> x \<noteq> last_inst)"

lemma asked_instance: "answerable nflag x \<Longrightarrow> asked nflag x \<in> set instances"
  by (cases x) (auto simp: answerable_def asked_def inst_next_def set_instances last_inst_def)

lemma instance_found:
  assumes "mib_ok st" "answerable nflag x"
  shows "find_var st (\<not> nflag) (inst_oid x @ z) (length (inst_oid x)) =
    Some (Found (fst (asked nflag x)) (snd (asked nflag x)) (inst_table (asked nflag x)))"
proof -
  obtain i t where x: "x = (i, t)" by (cases x)
  have "(i, t) \<in> set instances" using assms(2) by (simp add: answerable_def x)
  then show ?thesis
  proof (cases rule: inst_cases)
    case 1
    then show ?thesis using scalar_found [OF assms(1) 1(1), of z] inst_oid_scalar [OF 1(1)]
      by (cases nflag) (auto simp: x asked_def inst_next_def inst_table_def)
  next
    case (2 r)
    have "nflag \<Longrightarrow> r = 63 \<Longrightarrow> i < 9" using assms(2) 2 by (auto simp: answerable_def x last_inst_def)
    then show ?thesis using cell_found [OF assms(1) 2(1,3), of z] inst_oid_cell [OF 2(1), of r] 2
      by (cases nflag) (auto simp: x asked_def inst_next_def inst_table_def)
  qed
qed

lemma found_written:
  assumes "mib_ok st" "(i, t) \<in> set instances" "pdu rq \<noteq> SetRequest"
  shows "process_found rq nflag k i t (inst_table (i, t)) inp len2 st (n, out) =
    (let e = tlv Identifier (inst_oid (i, t)) @ served st (i, t) in
     if length e \<le> n then Some (st, Some ((n - length e, e @ out), None)) else None)"
proof (cases "length (served st (i, t)) \<le> n")
  case True
  then show ?thesis
    using value_written [OF assms(1,2), of inp len2 n out] assms(3)
      name_written [OF assms(1,2), of "n - length (served st (i, t))" "served st (i, t) @ out"]
    by (auto simp: process_found_def Let_def)
next
  case False
  then show ?thesis
    using value_written [OF assms(1,2), of inp len2 n out] assms(3) by (simp add: process_found_def Let_def)
qed

lemma binding_written:
  assumes "mib_ok st" "answerable nflag x" "pdu rq \<noteq> SetRequest" "isAccessAllowed st (contextName rq)" "length v < 1000"
  shows "process_var rq nflag k (tlv Sequence (tlv Identifier (inst_oid x) @ v) @ z) st (n, out) =
    (let e = binding st (asked nflag x) in if length e \<le> n then Some (st, Some ((n - length e, e @ out), None)) else None)"
proof -
  let ?y = "asked nflag x" and ?in = "tlv Identifier (inst_oid x) @ v"
  have y: "?y \<in> set instances" by (rule asked_instance [OF assms(2)])
  have lo: "0 < length (inst_oid x)" "length (inst_oid x) \<le> 14"
    using inst_oid_length [of x] assms(2) by (auto simp: answerable_def)
  have "length (header Identifier (int (length (inst_oid x)))) = 2" using lo by (simp add: header_short)
  then have "length ?in < 32768" using lo assms(5) by (simp add: tlv_def)
  then have 1: "snmpReadLength (tlv Sequence ?in @ z) Sequence = Some (int (length ?in), ?in @ z)"
    using read_header_nat [of "length ?in" Sequence "?in @ z"] by (simp only: tlv_def append_assoc) simp
  have 2: "snmpReadLength (?in @ z) Identifier = Some (int (length (inst_oid x)), inst_oid x @ v @ z)"
    using read_header_nat [of "length (inst_oid x)" Identifier "inst_oid x @ v @ z"] lo by (simp add: tlv_def Identifier_def)
  let ?e = "tlv Identifier (inst_oid ?y) @ served st ?y"
  have 3: "process_found rq nflag k (fst ?y) (snd ?y) (inst_table ?y) inp len2 st (n, out) =
      (if length ?e \<le> n then Some (st, Some ((n - length ?e, ?e @ out), None)) else None)" for inp len2
    using found_written [OF assms(1) _ assms(3), of "fst ?y" "snd ?y"] y by (simp add: Let_def)
  have 4: "length ?e \<le> n \<Longrightarrow> int n - int (n - length ?e) = int (length ?e)" by simp
  have b: "binding st ?y = header Sequence (int (length ?e)) @ ?e" by (simp add: binding_def tlv_def)
  show ?thesis
    using lo(1) 4 writesD [OF writes_length [of Sequence "int (length ?e)"], of "n - length ?e" "?e @ out"]
    unfolding process_var_def 1 Let_def b
    by (simp add: 2 instance_found [OF assms(1,2)] assms(4) 3 del: append_assoc) (auto simp: algebra_simps)
qed

end
