(* ===== verification/SnmpSpec.thy ===== *)
theory SnmpSpec
  imports SnmpReply
begin

text \<open>
  What the SNMP agent answers to requests for the instances of its MIB and for those that follow them.
\<close>

section \<open>Messages\<close>

definition message :: "u8 \<Rightarrow> bytes \<Rightarrow> u8 \<Rightarrow> bytes \<Rightarrow> u8 \<Rightarrow> u8 \<Rightarrow> bytes list \<Rightarrow> bytes" where
  "message v c t idb e1 e2 bs =
     tlv Sequence (tlv Integer [v] @ tlv String c @
       tlv (ucast t) (tlv Integer idb @ tlv Integer [e1] @ tlv Integer [e2] @ tlv Sequence (concat bs)))"

text \<open>The bytes from each binding to the end.\<close>

fun tails :: "bytes list \<Rightarrow> bytes list" where
  "tails [] = []"
| "tails (b # bs) = concat (b # bs) # tails bs"

lemma length_tails [simp]: "length (tails bs) = length bs"
  by (induction bs) auto

lemma read_tlv:
  assumes "length vs < 32768" "unat t < 256"
  shows "snmpReadLength (tlv t vs @ z) t = Some (int (length vs), vs @ z)"
  using read_header_nat [OF assms, of "vs @ z"] by (simp add: tlv_def)

lemma length_tlv: "length vs + 2 \<le> length (tlv t vs)"
  by (simp add: tlv_def header_def)

lemma varbinds_read:
  assumes "\<forall>b \<in> set bs. \<exists>v. b = tlv Sequence v \<and> v \<noteq> [] \<and> length v < 32768" "length vs + length bs < 60"
  shows "varbind_loop (concat bs) vs = Some (Some (vs @ tails bs, [], False))"
  using assms
proof (induction bs arbitrary: vs)
  case Nil
  then show ?case by (simp add: varbind_loop.simps)
next
  case (Cons b bs)
  then obtain v where v: "b = tlv Sequence v" "v \<noteq> []" "length v < 32768" by auto
  have r: "snmpReadLength (b @ concat bs) Sequence = Some (int (length v), v @ concat bs)"
    unfolding v(1) by (rule read_tlv [OF v(3)]) simp
  have "b \<noteq> []" by (simp add: v(1) tlv_def header_def)
  then show ?case
    using r v(2) Cons.prems Cons.IH [of "vs @ [b @ concat bs]"] by (subst varbind_loop.simps) (simp add: Let_def)
qed

lemma read_number:
  assumes "1 \<le> k" "k \<le> 4" "v < 128 * 256 ^ (k - 1)"
  shows "snmpReadInt 4 (tlv Integer (be k v) @ z) Integer = Some (int k, of_nat v, z)"
proof -
  have "be k v ! 0 = of_nat (v div 256 ^ (k - 1))" using assms(1) by (rule be_first)
  moreover have "v div 256 ^ (k - 1) < 128" using assms(3) by (simp add: less_mult_imp_div_less)
  ultimately have s: "be k v ! 0 AND 0x80 = 0" using and_0x80 [of "be k v ! 0"] by (simp add: unat_of_nat8)
  have "256 * 256 ^ (k - 1) = (256 :: nat) ^ k" using assms(1) by (cases k) auto
  then have "v mod 256 ^ k = v" using assms(3) by (intro mod_less) linarith
  moreover have "be k v \<noteq> []" using assms(1) length_be [of k v] by (metis list.size(3) not_one_le_zero)
  ultimately show ?thesis
    using read_tlv [of "be k v" Integer z] assms(1,2) s read_be [of k v z]
    by (simp add: snmpReadInt_def Integer_def rd_at_def nth_append)
qed

lemma read_byte: "\<exists>w. snmpReadInt 4 (tlv Integer [b] @ z) Integer = Some (1, w, z) \<and> (unat b < 128 \<longrightarrow> w = ucast b)"
proof -
  have "b AND 0x80 \<noteq> 0 \<longleftrightarrow> 128 \<le> unat b" by (rule and_0x80)
  then show ?thesis
    using read_tlv [of "[b]" Integer z] by (auto simp: snmpReadInt_def Integer_def rd_at_def sign_extend_def)
qed

lemma request_read:
  assumes v: "v = 0 \<or> v = 1" and c: "0 \<notin> set c" "length c \<le> 64"
    and idb: "1 \<le> k" "k \<le> 4" "idv < 128 * 256 ^ (k - 1)"
    and bs: "\<forall>b \<in> set bs. \<exists>v. b = tlv Sequence v \<and> v \<noteq> [] \<and> length v < 32768" "length bs < 60"
    and l: "length (message v c t (be k idv) e1 e2 bs) \<le> 300"
  shows "read_request 320 (message v c t (be k idv) e1 e2 bs) =
    Some (Some \<lparr>version = v, contextName = c, reserved = length c + 2, pdu = t, reqid = of_nat idv,
      varbinds = tails bs, first = concat bs, too_big = False\<rparr>)"
proof -
  define D where "D = concat bs"
  define P where "P = tlv Integer (be k idv) @ tlv Integer [e1] @ tlv Integer [e2] @ tlv Sequence D"
  define M where "M = tlv Integer [v] @ tlv String c @ tlv (ucast t) P"
  have m: "message v c t (be k idv) e1 e2 bs = tlv Sequence M" by (simp add: message_def M_def P_def D_def)
  have lM: "length M \<le> 300" using l length_tlv [of M Sequence] by (simp add: m)
  then have lP: "length P \<le> 300" using length_tlv [of P "ucast t"] by (simp add: M_def)
  then have lD: "length D \<le> 300" using length_tlv [of D Sequence] by (simp add: P_def)
  have 1: "snmpReadLength (tlv Sequence M) Sequence = Some (int (length M), M)" using read_tlv [of M Sequence "[]"] lM by simp
  obtain w where w: "snmpReadInt 4 M Integer = Some (1, w, tlv String c @ tlv (ucast t) P)" "unat v < 128 \<Longrightarrow> w = ucast v"
    using read_byte [of v] unfolding M_def by blast
  have w': "w = ucast v" using w(2) v by auto
  have "snmpReadVal (of_nat 320) (tlv String c @ tlv (ucast t) P) String = Some (int (length c), c, tlv (ucast t) P)"
    using read_tlv [of c String "tlv (ucast t) P"] c(2) by (simp add: snmpReadVal_def)
  then have 2: "read_context 320 (tlv String c @ tlv (ucast t) P) = Some (Some (c, length c + 2, tlv (ucast t) P))"
    using c by (auto simp: read_context_def takeWhile_eq_all_conv)
  have u: "ucast (ucast t :: u16) = t" by (intro bit_word_eqI) (auto simp: bit_simps)
  obtain q where q: "tlv (ucast t) P = t # q" by (simp add: tlv_def header_def u)
  have 3: "snmpReadLength (t # q) (ucast t) = Some (int (length P), P)"
    using read_tlv [of P "ucast t" "[]"] lP unat8_lt [of t] q by (simp add: unat_ucast_8_16)
  have 4: "snmpReadInt 4 P Integer = Some (int k, of_nat idv, tlv Integer [e1] @ tlv Integer [e2] @ tlv Sequence D)"
    unfolding P_def using read_number [OF idb] by simp
  obtain w1 where 5: "snmpReadInt 4 (tlv Integer [e1] @ tlv Integer [e2] @ tlv Sequence D) Integer = Some (1, w1, tlv Integer [e2] @ tlv Sequence D)"
    using read_byte [of e1] by blast
  obtain w2 where 6: "snmpReadInt 4 (tlv Integer [e2] @ tlv Sequence D) Integer = Some (1, w2, tlv Sequence D)"
    using read_byte [of e2] by blast
  have 7: "snmpReadLength (tlv Sequence D) Sequence = Some (int (length D), D)" using read_tlv [of D Sequence "[]"] lD by simp
  have 8: "varbind_loop D [] = Some (Some (tails bs, [], False))" using varbinds_read [OF bs(1), of "[]"] bs(2) by (simp add: D_def)
  have ne: "0 < length M" "0 < length P" by (simp_all add: M_def P_def tlv_def header_def)
  have vv: "(ucast (ucast v :: u32) :: u8) = v" using v by auto
  show ?thesis
    unfolding m read_request_def 1
    using ne v idb(1) by (simp add: need_def Let_def w(1) w' q 2 [unfolded q] 3 4 5 6 7 8 idb(1) vv D_def [symmetric] del: snmpReadLength.simps)
qed

section \<open>Replies\<close>

text \<open>The binding of a request: the name of an instance and any value.\<close>

definition asks :: "inst \<times> bytes \<Rightarrow> bytes" where
  "asks q = tlv Sequence (tlv Identifier (inst_oid (fst q)) @ snd q)"

definition answers_of :: "snmp \<Rightarrow> bool \<Rightarrow> (inst \<times> bytes) list \<Rightarrow> bytes list" where
  "answers_of st nflag qs = rev (map (\<lambda>q. binding st (asked nflag (fst q))) qs)"

lemma bindings_written:
  assumes "mib_ok st" "pdu rq \<noteq> SetRequest" "isAccessAllowed st (contextName rq)"
    and "\<forall>q \<in> set qs. answerable nflag (fst q) \<and> length (snd q) < 1000"
  shows "process_vars rq nflag k (tails (map asks qs)) st (n, out) e =
    (let R = concat (answers_of st nflag qs) in if length R \<le> n then Some (st, Some ((n - length R, R @ out), e)) else None)"
  using assms(4)
proof (induction qs arbitrary: k n out)
  case Nil
  then show ?case by (simp add: answers_of_def)
next
  case (Cons q qs)
  let ?b = "binding st (asked nflag (fst q))" and ?R = "concat (answers_of st nflag qs)"
  have q: "answerable nflag (fst q)" "length (snd q) < 1000" using Cons.prems by simp_all
  have 1: "process_var rq nflag k (concat (map asks (q # qs))) st (n, out) =
      (if length ?b \<le> n then Some (st, Some ((n - length ?b, ?b @ out), None)) else None)"
    using binding_written [OF assms(1) q(1) assms(2,3) q(2), of k "concat (map asks qs)" n out] by (simp add: asks_def Let_def)
  have R: "concat (answers_of st nflag (q # qs)) = ?R @ ?b" by (simp add: answers_of_def)
  show ?case
    using 1 Cons.IH [of "k + 1" "n - length ?b" "?b @ out"] Cons.prems unfolding R by (auto simp: Let_def)
qed

text \<open>The head is written in front of the bindings.\<close>

lemma writes_step:
  assumes "writes f e" "length out \<le> m"
  shows "f (m - length out, out) = (if length (e @ out) \<le> m then Some (m - length (e @ out), e @ out) else None)"
  using writesD [OF assms(1), of "m - length out" out] assms(2) by auto

text \<open>One step of a chain that ends with \<open>r\<close> or fails when \<open>r\<close> does not fit.\<close>

lemma chain_step:
  assumes "x = (if length out \<le> m then Some (m - length out, out) else None)" "length out \<le> length r"
    and "length out \<le> m \<Longrightarrow> g (m - length out, out) = (if length r \<le> m then Some (m - length r, r) else None)"
  shows "do { p \<leftarrow> x; g p } = (if length r \<le> m then Some (m - length r, r) else None)"
  using assms by auto

lemma num_tlv_flag: "b = 0 \<or> b = 1 \<Longrightarrow> num_tlv (ucast (b :: u8)) Integer 1 = tlv Integer [b]"
proof -
  have "num_tlv 0 Integer 1 = tlv Integer [0]" "num_tlv 1 Integer 1 = tlv Integer [1]" by code_simp+
  then show "b = 0 \<or> b = 1 \<Longrightarrow> num_tlv (ucast b) Integer 1 = tlv Integer [b]" by auto
qed

lemma head_written:
  assumes v: "version rq = 0 \<or> version rq = 1" and "reqid rq = of_nat idv" "idv < 2 ^ 31" "length R \<le> m"
  shows "write_head rq m 0 eix (m - length R, R) =
    (let r = message (version rq) (contextName rq) 0xa2 (be (min_len idv) idv) 0 0 [R] in
     if length r \<le> m then Some (m - length r, r) else None)"
proof -
  have z: "num_tlv 0 Integer 1 = tlv Integer [0]" using num_tlv_flag [of 0] by simp
  note n = num_tlv_min [OF assms(3)] num_tlv_flag [OF v]
  define c where "c = contextName rq"
  have w: "writes (\<lambda>p. snmpRWriteInt p 0 Integer 1) (tlv Integer [0])"
    "writes (\<lambda>p. snmpRWriteInt p (of_nat idv) Integer 4) (tlv Integer (be (min_len idv) idv))"
    "writes (\<lambda>p. snmpRWriteInt p (ucast (version rq)) Integer 1) (tlv Integer [version rq])"
    "writes (\<lambda>p. snmpRWriteVal p c String (length c)) (tlv String c)"
    using writes_num [of Integer 1 0] writes_num [of Integer 4 "of_nat idv"] writes_num [of Integer 1 "ucast (version rq)"]
      writes_val [of String c] z n by (simp_all add: Identifier_def)
  have lw: "writes (\<lambda>p. snmpRWriteLength p t (int (length out))) (header t (int (length out)))" for t out by (rule writes_length)
  have d: "length out \<le> m \<Longrightarrow> int m - int (m - length out) = int (length out)" for out :: bytes by simp
  define o1 where "o1 = tlv Sequence R"
  define o2 where "o2 = tlv Integer [0] @ o1"
  define o3 where "o3 = tlv Integer [0] @ o2"
  define o4 where "o4 = tlv Integer (be (min_len idv) idv) @ o3"
  define o5 where "o5 = tlv 0xa2 o4"
  define o6 where "o6 = tlv String c @ o5"
  define o7 where "o7 = tlv Integer [version rq] @ o6"
  have r: "message (version rq) c 0xa2 (be (min_len idv) idv) 0 0 [R] = tlv Sequence o7"
    by (simp add: message_def o7_def o6_def o5_def o4_def o3_def o2_def o1_def c_def)
  have le: "length R \<le> length o1" "length o1 \<le> length o2" "length o2 \<le> length o3" "length o3 \<le> length o4" "length o4 \<le> length o5"
    "length o5 \<le> length o6" "length o6 \<le> length o7" "length o7 \<le> length (tlv Sequence o7)"
    by (simp_all add: o7_def o6_def o5_def o4_def o3_def o2_def o1_def tlv_def)
  have s: "snmpRWriteLength (m - length out, out) t (int m - int (m - length out)) =
      (if length (tlv t out) \<le> m then Some (m - length (tlv t out), tlv t out) else None)" if "length out \<le> m" for t out
    using writes_step [OF lw [of t out] that] d [OF that] by (simp add: tlv_def)
  have l: "length R \<le> m" by (rule assms(4))
  note last = s [of o7 Sequence]
  note steps = chain_step [OF s [of R Sequence, folded o1_def, OF l]]
    chain_step [OF writes_step [OF w(1), of o1 m, folded o2_def]] chain_step [OF writes_step [OF w(1), of o2 m, folded o3_def]]
    chain_step [OF writes_step [OF w(2), of o3 m, folded o4_def]] chain_step [OF s [of o4 "0xa2", folded o5_def]]
    chain_step [OF writes_step [OF w(4), of o5 m, folded o6_def]] chain_step [OF writes_step [OF w(3), of o6 m, folded o7_def]]
  show ?thesis
    unfolding write_head_def c_def [symmetric] Let_def assms(2) r
    by (simp only: refl if_True simp_thms if_False unsigned_0 fst_conv)
      (rule steps(1), use le in linarith,
       rule steps(2), assumption, use le in linarith,
       rule steps(3), assumption, use le in linarith,
       rule steps(4), assumption, use le in linarith,
       (simp only: fst_conv)?, rule steps(5), assumption, use le in linarith,
       rule steps(6), assumption, use le in linarith,
       rule steps(7), assumption, use le in linarith,
       (simp only: fst_conv)?, rule last, assumption)
qed

lemma asks_shape:
  assumes "length (snd q) < 1000" "fst q \<in> set instances"
  shows "\<exists>v. asks q = tlv Sequence v \<and> v \<noteq> [] \<and> length v < 32768"
proof -
  let ?v = "tlv Identifier (inst_oid (fst q)) @ snd q"
  have "length (tlv Identifier (inst_oid (fst q))) \<le> 18" using inst_oid_length [OF assms(2)] by (auto simp: tlv_def header_def)
  then have "length ?v < 32768" "?v \<noteq> []" using assms(1) length_tlv [of "inst_oid (fst q)" Identifier] by auto
  then show ?thesis by (auto simp: asks_def)
qed

lemma asks_length: "12 \<le> length (asks q)" if "fst q \<in> set instances" for q
proof -
  have "length (tlv Identifier (inst_oid (fst q))) + length (snd q) + 2 \<le> length (asks q)"
    using length_tlv [of "tlv Identifier (inst_oid (fst q)) @ snd q" Sequence] by (simp add: asks_def)
  then show ?thesis using length_tlv [of "inst_oid (fst q)" Identifier] inst_oid_length [OF that] by auto
qed

lemma few_bindings: "\<forall>q \<in> set qs. fst q \<in> set instances \<Longrightarrow> 12 * length qs \<le> length (concat (map asks qs))"
proof (induction qs)
  case (Cons q qs)
  then show ?case using asks_length [of q] by auto
qed simp

text \<open>A request whose bindings are answered by \<open>R\<close>.\<close>

lemma message_longer: "length R \<le> length (message v c t idb e1 e2 [R])"
proof -
  let ?Q = "tlv Integer idb @ tlv Integer [e1] @ tlv Integer [e2] @ tlv Sequence R"
  show ?thesis
    using length_tlv [of R Sequence] length_tlv [of ?Q "ucast t"] length_tlv [of "tlv Integer [v] @ tlv String c @ tlv (ucast t) ?Q" Sequence]
    by (simp add: message_def)
qed

lemma message_concat: "message v c t idb e1 e2 [concat bs] = message v c t idb e1 e2 bs"
  by (simp add: message_def)

lemma reply_written:
  assumes "v = 0 \<or> v = 1" "0 \<notin> set c" "length c \<le> 64" "idv < 2 ^ 31"
    and t: "t \<in> {SetRequest, GetRequest, GetNextRequest}"
    and bs: "\<forall>b \<in> set bs. \<exists>v. b = tlv Sequence v \<and> v \<noteq> [] \<and> length v < 32768" "length bs < 60"
    and l: "length (message v c t (be (min_len idv) idv) e1 e2 bs) \<le> 300"
    and vars: "\<And>rq. version rq = v \<Longrightarrow> contextName rq = c \<Longrightarrow> pdu rq = t \<Longrightarrow>
      process_vars rq (t = GetNextRequest) 0 (tails bs) st (318 - length c, []) (0, 0) =
        (if length R \<le> 318 - length c then Some (st', Some ((318 - length c - length R, R), 0, 0)) else None)"
  shows "inReqOutRep 320 (message v c t (be (min_len idv) idv) e1 e2 bs) st =
    (let r = message v c 0xa2 (be (min_len idv) idv) 0 0 [R] in if length r \<le> 318 - length c then Some (st', Some r) else None)"
proof -
  let ?k = "min_len idv"
  have k: "1 \<le> ?k" "?k \<le> 4" "idv < 128 * 256 ^ (?k - 1)"
    using assms(4) by (auto simp: min_len.simps [of idv] min_len.simps [of "idv div 256"] min_len.simps [of "idv div 65536"]
        min_len.simps [of "idv div 16777216"] div_mult2_eq [symmetric])
  let ?rq = "\<lparr>version = v, contextName = c, reserved = length c + 2, pdu = t, reqid = of_nat idv,
      varbinds = tails bs, first = concat bs, too_big = False\<rparr>"
  note rd = request_read [OF assms(1-3) k bs l]
  have hd: "length R \<le> 318 - length c \<Longrightarrow> write_head ?rq (318 - length c) 0 0 (318 - length c - length R, R) =
      (let r = message v c 0xa2 (be ?k idv) 0 0 [R] in
       if length r \<le> 318 - length c then Some (318 - length c - length r, r) else None)"
    using head_written [of ?rq idv R "318 - length c" 0] assms(1,4) by simp
  have t': "(t = GetNextRequest \<or> t = GetBulkRequest) = (t = GetNextRequest)" "t \<in> {SetRequest, GetRequest, GetNextRequest, GetBulkRequest}"
    "(t = GetBulkRequest) = False" using t by auto
  have room: "320 - (length c + 2) = 318 - length c" by simp
  note v = vars [of ?rq, simplified request.simps, OF refl refl refl]
  show ?thesis
    unfolding inReqOutRep_def rd bind.bind_lunit option.case Let_def request.simps t' room
    using v hd message_longer [of R v c "0xa2" "be ?k idv" 0 0] t'(2) by (cases "length R \<le> 318 - length c") (auto simp: Let_def)
qed

text \<open>C6. The agent answers a request for the values of instances of its MIB, or for those behind
  them, with the names and the values of the instances asked for, under the number of the request and
  without an error: the version, the community and the number come back as they were sent, and the
  memory is left as it is. Asked for the next instance, it goes from each scalar to the next, from the
  last one to the first row of the first column, down the columns and from the end of a column to the
  next. The bindings come back in the reverse order. A reply that does not fit into the 320 bytes of
  the buffer with the community is not stopped but written over what lies in front of it.\<close>

theorem snmp_get_answered:
  assumes "mib_ok st" "v = 0 \<or> v = 1" "0 \<notin> set c" "length c \<le> 64" "isAccessAllowed st c"
    and "idv < 2 ^ 31" "\<forall>q \<in> set qs. answerable nflag (fst q) \<and> length (snd q) < 1000"
    and "length (message v c (if nflag then GetNextRequest else GetRequest) (be (min_len idv) idv) e1 e2 (map asks qs)) \<le> 300"
  shows "inReqOutRep 320 (message v c (if nflag then GetNextRequest else GetRequest) (be (min_len idv) idv) e1 e2 (map asks qs)) st =
    (let r = message v c 0xa2 (be (min_len idv) idv) 0 0 (answers_of st nflag qs) in
     if length r \<le> 318 - length c then Some (st, Some r) else None)"
proof -
  let ?t = "if nflag then GetNextRequest else GetRequest"
  have inst: "\<forall>q \<in> set qs. fst q \<in> set instances" using assms(7) by (simp add: answerable_def)
  have bs: "\<forall>b \<in> set (map asks qs). \<exists>v. b = tlv Sequence v \<and> v \<noteq> [] \<and> length v < 32768"
    using asks_shape assms(7) inst by auto
  have "length (concat (map asks qs)) \<le> length (message v c ?t (be (min_len idv) idv) e1 e2 (map asks qs))"
    using message_longer [of "concat (map asks qs)"] by (simp only: message_concat)
  then have n: "length (map asks qs) < 60" using few_bindings [OF inst] assms(8) by simp
  let ?R = "concat (answers_of st nflag qs)"
  have t: "?t \<in> {SetRequest, GetRequest, GetNextRequest}" "(?t = GetNextRequest) = nflag" by auto
  have vars: "process_vars rq (?t = GetNextRequest) 0 (tails (map asks qs)) st (318 - length c, []) (0, 0) =
      (if length ?R \<le> 318 - length c then Some (st, Some ((318 - length c - length ?R, ?R), 0, 0)) else None)"
    if "contextName rq = c" "pdu rq = ?t" for rq
    using bindings_written [OF assms(1), of rq qs nflag 0 "318 - length c" "[]" "(0, 0)"] assms(5,7) that t by (simp add: Let_def)
  show ?thesis
    using reply_written [OF assms(2-4,6) t(1) bs n assms(8) vars] by (simp only: message_concat)
qed

section \<open>The start\<close>

lemma concat_rows: "\<forall>x \<in> set rows. length x = 20 \<Longrightarrow> r < length rows \<Longrightarrow> take 20 (drop (20 * r) (concat rows)) = rows ! r"
proof (induction rows arbitrary: r)
  case (Cons x rows)
  then show ?case by (cases r) (auto simp: drop_append)
qed simp

lemma length_concat_rows: "\<forall>x \<in> set rows. length x = 20 \<Longrightarrow> length (concat rows) = 20 * length rows"
  by (induction rows) auto

lemma length_row: "length (table_row i b) = 20"
proof -
  have "length (takeWhile (\<lambda>b. b \<noteq> 0) (take 16 b)) \<le> 16" using length_takeWhile_le [of _ "take 16 b"] by (rule order_trans) simp
  then show ?thesis by (simp add: table_row_def strncpy16_def Let_def)
qed

lemma snmpInit_ok:
  assumes "\<forall>b \<in> set buf. 0 \<in> set (take 16 b)" "length buf = 64"
  shows "mib_ok (snmpInit community buf)"
proof -
  let ?rows = "map (\<lambda>i. table_row i (buf ! i)) [0..<64]"
  have l: "\<forall>x \<in> set ?rows. length x = 20" by (auto simp: length_row)
  have "length (concat ?rows) = 1280" using length_concat_rows [OF l] by simp
  then have len: "map length (objs (snmpInit community buf)) = [16, 16, 4, 16, 16, 16, 1280]"
    by (simp add: snmpInit_def text16_def)
  have row: "row (snmpInit community buf) r = table_row r (buf ! r)" if "r < 64" for r
    using concat_rows [OF l, of r] that by (simp add: row_def snmpInit_def)
  have z: "0 \<in> set (strncpy16 b)" if "0 \<in> set (take 16 b)" for b
  proof -
    have "length (takeWhile (\<lambda>b. b \<noteq> 0) (take 16 b)) < length (take 16 b)"
      using that takeWhile_eq_all_conv [of "\<lambda>b. b \<noteq> 0" "take 16 b"] takeWhile_eq_take [of "\<lambda>b. b \<noteq> 0" "take 16 b"]
        length_takeWhile_le [of "\<lambda>b. b \<noteq> 0" "take 16 b"] by (metis le_neq_implies_less take_all_iff order_refl)
    then have "length (takeWhile (\<lambda>b. b \<noteq> 0) (take 16 b)) < 16" by simp
    then show ?thesis by (simp add: strncpy16_def Let_def)
  qed
  have "take 2 (row (snmpInit community buf) r) = [of_nat (r + 1), 0] \<and> 0 \<in> set (drop 4 (row (snmpInit community buf) r))" if "r < 64" for r
    using that assms z [of "buf ! r"] by (simp add: row table_row_def)
  moreover have "\<forall>i \<in> {0, 3, 4, 5}. 0 \<in> set (objs (snmpInit community buf) ! i)" by (simp add: snmpInit_def text16_def)
  moreover have "analogPropertyNO (snmpInit community buf) = 64"
    "objs (snmpInit community buf) ! 1 = [0x2b, 6, 1, 4, 1, 0x82, 0xb9, 0x6c, 1] @ replicate 7 0" by (simp_all add: snmpInit_def)
  ultimately show ?thesis using len unfolding mib_ok_def by blast
qed

text \<open>A walk over the scalars of the example: asked for what follows the description and the name of
  the system, it answers with the location and the identifier of the device, in this order.\<close>

definition start_snmp :: snmp where "start_snmp = snmpInit (text16 ''public'') (replicate 64 (text16 ''172.18.1.1''))"

theorem snmp_get_answered_witness:
  "inReqOutRep 320 (message 0 (map of_char ''public'') 0xa1 [7] 0 0 (map asks [((0, -1), [5, 0]), ((4, -1), [5, 0])])) start_snmp =
    Some (start_snmp, Some (message 0 (map of_char ''public'') 0xa2 [7] 0 0
      [binding start_snmp (5, -1), binding start_snmp (1, -1)]))"
proof -
  let ?qs = "[((0, -1), [5, 0]), ((4, -1), [5, 0])]"
  have ok: "mib_ok start_snmp" unfolding start_snmp_def by (rule snmpInit_ok) (simp_all add: text16_def)
  have a: "isAccessAllowed start_snmp (map of_char ''public'')" by code_simp
  have q: "\<forall>q \<in> set ?qs. answerable True (fst q) \<and> length (snd q) < 1000"
    by (simp add: answerable_def set_instances last_inst_def)
  have m: "be (min_len 7) 7 = [7]" by (simp add: min_len.simps)
  have l: "length (message 0 (map of_char ''public'') 0xa1 [7] 0 0 (map asks ?qs)) \<le> 300" by code_simp
  have r: "answers_of start_snmp True ?qs = [binding start_snmp (5, -1), binding start_snmp (1, -1)]"
    by (simp add: answers_of_def asked_def inst_next_def)
  have f: "length (message 0 (map of_char ''public'') 0xa2 [7] 0 0 [binding start_snmp (5, -1), binding start_snmp (1, -1)]) \<le> 312"
    by code_simp
  show ?thesis
    using snmp_get_answered [of start_snmp 0 "map of_char ''public''" 7 ?qs True 0 0] ok a q m l r f by (simp add: Let_def)
qed

end
