(* ===== verification/SnmpSafe.thy ===== *)
theory SnmpSafe
  imports SnmpSpec
begin

text \<open>
  What no request can change, and the set of a value, its reach included.
\<close>

section \<open>Steps of the state\<close>

text \<open>The numbers of the rows, in the first two bytes of every 20, are not written, except that the low
  byte of any but the first may become zero.\<close>

definition numbers_kept :: "bytes \<Rightarrow> bytes \<Rightarrow> bool" where
  "numbers_kept t t' \<longleftrightarrow>
     (\<forall>k < length t. (k mod 20 = 1 \<longrightarrow> t' ! k = t ! k) \<and> (k mod 20 = 0 \<longrightarrow> t' ! k = t ! k \<or> 20 \<le> k \<and> t' ! k = 0))"

text \<open>The sizes of the objects, the objects without a writable variable, the number of rows and the
  community stay.\<close>

definition kept :: "snmp \<Rightarrow> snmp \<Rightarrow> bool" where
  "kept st st' \<longleftrightarrow> map length (objs st') = map length (objs st) \<and> analogPropertyNO st' = analogPropertyNO st \<and>
     snmp_Context st' = snmp_Context st \<and> (\<forall>i < 3. objs st' ! i = objs st ! i) \<and>
     (6 < length (objs st) \<longrightarrow> numbers_kept (objs st ! 6) (objs st' ! 6))"

lemma kept_refl [simp]: "kept st st"
  by (simp add: kept_def numbers_kept_def)

lemma kept_trans: "kept a b \<Longrightarrow> kept b c \<Longrightarrow> kept a c"
proof -
  assume ab: "kept a b" and bc: "kept b c"
  have l: "length (objs b) = length (objs a)" using ab by (metis kept_def length_map)
  have "length (objs b ! 6) = length (objs a ! 6)" if "6 < length (objs a)"
    using ab that l unfolding kept_def by (metis nth_map)
  then have "numbers_kept (objs a ! 6) (objs c ! 6)" if "6 < length (objs a)"
    using ab bc that l unfolding kept_def numbers_kept_def by metis
  then show "kept a c" using ab bc by (simp add: kept_def)
qed

lemma kept_allowed: "kept st st' \<Longrightarrow> isAccessAllowed st' c = isAccessAllowed st c"
  by (simp add: kept_def isAccessAllowed_def)

text \<open>A write to one of the writable places.\<close>

definition place_ok :: "ptr \<Rightarrow> bytes \<Rightarrow> bool" where
  "place_ok p bs \<longleftrightarrow> 3 \<le> fst p \<and> (fst p = 6 \<longrightarrow>
     snd p mod 20 = 2 \<and> length bs = 2 \<or> snd p mod 20 = 4 \<and> length bs \<le> 17 \<and> (length bs = 17 \<longrightarrow> bs ! 16 = 0))"

lemma spliced_numbers:
  assumes "a + length bs \<le> length o'" "a mod 20 = 2 \<and> length bs = 2 \<or> a mod 20 = 4 \<and> length bs \<le> 17 \<and> (length bs = 17 \<longrightarrow> bs ! 16 = 0)"
  shows "numbers_kept o' (take a o' @ bs @ drop (a + length bs) o')"
  unfolding numbers_kept_def
proof (intro allI impI)
  fix k assume k: "k < length o'"
  let ?t = "take a o' @ bs @ drop (a + length bs) o'"
  have out: "?t ! k = o' ! k" if "k < a \<or> a + length bs \<le> k" using that assms(1) k by (auto simp: nth_append)
  show "(k mod 20 = 1 \<longrightarrow> ?t ! k = o' ! k) \<and> (k mod 20 = 0 \<longrightarrow> ?t ! k = o' ! k \<or> 20 \<le> k \<and> ?t ! k = 0)"
  proof (cases "k < a \<or> a + length bs \<le> k")
    case False
    then obtain j where j: "k = a + j" "j < length bs" by (metis le_add_diff_inverse not_le_imp_less nat_add_left_cancel_less)
    have v: "?t ! k = bs ! j" using j assms(1) by (simp add: nth_append)
    consider "a mod 20 = 2" "j < 2" | "a mod 20 = 4" "j < 16" | "a mod 20 = 4" "j = 16" "length bs = 17" using assms(2) j(2) by linarith
    then show ?thesis
    proof cases
      case 1
      then have "k mod 20 = 2 + j" by (simp add: j(1) mod_add_left_eq [symmetric, of a])
      then show ?thesis by simp
    next
      case 2
      then have "k mod 20 = 4 + j" by (simp add: j(1) mod_add_left_eq [symmetric, of a])
      then show ?thesis by simp
    next
      case 3
      then have "20 \<le> k" "k mod 20 \<noteq> 1" unfolding j(1) by presburger+
      then show ?thesis using assms(2) v 3 by simp
    qed
  qed (use out in simp)
qed

lemma store_kept:
  assumes "store st p bs = Some st'" "place_ok p bs"
  shows "kept st st'"
proof -
  let ?o = "objs st ! fst p"
  have b: "fst p < length (objs st)" "snd p + length bs \<le> length ?o"
    and st': "st' = st\<lparr>objs := (objs st)[fst p := take (snd p) ?o @ bs @ drop (snd p + length bs) ?o]\<rparr>"
    using assms(1) by (auto simp: store_def split: if_splits)
  have "length (take (snd p) ?o @ bs @ drop (snd p + length bs) ?o) = length ?o" using b(2) by simp
  then have "map length (objs st') = map length (objs st)" by (simp add: st' map_update list_update_same_conv b(1))
  moreover have "numbers_kept (objs st ! 6) (objs st' ! 6)"
  proof (cases "fst p = 6")
    case True
    then show ?thesis using spliced_numbers [OF b(2)] assms(2) b(1) by (simp add: place_ok_def st')
  qed (simp add: st' numbers_kept_def)
  ultimately show ?thesis using assms(2) by (simp add: kept_def st' place_ok_def)
qed

definition rows20 :: "mibtab option \<Rightarrow> bool" where "rows20 m \<longleftrightarrow> (case m of None \<Rightarrow> True | Some x \<Rightarrow> tab_len x = 20)"

lemma rows20_None: "rows20 None"
  by (simp add: rows20_def)

lemma table_rows: "table_of mvp = Some t \<Longrightarrow> rows20 t"
proof (cases t)
  case (Some x)
  assume "table_of mvp = Some t"
  then obtain k where "k < length mibtab_ace" "x = mibtab_ace ! k"
    unfolding table_of_def bind_eq_Some_conv Some by (fastforce split: if_splits option.splits)
  then show ?thesis by (simp add: Some mibtab_ace_def rows20_def)
qed (simp add: rows20_None)

lemma found_table: "find_var st g inp n = Some (Found i t m) \<Longrightarrow> rows20 m"
proof -
  have s: "search_mib st g inp n vs m0 t0 cur = Some (Found i t m) \<Longrightarrow> rows20 m0 \<Longrightarrow> rows20 m" for vs m0 t0 cur
  proof (induction st g inp n vs m0 t0 cur rule: search_mib.induct)
    case (2 st g inp n i' mvp vs mtp tabix cur)
    note p = "2.prems"
    consider "table_of mvp = None" | "table_of mvp = Some None" | x where "table_of mvp = Some (Some x)" "rows20 (Some x)"
      using table_rows by (metis option.exhaust)
    then show ?case
      by cases (use p "2.IH" in \<open>auto simp: Let_def bind_eq_Some_conv split: if_split_asm\<close>)
  qed (simp split: option.splits)
  assume "find_var st g inp n = Some (Found i t m)"
  then show ?thesis using s [of "enumerate 0 mibvar_ace" None "-1" None] by (simp add: find_var_def rows20_None)
qed

lemma found_is_var: "find_var st g inp n = Some (Found i t m) \<Longrightarrow> i < 10"
proof -
  have s: "search_mib st g inp n vs m0 t0 cur = Some (Found i t m) \<Longrightarrow> i \<in> fst ` set vs \<or> cur = Some i" for vs m0 t0 cur
    by (induction st g inp n vs m0 t0 cur rule: search_mib.induct)
      (auto simp: Let_def bind_eq_Some_conv split: if_splits option.splits)
  assume "find_var st g inp n = Some (Found i t m)"
  then show "i < 10" using s [of "enumerate 0 mibvar_ace" None "-1" None] by (auto simp: find_var_def vars_numbered)
qed

text \<open>The variables with the option \<open>W\<close>: three texts, and the column and the address of a row.\<close>

definition writable_var :: "mibvar \<Rightarrow> bool" where
  "writable_var v \<longleftrightarrow> opt v AND 7 = 0 \<and> opt v AND SX = 0 \<and> opt v AND SCALAR = 0 \<and> opt v AND CAR = 0 \<and>
     (var_type v = String \<and> var_len v \<le> 17 \<and> (fst (ptr v) \<in> {3, 4, 5} \<or> ptr v = (6, 4)) \<or>
      var_type v = Integer \<and> var_len v = 2 \<and> ptr v = (6, 2))"

lemma writable_objects: "i < 10 \<Longrightarrow> opt (mibvar_ace ! i) AND W \<noteq> 0 \<Longrightarrow> writable_var (mibvar_ace ! i)"
proof -
  have "list_all (\<lambda>v. opt v AND W \<noteq> 0 \<longrightarrow> writable_var v) mibvar_ace" by code_simp
  moreover have "length mibvar_ace = 10" by (simp add: mibvar_ace_def)
  ultimately show "i < 10 \<Longrightarrow> opt (mibvar_ace ! i) AND W \<noteq> 0 \<Longrightarrow> writable_var (mibvar_ace ! i)" by (simp add: list_all_length)
qed

fun outcome_state :: "snmp \<Rightarrow> outcome \<Rightarrow> snmp" where
  "outcome_state st (Written st' p) = st'"
| "outcome_state st (Error e inp) = st"
| "outcome_state st (Dropped st') = st'"

lemma put_kept:
  "put_number wr mvp p i3 inp st = Some (Some st') \<Longrightarrow> (wr \<Longrightarrow> \<forall>bs. length bs = var_len mvp \<longrightarrow> place_ok p bs) \<Longrightarrow>
    kept st st' \<and> (\<not> wr \<longrightarrow> st' = st)"
  "put_bytes wr mvp t z p inp st = Some (Some st') \<Longrightarrow>
    (wr \<Longrightarrow> \<forall>n bs q. snmpReadVal (of_nat (var_len mvp)) inp t = Some (n, bs, q) \<longrightarrow> place_ok p (bs @ z)) \<Longrightarrow>
    kept st st' \<and> (\<not> wr \<longrightarrow> st' = st)"
  unfolding put_number_def put_bytes_def Let_def
  by (auto simp: bind_eq_Some_conv split: if_splits dest!: store_kept)

lemma storage_kept:
  assumes "storage wr i t p i3 c inp st out = Some x"
    and "wr \<Longrightarrow> opt (mibvar_ace ! i) AND 7 = 0"
    and "wr \<Longrightarrow> var_type (mibvar_ace ! i) = Integer \<and> (\<forall>bs. length bs = var_len (mibvar_ace ! i) \<longrightarrow> place_ok p bs) \<or>
      var_type (mibvar_ace ! i) = String \<and> (\<forall>n bs q. snmpReadVal (of_nat (var_len (mibvar_ace ! i))) inp String = Some (n, bs, q) \<longrightarrow>
        place_ok p (bs @ [0]))"
  shows "kept st (outcome_state st x) \<and> (\<not> wr \<longrightarrow> outcome_state st x = st)"
proof -
  note n = put_kept(1) [of wr "mibvar_ace ! i" p i3 inp st] and b = put_kept(2) [of wr "mibvar_ace ! i" _ _ p inp st]
  show ?thesis
  proof (cases wr)
    case True
    then show ?thesis using assms n b
      unfolding storage_def Let_def
      by (auto simp: bind_eq_Some_conv is_number_def Integer_def split: if_splits option.splits)
  next
    case False
    then show ?thesis using assms(1) n b
      unfolding storage_def Let_def
      by (auto simp: bind_eq_Some_conv split: if_splits option.splits)
  qed
qed

lemma set_writable: "check_set mvp data = Some (Some (0, i3, c)) \<Longrightarrow> opt mvp AND W \<noteq> 0"
  by (auto simp: check_set_def bind_eq_Some_conv split: if_splits)

lemma set_place:
  assumes "value_ptr True i t m = Some p" "writable_var (mibvar_ace ! i)" "rows20 m"
  shows "fst p = fst (ptr (mibvar_ace ! i)) \<and> snd p mod 20 = snd (ptr (mibvar_ace ! i)) mod 20"
proof -
  have "p = ptr (mibvar_ace ! i) \<or> p = (fst (ptr (mibvar_ace ! i)), snd (ptr (mibvar_ace ! i)) + 20 * nat t)"
    using assms unfolding value_ptr_def writable_var_def rows20_def Let_def by (auto split: if_splits option.splits)
  then show ?thesis by auto
qed

text \<open>A set that passed the check of its length writes to its place.\<close>

lemma set_writes:
  assumes "check_set (mibvar_ace ! i) data = Some (Some (0, i3, c))" "value_ptr True i t m = Some p" "i < 10" "rows20 m"
  shows "opt (mibvar_ace ! i) AND 7 = 0"
    and "var_type (mibvar_ace ! i) = Integer \<and> (\<forall>bs. length bs = var_len (mibvar_ace ! i) \<longrightarrow> place_ok p bs) \<or>
      var_type (mibvar_ace ! i) = String \<and> (\<forall>n bs q. snmpReadVal (of_nat (var_len (mibvar_ace ! i))) data String = Some (n, bs, q) \<longrightarrow>
        place_ok p (bs @ [0]))"
proof -
  have w: "writable_var (mibvar_ace ! i)" using writable_objects [OF assms(3) set_writable [OF assms(1)]] .
  note p = set_place [OF assms(2) w assms(4)]
  show "opt (mibvar_ace ! i) AND 7 = 0" using w by (simp add: writable_var_def)
  show "var_type (mibvar_ace ! i) = Integer \<and> (\<forall>bs. length bs = var_len (mibvar_ace ! i) \<longrightarrow> place_ok p bs) \<or>
      var_type (mibvar_ace ! i) = String \<and> (\<forall>n bs q. snmpReadVal (of_nat (var_len (mibvar_ace ! i))) data String = Some (n, bs, q) \<longrightarrow>
        place_ok p (bs @ [0]))"
  proof (cases "var_type (mibvar_ace ! i) = String")
    case True
    then have l: "var_len (mibvar_ace ! i) \<le> 17" "fst p \<in> {3, 4, 5} \<or> fst p = 6 \<and> snd p mod 20 = 4"
      using w p by (auto simp: writable_var_def Integer_def)
    have "place_ok p (bs @ [0])" if r: "snmpReadVal (of_nat (var_len (mibvar_ace ! i))) data String = Some (n, bs, q)" for n bs q
    proof -
      obtain len u where len: "snmpReadLength data String = Some (len, u)" "\<not> len \<ge> int (var_len (mibvar_ace ! i))"
        using assms(1) True by (auto simp: check_set_def is_number_def Integer_def bind_eq_Some_conv split: if_splits)
      have "length bs \<le> nat len" using r by (auto simp: snmpReadVal_def len(1) split: if_splits)
      then have "length bs \<le> 16" using len(2) l(1) by linarith
      then show ?thesis using l(2) by (auto simp: place_ok_def nth_append)
    qed
    then show ?thesis using True by blast
  next
    case False
    then have "var_type (mibvar_ace ! i) = Integer" "var_len (mibvar_ace ! i) = 2" "ptr (mibvar_ace ! i) = (6, 2)"
      using w by (auto simp: writable_var_def Integer_def)
    then show ?thesis using p by (simp add: place_ok_def)
  qed
qed

lemma value_kept:
  assumes "var_value wr i t m inp n st out = Some x" "i < 10" "rows20 m"
  shows "kept st (outcome_state st x) \<and> (\<not> wr \<longrightarrow> outcome_state st x = st)"
proof -
  obtain chk where chk: "(if \<not> wr then Some (Some (0, 0, [])) else if n \<le> length inp then check_set (mibvar_ace ! i) (if wr then drop n inp else inp) else None) = Some chk"
    and x: "(case chk of None \<Rightarrow> Some (Dropped st)
      | Some (i1, i3, chkp2) \<Rightarrow>
          if i1 \<noteq> 0 then Some (Error i1 (if wr then drop n inp else inp))
          else do { valp \<leftarrow> value_ptr wr i t m; storage wr i t valp i3 chkp2 (if wr then drop n inp else inp) st out }) = Some x"
    using assms(1) unfolding var_value_def Let_def bind_eq_Some_conv by blast
  show ?thesis
  proof (cases "\<exists>i3 c. chk = Some (0, i3, c)")
    case True
    then obtain i3 c p where c: "chk = Some (0, i3, c)" and p: "value_ptr wr i t m = Some p"
      and s: "storage wr i t p i3 c (if wr then drop n inp else inp) st out = Some x"
      using x by (auto simp: bind_eq_Some_conv)
    have w: "wr \<Longrightarrow> check_set (mibvar_ace ! i) (if wr then drop n inp else inp) = Some (Some (0, i3, c))" "wr \<Longrightarrow> value_ptr True i t m = Some p"
      using chk c p by (simp_all split: if_splits)
    note k = set_writes [OF w(1) w(2) assms(2,3)]
    show ?thesis using storage_kept [OF s] k by blast
  next
    case False
    then show ?thesis using x by (auto split: option.splits if_splits)
  qed
qed

lemma found_kept:
  assumes "process_found rq nflag k i t m inp n st out = Some (st', w)" "i < 10" "rows20 m"
  shows "kept st st' \<and> (pdu rq \<noteq> SetRequest \<longrightarrow> st' = st)"
proof -
  obtain v where v: "var_value (pdu rq = SetRequest) i t m inp n st out = Some v"
    using assms(1) by (auto simp: process_found_def bind_eq_Some_conv)
  have "st' = outcome_state st v"
    using assms(1) v by (auto simp: process_found_def bind_eq_Some_conv mibset_ace_def Let_def split: outcome.splits if_splits)
  then show ?thesis using value_kept [OF v assms(2,3)] by simp
qed

text \<open>A binding is dropped, or its answer is that of the search.\<close>

definition answer :: "request \<Rightarrow> bool \<Rightarrow> u8 \<Rightarrow> bytes \<Rightarrow> nat \<Rightarrow> snmp \<Rightarrow> wptr \<Rightarrow> search \<Rightarrow> (snmp \<times> (wptr \<times> (u8 \<times> u8) option) option) option" where
  "answer rq nflag k inp n st out r =
     (case r of
        No_Table \<Rightarrow> map_option (\<lambda>x. (st, Some x)) (write_error rq nflag k genErr inp n out)
      | Missing \<Rightarrow>
          map_option (\<lambda>x. (st, Some x)) (write_error rq nflag k (if version rq = 1 then noSuchName else 0) inp n out)
      | Found i t m \<Rightarrow>
          if isAccessAllowed st (contextName rq) then process_found rq nflag k i t m inp n st out
          else map_option (\<lambda>x. (st, Some x)) (write_error rq nflag k noAccess inp n out))"

lemma answer_kept:
  assumes "find_var st g inp n = Some r" "answer rq nflag k inp n' st out r = Some (st', w)"
  shows "kept st st' \<and> (pdu rq \<noteq> SetRequest \<or> \<not> isAccessAllowed st (contextName rq) \<longrightarrow> st' = st)"
proof (cases r)
  case (Found i t m)
  show ?thesis
  proof (cases "isAccessAllowed st (contextName rq)")
    case True
    then show ?thesis using assms found_kept [OF _ found_is_var found_table] by (auto simp: answer_def Found)
  next
    case False
    then show ?thesis using assms(2) by (auto simp: answer_def Found)
  qed
qed (use assms(2) in \<open>auto simp: answer_def\<close>)

lemma process_var_cases:
  assumes "process_var rq nflag k vb st out = Some (st', w)"
  shows "st' = st \<or> (\<exists>g inp n r w. find_var st g inp n = Some r \<and> answer rq nflag k inp n st out r = Some (st', w))"
proof -
  obtain a q where a: "snmpReadLength vb Sequence = Some (a, q)" using assms unfolding process_var_def bind_eq_Some_conv by auto
  obtain n inp where n: "snmpReadLength q Identifier = Some (n, inp)"
    using assms unfolding process_var_def a bind.bind_lunit prod.case bind_eq_Some_conv by auto
  have 1: "(if n \<le> 0 then Some (st, None)
      else find_var st (\<not> nflag) inp (nat n) \<bind> (\<lambda>r. answer rq nflag k inp (nat n) st out r \<bind>
        (\<lambda>(st, w). case w of None \<Rightarrow> Some (st, None)
          | Some (p, e) \<Rightarrow> snmpRWriteLength p Sequence (int (fst out) - int (fst p)) \<bind> (\<lambda>p. Some (st, Some (p, e)))))) = Some (st', w)"
    using assms unfolding process_var_def answer_def Let_def a n bind.bind_lunit prod.case by simp
  show ?thesis
  proof (cases "n \<le> 0")
    case False
    then obtain r st1 w1 where r: "find_var st (\<not> nflag) inp (nat n) = Some r" "answer rq nflag k inp (nat n) st out r = Some (st1, w1)"
      and s: "(case w1 of None \<Rightarrow> Some (st1, None)
          | Some (p, e) \<Rightarrow> snmpRWriteLength p Sequence (int (fst out) - int (fst p)) \<bind> (\<lambda>p. Some (st1, Some (p, e)))) = Some (st', w)"
      using 1 by (auto simp: bind_eq_Some_conv [of "find_var _ _ _ _"] bind_eq_Some_conv [of "answer _ _ _ _ _ _ _ _"])
    have "st1 = st'" using s by (auto simp: bind_eq_Some_conv split: option.splits)
    then show ?thesis using r by blast
  qed (use 1 in simp)
qed

lemma var_kept:
  assumes "process_var rq nflag k vb st out = Some (st', w)"
  shows "kept st st' \<and> (pdu rq \<noteq> SetRequest \<or> \<not> isAccessAllowed st (contextName rq) \<longrightarrow> st' = st)"
proof -
  from process_var_cases [OF assms] consider "st' = st" |
    g inp n r w where "find_var st g inp n = Some r" "answer rq nflag k inp n st out r = Some (st', w)" by blast
  then show ?thesis by cases (simp, rule answer_kept)
qed

lemma vars_kept:
  "process_vars rq nflag k vbs st out e = Some (st', w) \<Longrightarrow>
    kept st st' \<and> (pdu rq \<noteq> SetRequest \<or> \<not> isAccessAllowed st (contextName rq) \<longrightarrow> st' = st)"
proof (induction vbs arbitrary: k st out e)
  case (Cons vb vbs)
  obtain st1 w1 where v: "process_var rq nflag k vb st out = Some (st1, w1)"
    using Cons.prems by (auto simp: bind_eq_Some_conv)
  note k = var_kept [OF v]
  show ?case
  proof (cases w1)
    case None
    then show ?thesis using Cons.prems v k by simp
  next
    case (Some x)
    obtain p e' where x: "x = (p, e')" by (cases x)
    have s: "process_vars rq nflag (k + 1) vbs st1 p (case e' of None \<Rightarrow> e | Some e' \<Rightarrow> e') = Some (st', w)"
      using Cons.prems v Some x by simp
    show ?thesis using k Cons.IH [OF s] kept_trans [of st st1 st'] kept_allowed [of st st1] by auto
  qed
qed simp

lemma reply_kept:
  assumes "inReqOutRep olen ibp st = Some (st', r)"
  shows "kept st st' \<and> ((\<forall>rq. read_request olen ibp = Some (Some rq) \<longrightarrow> pdu rq \<noteq> SetRequest \<or> \<not> isAccessAllowed st (contextName rq)) \<longrightarrow> st' = st)"
proof -
  obtain q where q: "read_request olen ibp = Some q" using assms by (auto simp: inReqOutRep_def bind_eq_Some_conv)
  show ?thesis
  proof (cases q)
    case None
    then show ?thesis using assms q by (simp add: inReqOutRep_def)
  next
    case (Some rq)
    show ?thesis
    proof (cases "pdu rq \<notin> {SetRequest, GetRequest, GetNextRequest, GetBulkRequest}")
      case True
      then show ?thesis using assms q Some by (simp add: inReqOutRep_def Let_def)
    next
      case False
      then obtain nf vbs out e w where v: "process_vars rq nf 0 vbs st out e = Some (st', w)"
        using assms q Some unfolding inReqOutRep_def Let_def
        by (auto simp: bind_eq_Some_conv [of "process_vars _ _ _ _ _ _ _"] bind_eq_Some_conv split: option.splits)
      show ?thesis using vars_kept [OF v] q Some by auto
    qed
  qed
qed

section \<open>Requests\<close>

text \<open>C11. What a datagram can change, whatever its bytes, as long as the agent processes it without an
  access outside its objects and buffers (a result exists). The description, the identifier and the up time
  of the system, the size of every object, the number of rows and the community stay. Of the
  numbers of the rows of the table, which the table marks read-only as well, the first stays and each of the others stays or has
  its low byte erased to zero: a set of an address of 16 characters does that. The contact, the name, the
  location, the columns and the addresses are writable. Without a set request under the right community nothing
  changes at all.\<close>

theorem snmp_request_safe:
  assumes "inReqOutRep olen ibp st = Some (st', r)"
  shows "map length (objs st') = map length (objs st) \<and> analogPropertyNO st' = analogPropertyNO st \<and>
    snmp_Context st' = snmp_Context st \<and> take 3 (objs st') = take 3 (objs st) \<and>
    (\<forall>k. 6 < length (objs st) \<and> 20 * k + 1 < length (objs st ! 6) \<longrightarrow>
      objs st' ! 6 ! (20 * k + 1) = objs st ! 6 ! (20 * k + 1) \<and>
      (objs st' ! 6 ! (20 * k) = objs st ! 6 ! (20 * k) \<or> 0 < k \<and> objs st' ! 6 ! (20 * k) = 0)) \<and>
    ((\<forall>rq. read_request olen ibp = Some (Some rq) \<longrightarrow> pdu rq \<noteq> SetRequest \<or> \<not> isAccessAllowed st (contextName rq)) \<longrightarrow> st' = st)"
proof -
  note k = reply_kept [OF assms]
  have "length (objs st') = length (objs st)" using k by (metis kept_def length_map)
  then have t: "take 3 (objs st') = take 3 (objs st)" using k by (intro nth_equalityI) (auto simp: kept_def)
  have n: "objs st' ! 6 ! (20 * i + 1) = objs st ! 6 ! (20 * i + 1) \<and>
      (objs st' ! 6 ! (20 * i) = objs st ! 6 ! (20 * i) \<or> 0 < i \<and> objs st' ! 6 ! (20 * i) = 0)"
    if "6 < length (objs st)" "20 * i + 1 < length (objs st ! 6)" for i
  proof -
    have "numbers_kept (objs st ! 6) (objs st' ! 6)" using k that(1) by (simp add: kept_def)
    then have a: "k < length (objs st ! 6) \<Longrightarrow> k mod 20 = 1 \<Longrightarrow> objs st' ! 6 ! k = objs st ! 6 ! k"
      "k < length (objs st ! 6) \<Longrightarrow> k mod 20 = 0 \<Longrightarrow> objs st' ! 6 ! k = objs st ! 6 ! k \<or> 20 \<le> k \<and> objs st' ! 6 ! k = 0" for k
      by (auto simp: numbers_kept_def)
    have "(20 * i + 1) mod 20 = 1" by presburger
    then show ?thesis using a(1) [of "20 * i + 1"] a(2) [of "20 * i"] that(2) by auto
  qed
  have k1: "map length (objs st') = map length (objs st)" "analogPropertyNO st' = analogPropertyNO st" "snmp_Context st' = snmp_Context st"
    using k by (simp_all add: kept_def)
  show ?thesis by (intro conjI allI impI k1 t n [THEN conjunct1] n [THEN conjunct2] k [THEN conjunct2, THEN mp]) blast+
qed

text \<open>A set of the contact under a wrong community is answered, and changes nothing.\<close>

theorem snmp_request_safe_witness:
  "\<exists>r. inReqOutRep 320 (message 0 (map of_char ''publi'') 0xa3 [7] 0 0
      [tlv Sequence (tlv Identifier (inst_oid (3, -1)) @ tlv String (map of_char ''bob''))]) start_snmp = Some (start_snmp, r)"
proof -
  let ?m = "message 0 (map of_char ''publi'') 0xa3 [7] 0 0
      [tlv Sequence (tlv Identifier (inst_oid (3, -1)) @ tlv String (map of_char ''bob''))]"
  have "(case inReqOutRep 320 ?m start_snmp of None \<Rightarrow> False | Some _ \<Rightarrow> True)" by code_simp
  then obtain st' r where i: "inReqOutRep 320 ?m start_snmp = Some (st', r)" by (auto split: option.splits)
  have "(case read_request 320 ?m of Some (Some rq) \<Rightarrow> \<not> isAccessAllowed start_snmp (contextName rq) | _ \<Rightarrow> False)" by code_simp
  then have "\<forall>rq. read_request 320 ?m = Some (Some rq) \<longrightarrow> \<not> isAccessAllowed start_snmp (contextName rq)" by auto
  then have "st' = start_snmp" using snmp_request_safe [OF i] by blast
  then show ?thesis using i by blast
qed

end
