(* ===== verification/SnmpSet.thy ===== *)
theory SnmpSet
  imports SnmpSafe
begin

text \<open>
  The set of a text: the contact, the name and the location of the system, and the address of a row.
\<close>

section \<open>The memory after a set\<close>

definition spliced :: "bytes \<Rightarrow> nat \<Rightarrow> bytes \<Rightarrow> bytes" where
  "spliced xs k ys = take k xs @ ys @ drop (k + length ys) xs"

lemma length_spliced: "k + length ys \<le> length xs \<Longrightarrow> length (spliced xs k ys) = length xs"
  by (simp add: spliced_def)

lemma nth_spliced:
  "k + length ys \<le> length xs \<Longrightarrow> j < length xs \<Longrightarrow>
    spliced xs k ys ! j = (if k \<le> j \<and> j < k + length ys then ys ! (j - k) else xs ! j)"
  by (auto simp: spliced_def nth_append min_def)

lemma take_drop_spliced:
  assumes "k + length ys \<le> length xs" "a + n \<le> k \<or> k + length ys \<le> a"
  shows "take n (drop a (spliced xs k ys)) = take n (drop a xs)"
  using assms by (intro nth_equalityI) (auto simp: length_spliced nth_spliced)

lemma drop_spliced: "k + length ys \<le> length xs \<Longrightarrow> drop k (spliced xs k ys) = ys @ drop (k + length ys) xs"
  by (simp add: spliced_def)

lemma store_spliced:
  "fst p < length (objs st) \<Longrightarrow> snd p + length bs \<le> length (objs st ! fst p) \<Longrightarrow>
    store st p bs = Some (st\<lparr>objs := (objs st)[fst p := spliced (objs st ! fst p) (snd p) bs]\<rparr>)"
  by (simp add: store_def spliced_def)

text \<open>The place of a text and its room, without the terminator.\<close>

definition text_place :: "inst \<Rightarrow> ptr" where
  "text_place x = (if fst x = 9 then (6, 4 + 20 * nat (snd x)) else (fst x, 0))"

definition is_text :: "inst \<Rightarrow> bool" where "is_text x \<longleftrightarrow> x \<in> set instances \<and> fst x \<in> {3, 4, 5, 9}"

lemma text_cases:
  assumes "is_text (i, t)"
  obtains "i \<in> {3, 4, 5}" "t = -1" | r where "i = 9" "t = int r" "r < 64"
  using assms unfolding is_text_def by (auto elim!: inst_cases)

lemma text_stored:
  assumes "store st p (w @ [0]) = Some st'" "0 \<notin> set w"
  shows "load_text st' p = Some w"
proof -
  have b: "fst p < length (objs st)" "snd p + length (w @ [0]) \<le> length (objs st ! fst p)"
    using assms(1) by (auto simp: store_def split: if_splits)
  have "drop (snd p) (objs st' ! fst p) = w @ 0 # drop (snd p + length (w @ [0])) (objs st ! fst p)"
    using assms(1) b by (auto simp: store_spliced drop_spliced)
  moreover have "length (objs st') = length (objs st)" using assms(1) b by (auto simp: store_spliced)
  moreover have "takeWhile (\<lambda>b. b \<noteq> 0) (w @ 0 # q) = w" for q
    using assms(2) by (induction w) auto
  ultimately show ?thesis using b(1) by (simp add: load_text_def)
qed

lemma set_written:
  assumes "mib_ok st" "is_text (i, t)" "0 \<notin> set w" "length w < var_len (mibvar_ace ! i)"
    and "store st (text_place (i, t)) (w @ [0]) = Some st'"
  shows "var_value True i t (inst_table (i, t)) (inst_oid (i, t) @ tlv String w @ z) (length (inst_oid (i, t))) st (n, out) =
    (let e = tlv String w in if length e \<le> n then Some (Written st' (n - length e, e @ out)) else None)"
proof -
  have l: "length w < 17" "var_len (mibvar_ace ! i) \<in> {16, 17}" using assms(2,4) by (auto simp: is_text_def var_lens)
  have r: "snmpReadLength (tlv String w @ z) String = Some (int (length w), w @ z)"
    using l by (intro read_tlv) auto
  have v: "snmpReadVal (of_nat (var_len (mibvar_ace ! i))) (tlv String w @ z) String = Some (int (length w), w, z)"
    using r l assms(4) by (auto simp: snmpReadVal_def)
  note lt = text_stored [OF assms(5,3)] writesD [OF writes_val [of String w], of n out]
  have ne: "String \<noteq> Integer" "String \<noteq> Identifier" "\<not> is_number String" by (simp_all add: Integer_def Identifier_def is_number_def)
  show ?thesis
    using assms(2)
  proof (cases rule: text_cases)
    case 1
    then show ?thesis using r v lt ne assms(4,5)
      by (elim insertE emptyE; simp add: var_value_def check_set_def var_simps value_ptr_def storage_def put_bytes_def text_place_def Let_def
          del: snmpReadLength.simps)
  next
    case (2 k)
    have t: "inst_table (9, t) = Some (hd mibtab_ace)" "tab_len (hd mibtab_ace) = 20"
      by (auto simp: inst_table_def mibtab_ace_def)
    show ?thesis using r v lt ne assms(4,5) 2 t
      by (simp add: var_value_def check_set_def var_simps value_ptr_def storage_def put_bytes_def text_place_def Let_def
          del: snmpReadLength.simps)
  qed
qed

definition set_text :: "snmp \<Rightarrow> inst \<Rightarrow> bytes \<Rightarrow> snmp" where
  "set_text st x w = (let p = text_place x in st\<lparr>objs := (objs st)[fst p := spliced (objs st ! fst p) (snd p) (w @ [0])]\<rparr>)"

lemma set_text_stored:
  assumes "mib_ok st" "is_text (i, t)" "length w < 16 \<or> i = 9 \<and> t < 63 \<and> length w = 16"
  shows "store st (text_place (i, t)) (w @ [0]) = Some (set_text st (i, t) w)"
  using assms(2)
proof (cases rule: text_cases)
  case 1
  then show ?thesis using assms mib_okD [OF assms(1)]
    by (elim insertE emptyE; auto simp: set_text_def text_place_def Let_def store_spliced)
next
  case (2 k)
  then have "5 + 20 * k + length w \<le> 1280" using assms(3) by auto
  then show ?thesis using 2 mib_okD [OF assms(1)] by (auto simp: set_text_def text_place_def Let_def store_spliced)
qed

text \<open>Rows: an address of 15 characters stays in its row.\<close>

lemma set_text_row:
  assumes "mib_ok st" "r < 64" "length w < 16" "r' < 64"
  shows "row (set_text st (9, int r) w) r' = (if r' = r then spliced (row st r) 4 (w @ [0]) else row st r')"
proof (rule nth_equalityI)
  have l: "length (objs st ! 6) = 1280" "length (objs st) = 7" by (rule mib_okD [OF assms(1)])+
  have b: "4 + 20 * r + length (w @ [0]) \<le> 1280" using assms(2,3) by simp
  have o: "objs (set_text st (9, int r) w) ! 6 = spliced (objs st ! 6) (4 + 20 * r) (w @ [0])"
    using l by (simp add: set_text_def text_place_def Let_def)
  have lr: "length (row st k) = 20" if "k < 64" for k using l that by (simp add: row_def)
  show "length (row (set_text st (9, int r) w) r') = length (if r' = r then spliced (row st r) 4 (w @ [0]) else row st r')"
    using b l assms lr by (simp add: row_def o length_spliced)
  fix j assume "j < length (row (set_text st (9, int r) w) r')"
  then have j: "j < 20" by (simp add: row_def)
  have a: "row (set_text st (9, int r) w) r' ! j = spliced (objs st ! 6) (4 + 20 * r) (w @ [0]) ! (20 * r' + j)"
    using j b l assms(4) by (simp add: row_def o length_spliced)
  also have "\<dots> = (if 4 + 20 * r \<le> 20 * r' + j \<and> 20 * r' + j < 4 + 20 * r + length (w @ [0]) then (w @ [0]) ! (20 * r' + j - (4 + 20 * r))
      else objs st ! 6 ! (20 * r' + j))"
    using b l j assms(4) by (intro nth_spliced) auto
  also have "\<dots> = (if r' = r then spliced (row st r) 4 (w @ [0]) else row st r') ! j"
  proof (cases "r' = r")
    case True
    then show ?thesis using j l assms lr [OF assms(2)] by (auto simp: nth_spliced) (auto simp: row_def)
  next
    case False
    have n: "\<not> (4 + 20 * r \<le> 20 * r' + j \<and> 20 * r' + j < 4 + 20 * r + length (w @ [0]))"
      using False j assms(3) by auto
    show ?thesis unfolding if_not_P [OF n] using False j l assms(4) by (simp add: row_def)
  qed
  finally show "row (set_text st (9, int r) w) r' ! j = (if r' = r then spliced (row st r) 4 (w @ [0]) else row st r') ! j" .
qed

lemma spliced_index: "length r = 20 \<Longrightarrow> length w < 16 \<Longrightarrow> take 2 (spliced r 4 (w @ [0])) = take 2 r \<and>
    drop 4 (spliced r 4 (w @ [0])) = w @ 0 # drop (5 + length w) r \<and> take 2 (drop 2 (spliced r 4 (w @ [0]))) = take 2 (drop 2 r)"
  using take_drop_spliced [of 4 "w @ [0]" r 0 2] take_drop_spliced [of 4 "w @ [0]" r 2 2] drop_spliced [of 4 "w @ [0]" r] by simp

lemma set_text_ok:
  assumes "mib_ok st" "is_text (i, t)" "length w < 16"
  shows "mib_ok (set_text st (i, t) w)"
  using assms(2)
proof (cases rule: text_cases)
  case 1
  have "0 \<in> set (spliced xs 0 (w @ [0]))" for xs by (simp add: spliced_def)
  then show ?thesis using 1 assms(1,3) mib_okD [OF assms(1)]
    by (elim insertE emptyE; simp add: mib_ok_def set_text_def text_place_def row_def Let_def map_update length_spliced)
next
  case (2 r)
  have lr: "length (row st k) = 20" if "k < 64" for k using that mib_okD [OF assms(1)] by (simp add: row_def)
  have "take 2 (row (set_text st (9, int r) w) k) = [of_nat (k + 1), 0] \<and> 0 \<in> set (drop 4 (row (set_text st (9, int r) w) k))" if "k < 64" for k
    using spliced_index [OF lr assms(3), of r] that 2(3) assms(1,3) by (auto simp: set_text_row mib_ok_def)
  moreover have "4 + 20 * r + length w < 1280" using 2(3) assms(3) by simp
  ultimately show ?thesis using 2 assms(1) mib_okD [OF assms(1)]
    unfolding mib_ok_def by (simp add: set_text_def text_place_def Let_def map_update length_spliced)
qed

lemma set_text_served:
  assumes "mib_ok st" "is_text x" "0 \<notin> set w" "length w < 16" "y \<in> set instances"
  shows "served (set_text st x w) y = (if y = x then tlv String w else served st y)"
proof -
  obtain i t j k where xy: "x = (i, t)" "y = (j, k)" by (cases x; cases y)
  have tw: "text_bytes (w @ 0 # q) = w" for q using assms(3) unfolding text_bytes_def by (induction w) auto
  have "is_text (i, t)" using assms(2) xy by simp
  then show ?thesis
  proof (cases rule: text_cases)
    case 1
    have "text_bytes (spliced q 0 (w @ [0])) = w" for q by (simp add: spliced_def tw)
    moreover have "row (set_text st x w) r = row st r" for r
      using 1 mib_okD [OF assms(1)] by (auto simp: row_def xy set_text_def text_place_def Let_def)
    ultimately show ?thesis using 1 assms(5) mib_okD [OF assms(1)]
      by (auto simp: xy served_def set_text_def text_place_def Let_def nth_list_update set_instances)
  next
    case (2 r)
    have "objs (set_text st x w) ! n = objs st ! n" if "n < 6" for n
      using 2 that mib_okD [OF assms(1)] by (auto simp: xy set_text_def text_place_def Let_def)
    moreover have "length (row st r) = 20" using 2 mib_okD [OF assms(1)] by (simp add: row_def)
    ultimately show ?thesis using 2 assms(4,5) set_text_row [OF assms(1) 2(3) assms(4)] spliced_index [of "row st r" w] tw
      by (auto simp: xy served_def Let_def set_instances nat_less_iff)
  qed
qed

section \<open>The set request\<close>

definition sets :: "inst \<Rightarrow> bytes \<Rightarrow> bytes" where
  "sets x w = tlv Sequence (tlv Identifier (inst_oid x) @ tlv String w)"

lemma set_found_written:
  assumes "mib_ok st" "is_text (i, t)" "0 \<notin> set w" "length w < 16 \<or> i = 9 \<and> t < 63 \<and> length w = 16" "pdu rq = SetRequest"
  shows "process_found rq nflag k i t (inst_table (i, t)) (inst_oid (i, t) @ tlv String w @ z) (length (inst_oid (i, t))) st (n, out) =
    (let e = tlv Identifier (inst_oid (i, t)) @ tlv String w in
     if length e \<le> n then Some (set_text st (i, t) w, Some ((n - length e, e @ out), None)) else None)"
proof -
  have x: "(i, t) \<in> set instances" using assms(2) by (simp add: is_text_def)
  have s: "store st (text_place (i, t)) (w @ [0]) = Some (set_text st (i, t) w)" by (rule set_text_stored [OF assms(1,2,4)])
  have lw: "length w < var_len (mibvar_ace ! i)" using assms(2,4) by (auto simp: is_text_def var_lens)
  have "load (set_text st (i, t) w) (6, 20 * nat t) 2 = Some [of_nat (nat t + 1), 0]" if "7 \<le> i"
    using assms(2)
  proof (cases rule: text_cases)
    case (2 r)
    have o: "objs (set_text st (i, t) w) ! 6 = spliced (objs st ! 6) (4 + 20 * r) (w @ [0])"
      using 2 mib_okD [OF assms(1)] by (simp add: set_text_def text_place_def Let_def)
    have b: "4 + 20 * r + length (w @ [0]) \<le> length (objs st ! 6)" using 2 assms(4) mib_okD [OF assms(1)] by auto
    show ?thesis
      using index_loaded [OF assms(1) 2(3)] 2 b take_drop_spliced [OF b, of "20 * r" 2] length_spliced [OF b] o
        mib_okD(1) [OF assms(1)] by (simp add: load_def set_text_def text_place_def Let_def)
  qed (use that in auto)
  note nm = name_written_at [OF this x]
  show ?thesis
  proof (cases "length (tlv String w) \<le> n")
    case True
    then show ?thesis
      using set_written [OF assms(1-3) lw s, of z n out] assms(5) nm [of "n - length (tlv String w)" "tlv String w @ out"]
      by (auto simp: process_found_def mibset_ace_def Let_def)
  next
    case False
    then show ?thesis
      using set_written [OF assms(1-3) lw s, of z n out] assms(5) by (simp add: process_found_def Let_def)
  qed
qed

lemma set_binding_written:
  assumes "mib_ok st" "is_text (i, t)" "0 \<notin> set w" "length w < 16 \<or> i = 9 \<and> t < 63 \<and> length w = 16"
    and "pdu rq = SetRequest" "isAccessAllowed st (contextName rq)"
  shows "process_var rq False k (sets (i, t) w) st (n, out) =
    (let e = sets (i, t) w in if length e \<le> n then Some (set_text st (i, t) w, Some ((n - length e, e @ out), None)) else None)"
proof -
  let ?in = "tlv Identifier (inst_oid (i, t)) @ tlv String w"
  have x: "(i, t) \<in> set instances" using assms(2) by (simp add: is_text_def)
  have lo: "0 < length (inst_oid (i, t))" "length (inst_oid (i, t)) \<le> 14" using inst_oid_length [OF x] by auto
  have "length (tlv Identifier (inst_oid (i, t))) \<le> 18" "length (tlv String w) \<le> 20" using lo assms(4) by (auto simp: tlv_def header_def)
  then have li: "length ?in < 32768" by simp
  have 1: "snmpReadLength (sets (i, t) w) Sequence = Some (int (length ?in), ?in)"
    unfolding sets_def using read_tlv [OF li, of Sequence "[]"] by simp
  have 2: "snmpReadLength ?in Identifier = Some (int (length (inst_oid (i, t))), inst_oid (i, t) @ tlv String w)"
    using read_tlv [of "inst_oid (i, t)" Identifier "tlv String w"] lo by (simp add: Identifier_def)
  have 3: "find_var st True (inst_oid (i, t) @ tlv String w) (length (inst_oid (i, t))) = Some (Found i t (inst_table (i, t)))"
    using instance_found [OF assms(1), of False "(i, t)" "tlv String w"] x by (simp add: answerable_def asked_def)
  have 4: "length ?in \<le> n \<Longrightarrow> int n - int (n - length ?in) = int (length ?in)" by simp
  note 5 = set_found_written [OF assms(1-5), of False k "[]" n out, simplified append_Nil2]
  have b: "sets (i, t) w = header Sequence (int (length ?in)) @ ?in" by (simp add: sets_def tlv_def)
  show ?thesis
    using lo(1) 4 writesD [OF writes_length [of Sequence "int (length ?in)"], of "n - length ?in" "?in @ out"]
    unfolding process_var_def 1 Let_def
    by (simp add: 2 3 assms(6) 5 Let_def del: append_assoc) (auto simp: b algebra_simps)
qed

lemma length_header: "length (header t l) \<le> 4"
  by (simp add: header_def)

lemma set_message_fits:
  assumes "length c \<le> 64" "length idb \<le> 4" "is_text x" "length w \<le> 16"
  shows "length (message v c t idb e1 e2 [sets x w]) \<le> 200"
proof -
  have h: "length (tlv t' vs) \<le> length vs + 4" for t' vs using length_header [of t' "int (length vs)"] by (simp add: tlv_def)
  have "length (inst_oid x) \<le> 14" using inst_oid_length [of x] assms(3) by (auto simp: is_text_def)
  then have "length (sets x w) \<le> 42"
    using h [of Sequence "tlv Identifier (inst_oid x) @ tlv String w"] h [of Identifier "inst_oid x"] h [of String w] assms(4)
    by (simp add: sets_def)
  moreover define P where "P = tlv Integer idb @ tlv Integer [e1] @ tlv Integer [e2] @ tlv Sequence (sets x w)"
  ultimately have "length P \<le> 64"
    using h [of Integer idb] h [of Integer "[e1]"] h [of Integer "[e2]"] h [of Sequence "sets x w"] assms(2) by simp
  moreover define M where "M = tlv Integer [v] @ tlv String c @ tlv (ucast t) P"
  ultimately have "length M \<le> 141"
    using h [of Integer "[v]"] h [of String c] h [of "ucast t" P] assms(1) by simp
  then show ?thesis using h [of Sequence M] by (simp add: message_def M_def P_def)
qed

lemma set_answered:
  assumes "mib_ok st" "v = 0 \<or> v = 1" "0 \<notin> set c" "length c \<le> 64" "isAccessAllowed st c" "idv < 2 ^ 31"
    and x: "is_text (i, t)" "0 \<notin> set w" "length w < 16 \<or> i = 9 \<and> t < 63 \<and> length w = 16"
  shows "inReqOutRep 320 (message v c SetRequest (be (min_len idv) idv) e1 e2 [sets (i, t) w]) st =
    Some (set_text st (i, t) w, Some (message v c 0xa2 (be (min_len idv) idv) 0 0 [sets (i, t) w]))"
proof -
  have w: "length w \<le> 16" using x(3) by auto
  have idb: "length (be (min_len idv) idv) \<le> 4"
    using assms(6) by (auto simp: min_len.simps [of idv] min_len.simps [of "idv div 256"] min_len.simps [of "idv div 65536"]
        min_len.simps [of "idv div 16777216"] div_mult2_eq [symmetric])
  note fits = set_message_fits [OF assms(4) idb x(1) w]
  have "length (inst_oid (i, t)) \<le> 14" using inst_oid_length [of "(i, t)"] x(1) by (auto simp: is_text_def)
  then have v: "length (tlv Identifier (inst_oid (i, t)) @ tlv String w) < 32768" using w by (simp add: tlv_def header_def)
  have "tlv Identifier (inst_oid (i, t)) @ tlv String w \<noteq> []" by (simp add: tlv_def header_def)
  with v have bs: "\<forall>b \<in> set [sets (i, t) w]. \<exists>v. b = tlv Sequence v \<and> v \<noteq> [] \<and> length v < 32768" unfolding sets_def by auto
  have vars: "process_vars rq (SetRequest = GetNextRequest) 0 (tails [sets (i, t) w]) st (318 - length c, []) (0, 0) =
      (if length (sets (i, t) w) \<le> 318 - length c
       then Some (set_text st (i, t) w, Some ((318 - length c - length (sets (i, t) w), sets (i, t) w), 0, 0)) else None)"
    if "contextName rq = c" "pdu rq = SetRequest" for rq
    using set_binding_written [OF assms(1) x that(2), of 0 "318 - length c" "[]"] assms(5) that(1) by (simp add: Let_def)
  have "length (message v c SetRequest (be (min_len idv) idv) e1 e2 [sets (i, t) w]) \<le> 300"
    by (rule order_trans [OF fits]) simp
  note r = reply_written [OF assms(2-4,6) _ bs _ this vars]
  have "length (message v c 0xa2 (be (min_len idv) idv) 0 0 [sets (i, t) w]) \<le> 318 - length c"
    by (rule order_trans [OF fits]) (use assms(4) in simp)
  then show ?thesis by (subst r) (simp, simp, assumption, assumption, simp only: Let_def if_True)
qed

text \<open>C8. A set of the contact, the name, the location or an address of the table by a text of up to
  15 characters under the right community is answered without an error and with the text that was
  sent. Afterwards every request for that instance is answered with the new text, every other instance
  of the MIB with the value it had, and the memory is as well formed as before.\<close>

theorem snmp_set_text:
  assumes "mib_ok st" "v = 0 \<or> v = 1" "0 \<notin> set c" "length c \<le> 64" "isAccessAllowed st c" "idv < 2 ^ 31"
    and "is_text x" "0 \<notin> set w" "length w < 16"
  shows "\<exists>st'. inReqOutRep 320 (message v c SetRequest (be (min_len idv) idv) e1 e2 [sets x w]) st =
      Some (st', Some (message v c 0xa2 (be (min_len idv) idv) 0 0 [sets x w])) \<and>
    mib_ok st' \<and> snmp_Context st' = snmp_Context st \<and>
    (\<forall>y \<in> set instances. served st' y = (if y = x then tlv String w else served st y))"
proof -
  obtain i t where x: "x = (i, t)" by (cases x)
  show ?thesis
  proof (intro exI conjI)
    show "inReqOutRep 320 (message v c SetRequest (be (min_len idv) idv) e1 e2 [sets x w]) st =
        Some (set_text st x w, Some (message v c 0xa2 (be (min_len idv) idv) 0 0 [sets x w]))"
      unfolding x by (rule set_answered [OF assms(1-6) assms(7) [unfolded x] assms(8)]) (rule disjI1 [OF assms(9)])
    show "mib_ok (set_text st x w)" unfolding x by (rule set_text_ok [OF assms(1) assms(7) [unfolded x] assms(9)])
    show "snmp_Context (set_text st x w) = snmp_Context st" by (simp add: set_text_def Let_def)
    show "\<forall>y \<in> set instances. served (set_text st x w) y = (if y = x then tlv String w else served st y)"
      by (intro ballI set_text_served [OF assms(1,7-9)])
  qed
qed

text \<open>The name of the example becomes \<open>clock\<close>.\<close>

theorem snmp_set_text_witness:
  "\<exists>st'. inReqOutRep 320 (message 0 (map of_char ''public'') SetRequest [7] 0 0 [sets (4, -1) (map of_char ''clock'')]) start_snmp =
      Some (st', Some (message 0 (map of_char ''public'') 0xa2 [7] 0 0 [sets (4, -1) (map of_char ''clock'')])) \<and>
    mib_ok st' \<and> served st' (4, -1) = tlv String (map of_char ''clock'') \<and> served st' (9, 3) = served start_snmp (9, 3)"
proof -
  have ok: "mib_ok start_snmp" unfolding start_snmp_def by (rule snmpInit_ok) (simp_all add: text16_def)
  have a: "isAccessAllowed start_snmp (map of_char ''public'')" by code_simp
  have m: "be (min_len 7) 7 = [7]" by (simp add: min_len.simps)
  have i: "(4, -1) \<in> set instances" "(9, 3) \<in> set instances" by (simp_all add: set_instances)
  then have x: "is_text (4, -1)" by (simp add: is_text_def)
  show ?thesis
    using snmp_set_text [OF ok _ _ _ a _ x, of 0 7 "map of_char ''clock''" 0 0] i by (auto simp: m)
qed

text \<open>C37. An address of 16 characters is accepted as well, and its terminator erases the number of the
  next row: that row is no longer the instance its number names.\<close>

theorem snmp_set_address_overruns:
  assumes "mib_ok st" "v = 0 \<or> v = 1" "0 \<notin> set c" "length c \<le> 64" "isAccessAllowed st c" "idv < 2 ^ 31"
    and "r < 63" "0 \<notin> set w" "length w = 16"
  shows "\<exists>st'. inReqOutRep 320 (message v c SetRequest (be (min_len idv) idv) e1 e2 [sets (9, int r) w]) st =
      Some (st', Some (message v c 0xa2 (be (min_len idv) idv) 0 0 [sets (9, int r) w])) \<and>
    take 2 (row st (r + 1)) = [of_nat (r + 2), 0] \<and> take 2 (row st' (r + 1)) = [0, 0]"
proof -
  let ?st = "set_text st (9, int r) w"
  have x: "is_text (9, int r)" using assms(7) by (simp add: is_text_def set_instances)
  have b: "4 + 20 * r + length (w @ [0]) \<le> length (objs st ! 6)" using assms(7,9) mib_okD [OF assms(1)] by simp
  have o: "objs ?st ! 6 = spliced (objs st ! 6) (4 + 20 * r) (w @ [0])"
    using mib_okD [OF assms(1)] by (simp add: set_text_def text_place_def Let_def)
  have old: "take 2 (row st (r + 1)) = [of_nat (r + 2), 0]" using assms(1,7) by (simp add: mib_ok_def)
  have "drop (20 * (r + 1)) (objs st ! 6) ! 1 = take 2 (row st (r + 1)) ! 1" by (simp add: row_def)
  also have "\<dots> = 0" unfolding old by simp
  finally have "drop (20 * (r + 1)) (objs st ! 6) ! 1 = 0" .
  then have "objs st ! 6 ! (20 * (r + 1) + 1) = 0" using assms(7) mib_okD [OF assms(1)] by simp
  then have "objs ?st ! 6 ! (20 * (r + 1)) = 0" "objs ?st ! 6 ! (20 * (r + 1) + 1) = 0"
    using b assms(7,9) mib_okD [OF assms(1)] unfolding o by (subst nth_spliced; simp add: nth_append)+
  moreover have "length (objs ?st ! 6) = 1280" using length_spliced [OF b] mib_okD [OF assms(1)] by (simp add: o)
  ultimately have "take 2 (row ?st (r + 1)) = [0, 0]"
    using assms(7) by (intro nth_equalityI) (auto simp: row_def less_Suc_eq numeral_2_eq_2)
  then show ?thesis
    using set_answered [OF assms(1-6) x, of w e1 e2] assms(7-9) old by (intro exI [of _ ?st]) simp
qed

text \<open>The row behind the address \<open>0123456789abcdef\<close> of the first row.\<close>

theorem snmp_set_address_overruns_witness:
  "\<exists>st'. inReqOutRep 320 (message 0 (map of_char ''public'') SetRequest [7] 0 0 [sets (9, 0) (map of_char ''0123456789abcdef'')]) start_snmp =
      Some (st', Some (message 0 (map of_char ''public'') 0xa2 [7] 0 0 [sets (9, 0) (map of_char ''0123456789abcdef'')])) \<and>
    take 2 (row start_snmp 1) = [2, 0] \<and> take 2 (row st' 1) = [0, 0]"
proof -
  have ok: "mib_ok start_snmp" unfolding start_snmp_def by (rule snmpInit_ok) (simp_all add: text16_def)
  have a: "isAccessAllowed start_snmp (map of_char ''public'')" by code_simp
  have m: "be (min_len 7) 7 = [7]" by (simp add: min_len.simps)
  show ?thesis
    using snmp_set_address_overruns [OF ok _ _ _ a, of 0 7 0 "map of_char ''0123456789abcdef''" 0 0] by (simp add: m)
qed

end
