(* ===== verification/GnssLeap.thy ===== *)
theory GnssLeap
  imports CString
begin

text \<open>
  The leap second part of \<^verbatim>\<open>APP/Gnss/ut4b0_receiver.c\<close>: the state machine
  \<^verbatim>\<open>ut4b0_leap_process\<close> on \<^verbatim>\<open>g_leap\<close> and the conversion of a week and day number to a date.
\<close>

section \<open>Data\<close>

record gnss_time =
  time_hms :: string
  time_day :: u8
  time_mon :: u8
  time_year :: u16

record gnss_leap =
  now_leap :: u8
  next_leap :: u8
  leap_sign :: u8
  leap_time :: gnss_time

abbreviation (input) "GNSS_SAT_TYPE_GPS \<equiv> (0 :: u8)"
abbreviation (input) "GNSS_SAT_TYPE_BDS \<equiv> (1 :: u8)"
abbreviation (input) "GNSS_SAT_TYPE_GLO \<equiv> (2 :: u8)"
abbreviation (input) "GNSS_SAT_TYPE_GAL \<equiv> (3 :: u8)"

section \<open>The date of a leap second\<close>

definition mon_days :: "u8 list" where
  "mon_days = [31, 28, 31, 30, 31, 30, 31, 31, 30, 31, 30, 31]"

definition leap_year :: "u16 \<Rightarrow> bool" where
  "leap_year year \<longleftrightarrow> unat year mod 400 = 0 \<or> unat year mod 100 \<noteq> 0 \<and> unat year mod 4 = 0"

text \<open>The loop over the months, with the table it updates.\<close>

partial_function (option) month_loop ::
  "u8 list \<Rightarrow> u32 \<Rightarrow> u8 \<Rightarrow> u16 \<Rightarrow> (u8 \<times> u8 \<times> u16) option" where
  "month_loop tbl days mon year = do {
     len \<leftarrow> rd_at tbl (unat mon - 1);
     if days > ucast len then do {
       let tbl = tbl[1 := if leap_year year then 29 else 28];
       len \<leftarrow> rd_at tbl (unat mon - 1);
       let mon = mon + 1;
       if mon > 12 then month_loop tbl (days - ucast len) 1 (year + 1)
       else month_loop tbl (days - ucast len) mon year
     } else Some (ucast days, mon, year)
   }"

definition epoch :: "u8 \<Rightarrow> u8 \<Rightarrow> u16 \<times> u8 \<times> u8 \<times> u8" where
  "epoch sat_type dn =
     (if sat_type = GNSS_SAT_TYPE_GPS then (1980, 1, 6, dn - 1)
      else if sat_type = GNSS_SAT_TYPE_BDS then (2006, 1, 1, dn)
      else if sat_type = GNSS_SAT_TYPE_GAL then (1999, 8, 22, dn - 1)
      else (0, 1, 0, dn))"

definition ut4b0_get_leap_time ::
  "u8 \<Rightarrow> u32 \<Rightarrow> u8 \<Rightarrow> u8 \<Rightarrow> gnss_time \<Rightarrow> gnss_time option" where
  "ut4b0_get_leap_time sat_type wn dn sign t =
     (case epoch sat_type dn of (year, mon, day, dn) \<Rightarrow> do {
        let days = wn * 7 + ucast dn + ucast day;
        (day, mon, year) \<leftarrow> month_loop mon_days days mon year;
        Some (t\<lparr>time_hms := (if sign = 1 then ''235960'' else ''235958''),
                time_day := day, time_mon := mon, time_year := year\<rparr>)
      })"

section \<open>The state machine\<close>

text \<open>\<open>sprintf\<close> of the forecast, into the array \<open>info\<close>.\<close>

definition leap_text :: "gnss_leap \<Rightarrow> string" where
  "leap_text l =
     (let t = leap_time l; n = \<lambda>w x. pad_left (CHR '' '') w (dec x) in
      pad_left (CHR '' '') 6 (time_hms t) @ '','' @ n 2 (unat (time_day t)) @ '','' @
      n 2 (unat (time_mon t)) @ '','' @ n 4 (unat (time_year t)) @ '','' @
      dec (unat (next_leap l)) @ '','' @ dec (unat (now_leap l)) @ '','' @ dec (unat (leap_sign l)) @ '';'')"

definition ut4b0_leap_process ::
  "u8 \<Rightarrow> u32 \<Rightarrow> u8 \<Rightarrow> u8 \<Rightarrow> u8 \<Rightarrow> gnss_leap \<times> string \<Rightarrow> (gnss_leap \<times> string) option" where
  "ut4b0_leap_process sat_type wn dn now nxt s =
     (case s of (l, info) \<Rightarrow>
        if leap_sign l = 0 \<and> now \<noteq> nxt \<and> now = now_leap l then do {
          let l = l\<lparr>next_leap := nxt\<rparr>;
          let l = l\<lparr>leap_sign := if uint (next_leap l) - uint (now_leap l) > 0 then 1 else 2\<rparr>;
          t \<leftarrow> ut4b0_get_leap_time sat_type wn dn (leap_sign l) (leap_time l);
          let l = l\<lparr>leap_time := t\<rparr>;
          info \<leftarrow> strcpy info 0 (leap_text l);
          Some (l, info)
        }
        else if leap_sign l \<noteq> 0 \<and> now = nxt \<and> nxt = next_leap l then do {
          let l = l\<lparr>now_leap := now, leap_sign := 0\<rparr>;
          info \<leftarrow> strcpy info 0 (leap_text l);
          Some (l, info)
        }
        else Some (l, info))"

section \<open>Calendar\<close>

text \<open>An independent count of days: the number of the day in the proleptic Gregorian calendar.\<close>

definition leap :: "nat \<Rightarrow> bool" where
  "leap y \<longleftrightarrow> y mod 4 = 0 \<and> (y mod 100 \<noteq> 0 \<or> y mod 400 = 0)"

definition days_in :: "nat \<Rightarrow> nat \<Rightarrow> nat" where
  "days_in y m = (if m = 2 then (if leap y then 29 else 28) else if m \<in> {4, 6, 9, 11} then 30 else 31)"

definition day_number :: "nat \<Rightarrow> nat \<Rightarrow> nat \<Rightarrow> int" where
  "day_number y m d =
     365 * int y + int ((y - 1) div 4) - int ((y - 1) div 100) + int ((y - 1) div 400) +
     (\<Sum>k = 1..<m. int (days_in y k)) + int d"

definition valid_date :: "nat \<Rightarrow> nat \<Rightarrow> nat \<Rightarrow> bool" where
  "valid_date y m d \<longleftrightarrow> 1 \<le> m \<and> m \<le> 12 \<and> 1 \<le> d \<and> d \<le> days_in y m"

lemma day_number_next_month: "1 \<le> m \<Longrightarrow> day_number y (Suc m) d = day_number y m d + int (days_in y m)"
  by (simp add: day_number_def)

lemma leap_alt: "leap y \<longleftrightarrow> y mod 400 = 0 \<or> y mod 100 \<noteq> 0 \<and> y mod 4 = 0"
proof -
  have "y mod 400 = 0 \<Longrightarrow> y mod 4 = 0" by presburger
  then show ?thesis by (auto simp: leap_def)
qed

lemma sum_days: "(\<Sum>k = 1..<13. int (days_in y k)) = 365 + (if leap y then 1 else 0)"
  by (simp add: days_in_def numeral_eq_Suc)

lemma day_number_next_year:
  assumes "1 \<le> y"
  shows "day_number (Suc y) 1 d = day_number y 13 d"
proof -
  obtain x where x: "y = Suc x" using assms by (cases y) auto
  have "y mod 400 = 0 \<Longrightarrow> y mod 100 = 0" "y mod 100 = 0 \<Longrightarrow> y mod 4 = 0" by presburger+
  then have l: "(if leap y then 1 else 0) = (if y mod 4 = 0 then 1 else 0) - (if y mod 100 = 0 then 1 else 0) +
    (if y mod 400 = 0 then 1 else (0 :: int))" by (auto simp: leap_def)
  show ?thesis unfolding day_number_def sum_days l by (simp add: x div_Suc)
qed

lemma day_number_ge: "365 * int y \<le> day_number y m 0"
proof -
  have "(y - 1) div 100 \<le> (y - 1) div 4" by (intro div_le_mono2) auto
  moreover have "0 \<le> (\<Sum>k = 1..<m. int (days_in y k))" by (intro sum_nonneg) auto
  ultimately show ?thesis by (simp add: day_number_def)
qed

lemma day_number_le: "day_number y m 0 \<le> 366 * int y + 31 * int m"
proof -
  have "(\<Sum>k = 1..<m. int (days_in y k)) \<le> (\<Sum>k = 1..<m. 31)"
    by (intro sum_mono) (auto simp: days_in_def)
  then have "(\<Sum>k = 1..<m. int (days_in y k)) \<le> 31 * int m" by simp
  moreover have "(y - 1) div 4 + (y - 1) div 400 \<le> y" by linarith
  ultimately show ?thesis unfolding day_number_def by linarith
qed

lemma day_number_add: "day_number y m d = day_number y m 0 + int d"
  by (simp add: day_number_def)

section \<open>The loop computes the calendar date\<close>

definition feb_tbl :: "u8 \<Rightarrow> u8 list" where
  "feb_tbl f = mon_days[1 := f]"

lemma mon_days_feb: "mon_days = feb_tbl 28"
  by (simp add: feb_tbl_def mon_days_def)

lemma feb_tbl_update: "(feb_tbl f)[1 := g] = feb_tbl g"
  by (simp add: feb_tbl_def)

lemma month_cases:
  "1 \<le> m \<Longrightarrow> m \<le> 12 \<Longrightarrow>
   m = 1 \<or> m = 2 \<or> m = 3 \<or> m = 4 \<or> m = 5 \<or> m = 6 \<or> m = 7 \<or> m = 8 \<or> m = 9 \<or> m = 10 \<or> m = 11 \<or> m = (12 :: nat)"
  by presburger

lemma feb_tbl_nth:
  assumes "1 \<le> m" "m \<le> 12" "m = 2 \<Longrightarrow> unat f = days_in y 2"
  shows "rd_at (feb_tbl f) (m - 1) = Some (feb_tbl f ! (m - 1))" "unat (feb_tbl f ! (m - 1)) = days_in y m"
  using month_cases [OF assms(1,2)] assms(3)
  by (auto simp: feb_tbl_def mon_days_def rd_at_def) (auto simp: days_in_def)

lemma leap_year_word: "leap_year y \<longleftrightarrow> leap (unat y)"
  by (simp add: leap_year_def leap_alt)

lemma days_in_pos: "28 \<le> days_in y m" "days_in y m \<le> 31"
  by (auto simp: days_in_def)

lemma month_loop_correct:
  assumes "1 \<le> unat mon" "unat mon \<le> 12" "unat mon = 2 \<Longrightarrow> unat f = days_in (unat year) 2"
    "1 \<le> unat year" "1 \<le> unat days" "day_number (unat year) (unat mon) 0 + int (unat days) < 365 * 65535"
  shows "\<exists>d m y. month_loop (feb_tbl f) days mon year = Some (d, m, y) \<and>
    valid_date (unat y) (unat m) (unat d) \<and>
    day_number (unat y) (unat m) (unat d) = day_number (unat year) (unat mon) (unat days)"
  using assms
proof (induction "unat days" arbitrary: f days mon year rule: less_induct)
  case less
  let ?m = "unat mon" and ?y = "unat year"
  let ?L = "days_in ?y ?m"
  define g :: u8 where "g = (if leap_year year then 29 else 28)"
  have rd: "rd_at (feb_tbl f) (?m - 1) = Some (feb_tbl f ! (?m - 1))" "unat (feb_tbl f ! (?m - 1)) = ?L"
    using feb_tbl_nth [of ?m f ?y] less.prems(1-3) by simp_all
  have g: "unat g = days_in ?y 2" by (simp add: g_def days_in_def leap_year_word)
  have rd': "rd_at (feb_tbl g) (?m - 1) = Some (feb_tbl g ! (?m - 1))" "unat (feb_tbl g ! (?m - 1)) = ?L"
    using feb_tbl_nth [of ?m g ?y] less.prems(1,2) g by simp_all
  have L: "28 \<le> ?L" "?L \<le> 31" by (rule days_in_pos)+
  have u: "unat (ucast w :: u32) = unat w" for w :: u8
    using unat8_lt [of w] by (simp add: unsigned_ucast_eq take_bit_nat_eq_self)
  have gt: "days > ucast (feb_tbl f ! (?m - 1)) \<longleftrightarrow> ?L < unat days"
    by (simp only: word_less_nat_alt u rd(2))
  show ?case
  proof (cases "?L < unat days")
    case False
    then have "unat (ucast days :: u8) = unat days"
      using L by (simp add: unsigned_ucast_eq take_bit_nat_eq_self)
    moreover have "month_loop (feb_tbl f) days mon year = Some (ucast days, mon, year)"
      using False unfolding month_loop.simps [of "feb_tbl f"] rd(1) by (simp only: Option.bind.simps gt if_False)
    ultimately show ?thesis using False less.prems by (auto simp: valid_date_def)
  next
    case True
    define days' where "days' = days - ucast (feb_tbl g ! (?m - 1))"
    have d': "unat days' = unat days - ?L"
      unfolding days'_def by (subst unat_sub) (use True in \<open>simp_all only: word_le_nat_alt u rd'(2) less_imp_le\<close>)
    then have lt: "unat days' < unat days" using True L by simp
    have m1: "unat (mon + 1) = ?m + 1" using less.prems(2) by (simp add: unat_word_ariths)
    have m12: "mon + 1 > 12 \<longleftrightarrow> ?m = 12" using less.prems(2) by (auto simp: word_less_nat_alt m1)
    have step: "month_loop (feb_tbl f) days mon year =
      (if ?m = 12 then month_loop (feb_tbl g) days' 1 (year + 1) else month_loop (feb_tbl g) days' (mon + 1) year)"
      using True m12 unfolding days'_def
      unfolding month_loop.simps [of "feb_tbl f"] rd(1) g_def [symmetric]
      by (simp only: Option.bind.simps gt if_True Let_def feb_tbl_update rd'(1) m12)
    have nxt: "day_number ?y (?m + 1) 0 + int (unat days') = day_number ?y ?m 0 + int (unat days)"
      using True d' less.prems(1) by (simp add: day_number_next_month of_nat_diff)
    show ?thesis
    proof (cases "?m = 12")
      case False
      have "\<exists>d m y. month_loop (feb_tbl g) days' (mon + 1) year = Some (d, m, y) \<and>
        valid_date (unat y) (unat m) (unat d) \<and>
        day_number (unat y) (unat m) (unat d) = day_number ?y (unat (mon + 1)) (unat days')"
      proof (rule less.hyps [OF lt])
        show "unat g = days_in ?y 2" by (rule g)
      qed (use False less.prems m1 d' True nxt in \<open>simp_all\<close>)
      then show ?thesis using False nxt
        by (simp add: step m1 day_number_add [of _ _ "unat days"] day_number_add [of _ _ "unat days'"])
    next
      case mon12: True
      have yb: "?y + 1 < 65535"
      proof -
        have "365 * int ?y \<le> day_number ?y 1 0" by (rule day_number_ge)
        moreover have "365 * (int ?y + 1) \<le> day_number (Suc ?y) 1 0"
          using day_number_ge [of "Suc ?y" 1] by simp
        moreover have "day_number (Suc ?y) 1 0 = day_number ?y 13 0"
          using less.prems(4) by (rule day_number_next_year)
        moreover have "day_number ?y 13 0 + int (unat days') < 365 * 65535"
          using nxt mon12 less.prems(6) by simp
        moreover have "0 \<le> int (unat days')" by (rule of_nat_0_le_iff)
        ultimately have "365 * (int ?y + 1) < 365 * 65535" by (metis add_increasing2 le_less_trans)
        then have "int (?y + 1) < int 65535" by simp
        then show ?thesis by (simp only: of_nat_less_iff)
      qed
      then have y1: "unat (year + 1) = ?y + 1" by (simp add: unat_word_ariths)
      have eq: "day_number (?y + 1) 1 0 + int (unat days') = day_number ?y ?m 0 + int (unat days)"
        using nxt mon12 day_number_next_year [OF less.prems(4)] by simp
      have "\<exists>d m y. month_loop (feb_tbl g) days' 1 (year + 1) = Some (d, m, y) \<and>
        valid_date (unat y) (unat m) (unat d) \<and>
        day_number (unat y) (unat m) (unat d) = day_number (unat (year + 1)) (unat (1 :: u8)) (unat days')"
        by (rule less.hyps [OF lt]) (use less.prems y1 d' True eq in \<open>simp_all\<close>)
      then show ?thesis using mon12 eq
        by (simp add: step y1 day_number_add [of _ _ "unat days"] day_number_add [of _ _ "unat days'"])
    qed
  qed
qed

lemma valid_year: "day_number y m d < 365 * int k \<Longrightarrow> y < k"
proof -
  assume "day_number y m d < 365 * int k"
  moreover have "365 * int y \<le> day_number y m d"
    using day_number_ge [of y m] by (simp add: day_number_add [of _ _ d])
  ultimately have "365 * int y < 365 * int k" by (rule le_less_trans [rotated])
  then show ?thesis by simp
qed

text \<open>The first day of the count of each system: the date of its week 0 and the number of the
  first day of a week.\<close>

definition epoch_date :: "u8 \<Rightarrow> (nat \<times> nat \<times> nat) \<times> nat" where
  "epoch_date sat =
     (if sat = GNSS_SAT_TYPE_GPS then ((1980, 1, 6), 1)
      else if sat = GNSS_SAT_TYPE_BDS then ((2006, 1, 1), 0) else ((1999, 8, 22), 1))"

lemma unat_ucast32: "unat (ucast (w :: u8) :: u32) = unat w"
  using unat8_lt [of w] by (simp add: unsigned_ucast_eq take_bit_nat_eq_self)

lemma get_leap_time_step:
  assumes "sat \<in> {GNSS_SAT_TYPE_GPS, GNSS_SAT_TYPE_BDS, GNSS_SAT_TYPE_GAL}"
    and e: "epoch_date sat = ((y, m, d), first)"
    and dn: "first \<le> unat dn" "unat dn \<le> first + 6" and wn: "unat wn < 3000000"
  shows "\<exists>dd mm yy. ut4b0_get_leap_time sat wn dn sign t =
      Some (t\<lparr>time_hms := (if sign = 1 then ''235960'' else ''235958''),
              time_day := dd, time_mon := mm, time_year := yy\<rparr>) \<and>
    valid_date (unat yy) (unat mm) (unat dd) \<and>
    day_number (unat yy) (unat mm) (unat dd) = day_number y m d + 7 * int (unat wn) + int (unat dn - first)"
proof -
  obtain yw mw dw dn' where ep: "epoch sat dn = (yw, mw, dw, dn')" and
    v: "unat yw = y" "unat mw = m" "unat dw = d" "unat dn' = unat dn - first" "m = 1 \<or> m = 8" "d \<le> 22"
      "1980 \<le> y" "y \<le> 2006"
    using assms(1) e dn by (auto simp: epoch_def epoch_date_def unat_sub_if')
  define days where "days = wn * 7 + ucast dn' + ucast dw"
  have days: "unat days = unat wn * 7 + (unat dn - first) + d"
  proof -
    have "unat (wn * 7) = unat wn * 7" using wn by (simp add: unat_word_ariths)
    then show ?thesis using wn dn v(3,4,6) by (simp add: days_def unat_word_ariths unat_ucast32)
  qed
  have dn6: "unat dn - first \<le> 6" using dn by simp
  have d1: "1 \<le> d" using e assms(1) by (auto simp: epoch_date_def split: if_splits)
  have base: "day_number y m 0 \<le> 734444"
    using day_number_le [of y m] v(5,8) by auto
  have "int (unat days) < 21000050" unfolding days using wn dn6 v(6) by linarith
  then have bound: "day_number (unat yw) (unat mw) 0 + int (unat days) < 365 * 65535"
    using base unfolding v(1,2) by linarith
  have "\<exists>d' m' y'. month_loop (feb_tbl 28) days mw yw = Some (d', m', y') \<and>
    valid_date (unat y') (unat m') (unat d') \<and>
    day_number (unat y') (unat m') (unat d') = day_number (unat yw) (unat mw) (unat days)"
    by (rule month_loop_correct [OF _ _ _ _ _ bound]) (use v days d1 in \<open>auto\<close>)
  then obtain d' m' y' where r: "month_loop (feb_tbl 28) days mw yw = Some (d', m', y')"
    "valid_date (unat y') (unat m') (unat d')"
    "day_number (unat y') (unat m') (unat d') = day_number y m (unat days)" using v by auto
  have "day_number y m (unat days) = day_number y m d + 7 * int (unat wn) + int (unat dn - first)"
    using day_number_add [of y m "unat days"] day_number_add [of y m d] days by linarith
  note num = this
  show ?thesis
  proof (intro exI conjI)
    show "ut4b0_get_leap_time sat wn dn sign t =
      Some (t\<lparr>time_hms := (if sign = 1 then ''235960'' else ''235958''),
              time_day := d', time_mon := m', time_year := y'\<rparr>)"
      using r(1) by (simp add: ut4b0_get_leap_time_def ep mon_days_feb days_def [symmetric] Let_def)
  qed (use r num in simp_all)
qed

section \<open>Runs of the state machine\<close>

text \<open>A UTC statement: the satellite system, week, day, current and next leap seconds.\<close>

type_synonym utc_msg = "u8 \<times> u32 \<times> u8 \<times> u8 \<times> u8"

fun leap_run :: "utc_msg list \<Rightarrow> gnss_leap \<times> string \<Rightarrow> (gnss_leap \<times> string) option" where
  "leap_run [] s = Some s"
| "leap_run ((sat, wn, dn, now, nxt) # ms) s =
     do { s \<leftarrow> ut4b0_leap_process sat wn dn now nxt s; leap_run ms s }"

text \<open>A statement with a date the conversion is meant for.\<close>

definition dated :: "utc_msg \<Rightarrow> bool" where
  "dated m \<longleftrightarrow> (case m of (sat, wn, dn, _) \<Rightarrow>
     sat \<in> {GNSS_SAT_TYPE_GPS, GNSS_SAT_TYPE_BDS, GNSS_SAT_TYPE_GAL} \<and>
     snd (epoch_date sat) \<le> unat dn \<and> unat dn \<le> snd (epoch_date sat) + 6 \<and> unat wn < 65536)"

text \<open>The date that such a statement announces.\<close>

definition announces :: "utc_msg \<Rightarrow> gnss_time \<Rightarrow> bool" where
  "announces m t \<longleftrightarrow> (case m of (sat, wn, dn, _) \<Rightarrow> case epoch_date sat of ((y, m, d), first) \<Rightarrow>
     valid_date (unat (time_year t)) (unat (time_mon t)) (unat (time_day t)) \<and>
     day_number (unat (time_year t)) (unat (time_mon t)) (unat (time_day t)) =
       day_number y m d + 7 * int (unat wn) + int (unat dn - first))"

lemma dec_lengths: "n < 10 \<Longrightarrow> length (dec n) = 1" "n < 100 \<Longrightarrow> length (dec n) \<le> 2"
  "n < 10000 \<Longrightarrow> length (dec n) \<le> 4"
  using dec_length_le [of n 2] dec_length_le [of n 4] by (auto simp: dec.simps [of n])

lemma length_pad_left: "length (pad_left c w s) = max w (length s)"
  by (simp add: pad_left_def)

lemma leap_text_length:
  assumes "length (time_hms t) = 6" "unat (time_day t) < 100" "unat (time_mon t) < 100"
    "unat (time_year t) < 10000" "unat (next_leap l) < 100" "unat (now_leap l) < 100" "unat (leap_sign l) < 10"
    "leap_time l = t"
  shows "length (leap_text l) < 28"
proof -
  note L = dec_lengths
  show ?thesis
    using L(2) [OF assms(2)] L(2) [OF assms(3)] L(3) [OF assms(4)] L(2) [OF assms(5)] L(2) [OF assms(6)]
      L(1) [OF assms(7)] assms(1,8)
    by (simp add: leap_text_def length_pad_left Let_def)
qed

section \<open>The three transitions\<close>

definition printable :: "gnss_time \<Rightarrow> bool" where
  "printable t \<longleftrightarrow> length (time_hms t) = 6 \<and> NUL \<notin> set (time_hms t) \<and> unat (time_day t) < 100 \<and>
     unat (time_mon t) < 100 \<and> unat (time_year t) < 10000"

definition leap_at :: "gnss_leap \<Rightarrow> u8 \<Rightarrow> u8 \<Rightarrow> u8 \<Rightarrow> gnss_time \<Rightarrow> gnss_leap" where
  "leap_at l now nxt sign t = l\<lparr>now_leap := now, next_leap := nxt, leap_sign := sign, leap_time := t\<rparr>"

lemma leap_at_sel [simp]: "now_leap (leap_at l a b s t) = a" "next_leap (leap_at l a b s t) = b"
  "leap_sign (leap_at l a b s t) = s" "leap_time (leap_at l a b s t) = t"
  by (simp_all add: leap_at_def)

lemma leap_at_at [simp]: "leap_at (leap_at l a b s t) a' b' s' t' = leap_at l a' b' s' t'"
  by (simp add: leap_at_def)

lemma leap_text_put:
  assumes "printable t" "unat a < 100" "unat b < 100" "unat s < 10" "length info = 28"
  shows "strcpy info 0 (leap_text (leap_at l a b s t)) = Some (put_text info (leap_text (leap_at l a b s t)))"
    "length (put_text info (leap_text (leap_at l a b s t))) = 28"
    "text_of (put_text info (leap_text (leap_at l a b s t))) = leap_text (leap_at l a b s t)"
proof -
  let ?x = "leap_text (leap_at l a b s t)"
  have "length ?x < 28"
    by (rule leap_text_length [of t]) (use assms in \<open>auto simp: printable_def\<close>)
  then show "strcpy info 0 ?x = Some (put_text info ?x)" "length (put_text info ?x) = 28"
    using assms(5) by (simp_all add: strcpy_0)
  have "digit_val NUL = None" by (simp add: digit_val_def NUL_def)
  then have d: "NUL \<notin> set (dec n)" for n by (rule dec_no)
  have "NUL \<notin> set ?x"
    using assms(1) d by (auto simp: leap_text_def pad_left_def printable_def Let_def NUL_def)
  then show "text_of (put_text info ?x) = ?x" by simp
qed

definition leap_dir :: "u8 \<Rightarrow> u8 \<Rightarrow> u8" where
  "leap_dir a b = (if unat a < unat b then 1 else 2)"

lemma forecast_step:
  assumes "leap_sign l = 0" "now_leap l = a" "a \<noteq> b" "unat a < 100" "unat b < 100" "length info = 28"
    and m: "dated (sat, wn, dn, a, b)"
  shows "\<exists>t. ut4b0_leap_process sat wn dn a b (l, info) =
      Some (leap_at l a b (leap_dir a b) t, put_text info (leap_text (leap_at l a b (leap_dir a b) t))) \<and>
    announces (sat, wn, dn, a, b) t \<and> printable t \<and>
    time_hms t = (if unat a < unat b then ''235960'' else ''235958'')"
proof -
  obtain y mo d first where e: "epoch_date sat = ((y, mo, d), first)" by (metis prod_cases3 surj_pair)
  have p: "sat \<in> {GNSS_SAT_TYPE_GPS, GNSS_SAT_TYPE_BDS, GNSS_SAT_TYPE_GAL}" "first \<le> unat dn" "unat dn \<le> first + 6"
    "unat wn < 65536" using m e by (auto simp: dated_def)
  then have "unat wn < 3000000" by simp
  from get_leap_time_step [OF p(1) e p(2,3) this, of "leap_dir a b" "leap_time l"]
  obtain dd mm yy where r: "ut4b0_get_leap_time sat wn dn (leap_dir a b) (leap_time l) =
      Some ((leap_time l)\<lparr>time_hms := (if leap_dir a b = 1 then ''235960'' else ''235958''),
              time_day := dd, time_mon := mm, time_year := yy\<rparr>)" (is "_ = Some ?t")
    and v: "valid_date (unat yy) (unat mm) (unat dd)"
    and n: "day_number (unat yy) (unat mm) (unat dd) = day_number y mo d + 7 * int (unat wn) + int (unat dn - first)"
    by blast
  have "y \<le> 2006" "mo \<le> 8" "d \<le> 22" using e p(1) by (auto simp: epoch_date_def)
  then have "day_number (unat yy) (unat mm) (unat dd) < 365 * int 10000"
    using day_number_le [of y mo] p(2,3,4) unfolding n day_number_add [of y mo d] by linarith
  then have y: "unat yy < 10000" by (rule valid_year)
  have b: "unat mm \<le> 12" "unat dd \<le> 31" using v days_in_pos(2) [of "unat yy" "unat mm"] by (auto simp: valid_date_def)
  have pr: "printable ?t" using y b by (simp add: printable_def NUL_def)
  have g: "uint b - uint a > 0 \<longleftrightarrow> unat a < unat b"
    by (simp add: word_less_nat_alt [symmetric] word_less_def)
  have dir: "unat (leap_dir a b) < 10" by (simp add: leap_dir_def)
  have one: "leap_dir a b = 1 \<longleftrightarrow> unat a < unat b" by (simp add: leap_dir_def)
  have la: "l\<lparr>next_leap := b, leap_sign := leap_dir a b, leap_time := ?t\<rparr> = leap_at l a b (leap_dir a b) ?t"
    using assms(2) by (cases l) (simp add: leap_at_def)
  have sg: "(if uint b - uint a > 0 then 1 else 2) = leap_dir a b" unfolding g by (simp add: leap_dir_def)
  have "ut4b0_leap_process sat wn dn a b (l, info) =
      Some (leap_at l a b (leap_dir a b) ?t, put_text info (leap_text (leap_at l a b (leap_dir a b) ?t)))"
    using assms(1-3) leap_text_put(1) [OF pr assms(4,5) dir assms(6), of l] r sg
    by (simp add: ut4b0_leap_process_def la Let_def)
  moreover have "announces (sat, wn, dn, a, b) ?t" using v n e by (simp add: announces_def)
  ultimately show ?thesis using pr one by (intro exI [of _ ?t]) simp
qed

lemma pending_step:
  "leap_sign l \<noteq> 0 \<Longrightarrow> now \<noteq> nxt \<Longrightarrow> ut4b0_leap_process sat wn dn now nxt (l, info) = Some (l, info)"
  by (simp add: ut4b0_leap_process_def)

lemma unknown_step:
  "leap_sign l = 0 \<Longrightarrow> now \<noteq> now_leap l \<or> now = nxt \<Longrightarrow> ut4b0_leap_process sat wn dn now nxt (l, info) = Some (l, info)"
  by (auto simp: ut4b0_leap_process_def)

lemma adopt_step:
  assumes "s \<noteq> 0" "unat b < 100" "printable t" "length info = 28"
  shows "ut4b0_leap_process sat wn dn b b (leap_at l a b s t, info) =
    Some (leap_at l b b 0 t, put_text info (leap_text (leap_at l b b 0 t)))"
proof -
  have "(leap_at l a b s t)\<lparr>now_leap := b, leap_sign := 0\<rparr> = leap_at l b b 0 t" by (simp add: leap_at_def)
  then show ?thesis using assms leap_text_put(1) [OF assms(3,2,2) _ assms(4), of 0 l]
    by (simp only: ut4b0_leap_process_def Let_def prod.case leap_at_sel Option.bind.simps simp_thms if_True if_False)
      simp
qed

lemma leap_run_append: "leap_run (ms @ ns) s = do { s \<leftarrow> leap_run ms s; leap_run ns s }"
  by (induction ms s rule: leap_run.induct) (auto split: Option.bind_splits)

lemma pending_run:
  assumes "leap_sign l \<noteq> 0" "\<forall>(sat, wn, dn, now, nxt) \<in> set ms. now \<noteq> nxt"
  shows "leap_run ms (l, info) = Some (l, info)"
  using assms(2) by (induction ms) (auto simp: pending_step [OF assms(1)])

lemma settled_run:
  assumes "leap_sign l = 0" "\<forall>(sat, wn, dn, now, nxt) \<in> set ms. now = nxt \<or> now \<noteq> now_leap l"
  shows "leap_run ms (l, info) = Some (l, info)"
  using assms(2) by (induction ms) (auto simp: unknown_step [OF assms(1)])

text \<open>The state before any forecast.\<close>

definition no_leap_time :: gnss_time where
  "no_leap_time = \<lparr>time_hms = [], time_day = 0, time_mon = 0, time_year = 0\<rparr>"

section \<open>Properties\<close>

text \<open>C15. The date computed for a leap second is the calendar date whose day number is that of the
  epoch of the satellite system plus seven days a week plus the days into the week.\<close>

theorem ut4b0_get_leap_time_correct:
  assumes "sat \<in> {GNSS_SAT_TYPE_GPS, GNSS_SAT_TYPE_BDS, GNSS_SAT_TYPE_GAL}"
    and "epoch_date sat = ((y, m, d), first)"
    and "first \<le> unat dn" "unat dn \<le> first + 6" "unat wn < 3000000"
  shows "\<exists>t'. ut4b0_get_leap_time sat wn dn sign t = Some t' \<and>
    time_hms t' = (if sign = 1 then ''235960'' else ''235958'') \<and>
    valid_date (unat (time_year t')) (unat (time_mon t')) (unat (time_day t')) \<and>
    day_number (unat (time_year t')) (unat (time_mon t')) (unat (time_day t')) =
      day_number y m d + 7 * int (unat wn) + int (unat dn - first)"
  using get_leap_time_step [OF assms, of sign t] by auto

theorem ut4b0_get_leap_time_correct_witness:
  "\<exists>t'. ut4b0_get_leap_time 0 1929 7 1 no_leap_time = Some t' \<and>
    valid_date (unat (time_year t')) (unat (time_mon t')) (unat (time_day t')) \<and>
    day_number (unat (time_year t')) (unat (time_mon t')) (unat (time_day t')) =
      day_number 1980 1 6 + 7 * 1929 + 6"
  using ut4b0_get_leap_time_correct [of 0 1980 1 6 1 7 1929 1 "no_leap_time"]
  by (auto simp: epoch_date_def)

text \<open>C17. A leap second from announcement to adoption. When the receiver's statements announce the
  change from the known number of leap seconds \<open>a\<close> to \<open>b\<close>, the first of them raises the
  forecast with its direction and date and the later ones change nothing; the first statement that
  gives \<open>b\<close> as current makes \<open>b\<close> the known number and clears the forecast. The texts
  stay inside their array.\<close>

theorem ut4b0_leap_process_cycle:
  assumes "leap_sign l = 0" "now_leap l = a" "a \<noteq> b" "unat a < 100" "unat b < 100" "length info = 28"
    and "\<forall>m \<in> set (f # fs). dated m \<and> snd (snd (snd m)) = (a, b)"
    and "\<forall>m \<in> set (g # gs). snd (snd (snd m)) = (b, b)"
  shows "\<exists>t info1 info2. announces f t \<and> time_hms t = (if unat a < unat b then ''235960'' else ''235958'') \<and>
    leap_run (f # fs) (l, info) = Some (leap_at l a b (leap_dir a b) t, info1) \<and>
    text_of info1 = leap_text (leap_at l a b (leap_dir a b) t) \<and>
    leap_run (f # fs @ g # gs) (l, info) = Some (leap_at l b b 0 t, info2) \<and>
    text_of info2 = leap_text (leap_at l b b 0 t)"
proof -
  obtain sat wn dn where f: "f = (sat, wn, dn, a, b)" using assms(7) by (cases f) auto
  from forecast_step [OF assms(1-6), of sat wn dn] assms(7) f
  obtain t where t: "ut4b0_leap_process sat wn dn a b (l, info) =
      Some (leap_at l a b (leap_dir a b) t, put_text info (leap_text (leap_at l a b (leap_dir a b) t)))"
    "announces f t" "printable t" "time_hms t = (if unat a < unat b then ''235960'' else ''235958'')" by auto
  define l1 where "l1 = leap_at l a b (leap_dir a b) t"
  define l2 where "l2 = leap_at l b b 0 t"
  define info1 where "info1 = put_text info (leap_text l1)"
  define info2 where "info2 = put_text info1 (leap_text l2)"
  have dir: "leap_dir a b \<noteq> 0" "unat (leap_dir a b) < 10" by (simp_all add: leap_dir_def)
  note i1 = leap_text_put [OF t(3) assms(4,5) dir(2) assms(6), of l, folded l1_def, folded info1_def]
  have z: "unat (0 :: u8) < 10" by simp
  note i2 = leap_text_put [OF t(3) assms(5,5) z i1(2), of l, folded l2_def, folded info2_def]
  have fs: "\<forall>(sat, wn, dn, now, nxt) \<in> set fs. now \<noteq> nxt" using assms(3,7) by fastforce
  have gs: "\<forall>(sat, wn, dn, now, nxt) \<in> set gs. now = nxt \<or> now \<noteq> now_leap l2" using assms(8) by fastforce
  have run1: "leap_run (f # fs) (l, info) = Some (l1, info1)"
    using t(1) pending_run [OF _ fs, of l1 info1] dir by (auto simp: f l1_def info1_def)
  obtain sg wg dg where g: "g = (sg, wg, dg, b, b)" using assms(8) by (cases g) auto
  have "ut4b0_leap_process sg wg dg b b (l1, info1) = Some (l2, info2)"
    using adopt_step [OF dir(1) assms(5) t(3) i1(2)] by (simp add: l1_def l2_def info2_def)
  then have "leap_run (g # gs) (l1, info1) = Some (l2, info2)"
    using settled_run [OF _ gs, of info2] by (auto simp: g l2_def)
  with run1 have run2: "leap_run (f # fs @ g # gs) (l, info) = Some (l2, info2)"
    using leap_run_append [of "f # fs" "g # gs" "(l, info)"] by simp
  show ?thesis using t(2,4) run1 run2 i1(3) i2(3) unfolding l1_def l2_def by blast
qed

theorem ut4b0_leap_process_cycle_witness:
  "\<exists>t info1 info2. announces (0, 1929, 7, 17, 18) t \<and>
    leap_run [(0, 1929, 7, 17, 18), (3, 906, 7, 17, 18)]
      (\<lparr>now_leap = 17, next_leap = 17, leap_sign = 0, leap_time = no_leap_time\<rparr>, replicate 28 NUL) =
      Some (\<lparr>now_leap = 17, next_leap = 18, leap_sign = 1, leap_time = t\<rparr>, info1) \<and>
    leap_run [(0, 1929, 7, 17, 18), (3, 906, 7, 17, 18), (0, 1929, 7, 18, 18)]
      (\<lparr>now_leap = 17, next_leap = 17, leap_sign = 0, leap_time = no_leap_time\<rparr>, replicate 28 NUL) =
      Some (\<lparr>now_leap = 18, next_leap = 18, leap_sign = 0, leap_time = t\<rparr>, info2)"
  using ut4b0_leap_process_cycle [of "\<lparr>now_leap = 17, next_leap = 17, leap_sign = 0, leap_time = no_leap_time\<rparr>" 17 18
    "replicate 28 NUL" "(0, 1929, 7, 17, 18)" "[(3, 906, 7, 17, 18)]" "(0, 1929, 7, 18, 18)" "[]"]
  by (simp add: dated_def epoch_date_def leap_at_def leap_dir_def del: leap_run.simps) blast

text \<open>The number of leap seconds is never learned, only followed: while no forecast is pending,
  statements whose current number differs from the stored one change nothing, whatever they announce.
  The stored number starts at 18 on every power-up.\<close>

theorem ut4b0_leap_process_ignores_unknown:
  assumes "leap_sign l = 0" "\<forall>(sat, wn, dn, now, nxt) \<in> set ms. now \<noteq> now_leap l"
  shows "leap_run ms (l, info) = Some (l, info)"
  using settled_run [OF assms(1)] assms(2) by (auto simp: case_prod_beta)

theorem ut4b0_leap_process_ignores_unknown_witness:
  "leap_run [(0, 1929, 7, 19, 19), (0, 1929, 7, 19, 20), (0, 1929, 7, 20, 20)]
    (\<lparr>now_leap = 18, next_leap = 18, leap_sign = 0, leap_time = no_leap_time\<rparr>, replicate 28 NUL) =
   Some (\<lparr>now_leap = 18, next_leap = 18, leap_sign = 0, leap_time = no_leap_time\<rparr>, replicate 28 NUL)"
  by (rule ut4b0_leap_process_ignores_unknown) auto

end
