(* ===== verification/GnssMsg.thy ===== *)
theory GnssMsg
  imports GnssLeap CheckCode
begin

text \<open>
  The statements of the satellite receiver (\<^verbatim>\<open>APP/Gnss/ut4b0_receiver.c\<close>): the splitting of
  the received text into statements, the check of their codes, and one parser for each kind of
  statement. A statement is given to its parser as the memory from its first character on, so that a
  parser that runs past the end of its statement reads what the receive buffer holds there;
  \<open>None\<close> is an access outside an array, or a loop that does not end.
\<close>

section \<open>State\<close>

text \<open>The texts of \<^verbatim>\<open>g_gnss_info\<close> are arrays of fixed size.\<close>

record gnss_info =
  mode_info :: string
  time_info :: string
  loc_info :: string
  sat_len :: u16
  sat_info :: string
  leap_info :: string
  pps_info :: string
  ant_info :: string
  ver_info :: string

record combcmd =
  cmd_num :: u8
  cmd_index :: "u8 list"
  cmd_buf :: string

record gnss =
  g_gnss_info :: gnss_info
  g_leap :: gnss_leap
  post_sats :: u8
  rec_type :: u8
  g_save_cmd :: combcmd
  cmd_cnt :: u8
  reply_sem :: nat  \<comment> \<open>posts of \<open>g_ut4b0_reply_sem\<close> not yet taken\<close>
  echo_switch :: u8
  init_finished :: u8
  cmd_send_flag :: u8

definition info_sizes :: "gnss_info \<Rightarrow> bool" where
  "info_sizes g \<longleftrightarrow> length (mode_info g) = 17 \<and> length (time_info g) = 22 \<and> length (loc_info g) = 56 \<and>
     length (sat_info g) = 400 \<and> length (leap_info g) = 28 \<and> length (pps_info g) = 3 \<and>
     length (ant_info g) = 6 \<and> length (ver_info g) = 30"

section \<open>Clearing\<close>

definition no_time :: string where "no_time = ''000000.00,00,00,0000;''"
definition no_loc :: string where "no_loc = ''00,000000.00,0000.00000000,N,00000.00000000,E,000.0000;''"
definition no_sat :: string where "no_sat = ''GPS,00;BDS,00;GLO,00;GAL,00;''"
definition no_leap :: string where "no_leap = ''235960,31,12,2016,18,18,00;''"
definition no_ver :: string where "no_ver = ''UT4B0,000000000000000;''"

definition gnss_receiver_info_clear :: "gnss_info \<Rightarrow> gnss_info option" where
  "gnss_receiver_info_clear g = do {
     t \<leftarrow> strcpy (time_info g) 0 no_time;
     l \<leftarrow> strcpy (loc_info g) 0 no_loc;
     s \<leftarrow> strcpy (sat_info g) 0 no_sat;
     p \<leftarrow> strcpy (leap_info g) 0 no_leap;
     q \<leftarrow> strcpy (pps_info g) 0 ''0;'';
     a \<leftarrow> strcpy (ant_info g) 0 ''ON;'';
     v \<leftarrow> strcpy (ver_info g) 0 no_ver;
     Some (g\<lparr>time_info := t, loc_info := l, sat_info := s, sat_len := 0, leap_info := p,
             pps_info := q, ant_info := a, ver_info := v\<rparr>)
   }"

section \<open>Positions of the parameters\<close>

text \<open>The loop that the ZDA and GGA parsers share: the position after each of the first
  \<open>limit\<close> commas. The position is a \<^verbatim>\<open>u8_t\<close> and wraps.\<close>

partial_function (option) comma_scan ::
  "string \<Rightarrow> nat \<Rightarrow> u8 \<Rightarrow> nat \<Rightarrow> u8 list \<Rightarrow> u8 list option" where
  "comma_scan pdata limit i comma_cnt index =
     (if comma_cnt < limit then do {
        c \<leftarrow> rd_at pdata (unat i);
        if c = CHR '','' then do {
          index \<leftarrow> wr_at index comma_cnt (i + 1);
          comma_scan pdata limit (i + 1) (Suc comma_cnt) index
        } else comma_scan pdata limit (i + 1) comma_cnt index
      } else Some index)"

text \<open>One \<open>memcpy\<close> of the parameter between two positions to the end of a text.\<close>

definition copy_field :: "string \<Rightarrow> u8 \<Rightarrow> u8 \<Rightarrow> string \<times> u8 \<Rightarrow> (string \<times> u8) option" where
  "copy_field pdata a b s =
     (case s of (info, len) \<Rightarrow>
        if a \<le> b then do {
          info \<leftarrow> memcpy info (unat len) pdata (unat a) (unat b - unat a);
          Some (info, len + (b - a))
        } else None)"

fun copy_fields :: "string \<Rightarrow> u8 list \<Rightarrow> nat list \<Rightarrow> string \<times> u8 \<Rightarrow> (string \<times> u8) option" where
  "copy_fields pdata index [] s = Some s"
| "copy_fields pdata index (k # ks) s =
     do { s \<leftarrow> copy_field pdata (index ! k) (index ! Suc k) s; copy_fields pdata index ks s }"

text \<open>The last comma becomes a semicolon.\<close>

definition end_info :: "string \<times> u8 \<Rightarrow> string option" where
  "end_info s =
     (case s of (info, len) \<Rightarrow>
        if len = 0 then None
        else do { info \<leftarrow> wr_at info (unat len - 1) (CHR '';''); wr_at info (unat len) NUL })"

section \<open>ZDA and GGA\<close>

definition ut4b0_zda_msg_parser :: "string \<Rightarrow> gnss \<Rightarrow> gnss option" where
  "ut4b0_zda_msg_parser pdata g = do {
     let gi = g_gnss_info g;
     index \<leftarrow> comma_scan pdata 5 0 0 (replicate 10 0);
     c \<leftarrow> rd_at pdata (unat (index ! 0));
     if c = CHR '','' then do {
       info \<leftarrow> strcpy (time_info gi) 0 no_time;
       Some (g\<lparr>g_gnss_info := gi\<lparr>time_info := info\<rparr>\<rparr>)
     } else do {
       s \<leftarrow> copy_fields pdata index [0, 1, 2, 3] (time_info gi, 0);
       info \<leftarrow> end_info s;
       Some (g\<lparr>g_gnss_info := gi\<lparr>time_info := info\<rparr>\<rparr>)
     }
   }"

text \<open>Two digits as \<^verbatim>\<open>(p[0] - '0') * 10 + (p[1] - '0')\<close>, stored in a \<^verbatim>\<open>u8_t\<close>.\<close>

definition two_digits :: "string \<Rightarrow> nat \<Rightarrow> u8 option" where
  "two_digits s p = do {
     a \<leftarrow> rd_at s p;
     b \<leftarrow> rd_at s (p + 1);
     Some ((of_char a - 48) * 10 + (of_char b - 48))
   }"

definition ut4b0_gga_msg_parser :: "string \<Rightarrow> gnss \<Rightarrow> gnss option" where
  "ut4b0_gga_msg_parser pdata g = do {
     let gi = g_gnss_info g;
     index \<leftarrow> comma_scan pdata 10 0 0 (replicate 10 0);
     (info, len) \<leftarrow> copy_field pdata (index ! 6) (index ! 7) (loc_info gi, 0);
     n \<leftarrow> two_digits pdata (unat (index ! 6));
     let g = g\<lparr>post_sats := n\<rparr>;
     if n = 0 then do {
       sat \<leftarrow> strcpy (sat_info gi) 0 no_sat;
       Some (g\<lparr>g_gnss_info := gi\<lparr>loc_info := info, sat_info := sat, sat_len := 0\<rparr>\<rparr>)
     } else do {
       s \<leftarrow> copy_fields pdata index [0, 1, 2, 3, 4, 8] (info, len);
       info \<leftarrow> end_info s;
       Some (g\<lparr>g_gnss_info := gi\<lparr>loc_info := info\<rparr>\<rparr>)
     }
   }"

section \<open>GSV\<close>

partial_function (option) comma_all :: "string \<Rightarrow> u8 \<Rightarrow> u8 \<Rightarrow> u8 list \<Rightarrow> (u8 \<times> u8 list) option" where
  "comma_all data i comma_cnt index = do {
     c \<leftarrow> rd_at data (unat i);
     if c = NUL then Some (comma_cnt, index)
     else if c = CHR '','' then do {
       index \<leftarrow> wr_at index (unat comma_cnt) (i + 1);
       comma_all data (i + 1) (comma_cnt + 1) index
     } else comma_all data (i + 1) comma_cnt index
   }"

definition gsv_name :: "u8 \<Rightarrow> string option" where
  "gsv_name type =
     (if type = GNSS_SAT_TYPE_GPS then Some ''GPS'' else if type = GNSS_SAT_TYPE_BDS then Some ''BDS''
      else if type = GNSS_SAT_TYPE_GLO then Some ''GLO'' else if type = GNSS_SAT_TYPE_GAL then Some ''GAL'' else None)"

text \<open>The body of the loop over the parameters, for parameter \<open>i\<close>.\<close>

definition gsv_item :: "string \<Rightarrow> u8 list \<Rightarrow> nat \<Rightarrow> string \<times> u16 \<Rightarrow> (string \<times> u16) option" where
  "gsv_item data index i s =
     (if i \<in> {5, 9, 13, 17} then Some s
      else do {
        a \<leftarrow> rd_at index i;
        b \<leftarrow> rd_at index (i + 1);
        (info, len) \<leftarrow>
          (if i \<in> {6, 10, 14, 18} then do {
             c \<leftarrow> rd_at data (unat a);
             d \<leftarrow> (if c = CHR ''0'' then rd_at data (unat a + 1) else Some NUL);
             info \<leftarrow> strcpy (fst s) (unat (snd s)) (if c = CHR ''0'' \<and> d = CHR ''0'' then ''0,'' else ''1,'');
             Some (info, snd s + 2)
           } else Some s);
        if a \<le> b then do {
          info \<leftarrow> memcpy info (unat len) data (unat a) (unat b - unat a);
          Some (info, len + ucast (b - a))
        } else None
      })"

fun gsv_items :: "string \<Rightarrow> u8 list \<Rightarrow> nat list \<Rightarrow> string \<times> u16 \<Rightarrow> (string \<times> u16) option" where
  "gsv_items data index [] s = Some s"
| "gsv_items data index (i # is) s = do { s \<leftarrow> gsv_item data index i s; gsv_items data index is s }"

definition gsv_head :: "u8 \<Rightarrow> u8 \<Rightarrow> string \<times> u16 \<Rightarrow> (string \<times> u16) option" where
  "gsv_head type amount s =
     (case s of (info, len) \<Rightarrow> do {
        info \<leftarrow> (case gsv_name type of
                  Some nm \<Rightarrow> strcpy info (unat len) (nm @ '','' @ pad_left (CHR ''0'') 2 (dec (unat amount)) @ '','')
                | None \<Rightarrow> Some info);
        Some (info, len + 7)
      })"

definition ut4b0_gsv_msg_parser :: "u8 \<Rightarrow> string \<Rightarrow> gnss \<Rightarrow> gnss option" where
  "ut4b0_gsv_msg_parser type pdata g = do {
     let gi = g_gnss_info g;
     msg \<leftarrow> cstr_at pdata 0;
     let len = (if 68 < length msg then 68 else length msg);
     let data = take len msg @ '','' @ replicate (70 - (len + 1)) NUL;
     (comma_cnt, index) \<leftarrow> comma_all data 0 0 (replicate 20 0);
     amount \<leftarrow> two_digits data (unat (index ! 2));
     if amount = 0 then do {
       info \<leftarrow> strcpy (sat_info gi) 0 no_sat;
       Some (g\<lparr>g_gnss_info := gi\<lparr>sat_info := info\<rparr>\<rparr>)
     } else do {
       msg_total \<leftarrow> rd_at data (unat (index ! 0));
       msg_cur \<leftarrow> rd_at data (unat (index ! 1));
       s \<leftarrow> (if msg_cur = CHR ''1'' then gsv_head type amount (sat_info gi, sat_len gi)
             else Some (sat_info gi, sat_len gi));
       (info, len) \<leftarrow> gsv_items data index [3..<unat comma_cnt - 1] s;
       info \<leftarrow> (if msg_cur = msg_total then
                   (if len = 0 then None else strcpy info (unat len - 1) '';'')
                 else Some info);
       Some (g\<lparr>g_gnss_info := gi\<lparr>sat_info := info, sat_len := len\<rparr>\<rparr>)
     }
   }"

definition ut4b0_gpgsv_msg_parser where "ut4b0_gpgsv_msg_parser = ut4b0_gsv_msg_parser GNSS_SAT_TYPE_GPS"
definition ut4b0_bdgsv_msg_parser where "ut4b0_bdgsv_msg_parser = ut4b0_gsv_msg_parser GNSS_SAT_TYPE_BDS"
definition ut4b0_glgsv_msg_parser where "ut4b0_glgsv_msg_parser = ut4b0_gsv_msg_parser GNSS_SAT_TYPE_GLO"
definition ut4b0_gagsv_msg_parser where "ut4b0_gagsv_msg_parser = ut4b0_gsv_msg_parser GNSS_SAT_TYPE_GAL"

section \<open>UTC statements\<close>

text \<open>\<^verbatim>\<open>while(pdata[i++] != ';');\<close>\<close>

partial_function (option) skip_head :: "string \<Rightarrow> u8 \<Rightarrow> u8 option" where
  "skip_head pdata i = do {
     c \<leftarrow> rd_at pdata (unat i);
     if c \<noteq> CHR '';'' then skip_head pdata (i + 1) else Some (i + 1)
   }"

record utc_params =
  utc_wn :: u32
  utc_dn :: u8
  utc_now :: u8
  utc_next :: u8

text \<open>The loop over the parameters, for the \<open>switch\<close> of either parser: what the parameter
  before comma \<open>comma_cnt\<close> is stored into. The eighth ends the loop.\<close>

partial_function (option) utc_loop ::
  "(u8 \<Rightarrow> int \<Rightarrow> utc_params \<Rightarrow> utc_params) \<Rightarrow> string \<Rightarrow> u8 \<Rightarrow> u8 \<Rightarrow> u8 \<Rightarrow> string \<Rightarrow> utc_params \<Rightarrow> utc_params option"
  where
  "utc_loop store pdata i comma_cnt param_len buf v = do {
     c \<leftarrow> rd_at pdata (unat i);
     if c = NUL then Some v
     else if c = CHR '','' then do {
       let comma_cnt = comma_cnt + 1;
       buf \<leftarrow> wr_at buf (unat param_len) NUL;
       let v = store comma_cnt (atoi (text_of buf)) v;
       if comma_cnt = 8 then Some v
       else utc_loop store pdata (i + 1) comma_cnt 0 buf v
     } else do {
       buf \<leftarrow> wr_at buf (unat param_len) c;
       utc_loop store pdata (i + 1) comma_cnt (param_len + 1) buf v
     }
   }"

definition gpsbds_store :: "u8 \<Rightarrow> int \<Rightarrow> utc_params \<Rightarrow> utc_params" where
  "gpsbds_store n x v =
     (if n = 5 then v\<lparr>utc_wn := of_int x\<rparr> else if n = 6 then v\<lparr>utc_dn := of_int x\<rparr>
      else if n = 7 then v\<lparr>utc_now := of_int x\<rparr> else if n = 8 then v\<lparr>utc_next := of_int x\<rparr> else v)"

definition gal_store :: "u8 \<Rightarrow> int \<Rightarrow> utc_params \<Rightarrow> utc_params" where
  "gal_store n x v =
     (if n = 3 then v\<lparr>utc_now := of_int x\<rparr> else if n = 6 then v\<lparr>utc_wn := of_int x\<rparr>
      else if n = 7 then v\<lparr>utc_dn := of_int x\<rparr> else if n = 8 then v\<lparr>utc_next := of_int x\<rparr> else v)"

definition utc_read :: "(u8 \<Rightarrow> int \<Rightarrow> utc_params \<Rightarrow> utc_params) \<Rightarrow> string \<Rightarrow> utc_params option" where
  "utc_read store pdata = do {
     i \<leftarrow> skip_head pdata 0;
     utc_loop store pdata i 0 0 (replicate 20 NUL) \<lparr>utc_wn = 0, utc_dn = 0, utc_now = 0, utc_next = 0\<rparr>
   }"

definition leap_update :: "u8 \<Rightarrow> utc_params \<Rightarrow> gnss \<Rightarrow> gnss option" where
  "leap_update sat_type v g = do {
     (l, info) \<leftarrow> ut4b0_leap_process sat_type (utc_wn v) (utc_dn v) (utc_now v) (utc_next v)
                   (g_leap g, leap_info (g_gnss_info g));
     Some (g\<lparr>g_leap := l, g_gnss_info := (g_gnss_info g)\<lparr>leap_info := info\<rparr>\<rparr>)
   }"

definition ut4b0_gpsbds_utc_msg_parser :: "string \<Rightarrow> gnss \<Rightarrow> gnss option" where
  "ut4b0_gpsbds_utc_msg_parser pdata g = do {
     v \<leftarrow> utc_read gpsbds_store pdata;
     if starts_with pdata ''BDSUTC'' \<and> \<not> starts_with pdata ''GPSUTC''
     then leap_update GNSS_SAT_TYPE_BDS (v\<lparr>utc_now := utc_now v + 14, utc_next := utc_next v + 14\<rparr>) g
     else leap_update GNSS_SAT_TYPE_GPS v g
   }"

definition ut4b0_gal_utc_msg_parser :: "string \<Rightarrow> gnss \<Rightarrow> gnss option" where
  "ut4b0_gal_utc_msg_parser pdata g = do {
     v \<leftarrow> utc_read gal_store pdata;
     leap_update GNSS_SAT_TYPE_GAL v g
   }"

section \<open>1PPS, antenna, version\<close>

text \<open>\<open>snprintf(dst, n, \<dots>)\<close> of a text, into an array of at least \<open>n\<close>.\<close>

definition snprintf :: "string \<Rightarrow> nat \<Rightarrow> string \<Rightarrow> string option" where
  "snprintf dst n s = strcpy dst 0 (take (n - 1) s)"

definition ut4b0_1pps_msg_parser :: "string \<Rightarrow> gnss \<Rightarrow> gnss option" where
  "ut4b0_1pps_msg_parser pdata g = do {
     (m, p, q) \<leftarrow> strtok pdata 0 '';'';
     (m, p, q) \<leftarrow> strtok m q '','';
     pps_id \<leftarrow> atoi_at m p;
     (m, p, q) \<leftarrow> strtok m q '','';
     pps_status \<leftarrow> atoi_at m p;
     let gi = g_gnss_info g;
     if unat (post_sats g) < 4 then do {
       info \<leftarrow> strcpy (pps_info gi) 0 ''0;'';
       Some (g\<lparr>g_gnss_info := gi\<lparr>pps_info := info\<rparr>\<rparr>)
     } else if (of_int pps_id :: u8) = 0 then do {
       info \<leftarrow> snprintf (pps_info gi) 3 (dec (unat (of_int pps_status :: u8)) @ '';'');
       Some (g\<lparr>g_gnss_info := gi\<lparr>pps_info := info\<rparr>\<rparr>)
     } else Some g
   }"

definition ut4b0_antenna_msg_parser :: "string \<Rightarrow> gnss \<Rightarrow> gnss option" where
  "ut4b0_antenna_msg_parser pdata g = do {
     (m, p, q) \<leftarrow> strtok pdata 0 '';'';
     (m, p, q) \<leftarrow> strtok m q '','';
     p \<leftarrow> p;
     t \<leftarrow> cstr_at m p;
     let gi = g_gnss_info g;
     info \<leftarrow> snprintf (ant_info gi) 6 (t @ '';'');
     Some (g\<lparr>g_gnss_info := gi\<lparr>ant_info := info\<rparr>\<rparr>)
   }"

text \<open>The loop of the version parser: the number of characters before the second comma, if the
  text has one. \<open>len\<close> and \<open>i\<close> of the source are always equal.\<close>

partial_function (option) version_len :: "string \<Rightarrow> nat \<Rightarrow> u8 \<Rightarrow> u8 \<Rightarrow> u8 option option" where
  "version_len m p i comma_cnt = do {
     c \<leftarrow> rd_at m (p + unat i);
     if c = NUL then Some None
     else if c = CHR '','' \<and> comma_cnt + 1 = 2 then Some (Some i)
     else version_len m p (i + 1) (if c = CHR '','' then comma_cnt + 1 else comma_cnt)
   }"

definition ut4b0_cmd_version_msg_parser :: "string \<Rightarrow> gnss \<Rightarrow> gnss option" where
  "ut4b0_cmd_version_msg_parser pdata g = do {
     (m, p, q) \<leftarrow> strtok pdata 0 '';'';
     (m, p, q) \<leftarrow> strtok m q [];
     p \<leftarrow> p;
     n \<leftarrow> version_len m p 0 0;
     let buf = replicate 30 NUL;
     buf \<leftarrow> (case n of None \<Rightarrow> Some buf
              | Some len \<Rightarrow> do {
                  buf \<leftarrow> memcpy buf 0 m p (unat len);
                  buf \<leftarrow> wr_at buf (unat len) (CHR '';'');
                  wr_at buf (unat len + 1) NUL
                });
     let gi = g_gnss_info g;
     info \<leftarrow> strcpy (ver_info gi) 0 (filter (\<lambda>c. c \<noteq> CHR 0x22) (text_of buf));
     Some (g\<lparr>g_gnss_info := gi\<lparr>ver_info := info\<rparr>\<rparr>)
   }"

section \<open>Replies to commands\<close>

definition ut4b0_cmd_reply_msg_parser :: "string \<Rightarrow> gnss \<Rightarrow> gnss option" where
  "ut4b0_cmd_reply_msg_parser pdata g = do {
     (m, p, q) \<leftarrow> strtok pdata 0 '','';
     (m, p_reply_cmd, q) \<leftarrow> strtok m q '','';
     (m, p, q) \<leftarrow> strtok m q ''*'';
     p_reply_cmd \<leftarrow> p_reply_cmd;
     at \<leftarrow> rd_at (cmd_index (g_save_cmd g)) (unat (cmd_cnt g));
     cmd \<leftarrow> cstr_at m p_reply_cmd;
     sent \<leftarrow> cstr_at (cmd_buf (g_save_cmd g)) (unat at);
     if starts_with sent cmd then do {
       p \<leftarrow> p;
       result \<leftarrow> cstr_at m (p + 10);
       if result = ''OK'' then
         (let g = g\<lparr>cmd_cnt := cmd_cnt g + 1\<rparr> in
          if cmd_cnt g = cmd_num (g_save_cmd g)
          then Some (g\<lparr>reply_sem := reply_sem g + 1, cmd_cnt := 0\<rparr>)
          else Some g)
       else Some (g\<lparr>cmd_cnt := 0\<rparr>)
     } else Some (g\<lparr>cmd_cnt := 0\<rparr>)
   }"

section \<open>Dispatch\<close>

datatype check_type = CHECK_TYPE_XOR | CHECK_TYPE_CRC32

definition ut4b0_stmt_handle :: "(string \<times> check_type \<times> (string \<Rightarrow> gnss \<Rightarrow> gnss option)) list" where
  "ut4b0_stmt_handle =
    [(''#GPSUTC'', CHECK_TYPE_CRC32, ut4b0_gpsbds_utc_msg_parser),
     (''#BDSUTC'', CHECK_TYPE_CRC32, ut4b0_gpsbds_utc_msg_parser),
     (''#GALUTC'', CHECK_TYPE_CRC32, ut4b0_gal_utc_msg_parser),
     (''#VERSIONA'', CHECK_TYPE_CRC32, ut4b0_cmd_version_msg_parser),
     (''#ANTENNAA'', CHECK_TYPE_CRC32, ut4b0_antenna_msg_parser),
     (''$GNGGA'', CHECK_TYPE_XOR, ut4b0_gga_msg_parser),
     (''$GPSGGA'', CHECK_TYPE_XOR, ut4b0_gga_msg_parser),
     (''$GPGGA'', CHECK_TYPE_XOR, ut4b0_gga_msg_parser),
     (''$BDGGA'', CHECK_TYPE_XOR, ut4b0_gga_msg_parser),
     (''$BDSGGA'', CHECK_TYPE_XOR, ut4b0_gga_msg_parser),
     (''$GLOGGA'', CHECK_TYPE_XOR, ut4b0_gga_msg_parser),
     (''$GALGGA'', CHECK_TYPE_XOR, ut4b0_gga_msg_parser),
     (''$GNZDA'', CHECK_TYPE_XOR, ut4b0_zda_msg_parser),
     (''$GPZDA'', CHECK_TYPE_XOR, ut4b0_zda_msg_parser),
     (''$BDZDA'', CHECK_TYPE_XOR, ut4b0_zda_msg_parser),
     (''$GPGSV'', CHECK_TYPE_XOR, ut4b0_gpgsv_msg_parser),
     (''$BDGSV'', CHECK_TYPE_XOR, ut4b0_bdgsv_msg_parser),
     (''$GLGSV'', CHECK_TYPE_XOR, ut4b0_glgsv_msg_parser),
     (''$GAGSV'', CHECK_TYPE_XOR, ut4b0_gagsv_msg_parser),
     (''#BBPPSMSGAA'', CHECK_TYPE_CRC32, ut4b0_1pps_msg_parser),
     (''$command'', CHECK_TYPE_XOR, ut4b0_cmd_reply_msg_parser)]"

definition char_bytes :: "string \<Rightarrow> bytes" where
  "char_bytes s = map of_char s"

definition ut4b0_checkcode_compare :: "string \<Rightarrow> string \<Rightarrow> check_type \<Rightarrow> u8 option" where
  "ut4b0_checkcode_compare msg code check_type =
     (case check_type of
        CHECK_TYPE_XOR \<Rightarrow> util_xor_check (Some (char_bytes msg)) (length msg) (Some code)
      | CHECK_TYPE_CRC32 \<Rightarrow> util_check_crc32 (Some (char_bytes msg)) (length msg) (Some code))"

text \<open>The search of the table; the first entry whose head starts the statement is used.\<close>

fun find_stmt :: "nat \<Rightarrow> (string \<times> 'a) list \<Rightarrow> string \<Rightarrow> (nat \<times> 'a) option" where
  "find_stmt i [] s = None"
| "find_stmt i ((h, x) # es) s = (if starts_with s h then Some (i, x) else find_stmt (Suc i) es s)"

definition ut4b0_check_cmdhandler :: "string \<Rightarrow> gnss \<Rightarrow> gnss option" where
  "ut4b0_check_cmdhandler pdata g =
     (case find_stmt 0 ut4b0_stmt_handle pdata of
        None \<Rightarrow> Some g
      | Some (i, check_type, parse_func) \<Rightarrow> do {
          g \<leftarrow> (if i = 0 then map_option (\<lambda>gi. g\<lparr>g_gnss_info := gi\<rparr>) (gnss_receiver_info_clear (g_gnss_info g))
                else Some g);
          (m, pmsg, q) \<leftarrow> strtok pdata 0 ''*'';
          (m, pcode, q) \<leftarrow> strtok m q [CHR 0x0D];
          if pmsg = None \<or> pcode = None then Some g
          else do {
            pmsg \<leftarrow> pmsg;
            pcode \<leftarrow> pcode;
            msg \<leftarrow> cstr_at m pmsg;
            code \<leftarrow> cstr_at m pcode;
            let check_msg = (if starts_with msg ''$command'' then msg else tl msg);
            eq \<leftarrow> ut4b0_checkcode_compare check_msg code check_type;
            if eq = CHECKCODE_EQ then parse_func (drop (pmsg + 1) m) g else Some g
          }
        })"

text \<open>The loop over the received text from position \<open>p\<close> on. A statement ends at the next
  newline, which \<open>strtok\<close> overwrites; \<open>handler\<close> is the search and call of its parser.\<close>

partial_function (option) msg_loop ::
  "(string \<Rightarrow> 's \<Rightarrow> 's option) \<Rightarrow> string \<Rightarrow> nat \<Rightarrow> 's \<Rightarrow> 's option" where
  "msg_loop handler m p g = do {
     c \<leftarrow> rd_at m p;
     if c = NUL then Some g
     else if c = CHR ''$'' \<or> c = CHR ''#'' then do {
       (m, p_msg, q) \<leftarrow> strtok m p [CHR 0x0A];
       msg \<leftarrow> cstr_at m p;
       g \<leftarrow> (if strchr msg (CHR ''*'') \<noteq> None \<and> strchr msg (CHR 0x0D) \<noteq> None
              then handler (drop p m) g else Some g);
       msg_loop handler m (p + length msg + 1) g
     } else msg_loop handler m (p + 1) g
   }"

definition ut4b0_receiver_msg_parser :: "string \<Rightarrow> gnss \<Rightarrow> gnss option" where
  "ut4b0_receiver_msg_parser pdata g = msg_loop ut4b0_check_cmdhandler pdata 0 g"

definition gnss_receiver_msg_parser :: "string \<Rightarrow> gnss \<Rightarrow> gnss option" where
  "gnss_receiver_msg_parser pdata g = (if rec_type g = 0 then ut4b0_receiver_msg_parser pdata g else Some g)"

end
