(* ===== verification/GnssFields.thy ===== *)
theory GnssFields
  imports GnssMsg
begin

text \<open>
  How the parsers of \<open>GnssMsg\<close> find and copy the parameters of a statement: the positions that
  the comma loops compute, the parameter that lies between two of them, and the text that a sequence
  of copies leaves in an information array.
\<close>

section \<open>Comma-terminated parameters\<close>

definition fields_text :: "string list \<Rightarrow> string" where
  "fields_text fs = concat (map (\<lambda>f. f @ '','') fs)"

lemma fields_text_simps [simp]: "fields_text [] = []" "fields_text (f # fs) = f @ CHR '','' # fields_text fs"
  "fields_text (fs @ gs) = fields_text fs @ fields_text gs"
  by (simp_all add: fields_text_def)

definition no_comma :: "string \<Rightarrow> bool" where
  "no_comma s \<longleftrightarrow> CHR '','' \<notin> set s \<and> NUL \<notin> set s"

text \<open>The position after parameter \<open>k\<close>.\<close>

definition off :: "string list \<Rightarrow> nat \<Rightarrow> nat" where
  "off fs k = length (fields_text (take k fs))"

lemma off_0 [simp]: "off fs 0 = 0" by (simp add: off_def)

lemma off_Suc: "k < length fs \<Longrightarrow> off fs (Suc k) = off fs k + length (fs ! k) + 1"
  by (simp add: off_def take_Suc_conv_app_nth)

lemma off_mono: "j \<le> k \<Longrightarrow> off fs j \<le> off fs k"
proof -
  assume "j \<le> k"
  then have "take k fs = take j fs @ take (k - j) (drop j fs)" by (metis le_add_diff_inverse take_add)
  then show ?thesis by (simp add: off_def)
qed

lemma off_le: "off fs k \<le> length (fields_text fs)"
proof -
  have "fs = take k fs @ drop k fs" by simp
  then have "fields_text fs = fields_text (take k fs) @ fields_text (drop k fs)"
    by (metis fields_text_simps(3))
  then show ?thesis by (simp add: off_def)
qed

lemma drop_off: "drop (off fs k) (fields_text fs @ rest) = fields_text (drop k fs) @ rest"
proof -
  have "fields_text fs = fields_text (take k fs) @ fields_text (drop k fs)"
    by (metis append_take_drop_id fields_text_simps(3))
  then show ?thesis by (simp add: off_def)
qed

lemma field_at: "k < length fs \<Longrightarrow> take (off fs (Suc k) - off fs k) (drop (off fs k) (fields_text fs @ rest)) = fs ! k @ '',''"
  unfolding drop_off by (simp add: off_Suc Cons_nth_drop_Suc [symmetric])

lemma nth_off: "k < length fs \<Longrightarrow> i \<le> length (fs ! k) \<Longrightarrow>
  (fields_text fs @ rest) ! (off fs k + i) = (fs ! k @ '','') ! i"
proof -
  assume a: "k < length fs" "i \<le> length (fs ! k)"
  have "(fields_text fs @ rest) ! (off fs k + i) = drop (off fs k) (fields_text fs @ rest) ! i"
    using off_le [of fs k] by (subst nth_drop) simp_all
  also have "\<dots> = (fs ! k @ '','') ! i"
    unfolding drop_off using a by (simp add: Cons_nth_drop_Suc [symmetric] nth_append)
  finally show ?thesis .
qed

section \<open>The loops over the commas\<close>

lemma unat_inc8: "unat i + 1 < 256 \<Longrightarrow> unat (i + 1 :: u8) = unat i + 1"
  by (simp add: unat_word_ariths)

lemma unat_of_nat8': "n < 256 \<Longrightarrow> unat (of_nat n :: u8) = n"
  by (simp add: unat_of_nat)

lemma rd_at_mid: "rd_at (u @ c # v) (length u) = Some c"
  by (simp add: rd_at_def)

lemma comma_scan_skip:
  assumes "no_comma f" "length u + length f < 256" "cnt < limit"
  shows "comma_scan (u @ f @ v) limit (of_nat (length u)) cnt index =
    comma_scan (u @ f @ v) limit (of_nat (length (u @ f))) cnt index"
  using assms
proof (induction f arbitrary: u)
  case (Cons c f)
  have "c \<noteq> CHR '',''" using Cons.prems(1) by (auto simp: no_comma_def)
  moreover have "unat (of_nat (length u) :: u8) = length u" using Cons.prems by (intro unat_of_nat8') simp
  ultimately have "comma_scan (u @ (c # f) @ v) limit (of_nat (length u)) cnt index =
    comma_scan ((u @ [c]) @ f @ v) limit (of_nat (length (u @ [c]))) cnt index"
    using Cons.prems(3) by (subst comma_scan.simps) (simp add: rd_at_mid add.commute)
  also have "\<dots> = comma_scan ((u @ [c]) @ f @ v) limit (of_nat (length ((u @ [c]) @ f))) cnt index"
    using Cons.prems by (intro Cons.IH) (auto simp: no_comma_def)
  finally show ?case by simp
qed simp

lemma comma_scan_fields:
  assumes "\<forall>f \<in> set fs. no_comma f" "length (u @ fields_text fs) < 256" "cnt + length fs = limit" "limit \<le> length index"
  shows "\<exists>idx. comma_scan (u @ fields_text fs @ v) limit (of_nat (length u)) cnt index = Some idx \<and>
    length idx = length index \<and> (\<forall>j < cnt. idx ! j = index ! j) \<and>
    (\<forall>k < length fs. unat (idx ! (cnt + k)) = length u + off fs (Suc k))"
  using assms
proof (induction fs arbitrary: u cnt index)
  case Nil
  then show ?case by (subst comma_scan.simps) simp
next
  case (Cons f fs)
  let ?u = "u @ f @ '',''" and ?i = "index[cnt := of_nat (length (u @ f @ '',''))]"
  have pos: "unat (of_nat (length (u @ f)) :: u8) = length (u @ f)" using Cons.prems by (intro unat_of_nat8') simp
  have c: "rd_at (u @ f @ CHR '','' # fields_text fs @ v) (length (u @ f)) = Some (CHR '','')"
    using rd_at_mid [of "u @ f"] by simp
  have "comma_scan (u @ fields_text (f # fs) @ v) limit (of_nat (length u)) cnt index =
    comma_scan (u @ f @ CHR '','' # fields_text fs @ v) limit (of_nat (length (u @ f))) cnt index"
    using comma_scan_skip [of f u cnt limit] Cons.prems by simp
  also have "\<dots> = comma_scan (?u @ fields_text fs @ v) limit (of_nat (length ?u)) (Suc cnt) ?i"
    by (subst comma_scan.simps) (use Cons.prems c pos in \<open>simp add: wr_at_def add.commute add.left_commute\<close>)
  finally have eq: "comma_scan (u @ fields_text (f # fs) @ v) limit (of_nat (length u)) cnt index =
    comma_scan (?u @ fields_text fs @ v) limit (of_nat (length ?u)) (Suc cnt) ?i" .
  have "\<exists>idx. comma_scan (?u @ fields_text fs @ v) limit (of_nat (length ?u)) (Suc cnt) ?i = Some idx \<and>
    length idx = length ?i \<and> (\<forall>j < Suc cnt. idx ! j = ?i ! j) \<and>
    (\<forall>k < length fs. unat (idx ! (Suc cnt + k)) = length ?u + off fs (Suc k))"
    using Cons.prems by (intro Cons.IH) auto
  then obtain idx where idx: "comma_scan (?u @ fields_text fs @ v) limit (of_nat (length ?u)) (Suc cnt) ?i = Some idx"
    "length idx = length index" "\<forall>j < Suc cnt. idx ! j = ?i ! j"
    "\<forall>k < length fs. unat (idx ! (Suc cnt + k)) = length ?u + off fs (Suc k)" by auto
  have z: "unat (of_nat (length ?u) :: u8) = length ?u" using Cons.prems by (intro unat_of_nat8') simp
  have "unat (idx ! (cnt + k)) = length u + off (f # fs) (Suc k)" if "k < Suc (length fs)" for k
  proof (cases k)
    case 0
    then show ?thesis using idx(3) Cons.prems z by (simp add: off_def)
  next
    case (Suc k')
    then show ?thesis using idx(4) that by (auto simp: off_def)
  qed
  then show ?case using eq idx(1-3) by auto
qed

lemma comma_scan_index:
  assumes "\<forall>f \<in> set fs. no_comma f" "length (fields_text fs) < 256" "length fs = n" "n \<le> 10"
  obtains idx where "comma_scan (fields_text fs @ v) n 0 0 (replicate 10 0) = Some idx" "length idx = 10"
    "\<And>k. k < n \<Longrightarrow> unat (idx ! k) = off fs (Suc k)"
  using comma_scan_fields [of fs "[]" 0 n "replicate 10 0" v] assms by auto

text \<open>The loop of the GSV parser, which stops at the terminator.\<close>

lemma comma_all_skip:
  assumes "no_comma f" "length u + length f < 256"
  shows "comma_all (u @ f @ v) (of_nat (length u)) cnt index = comma_all (u @ f @ v) (of_nat (length (u @ f))) cnt index"
  using assms
proof (induction f arbitrary: u)
  case (Cons c f)
  have "c \<noteq> CHR '',''" "c \<noteq> NUL" using Cons.prems(1) by (auto simp: no_comma_def)
  moreover have "unat (of_nat (length u) :: u8) = length u" using Cons.prems by (intro unat_of_nat8') simp
  ultimately have "comma_all (u @ (c # f) @ v) (of_nat (length u)) cnt index =
    comma_all ((u @ [c]) @ f @ v) (of_nat (length (u @ [c]))) cnt index"
    by (subst comma_all.simps) (simp add: rd_at_mid add.commute)
  also have "\<dots> = comma_all ((u @ [c]) @ f @ v) (of_nat (length ((u @ [c]) @ f))) cnt index"
    using Cons.prems by (intro Cons.IH) (auto simp: no_comma_def)
  finally show ?case by simp
qed simp

lemma comma_all_fields:
  assumes "\<forall>f \<in> set fs. no_comma f" "length (u @ fields_text fs) < 256" "cnt + length fs \<le> length index" "length index < 256"
  shows "\<exists>idx. comma_all (u @ fields_text fs @ NUL # v) (of_nat (length u)) (of_nat cnt) index = Some (of_nat (cnt + length fs), idx) \<and>
    length idx = length index \<and> (\<forall>j < cnt. idx ! j = index ! j) \<and>
    (\<forall>k < length fs. unat (idx ! (cnt + k)) = length u + off fs (Suc k))"
  using assms
proof (induction fs arbitrary: u cnt index)
  case Nil
  then have "unat (of_nat (length u) :: u8) = length u" by (intro unat_of_nat8') simp
  then show ?case by (subst comma_all.simps) (simp add: rd_at_mid)
next
  case (Cons f fs)
  let ?u = "u @ f @ '',''" and ?i = "index[cnt := of_nat (length (u @ f @ '',''))]"
  have pos: "unat (of_nat (length (u @ f)) :: u8) = length (u @ f)" using Cons.prems by (intro unat_of_nat8') simp
  have cn: "unat (of_nat cnt :: u8) = cnt" using Cons.prems by (intro unat_of_nat8') simp
  have c: "rd_at (u @ f @ CHR '','' # fields_text fs @ NUL # v) (length (u @ f)) = Some (CHR '','')"
    using rd_at_mid [of "u @ f"] by simp
  have "comma_all (u @ fields_text (f # fs) @ NUL # v) (of_nat (length u)) (of_nat cnt) index =
    comma_all (u @ f @ CHR '','' # fields_text fs @ NUL # v) (of_nat (length (u @ f))) (of_nat cnt) index"
    using comma_all_skip [of f u] Cons.prems by simp
  also have "\<dots> = comma_all (?u @ fields_text fs @ NUL # v) (of_nat (length ?u)) (of_nat (Suc cnt)) ?i"
    by (subst comma_all.simps) (use Cons.prems c pos cn in \<open>simp add: wr_at_def NUL_def add.commute add.left_commute\<close>)
  finally have eq: "comma_all (u @ fields_text (f # fs) @ NUL # v) (of_nat (length u)) (of_nat cnt) index =
    comma_all (?u @ fields_text fs @ NUL # v) (of_nat (length ?u)) (of_nat (Suc cnt)) ?i" .
  have "\<exists>idx. comma_all (?u @ fields_text fs @ NUL # v) (of_nat (length ?u)) (of_nat (Suc cnt)) ?i = Some (of_nat (Suc cnt + length fs), idx) \<and>
    length idx = length ?i \<and> (\<forall>j < Suc cnt. idx ! j = ?i ! j) \<and>
    (\<forall>k < length fs. unat (idx ! (Suc cnt + k)) = length ?u + off fs (Suc k))"
    using Cons.prems by (intro Cons.IH) auto
  then obtain idx where idx: "comma_all (?u @ fields_text fs @ NUL # v) (of_nat (length ?u)) (of_nat (Suc cnt)) ?i = Some (of_nat (Suc cnt + length fs), idx)"
    "length idx = length index" "\<forall>j < Suc cnt. idx ! j = ?i ! j"
    "\<forall>k < length fs. unat (idx ! (Suc cnt + k)) = length ?u + off fs (Suc k)" by auto
  have z: "unat (of_nat (length ?u) :: u8) = length ?u" using Cons.prems by (intro unat_of_nat8') simp
  have "unat (idx ! (cnt + k)) = length u + off (f # fs) (Suc k)" if "k < Suc (length fs)" for k
  proof (cases k)
    case 0
    then show ?thesis using idx(3) Cons.prems z by (simp add: off_def)
  next
    case (Suc k')
    then show ?thesis using idx(4) that by (auto simp: off_def)
  qed
  then show ?case using eq idx(1-3) by auto
qed

section \<open>Text written over the start of an array\<close>

definition filled :: "string \<Rightarrow> string \<Rightarrow> string" where
  "filled a w = w @ drop (length w) a"

lemma filled_Nil [simp]: "filled a [] = a"
  by (simp add: filled_def)

lemma length_filled [simp]: "length w \<le> length a \<Longrightarrow> length (filled a w) = length a"
  by (simp add: filled_def)

lemma memcpy_filled:
  assumes "length w + n \<le> length a" "s + n \<le> length src"
  shows "memcpy (filled a w) (length w) src s n = Some (filled a (w @ take n (drop s src)))"
  using assms by (simp add: memcpy_def filled_def add.commute)

lemma strcpy_filled:
  assumes "length w + length t < length a"
  shows "strcpy (filled a w) (length w) t = Some (filled a (w @ t @ [NUL]))"
  using assms by (simp add: strcpy_def memcpy_def filled_def add.commute)

text \<open>A text at position \<open>n\<close> whatever lies behind it.\<close>

lemma copy_field_filled:
  assumes "unat a = off fs k" "unat b = off fs (Suc k)" "k < length fs" "length w < 256" "len = of_nat (length w)"
    "length w + length (fs ! k) + 1 \<le> length arr" "length w + length (fs ! k) + 1 < 256"
  shows "copy_field (fields_text fs @ v) a b (filled arr w, len) =
    Some (filled arr (w @ fs ! k @ '',''), of_nat (length (w @ fs ! k @ '','')))"
proof -
  have s: "off fs (Suc k) = off fs k + length (fs ! k) + 1" using assms(3) by (rule off_Suc)
  have le: "a \<le> b" using assms(1,2) s by (simp add: word_le_nat_alt)
  have l: "unat len = length w" using assms(4,5) by (simp add: unat_of_nat8')
  have n: "unat b - unat a = length (fs ! k) + 1" using assms(1,2) s by simp
  have "b - a = of_nat (unat b - unat a)" using le by (simp add: word_le_nat_alt of_nat_diff)
  then have ba: "b - a = of_nat (length (fs ! k) + 1)" by (simp only: n)
  have "off fs k + (length (fs ! k) + 1) \<le> length (fields_text fs @ v)"
    using off_le [of fs "Suc k"] s by simp
  then have "memcpy (filled arr w) (length w) (fields_text fs @ v) (off fs k) (length (fs ! k) + 1) =
    Some (filled arr (w @ fs ! k @ '',''))"
    using memcpy_filled [of w "length (fs ! k) + 1" arr "off fs k" "fields_text fs @ v"] assms(6)
      field_at [OF assms(3), of v] s by simp
  then show ?thesis using le ba assms(1,4,5)
    by (simp add: copy_field_def unat_of_nat8' n [unfolded assms(1)] add_ac del: One_nat_def)
qed

lemma copy_fields_filled:
  assumes "\<And>k. k < length fs \<Longrightarrow> unat (idx ! k) = off fs (Suc k)" "\<forall>k \<in> set ks. Suc k < length fs"
    "length w + length (fields_text (map (\<lambda>k. fs ! Suc k) ks)) \<le> length arr"
    "length w + length (fields_text (map (\<lambda>k. fs ! Suc k) ks)) < 256"
  shows "copy_fields (fields_text fs @ v) idx ks (filled arr w, of_nat (length w)) =
    Some (filled arr (w @ fields_text (map (\<lambda>k. fs ! Suc k) ks)),
          of_nat (length (w @ fields_text (map (\<lambda>k. fs ! Suc k) ks))))"
  using assms(2-)
proof (induction ks arbitrary: w)
  case (Cons k ks)
  have "copy_field (fields_text fs @ v) (idx ! k) (idx ! Suc k) (filled arr w, of_nat (length w)) =
    Some (filled arr (w @ fs ! Suc k @ '',''), of_nat (length (w @ fs ! Suc k @ '','')))"
    by (rule copy_field_filled) (use Cons.prems in \<open>simp_all add: assms(1)\<close>)
  then show ?case using Cons.IH [of "w @ fs ! Suc k @ '',''"] Cons.prems by simp
qed simp

lemma end_info_filled:
  assumes "length w + 1 < 256" "length w + 2 \<le> length arr"
  shows "end_info (filled arr (w @ '',''), of_nat (length (w @ '',''))) = Some (put_text arr (w @ '';''))"
proof -
  have l: "unat (of_nat (length (w @ '','')) :: u8) = length w + 1" using assms(1) by (simp add: unat_of_nat8' del: of_nat_Suc)
  then have "(of_nat (length (w @ '','')) :: u8) \<noteq> 0" by (metis add_gr_0 less_numeral_extra(1) unat_eq_zero less_irrefl)
  moreover have "(drop (Suc (length w)) arr)[0 := NUL] = NUL # drop (Suc (Suc (length w))) arr"
    using assms(2) by (simp add: Cons_nth_drop_Suc [of "Suc (length w)" arr, symmetric])
  ultimately show ?thesis using l assms(2)
    by (simp add: end_info_def wr_at_def filled_def put_text_def list_update_append del: of_nat_Suc)
qed

end
