(* ===== verification/GnssFix.thy ===== *)
theory GnssFix
  imports GnssFields
begin

text \<open>
  What the ZDA, GGA and GSV parsers record: the time, the position and the satellites, in the format
  that the queries return.
\<close>

section \<open>Time and position\<close>

lemma info_sizesD:
  assumes "info_sizes g"
  shows "length (time_info g) = 22" "length (loc_info g) = 56" "length (sat_info g) = 400" "length (leap_info g) = 28"
    "length (mode_info g) = 17" "length (pps_info g) = 3" "length (ant_info g) = 6" "length (ver_info g) = 30"
  using assms by (simp_all add: info_sizes_def)

lemma text_lengths: "length no_time = 21" "length no_loc = 55" "length no_sat = 28" "length no_leap = 27" "length no_ver = 22"
  by (simp_all add: no_time_def no_loc_def no_sat_def no_leap_def no_ver_def)

definition zda_time :: "string list \<Rightarrow> string" where
  "zda_time fs = fs ! 1 @ '','' @ fs ! 2 @ '','' @ fs ! 3 @ '','' @ fs ! 4 @ '';''"

lemma comma_iff: "no_comma f \<Longrightarrow> (f @ '','') ! 0 = CHR '','' \<longleftrightarrow> f = []"
  by (cases f) (auto simp: no_comma_def)

lemma zda_run:
  assumes "length fs = 5" "\<forall>f \<in> set fs. no_comma f" "length (fields_text fs) < 256" "info_sizes (g_gnss_info g)"
    "length (zda_time fs) < 22"
  shows "ut4b0_zda_msg_parser (fields_text fs @ v) g =
    Some (g\<lparr>g_gnss_info := (g_gnss_info g)\<lparr>time_info :=
      put_text (time_info (g_gnss_info g)) (if fs ! 1 = [] then no_time else zda_time fs)\<rparr>\<rparr>)"
proof -
  let ?t = "time_info (g_gnss_info g)"
  have L: "length ?t = 22" using assms(4) by (rule info_sizesD)
  obtain idx where idx: "comma_scan (fields_text fs @ v) 5 0 0 (replicate 10 0) = Some idx"
    "\<And>k. k < 5 \<Longrightarrow> unat (idx ! k) = off fs (Suc k)"
    by (rule comma_scan_index [of fs 5 v]) (use assms(1-3) in auto)
  have "fs ! 1 \<in> set fs" using assms(1) by simp
  then have nc: "no_comma (fs ! 1)" using assms(2) by blast
  have "off fs 1 < length (fields_text fs)" using off_le [of fs 2] off_Suc [of 1 fs] assms(1) by (simp add: numeral_2_eq_2)
  then have rd: "rd_at (fields_text fs @ v) (unat (idx ! 0)) = Some ((fs ! 1 @ '','') ! 0)"
    using idx(2) [of 0] nth_off [of 1 fs 0 v] assms(1) by (simp add: rd_at_def)
  have ft: "fields_text (map (\<lambda>k. fs ! Suc k) [0, 1, 2, 3]) = (fs ! 1 @ '','' @ fs ! 2 @ '','' @ fs ! 3 @ '','' @ fs ! 4) @ '',''"
    by (simp add: eval_nat_numeral)
  have "copy_fields (fields_text fs @ v) idx [0, 1, 2, 3] (filled ?t [], of_nat (length ([] :: string)))
    = Some (filled ?t ([] @ fields_text (map (\<lambda>k. fs ! Suc k) [0, 1, 2, 3])),
       of_nat (length ([] @ fields_text (map (\<lambda>k. fs ! Suc k) [0, 1, 2, 3]))))"
    by (rule copy_fields_filled) (use assms(1,5) idx(2) L in \<open>simp_all add: zda_time_def eval_nat_numeral\<close>)
  then have cp: "copy_fields (fields_text fs @ v) idx [0, 1, 2, 3] (?t, 0)
    = Some (filled ?t ((fs ! 1 @ '','' @ fs ! 2 @ '','' @ fs ! 3 @ '','' @ fs ! 4) @ '',''),
       of_nat (length ((fs ! 1 @ '','' @ fs ! 2 @ '','' @ fs ! 3 @ '','' @ fs ! 4) @ '','')))"
    unfolding ft by simp
  have "end_info (filled ?t ((fs ! 1 @ '','' @ fs ! 2 @ '','' @ fs ! 3 @ '','' @ fs ! 4) @ '',''),
       of_nat (length ((fs ! 1 @ '','' @ fs ! 2 @ '','' @ fs ! 3 @ '','' @ fs ! 4) @ '','')))
     = Some (put_text ?t (zda_time fs))"
    using end_info_filled [of "fs ! 1 @ '','' @ fs ! 2 @ '','' @ fs ! 3 @ '','' @ fs ! 4" ?t] assms(5) L
    by (simp add: zda_time_def)
  then show ?thesis
    by (simp only: ut4b0_zda_msg_parser_def Let_def idx(1) Option.bind.simps rd comma_iff [OF nc] cp)
      (simp add: strcpy_0 L text_lengths)
qed

definition gga_loc :: "string list \<Rightarrow> string" where
  "gga_loc fs = fs ! 7 @ '','' @ fs ! 1 @ '','' @ fs ! 2 @ '','' @ fs ! 3 @ '','' @ fs ! 4 @ '','' @ fs ! 5 @ '','' @ fs ! 9 @ '';''"

definition digits2 :: "nat \<Rightarrow> string" where
  "digits2 n = pad_left (CHR ''0'') 2 (dec n)"

lemma char_of_48: "char_of (48 :: nat) = CHR ''0''"
  by code_simp

lemma digits2_nth: "n < 100 \<Longrightarrow> digits2 n = [char_of (48 + n div 10), char_of (48 + n mod 10)]"
proof -
  assume n: "n < 100"
  then have "n div 10 < 10" by simp
  with n show ?thesis
    by (cases "n < 10") (simp_all add: char_of_48 digits2_def pad_left_def dec.simps [of n] dec.simps [of "n div 10"])
qed

lemma two_digits_at:
  assumes "n < 100" "s = u @ digits2 n @ v"
  shows "two_digits s (length u) = Some (of_nat n)"
proof -
  have a: "(of_char (char_of (48 + k) :: char) :: u8) = 48 + of_nat k" if "k < 10" for k
  proof -
    have "(of_char (char_of (48 + k) :: char) :: u8) = of_nat (of_char (char_of (48 + k) :: char))"
      by (simp only: of_nat_of_char)
    also have "of_char (char_of (48 + k) :: char) = 48 + k" using that by (simp add: of_char_of)
    finally show ?thesis by simp
  qed
  have "of_nat n = (of_nat (n div 10) * 10 + of_nat (n mod 10) :: u8)"
    by (metis div_mult_mod_eq of_nat_add of_nat_mult of_nat_numeral)
  then show ?thesis using assms a [of "n div 10"] a [of "n mod 10"]
    by (simp add: two_digits_def digits2_nth rd_at_def nth_append)
qed

lemma gga_run:
  assumes "length fs = 10" "\<forall>f \<in> set fs. no_comma f" "length (fields_text fs) < 256" "info_sizes (g_gnss_info g)"
    "length (gga_loc fs) < 56" "fs ! 7 = digits2 n" "n < 100"
  shows "ut4b0_gga_msg_parser (fields_text fs @ v) g =
    Some (if n = 0 then g\<lparr>post_sats := 0, g_gnss_info := (g_gnss_info g)
             \<lparr>loc_info := filled (loc_info (g_gnss_info g)) ''00,'',
              sat_info := put_text (sat_info (g_gnss_info g)) no_sat, sat_len := 0\<rparr>\<rparr>
          else g\<lparr>post_sats := of_nat n, g_gnss_info := (g_gnss_info g)
             \<lparr>loc_info := put_text (loc_info (g_gnss_info g)) (gga_loc fs)\<rparr>\<rparr>)"
proof -
  let ?gi = "g_gnss_info g"
  let ?l = "loc_info ?gi"
  let ?ks = "[0, 1, 2, 3, 4, 8] :: nat list"
  let ?w = "fs ! 7 @ '','' @ fs ! 1 @ '','' @ fs ! 2 @ '','' @ fs ! 3 @ '','' @ fs ! 4 @ '','' @ fs ! 5 @ '','' @ fs ! 9"
  note L = info_sizesD [OF assms(4)]
  obtain idx where idx: "comma_scan (fields_text fs @ v) 10 0 0 (replicate 10 0) = Some idx"
    "\<And>k. k < 10 \<Longrightarrow> unat (idx ! k) = off fs (Suc k)"
    by (rule comma_scan_index [of fs 10 v]) (use assms(1-3) in auto)
  have "copy_field (fields_text fs @ v) (idx ! 6) (idx ! 7) (filled ?l [], of_nat (length ([] :: string))) =
    Some (filled ?l ([] @ fs ! 7 @ '',''), of_nat (length ([] @ fs ! 7 @ '','')))"
    by (rule copy_field_filled) (use assms(1,5) idx(2) L in \<open>simp_all add: gga_loc_def\<close>)
  then have c1: "copy_field (fields_text fs @ v) (idx ! 6) (idx ! 7) (?l, 0) =
    Some (filled ?l (fs ! 7 @ '',''), of_nat (length (fs ! 7 @ '','')))" by simp
  have d: "two_digits (fields_text fs @ v) (unat (idx ! 6)) = Some (of_nat n)"
  proof -
    have fs: "fs = take 7 fs @ fs ! 7 # drop (Suc 7) fs" using assms(1) by (intro id_take_nth_drop) simp
    have "fields_text fs @ v = fields_text (take 7 fs) @ digits2 n @ CHR '','' # fields_text (drop (Suc 7) fs) @ v"
      by (subst fs) (simp only: assms(6) fields_text_simps append_assoc append_Cons)
    moreover have "unat (idx ! 6) = length (fields_text (take 7 fs))" using idx(2) [of 6] by (simp add: off_def)
    ultimately show ?thesis using two_digits_at [OF assms(7)] by simp
  qed
  have ft: "(fs ! 7 @ '','') @ fields_text (map (\<lambda>k. fs ! Suc k) ?ks) = ?w @ '',''"
    by (simp add: eval_nat_numeral)
  have "copy_fields (fields_text fs @ v) idx ?ks (filled ?l (fs ! 7 @ '',''), of_nat (length (fs ! 7 @ '',''))) =
    Some (filled ?l ((fs ! 7 @ '','') @ fields_text (map (\<lambda>k. fs ! Suc k) ?ks)),
      of_nat (length ((fs ! 7 @ '','') @ fields_text (map (\<lambda>k. fs ! Suc k) ?ks))))"
    by (rule copy_fields_filled) (use assms(1,5) idx(2) L in \<open>simp_all add: gga_loc_def eval_nat_numeral\<close>)
  then have c2: "copy_fields (fields_text fs @ v) idx ?ks (filled ?l (fs ! 7 @ '',''), of_nat (length (fs ! 7 @ '',''))) =
    Some (filled ?l (?w @ '',''), of_nat (length (?w @ '','')))" unfolding ft .
  have e: "end_info (filled ?l (?w @ '',''), of_nat (length (?w @ '',''))) = Some (put_text ?l (gga_loc fs))"
    using end_info_filled [of ?w ?l] assms(5) L by (simp add: gga_loc_def)
  have n0: "(of_nat n :: u8) = 0 \<longleftrightarrow> n = 0" using unat_of_nat8' [of n] assms(7) by (auto simp: unat_eq_zero [symmetric] simp del: unat_eq_zero)
  have z: "n = 0 \<Longrightarrow> fs ! 7 @ '','' = ''00,''"
    using assms(6) digits2_nth [of 0] by (simp add: char_of_48)
  show ?thesis
    by (simp only: ut4b0_gga_msg_parser_def Let_def idx(1) c1 d c2 e n0 Option.bind.simps prod.case)
      (use z in \<open>auto simp: strcpy_0 L text_lengths\<close>)
qed

section \<open>Properties\<close>

text \<open>A ZDA statement with a time records hour, day, month and year, each as received, closed
  by a semicolon; without a time it records the text for no time. The positions of all five commas
  are found and no array is overrun.\<close>

theorem ut4b0_zda_msg_parser_spec:
  assumes "length fs = 5" "\<forall>f \<in> set fs. no_comma f" "length (fields_text fs) < 256" "info_sizes (g_gnss_info g)"
    "length (zda_time fs) < 22"
  shows "\<exists>g'. ut4b0_zda_msg_parser (fields_text fs @ v) g = Some g' \<and>
    text_of (time_info (g_gnss_info g')) = (if fs ! 1 = [] then no_time else zda_time fs) \<and>
    info_sizes (g_gnss_info g') \<and> g_leap g' = g_leap g \<and> loc_info (g_gnss_info g') = loc_info (g_gnss_info g)"
proof -
  let ?t = "if fs ! 1 = [] then no_time else zda_time fs"
  have l: "length ?t < 22" using assms(5) by (simp add: text_lengths)
  have mem: "fs ! 1 \<in> set fs" "fs ! 2 \<in> set fs" "fs ! 3 \<in> set fs" "fs ! 4 \<in> set fs" using assms(1) by simp_all
  have "NUL \<notin> set ?t"
    using assms(2) mem by (auto simp: zda_time_def no_time_def no_comma_def NUL_def)
  with l assms(4) show ?thesis unfolding zda_run [OF assms] by (simp add: info_sizes_def)
qed

definition gnss_zero :: gnss where
  "gnss_zero = \<lparr>g_gnss_info = \<lparr>mode_info = replicate 17 NUL, time_info = replicate 22 NUL, loc_info = replicate 56 NUL,
      sat_len = 0, sat_info = replicate 400 NUL, leap_info = replicate 28 NUL, pps_info = replicate 3 NUL,
      ant_info = replicate 6 NUL, ver_info = replicate 30 NUL\<rparr>,
    g_leap = \<lparr>now_leap = 0, next_leap = 0, leap_sign = 0,
      leap_time = \<lparr>time_hms = replicate 7 NUL, time_day = 0, time_mon = 0, time_year = 0\<rparr>\<rparr>,
    post_sats = 0, rec_type = 0, g_save_cmd = \<lparr>cmd_num = 0, cmd_index = replicate 5 0, cmd_buf = replicate 50 NUL\<rparr>,
    cmd_cnt = 0, reply_sem = 0, echo_switch = 0, init_finished = 0, cmd_send_flag = 0\<rparr>"

lemma gnss_zero_sizes: "info_sizes (g_gnss_info gnss_zero)"
  by (simp add: gnss_zero_def info_sizes_def)

theorem ut4b0_zda_msg_parser_spec_witness:
  "\<exists>g'. ut4b0_zda_msg_parser ''GPZDA,060014.00,28,01,2019,,'' gnss_zero = Some g' \<and>
    text_of (time_info (g_gnss_info g')) = ''060014.00,28,01,2019;''"
  using ut4b0_zda_msg_parser_spec [of "[''GPZDA'', ''060014.00'', ''28'', ''01'', ''2019'']" gnss_zero "'',''"] gnss_zero_sizes
  by (auto simp: no_comma_def NUL_def zda_time_def)

text \<open>C34. A GGA statement with satellites in use records their number and the position as received;
  with none in use it withdraws the satellite list as well.\<close>

theorem ut4b0_gga_msg_parser_spec:
  assumes "length fs = 10" "\<forall>f \<in> set fs. no_comma f" "length (fields_text fs) < 256" "info_sizes (g_gnss_info g)"
    "length (gga_loc fs) < 56" "fs ! 7 = digits2 n" "n < 100"
  shows "\<exists>g'. ut4b0_gga_msg_parser (fields_text fs @ v) g = Some g' \<and> unat (post_sats g') = n \<and>
    info_sizes (g_gnss_info g') \<and>
    (if n = 0 then text_of (sat_info (g_gnss_info g')) = no_sat \<and> sat_len (g_gnss_info g') = 0
     else text_of (loc_info (g_gnss_info g')) = gga_loc fs \<and> sat_info (g_gnss_info g') = sat_info (g_gnss_info g))"
proof -
  have mem: "fs ! 1 \<in> set fs" "fs ! 2 \<in> set fs" "fs ! 3 \<in> set fs" "fs ! 4 \<in> set fs" "fs ! 5 \<in> set fs"
    "fs ! 7 \<in> set fs" "fs ! 9 \<in> set fs" using assms(1) by simp_all
  have nl: "NUL \<notin> set (gga_loc fs)" using assms(2) mem by (auto simp: gga_loc_def no_comma_def NUL_def)
  have ns: "NUL \<notin> set no_sat" by (simp add: no_sat_def NUL_def)
  have sz: "length (loc_info (g_gnss_info g)) = 56" "length (sat_info (g_gnss_info g)) = 400"
    using assms(4) by (simp_all add: info_sizes_def)
  show ?thesis unfolding gga_run [OF assms]
    using assms(4,5,7) nl ns sz by (auto simp: info_sizes_def text_lengths unat_of_nat)
qed

theorem ut4b0_gga_msg_parser_spec_witness:
  "\<exists>g'. ut4b0_gga_msg_parser ''GNGGA,044426.00,3032.49556656,N,10403.16548096,E,1,15,0.9,529.1063,M,-42.4491,M,,'' gnss_zero = Some g' \<and>
    unat (post_sats g') = 15 \<and> text_of (loc_info (g_gnss_info g')) = ''15,044426.00,3032.49556656,N,10403.16548096,E,529.1063;''"
proof -
  let ?fs = "[''GNGGA'', ''044426.00'', ''3032.49556656'', ''N'', ''10403.16548096'', ''E'', ''1'', ''15'', ''0.9'', ''529.1063'']"
  have d: "digits2 15 = ''15''" by code_simp
  have "\<exists>g'. ut4b0_gga_msg_parser (fields_text ?fs @ ''M,-42.4491,M,,'') gnss_zero = Some g' \<and> unat (post_sats g') = 15 \<and>
    info_sizes (g_gnss_info g') \<and>
    (if (15::nat) = 0 then text_of (sat_info (g_gnss_info g')) = no_sat \<and> sat_len (g_gnss_info g') = 0
     else text_of (loc_info (g_gnss_info g')) = gga_loc ?fs \<and> sat_info (g_gnss_info g') = sat_info (g_gnss_info gnss_zero))"
    by (rule ut4b0_gga_msg_parser_spec) (use gnss_zero_sizes in \<open>simp_all add: d no_comma_def NUL_def gga_loc_def\<close>)
  then show ?thesis by (auto simp: gga_loc_def)
qed

end
