(* ===== verification/GnssSat.thy ===== *)
theory GnssSat
  imports GnssFix
begin

text \<open>
  The satellite list: what one GSV statement appends to \<^verbatim>\<open>g_gnss_info.sat.info\<close>.
\<close>

section \<open>Appending to an array\<close>

text \<open>The array starts with \<open>w\<close>; what lies behind is left open.\<close>

definition begins :: "string \<Rightarrow> string \<Rightarrow> bool" where
  "begins a w \<longleftrightarrow> length w \<le> length a \<and> take (length w) a = w"

lemma memcpy_begins:
  assumes "begins a w" "length w + n \<le> length a" "s + n \<le> length src"
  shows "\<exists>a'. memcpy a (length w) src s n = Some a' \<and> length a' = length a \<and> begins a' (w @ take n (drop s src))"
proof -
  have "memcpy a (length w) src s n = Some (w @ take n (drop s src) @ drop (length w + n) a)"
    using assms by (simp add: memcpy_def begins_def)
  then show ?thesis using assms by (auto simp: begins_def)
qed

lemma strcpy_begins:
  assumes "begins a w" "length w + length t < length a"
  shows "\<exists>a'. strcpy a (length w) t = Some a' \<and> length a' = length a \<and> begins a' (w @ t)"
proof -
  have "strcpy a (length w) t = Some (w @ t @ NUL # drop (length w + Suc (length t)) a)"
    using assms by (simp add: strcpy_def memcpy_def begins_def)
  then show ?thesis using assms by (auto simp: begins_def)
qed

lemma strcpy_end:
  assumes "begins b (x @ [y])" "length x + 1 < length b"
  shows "\<exists>i. strcpy b (length x) '';'' = Some i \<and> length i = length b \<and> begins i (x @ '';'' @ [NUL])"
proof -
  have bx: "begins b x"
    using assms(1) by (auto simp: begins_def take_Suc_conv_app_nth)
  then have "strcpy b (length x) '';'' = Some (x @ '';'' @ NUL # drop (length x + 2) b)"
    using assms(2) by (simp add: strcpy_def memcpy_def begins_def)
  then show ?thesis using assms(2) by (auto simp: begins_def)
qed

lemma begins_take: "n \<le> length a \<Longrightarrow> begins a (take n a)"
  by (simp add: begins_def)

section \<open>The parameters of a GSV statement\<close>

definition snr_flag :: "string \<Rightarrow> string" where
  "snr_flag s = (if take 2 s = ''00'' then ''0,'' else ''1,'')"

definition item_text :: "string list \<Rightarrow> nat \<Rightarrow> string" where
  "item_text fs i =
     (if i \<in> {5, 9, 13, 17} then []
      else (if i \<in> {6, 10, 14, 18} then snr_flag (fs ! Suc i) else []) @ fs ! Suc i @ '','')"

lemma snr_flag_chars:
  assumes "no_comma s"
  shows "(s @ '','') ! 0 = CHR ''0'' \<and> (s = [] \<or> (s @ '','') ! 1 = CHR ''0'') \<longleftrightarrow> take 2 s = ''00''"
proof (cases s)
  case (Cons c t)
  then show ?thesis using assms by (cases t) (auto simp: no_comma_def numeral_2_eq_2)
qed simp

lemma gsv_item_run:
  assumes idx: "length idx = 20" "\<And>k. k < length fs \<Longrightarrow> unat (idx ! k) = off fs (Suc k)"
    and i: "Suc i < length fs" "length fs \<le> 20" and nc: "no_comma (fs ! Suc i)"
    and w: "begins a w" "length w + length (item_text fs i) \<le> length a" "length a < 65536"
  shows "\<exists>a'. gsv_item (fields_text fs @ v) idx i (a, of_nat (length w)) = Some (a', of_nat (length (w @ item_text fs i))) \<and>
    length a' = length a \<and> begins a' (w @ item_text fs i)"
proof (cases "i \<in> {5, 9, 13, 17}")
  case True
  then show ?thesis using w by (auto simp: gsv_item_def item_text_def)
next
  case False
  let ?f = "fs ! Suc i" and ?d = "fields_text fs @ v"
  have s: "off fs (Suc (Suc i)) = off fs (Suc i) + length ?f + 1" using i(1) by (rule off_Suc)
  have ab: "rd_at idx i = Some (idx ! i)" "rd_at idx (i + 1) = Some (idx ! (i + 1))" using idx(1) i by (simp_all add: rd_at_def)
  have u: "unat (idx ! i) = off fs (Suc i)" "unat (idx ! (i + 1)) = off fs (Suc (Suc i))" using idx(2) i by simp_all
  then have le: "idx ! i \<le> idx ! (i + 1)" using s by (simp add: word_le_nat_alt)
  have n: "unat (idx ! (i + 1)) - off fs (Suc i) = length ?f + 1" using u s by simp
  have df: "(ucast (idx ! (i + 1) - idx ! i) :: u16) = of_nat (length ?f + 1)"
  proof -
    have e: "unat (idx ! (i + 1) - idx ! i) = length ?f + 1"
      using unat_sub [OF le] n u(1) by simp
    show ?thesis unfolding e [symmetric] by simp
  qed
  have end_le: "off fs (Suc i) + (length ?f + 1) \<le> length ?d"
    using off_le [of fs "Suc (Suc i)"] s by simp
  have tk: "take (length ?f + 1) (drop (off fs (Suc i)) ?d) = ?f @ '',''"
    using field_at [OF i(1), of v] s by simp
  have copy: "\<exists>a'. memcpy b (length x) ?d (off fs (Suc i)) (length ?f + 1) = Some a' \<and> length a' = length b \<and>
      begins a' (x @ ?f @ '','')" if "begins b x" "length x + length ?f + 1 \<le> length b" for b x
    using memcpy_begins [of b x "length ?f + 1" "off fs (Suc i)" ?d] that end_le unfolding tk by simp
  have lw: "unat (of_nat (length x) :: u16) = length x" if "length x \<le> length a" for x :: string
    using that w(3) by (simp add: unat_of_nat)
  have i': "i \<noteq> 5" "i \<noteq> 9" "i \<noteq> 13" "i \<noteq> 17" using False by auto
  show ?thesis
  proof (cases "i \<in> {6, 10, 14, 18}")
    case no: False
    then have t: "item_text fs i = ?f @ '',''" using False by (simp add: item_text_def)
    obtain a' where a': "memcpy a (length w) ?d (off fs (Suc i)) (length ?f + 1) = Some a'" "length a' = length a"
      "begins a' (w @ ?f @ '','')" using copy [OF w(1)] w(2) t by auto
    have "gsv_item ?d idx i (a, of_nat (length w)) = Some (a', of_nat (length w) + of_nat (length ?f + 1))"
      using no i' by (simp only: gsv_item_def False if_False ab Option.bind.simps le if_True n u(1) prod.case lw w df)
        (use a'(1) w in \<open>simp add: lw begins_def\<close>)
    then show ?thesis using a' t by (intro exI [of _ a']) (simp add: add_ac)
  next
    case yes: True
    then have t: "item_text fs i = snr_flag ?f @ ?f @ '',''" using False by (simp add: item_text_def)
    have fl: "length (snr_flag ?f) = 2" by (simp add: snr_flag_def)
    have bw: "length w + 2 + length ?f + 1 \<le> length a" using w(2) t fl by simp
    obtain b where b: "strcpy a (length w) (snr_flag ?f) = Some b" "length b = length a" "begins b (w @ snr_flag ?f)"
      using strcpy_begins [OF w(1), of "snr_flag ?f"] bw fl by auto
    have lb: "length (w @ snr_flag ?f) = length w + 2" using fl by simp
    obtain a' where a': "memcpy b (length w + 2) ?d (off fs (Suc i)) (length ?f + 1) = Some a'" "length a' = length a"
      "begins a' (w @ snr_flag ?f @ ?f @ '','')" using copy [OF b(3)] bw b(2) fl by auto
    have c0: "rd_at ?d (off fs (Suc i)) = Some ((?f @ '','') ! 0)"
      using nth_off [OF i(1), of 0 v] end_le by (simp add: rd_at_def)
    define d where "d = (if (?f @ '','') ! 0 = CHR ''0'' then (?f @ '','') ! 1 else NUL)"
    have c1: "(if (?f @ '','') ! 0 = CHR ''0'' then rd_at ?d (off fs (Suc i) + 1) else Some NUL) = Some d"
    proof (cases "(?f @ '','') ! 0 = CHR ''0''")
      case True
      then have "?f \<noteq> []" by auto
      then have l: "1 \<le> length ?f" by (cases ?f) auto
      then show ?thesis using True nth_off [OF i(1) l, of v] end_le by (simp add: rd_at_def d_def)
    qed (simp add: d_def)
    have fl': "(if (?f @ '','') ! 0 = CHR ''0'' \<and> d = CHR ''0'' then ''0,'' else ''1,'') = snr_flag ?f"
    proof -
      have "?f = [] \<Longrightarrow> (?f @ '','') ! 0 \<noteq> CHR ''0''" by simp
      then have "(?f @ '','') ! 0 = CHR ''0'' \<and> d = CHR ''0'' \<longleftrightarrow> take 2 ?f = ''00''"
        using snr_flag_chars [OF nc] by (auto simp: d_def)
      then show ?thesis by (simp add: snr_flag_def)
    qed
    have l2: "unat (of_nat (length w) + 2 :: u16) = length w + 2"
    proof -
      have "(of_nat (length w) + 2 :: u16) = of_nat (length w + 2)" by simp
      then show ?thesis using bw w(3) by (simp add: unat_of_nat del: of_nat_add of_nat_Suc)
    qed
    have "gsv_item ?d idx i (a, of_nat (length w)) = Some (a', of_nat (length w) + 2 + of_nat (length ?f + 1))"
      using b(1) a'(1) lw [of w] bw
      by (simp only: gsv_item_def False yes if_False ab Option.bind.simps le if_True n u(1) prod.case c0 c1 fst_conv snd_conv fl' l2 df)
    then show ?thesis using a' t fl by (intro exI [of _ a']) (simp add: add_ac)
  qed
qed

lemma gsv_items_run:
  assumes idx: "length idx = 20" "\<And>k. k < length fs \<Longrightarrow> unat (idx ! k) = off fs (Suc k)"
    and "\<forall>i \<in> set is. Suc i < length fs" "length fs \<le> 20" "\<forall>f \<in> set fs. no_comma f"
    and "begins a w" "length w + length (concat (map (item_text fs) is)) \<le> length a" "length a < 65536"
  shows "\<exists>a'. gsv_items (fields_text fs @ v) idx is (a, of_nat (length w)) =
      Some (a', of_nat (length (w @ concat (map (item_text fs) is)))) \<and>
    length a' = length a \<and> begins a' (w @ concat (map (item_text fs) is))"
  using assms(3-)
proof (induction "is" arbitrary: a w)
  case (Cons i "is")
  have "no_comma (fs ! Suc i)" using Cons.prems(1,3) by (auto simp: nth_mem)
  then obtain b where b: "gsv_item (fields_text fs @ v) idx i (a, of_nat (length w)) = Some (b, of_nat (length (w @ item_text fs i)))"
    "length b = length a" "begins b (w @ item_text fs i)"
    using gsv_item_run [OF idx, of i a w v] Cons.prems by auto
  have "\<exists>a'. gsv_items (fields_text fs @ v) idx is (b, of_nat (length (w @ item_text fs i))) =
      Some (a', of_nat (length ((w @ item_text fs i) @ concat (map (item_text fs) is)))) \<and>
    length a' = length b \<and> begins a' ((w @ item_text fs i) @ concat (map (item_text fs) is))"
    by (rule Cons.IH) (use Cons.prems b in auto)
  then show ?case using b by auto
qed auto

text \<open>A statement: total number of statements, number of this one, satellites in view, and for each
  satellite its number, elevation, azimuth and signal-to-noise ratio.\<close>

type_synonym sat = "string \<times> string \<times> string \<times> string"

definition sat_fields :: "sat \<Rightarrow> string list" where
  "sat_fields s = (case s of (p, e, a, n) \<Rightarrow> [p, e, a, n])"

definition sat_entry :: "sat \<Rightarrow> string" where
  "sat_entry s = (case s of (p, e, a, n) \<Rightarrow> p @ '','' @ e @ '','' @ snr_flag n @ n @ '','')"

definition gsv_fields :: "string \<Rightarrow> char \<Rightarrow> char \<Rightarrow> nat \<Rightarrow> sat list \<Rightarrow> string list" where
  "gsv_fields h t c n sats = [h, [t], [c], digits2 n] @ concat (map sat_fields sats)"

definition gsv_text :: "u8 \<Rightarrow> char \<Rightarrow> nat \<Rightarrow> sat list \<Rightarrow> string" where
  "gsv_text type c n sats =
     (if c = CHR ''1'' then the (gsv_name type) @ '','' @ digits2 n @ '','' else []) @ concat (map sat_entry sats)"

lemma items_of_sats:
  assumes "length sats \<le> 4"
  shows "concat (map (item_text (gsv_fields h t c n sats)) [3..<length (gsv_fields h t c n sats) - 1]) =
    concat (map sat_entry sats)"
proof -
  have u: "[3..<3] = []" "[3..<7] = [3,4,5,6]" "[3..<11] = [3,4,5,6,7,8,9,10]"
    "[3..<15] = [3,4,5,6,7,8,9,10,11,12,13,14]" "[3..<19] = [3,4,5,6,7,8,9,10,11,12,13,14,15,16,17,18]"
    by (simp_all add: upt_rec)
  have l: "length (gsv_fields h t c n sats) = 4 + 4 * length sats"
    by (induction sats) (auto simp: gsv_fields_def sat_fields_def)
  consider "sats = []" | s1 where "sats = [s1]" | s1 s2 where "sats = [s1, s2]"
    | s1 s2 s3 where "sats = [s1, s2, s3]" | s1 s2 s3 s4 where "sats = [s1, s2, s3, s4]"
    using assms by (auto simp: length_Suc_conv le_Suc_eq numeral_eq_Suc)
  then show ?thesis unfolding l
    by cases (auto simp: u gsv_fields_def sat_fields_def sat_entry_def item_text_def split: prod.splits)
qed

text \<open>A statement of this form reaches the loop over its satellites.\<close>

lemma gsv_reach:
  assumes sats: "length sats \<le> 4" and nc: "\<forall>f \<in> set (gsv_fields h t c n sats). no_comma f"
    and msg: "msg @ '','' = fields_text (gsv_fields h t c n sats)" "length msg \<le> 68" "NUL \<notin> set msg"
    and n: "0 < n" "n < 100"
  obtains idx where "length idx = 20" "\<And>k. k < length (gsv_fields h t c n sats) \<Longrightarrow> unat (idx ! k) = off (gsv_fields h t c n sats) (Suc k)"
    "ut4b0_gsv_msg_parser type (msg @ NUL # v) g = do {
       s \<leftarrow> (if c = CHR ''1'' then gsv_head type (of_nat n) (sat_info (g_gnss_info g), sat_len (g_gnss_info g))
             else Some (sat_info (g_gnss_info g), sat_len (g_gnss_info g)));
       (info, len) \<leftarrow> gsv_items (fields_text (gsv_fields h t c n sats) @ replicate (69 - length msg) NUL) idx
                         [3..<length (gsv_fields h t c n sats) - 1] s;
       info \<leftarrow> (if c = t then (if len = 0 then None else strcpy info (unat len - 1) '';'') else Some info);
       Some (g\<lparr>g_gnss_info := (g_gnss_info g)\<lparr>sat_info := info, sat_len := len\<rparr>\<rparr>)
     }"
proof -
  let ?fs = "gsv_fields h t c n sats"
  let ?data = "fields_text ?fs @ replicate (69 - length msg) NUL"
  have lfs: "length ?fs = 4 + 4 * length sats"
    by (induction sats) (auto simp: gsv_fields_def sat_fields_def)
  have lt: "length (fields_text ?fs) \<le> 69" using msg(2) arg_cong [OF msg(1), of length] by simp
  have data: "take (if 68 < length msg then 68 else length msg) msg @ '','' @
      replicate (70 - ((if 68 < length msg then 68 else length msg) + 1)) NUL = ?data"
    using msg(1,2) by (simp add: append_assoc [symmetric])
  have "replicate (69 - length msg) NUL = NUL # replicate (68 - length msg) NUL"
    using msg(2) by (simp add: Suc_diff_le replicate_Suc [symmetric] del: replicate_Suc)
  then obtain idx where idx: "comma_all ?data 0 0 (replicate 20 0) = Some (of_nat (length ?fs), idx)" "length idx = 20"
    "\<And>k. k < length ?fs \<Longrightarrow> unat (idx ! k) = off ?fs (Suc k)"
    using comma_all_fields [of ?fs "[]" 0 "replicate 20 0" "replicate (68 - length msg) NUL"] nc lt sats lfs by auto
  have len20: "length ?fs \<le> 20" using lfs sats by simp
  have cnt: "unat (of_nat (length ?fs) :: u8) = length ?fs" using len20 by (intro unat_of_nat8') simp
  have f123: "?fs ! 1 = [t]" "?fs ! 2 = [c]" "?fs ! 3 = digits2 n" by (simp_all add: gsv_fields_def)
  have in_data: "off ?fs k < length ?data" if "k < length ?fs" for k
    using off_le [of ?fs "Suc k"] off_Suc [OF that] by simp
  have r0: "rd_at ?data (unat (idx ! 0)) = Some t"
    using idx(3) [of 0] nth_off [of 1 ?fs 0] in_data [of 1] lfs f123 by (simp add: rd_at_def)
  have r1: "rd_at ?data (unat (idx ! 1)) = Some c"
    using idx(3) [of 1] nth_off [of 2 ?fs 0] in_data [of 2] lfs f123 by (simp add: rd_at_def numeral_2_eq_2)
  have am: "two_digits ?data (unat (idx ! 2)) = Some (of_nat n)"
  proof -
    have fs: "?fs = take 3 ?fs @ ?fs ! 3 # drop (Suc 3) ?fs" using lfs by (intro id_take_nth_drop) simp
    have d: "?data = fields_text (take 3 ?fs) @ digits2 n @ CHR '','' # fields_text (drop (Suc 3) ?fs) @ replicate (69 - length msg) NUL"
      by (subst fs) (simp only: f123 fields_text_simps append_assoc append_Cons)
    have "unat (idx ! 2) = length (fields_text (take 3 ?fs))" using idx(3) [of 2] lfs by (simp add: off_def)
    then show ?thesis using two_digits_at [OF n(2) d] by simp
  qed
  have n0: "(of_nat n :: u8) \<noteq> 0" using unat_of_nat8' [of n] n by (auto simp: unat_eq_zero [symmetric] simp del: unat_eq_zero)
  have cm: "cstr_at (msg @ NUL # v) 0 = Some msg" using cstr_at_append [OF msg(3), of "[]"] by simp
  show ?thesis
  proof (rule that [OF idx(2,3)])
    show "ut4b0_gsv_msg_parser type (msg @ NUL # v) g = do {
       s \<leftarrow> (if c = CHR ''1'' then gsv_head type (of_nat n) (sat_info (g_gnss_info g), sat_len (g_gnss_info g))
             else Some (sat_info (g_gnss_info g), sat_len (g_gnss_info g)));
       (info, len) \<leftarrow> gsv_items ?data idx [3..<length ?fs - 1] s;
       info \<leftarrow> (if c = t then (if len = 0 then None else strcpy info (unat len - 1) '';'') else Some info);
       Some (g\<lparr>g_gnss_info := (g_gnss_info g)\<lparr>sat_info := info, sat_len := len\<rparr>\<rparr>)
     }"
      by (simp only: ut4b0_gsv_msg_parser_def Let_def cm Option.bind.simps data idx(1) prod.case am n0 if_False r0 r1 cnt)
  qed
qed

lemma gsv_head_run:
  assumes "begins a w" "length a = 400" "gsv_name type = Some nm" "length nm = 3" "n < 100" "length w + 7 < 400"
  shows "\<exists>b. gsv_head type (of_nat n) (a, of_nat (length w)) = Some (b, of_nat (length w + 7)) \<and>
    length b = 400 \<and> begins b (w @ nm @ '','' @ digits2 n @ '','')"
proof -
  have u: "unat (of_nat (length w) :: u16) = length w" using assms(6) by (intro unat_of_nat16) simp
  have u8: "unat (of_nat n :: u8) = n" using assms(5) by (simp add: unat_of_nat)
  have l: "length (nm @ '','' @ digits2 n @ '','') = 7" using assms(4,5) by (simp add: digits2_nth)
  obtain b where "strcpy a (length w) (nm @ '','' @ digits2 n @ '','') = Some b" "length b = 400"
    "begins b (w @ nm @ '','' @ digits2 n @ '','')"
    using strcpy_begins [OF assms(1), of "nm @ '','' @ digits2 n @ '',''"] assms(2,6) l by (auto simp del: append_assoc)
  then show ?thesis using assms(3) by (simp add: gsv_head_def u u8 digits2_def)
qed

lemma gsv_run:
  assumes sats: "length sats \<le> 4" and nc: "\<forall>f \<in> set (gsv_fields h t c n sats). no_comma f"
    and msg: "msg @ '','' = fields_text (gsv_fields h t c n sats)" "length msg \<le> 68" "NUL \<notin> set msg"
    and n: "0 < n" "n < 100" and type: "gsv_name type = Some nm" "length nm = 3"
    and size: "length (sat_info (g_gnss_info g)) = 400" "unat (sat_len (g_gnss_info g)) = len"
      "len + length (gsv_text type c n sats) < 400"
    and e: "c = t \<Longrightarrow> 0 < len + length (gsv_text type c n sats)"
  shows "\<exists>info. ut4b0_gsv_msg_parser type (msg @ NUL # v) g =
      Some (g\<lparr>g_gnss_info := (g_gnss_info g)\<lparr>sat_info := info, sat_len := of_nat (len + length (gsv_text type c n sats))\<rparr>\<rparr>) \<and>
    length info = 400 \<and>
    (let w = take len (sat_info (g_gnss_info g)) @ gsv_text type c n sats in
     begins info (if c = t then butlast w @ '';'' @ [NUL] else w))"
proof -
  let ?fs = "gsv_fields h t c n sats" and ?gi = "g_gnss_info g"
  let ?data = "fields_text ?fs @ replicate (69 - length msg) NUL"
  define w where "w = take len (sat_info ?gi)"
  define hd1 where "hd1 = (if c = CHR ''1'' then nm @ '','' @ digits2 n @ '','' else [])"
  obtain idx where idx: "length idx = 20" "\<And>k. k < length ?fs \<Longrightarrow> unat (idx ! k) = off ?fs (Suc k)"
    and run: "ut4b0_gsv_msg_parser type (msg @ NUL # v) g = do {
       s \<leftarrow> (if c = CHR ''1'' then gsv_head type (of_nat n) (sat_info ?gi, sat_len ?gi) else Some (sat_info ?gi, sat_len ?gi));
       (info, len) \<leftarrow> gsv_items ?data idx [3..<length ?fs - 1] s;
       info \<leftarrow> (if c = t then (if len = 0 then None else strcpy info (unat len - 1) '';'') else Some info);
       Some (g\<lparr>g_gnss_info := ?gi\<lparr>sat_info := info, sat_len := len\<rparr>\<rparr>)
     }" by (rule gsv_reach [OF sats nc msg n]) blast
  have lw: "length w = len" using size by (simp add: w_def)
  have lfs: "length ?fs = 4 + 4 * length sats"
    by (induction sats) (auto simp: gsv_fields_def sat_fields_def)
  have len20: "length ?fs \<le> 20" using lfs sats by simp
  have sl: "sat_len ?gi = of_nat (length w)" using size(2) lw by (metis of_nat_unat ucast_id)
  have bw: "begins (sat_info ?gi) w" using size lw unfolding w_def by (intro begins_take) simp
  have gt: "gsv_text type c n sats = hd1 @ concat (map sat_entry sats)" using type by (simp add: gsv_text_def hd1_def)
  have sz: "length w + length hd1 + length (concat (map sat_entry sats)) < 400"
    using size(3) lw unfolding gt by simp
  have "\<exists>a. (if c = CHR ''1'' then gsv_head type (of_nat n) (sat_info ?gi, sat_len ?gi)
      else Some (sat_info ?gi, sat_len ?gi)) = Some (a, of_nat (length (w @ hd1))) \<and> length a = 400 \<and> begins a (w @ hd1)"
  proof (cases "c = CHR ''1''")
    case True
    have l7: "length hd1 = 7" using True type(2) n by (simp add: hd1_def digits2_nth)
    then have "length w + 7 < 400" using sz by simp
    from gsv_head_run [OF bw size(1) type n(2) this] show ?thesis using True l7 sl by (simp add: hd1_def)
  qed (use bw size(1) sl in \<open>simp add: hd1_def\<close>)
  then obtain a where a: "(if c = CHR ''1'' then gsv_head type (of_nat n) (sat_info ?gi, sat_len ?gi)
      else Some (sat_info ?gi, sat_len ?gi)) = Some (a, of_nat (length (w @ hd1)))" "length a = 400" "begins a (w @ hd1)" by blast
  have it: "concat (map (item_text ?fs) [3..<length ?fs - 1]) = concat (map sat_entry sats)"
    by (rule items_of_sats [OF sats])
  have "\<exists>b. gsv_items ?data idx [3..<length ?fs - 1] (a, of_nat (length (w @ hd1))) =
      Some (b, of_nat (length ((w @ hd1) @ concat (map (item_text ?fs) [3..<length ?fs - 1])))) \<and>
    length b = length a \<and> begins b ((w @ hd1) @ concat (map (item_text ?fs) [3..<length ?fs - 1]))"
    by (rule gsv_items_run [OF idx]) (use nc len20 a sz it in auto)
  then obtain b where b: "gsv_items ?data idx [3..<length ?fs - 1] (a, of_nat (length (w @ hd1))) =
      Some (b, of_nat (length (w @ gsv_text type c n sats)))" "length b = 400" "begins b (w @ gsv_text type c n sats)"
    unfolding it gt using a(2) by auto
  let ?W = "w @ gsv_text type c n sats"
  have lW: "length ?W < 400" using sz gt by simp
  have uW: "unat (of_nat (length ?W) :: u16) = length ?W" using lW by (intro unat_of_nat16) simp
  have "\<exists>info. (if c = t then (if (of_nat (length ?W) :: u16) = 0 then None
        else strcpy b (unat (of_nat (length ?W) :: u16) - 1) '';'') else Some b) = Some info \<and>
      length info = 400 \<and> begins info (if c = t then butlast ?W @ '';'' @ [NUL] else ?W)"
  proof (cases "c = t")
    case True
    then have ne: "?W \<noteq> []" using e lw by auto
    then have nz: "(of_nat (length ?W) :: u16) \<noteq> 0" using uW by (metis length_0_conv unat_0)
    obtain x y where W: "?W = x @ [y]" using ne by (metis rev_exhaust)
    then have lx: "length ?W - 1 = length x" "length x + 1 < 400" "butlast ?W = x" using lW by simp_all
    obtain i where "strcpy b (length x) '';'' = Some i" "length i = 400" "begins i (x @ '';'' @ [NUL])"
      using strcpy_end [of b x y] b(2,3) lx(2) W by auto
    then show ?thesis unfolding lx(3) uW lx(1) if_not_P [OF nz] if_P [OF True] by blast
  qed (use b in auto)
  then obtain info where info: "(if c = t then (if (of_nat (length ?W) :: u16) = 0 then None
        else strcpy b (unat (of_nat (length ?W) :: u16) - 1) '';'') else Some b) = Some info"
    "length info = 400" "begins info (if c = t then butlast ?W @ '';'' @ [NUL] else ?W)" by blast
  have "ut4b0_gsv_msg_parser type (msg @ NUL # v) g =
      Some (g\<lparr>g_gnss_info := ?gi\<lparr>sat_info := info, sat_len := of_nat (length ?W)\<rparr>\<rparr>)"
    by (simp only: run a(1) Option.bind.simps b(1) prod.case info(1))
  then show ?thesis using info(2,3) lw unfolding w_def by (auto simp: Let_def)
qed

section \<open>A list that does not fit\<close>

lemma memcpy_too_long: "length a < k + n \<Longrightarrow> memcpy a k src s n = None"
  by (simp add: memcpy_def)

lemma strcpy_None: "length a \<le> k + length t \<Longrightarrow> strcpy a k t = None"
  by (simp add: strcpy_too_long)

lemma gsv_item_overflow:
  assumes idx: "length idx = 20" "\<And>k. k < length fs \<Longrightarrow> unat (idx ! k) = off fs (Suc k)"
    and i: "Suc i < length fs" "length fs \<le> 20"
    and w: "length w \<le> length a" "length a < length w + length (item_text fs i)" "length a < 60000"
  shows "gsv_item (fields_text fs @ v) idx i (a, of_nat (length w)) = None"
proof -
  let ?f = "fs ! Suc i" and ?d = "fields_text fs @ v"
  have no: "i \<noteq> 5" "i \<noteq> 9" "i \<noteq> 13" "i \<noteq> 17" using w by (auto simp: item_text_def)
  have s: "off fs (Suc (Suc i)) = off fs (Suc i) + length ?f + 1" using i(1) by (rule off_Suc)
  have ab: "rd_at idx i = Some (idx ! i)" "rd_at idx (Suc i) = Some (idx ! Suc i)" using idx(1) i by (simp_all add: rd_at_def)
  have u: "unat (idx ! i) = off fs (Suc i)" "unat (idx ! Suc i) = off fs (Suc (Suc i))" using idx(2) i by simp_all
  have n: "unat (idx ! Suc i) - unat (idx ! i) = length ?f + 1" using u s by simp
  have lw: "unat (of_nat (length w) :: u16) = length w" using w by (intro unat_of_nat16) simp
  have lw2: "unat (of_nat (length w) + 2 :: u16) = length w + 2"
    using unat_of_nat16 [of "length w + 2"] w by (simp add: add.commute)
  have fl: "length (snr_flag ?f) = 2" by (simp add: snr_flag_def)
  show ?thesis
  proof (cases "i \<in> {6, 10, 14, 18}")
    case False
    then have "length a < length w + (length ?f + 1)" using w(2) no by (simp add: item_text_def)
    then have "memcpy a (length w) ?d p (length ?f + 1) = None" for p by (rule memcpy_too_long)
    then show ?thesis using False no by (simp add: gsv_item_def ab n lw)
  next
    case True
    have big: "length a < length w + 2 + (length ?f + 1)" using w(2) True no fl by (simp add: item_text_def)
    have m: "length b = length a \<Longrightarrow> memcpy b (length w + 2) ?d p (length ?f + 1) = None" for b p
      using big by (intro memcpy_too_long) simp
    have l: "strcpy a k t = Some b \<Longrightarrow> length b = length a" for k t b
      by (auto simp: strcpy_def dest: memcpy_length)
    show ?thesis using True no m l
      by (auto simp: gsv_item_def ab n lw lw2 split: Option.bind_splits if_splits)
  qed
qed

lemma gsv_items_overflow:
  assumes idx: "length idx = 20" "\<And>k. k < length fs \<Longrightarrow> unat (idx ! k) = off fs (Suc k)"
    and "\<forall>i \<in> set is. Suc i < length fs" "length fs \<le> 20" "\<forall>f \<in> set fs. no_comma f"
    and "begins a w" "length a < length w + length (concat (map (item_text fs) is))" "length a < 60000"
  shows "gsv_items (fields_text fs @ v) idx is (a, of_nat (length w)) = None"
  using assms(3-)
proof (induction "is" arbitrary: a w)
  case (Cons i "is")
  have nc: "no_comma (fs ! Suc i)" using Cons.prems(1,3) by (auto simp: nth_mem)
  show ?case
  proof (cases "length w + length (item_text fs i) \<le> length a")
    case True
    then obtain b where b: "gsv_item (fields_text fs @ v) idx i (a, of_nat (length w)) = Some (b, of_nat (length (w @ item_text fs i)))"
      "length b = length a" "begins b (w @ item_text fs i)"
      using gsv_item_run [OF idx, of i a w v] Cons.prems nc by auto
    have "gsv_items (fields_text fs @ v) idx is (b, of_nat (length (w @ item_text fs i))) = None"
      by (rule Cons.IH) (use Cons.prems b in auto)
    then show ?thesis using b by simp
  next
    case False
    then have "gsv_item (fields_text fs @ v) idx i (a, of_nat (length w)) = None"
      by (intro gsv_item_overflow [OF idx]) (use Cons.prems in \<open>auto simp: begins_def\<close>)
    then show ?thesis by simp
  qed
qed (auto simp: begins_def)

lemma gsv_overflow:
  assumes sats: "length sats \<le> 4" and nc: "\<forall>f \<in> set (gsv_fields h t c n sats). no_comma f"
    and msg: "msg @ '','' = fields_text (gsv_fields h t c n sats)" "length msg \<le> 68" "NUL \<notin> set msg"
    and n: "0 < n" "n < 100" and type: "gsv_name type = Some nm" "length nm = 3"
    and size: "length (sat_info (g_gnss_info g)) = 400" "unat (sat_len (g_gnss_info g)) = len" "len \<le> 400"
      "400 < len + length (gsv_text type c n sats)"
  shows "ut4b0_gsv_msg_parser type (msg @ NUL # v) g = None"
proof -
  let ?fs = "gsv_fields h t c n sats" and ?gi = "g_gnss_info g"
  let ?data = "fields_text ?fs @ replicate (69 - length msg) NUL"
  define w where "w = take len (sat_info ?gi)"
  obtain idx where idx: "length idx = 20" "\<And>k. k < length ?fs \<Longrightarrow> unat (idx ! k) = off ?fs (Suc k)"
    and run: "ut4b0_gsv_msg_parser type (msg @ NUL # v) g = do {
       s \<leftarrow> (if c = CHR ''1'' then gsv_head type (of_nat n) (sat_info ?gi, sat_len ?gi) else Some (sat_info ?gi, sat_len ?gi));
       (info, len) \<leftarrow> gsv_items ?data idx [3..<length ?fs - 1] s;
       info \<leftarrow> (if c = t then (if len = 0 then None else strcpy info (unat len - 1) '';'') else Some info);
       Some (g\<lparr>g_gnss_info := ?gi\<lparr>sat_info := info, sat_len := len\<rparr>\<rparr>)
     }" by (rule gsv_reach [OF sats nc msg n]) blast
  have lw: "length w = len" using size by (simp add: w_def)
  have lfs: "length ?fs = 4 + 4 * length sats"
    by (induction sats) (auto simp: gsv_fields_def sat_fields_def)
  have len20: "length ?fs \<le> 20" using lfs sats by simp
  have sl: "sat_len ?gi = of_nat (length w)" using size(2) lw by (metis of_nat_unat ucast_id)
  have bw: "begins (sat_info ?gi) w" using size lw unfolding w_def by (intro begins_take) simp
  have it: "concat (map (item_text ?fs) [3..<length ?fs - 1]) = concat (map sat_entry sats)"
    by (rule items_of_sats [OF sats])
  have items: "gsv_items ?data idx [3..<length ?fs - 1] (a, of_nat (length x)) = None"
    if "begins a x" "length a = 400" "400 < length x + length (concat (map sat_entry sats))" for a x
    by (rule gsv_items_overflow [OF idx]) (use that nc len20 it in auto)
  show ?thesis
  proof (cases "c = CHR ''1''")
    case False
    then show ?thesis using items [OF bw size(1)] size(4) lw
      by (simp add: run gsv_text_def sl)
  next
    case True
    show ?thesis
    proof (cases "length w + 7 < 400")
      case True
      from gsv_head_run [OF bw size(1) type n(2) True] obtain b where
        b: "gsv_head type (of_nat n) (sat_info ?gi, of_nat (length w)) = Some (b, of_nat (length w + 7))"
          "length b = 400" "begins b (w @ nm @ '','' @ digits2 n @ '','')" by blast
      have l: "length (w @ nm @ '','' @ digits2 n @ '','') = length w + 7" using type n by (simp add: digits2_nth)
      have "400 < length (w @ nm @ '','' @ digits2 n @ '','') + length (concat (map sat_entry sats))"
        using size(4) lw \<open>c = CHR ''1''\<close> type(1) by (simp add: gsv_text_def)
      from items [OF b(3,2) this] have "gsv_items ?data idx [3..<length ?fs - 1] (b, of_nat (length w + 7)) = None"
        unfolding l .
      then show ?thesis using b(1) unfolding run if_P [OF \<open>c = CHR ''1''\<close>] sl by (simp only: Option.bind.simps)
    next
      case False
      have u: "unat (of_nat (length w) :: u16) = length w" using size(3) lw by (intro unat_of_nat16) simp
      have "length (nm @ '','' @ digits2 n @ '','') = 7" using type n by (simp add: digits2_nth)
      then have "strcpy (sat_info ?gi) (length w) (nm @ '','' @ digits2 n @ '','') = None"
        using False size(1) by (intro strcpy_None) simp
      moreover have "unat (of_nat n :: u8) = n" using n by (simp add: unat_of_nat)
      ultimately have "gsv_head type (of_nat n) (sat_info ?gi, sat_len ?gi) = None"
        using type(1) by (simp add: gsv_head_def sl u digits2_def)
      then show ?thesis unfolding run if_P [OF \<open>c = CHR ''1''\<close>] by (simp only: Option.bind.simps)
    qed
  qed
qed

section \<open>A system without satellites\<close>

lemma gsv_zero_run:
  assumes nc: "\<forall>f \<in> set [h, [t], [c], ''00'']. no_comma f"
    and msg: "msg @ '','' = fields_text [h, [t], [c], ''00'']" "length msg \<le> 68" "NUL \<notin> set msg"
    and size: "length (sat_info (g_gnss_info g)) = 400"
  shows "ut4b0_gsv_msg_parser type (msg @ NUL # v) g =
    Some (g\<lparr>g_gnss_info := (g_gnss_info g)\<lparr>sat_info := put_text (sat_info (g_gnss_info g)) no_sat\<rparr>\<rparr>)"
proof -
  let ?fs = "[h, [t], [c], ''00'']"
  let ?data = "fields_text ?fs @ replicate (69 - length msg) NUL"
  have data: "take (if 68 < length msg then 68 else length msg) msg @ '','' @
      replicate (70 - ((if 68 < length msg then 68 else length msg) + 1)) NUL = ?data"
    using msg(1,2) by (simp add: append_assoc [symmetric] del: fields_text_simps)
  have lt: "length (fields_text ?fs) \<le> 69" using msg(2) arg_cong [OF msg(1), of length] by (simp del: fields_text_simps)
  have "replicate (69 - length msg) NUL = NUL # replicate (68 - length msg) NUL"
    using msg(2) by (simp add: Suc_diff_le replicate_Suc [symmetric] del: replicate_Suc)
  then obtain idx where idx: "comma_all ?data 0 0 (replicate 20 0) = Some (of_nat (length ?fs), idx)" "length idx = 20"
    "\<And>k. k < length ?fs \<Longrightarrow> unat (idx ! k) = off ?fs (Suc k)"
    using comma_all_fields [of ?fs "[]" 0 "replicate 20 0" "replicate (68 - length msg) NUL"] nc lt
    by (auto simp del: fields_text_simps)
  have am: "two_digits ?data (unat (idx ! 2)) = Some 0"
  proof -
    have d: "?data = fields_text [h, [t], [c]] @ digits2 0 @ CHR '','' # replicate (69 - length msg) NUL"
      using digits2_nth [of 0] by (simp add: char_of_48)
    have "unat (idx ! 2) = length (fields_text [h, [t], [c]])" using idx(3) [of 2] by (simp add: off_def)
    then show ?thesis using two_digits_at [OF _ d] by (simp del: fields_text_simps)
  qed
  have cm: "cstr_at (msg @ NUL # v) 0 = Some msg" using cstr_at_append [OF msg(3), of "[]"] by simp
  have "strcpy (sat_info (g_gnss_info g)) 0 no_sat = Some (put_text (sat_info (g_gnss_info g)) no_sat)"
    using size by (simp add: strcpy_0 text_lengths)
  then show ?thesis
    by (simp only: ut4b0_gsv_msg_parser_def Let_def cm Option.bind.simps data idx(1) prod.case am simp_thms if_True)
qed

lemma text_behind_NUL: "NUL \<notin> set s \<Longrightarrow> begins a (s @ NUL # t) \<Longrightarrow> text_of a = s"
proof -
  assume s: "NUL \<notin> set s" and "begins a (s @ NUL # t)"
  then have "a = s @ NUL # t @ drop (length (s @ NUL # t)) a"
    by (metis append_Cons append_assoc append_take_drop_id begins_def)
  with s show ?thesis using takeWhile_to_NUL unfolding text_of_def by metis
qed

section \<open>Properties\<close>

text \<open>C32. A GSV statement appends to the satellite list: for the first statement of a system its name
  and the number in view, then for every satellite its number, its elevation, whether its signal has a
  strength other than 00, and that strength; the last statement of a system closes the list with a
  semicolon. What was there before stays.\<close>

theorem ut4b0_gsv_msg_parser_appends:
  assumes "length sats \<le> 4" "\<forall>f \<in> set (gsv_fields h t c n sats). no_comma f"
    and "msg @ '','' = fields_text (gsv_fields h t c n sats)" "length msg \<le> 68" "NUL \<notin> set msg"
    and "0 < n" "n < 100" "gsv_name type = Some nm" "length nm = 3"
    and "length (sat_info (g_gnss_info g)) = 400" "unat (sat_len (g_gnss_info g)) = len"
      "len + length (gsv_text type c n sats) < 400"
    and "c = t \<Longrightarrow> 0 < len + length (gsv_text type c n sats)"
  shows "\<exists>info. ut4b0_gsv_msg_parser type (msg @ NUL # v) g =
      Some (g\<lparr>g_gnss_info := (g_gnss_info g)\<lparr>sat_info := info, sat_len := of_nat (len + length (gsv_text type c n sats))\<rparr>\<rparr>) \<and>
    length info = 400 \<and>
    (let w = take len (sat_info (g_gnss_info g)) @ gsv_text type c n sats in
     begins info (if c = t then butlast w @ '';'' @ [NUL] else w))"
  by (rule gsv_run [OF assms])

lemma sample_gsv:
  "''GPGSV,1,1,02,25,44,074,36,31,55,256,00'' @ '','' =
    fields_text (gsv_fields ''GPGSV'' (CHR ''1'') (CHR ''1'') 2 [(''25'', ''44'', ''074'', ''36''), (''31'', ''55'', ''256'', ''00'')])"
  by code_simp

lemma sample_gsv_text:
  "gsv_text 0 (CHR ''1'') 2 [(''25'', ''44'', ''074'', ''36''), (''31'', ''55'', ''256'', ''00'')] =
    ''GPS,02,25,44,1,36,31,55,0,00,''"
  by code_simp

theorem ut4b0_gsv_msg_parser_appends_witness:
  "\<exists>info. ut4b0_gsv_msg_parser 0 (''GPGSV,1,1,02,25,44,074,36,31,55,256,00'' @ NUL # ''6F'') gnss_zero =
      Some (gnss_zero\<lparr>g_gnss_info := (g_gnss_info gnss_zero)\<lparr>sat_info := info, sat_len := 29\<rparr>\<rparr>) \<and>
    begins info (''GPS,02,25,44,1,36,31,55,0,00;'' @ [NUL])"
proof -
  let ?s = "[(''25'', ''44'', ''074'', ''36''), (''31'', ''55'', ''256'', ''00'')]"
  have d: "digits2 2 = ''02''" by code_simp
  have z: "length (sat_info (g_gnss_info gnss_zero)) = 400" "sat_len (g_gnss_info gnss_zero) = 0"
    by (simp_all add: gnss_zero_def)
  have "\<exists>info. ut4b0_gsv_msg_parser 0 (''GPGSV,1,1,02,25,44,074,36,31,55,256,00'' @ NUL # ''6F'') gnss_zero =
      Some (gnss_zero\<lparr>g_gnss_info := (g_gnss_info gnss_zero)\<lparr>sat_info := info,
        sat_len := of_nat (0 + length (gsv_text 0 (CHR ''1'') 2 ?s))\<rparr>\<rparr>) \<and>
    length info = 400 \<and>
    (let w = take 0 (sat_info (g_gnss_info gnss_zero)) @ gsv_text 0 (CHR ''1'') 2 ?s in
     begins info (if CHR ''1'' = CHR ''1'' then butlast w @ '';'' @ [NUL] else w))"
    by (rule ut4b0_gsv_msg_parser_appends [of ?s "''GPGSV''" "CHR ''1''" "CHR ''1''" 2 _ 0 "''GPS''", OF _ _ sample_gsv])
      (simp_all add: sample_gsv_text z, auto simp: gsv_fields_def sat_fields_def no_comma_def d NUL_def gsv_name_def)
  then show ?thesis by (simp add: sample_gsv_text Let_def) blast
qed

text \<open>C40. The satellite list has no bound check: a statement whose entries end behind the 400 bytes of
  the array is written past it. The 36 satellites that \<^verbatim>\<open>GNSS_SAT_NUM_MAX\<close> allows need up to
  424 bytes.\<close>

theorem ut4b0_gsv_msg_parser_overruns:
  assumes "length sats \<le> 4" "\<forall>f \<in> set (gsv_fields h t c n sats). no_comma f"
    and "msg @ '','' = fields_text (gsv_fields h t c n sats)" "length msg \<le> 68" "NUL \<notin> set msg"
    and "0 < n" "n < 100" "gsv_name type = Some nm" "length nm = 3"
    and "length (sat_info (g_gnss_info g)) = 400" "unat (sat_len (g_gnss_info g)) = len" "len \<le> 400"
      "400 < len + length (gsv_text type c n sats)"
  shows "ut4b0_gsv_msg_parser type (msg @ NUL # v) g = None"
  by (rule gsv_overflow [OF assms])

theorem ut4b0_gsv_msg_parser_overruns_witness:
  "ut4b0_gsv_msg_parser 0 (''GPGSV,1,1,02,25,44,074,36,31,55,256,00'' @ NUL # ''6F'')
    (gnss_zero\<lparr>g_gnss_info := (g_gnss_info gnss_zero)\<lparr>sat_len := 380\<rparr>\<rparr>) = None"
proof -
  let ?s = "[(''25'', ''44'', ''074'', ''36''), (''31'', ''55'', ''256'', ''00'')]"
  have d: "digits2 2 = ''02''" by code_simp
  have z: "length (sat_info (g_gnss_info gnss_zero)) = 400" by (simp add: gnss_zero_def)
  show ?thesis
    by (rule ut4b0_gsv_msg_parser_overruns [of ?s "''GPGSV''" "CHR ''1''" "CHR ''1''" 2 _ 0 "''GPS''" _ 380, OF _ _ sample_gsv])
      (simp_all add: sample_gsv_text z, auto simp: gsv_fields_def sat_fields_def no_comma_def d NUL_def gsv_name_def)
qed

text \<open>A system that reports no satellite in view hides the satellites of every other: its
  statement overwrites the list with the text for no satellites but keeps the write position, so the
  statements that follow write behind the end of that text.\<close>

theorem ut4b0_gsv_msg_parser_zero_hides:
  assumes "\<forall>f \<in> set [h0, [t0], [c0], ''00'']. no_comma f"
    and "msg0 @ '','' = fields_text [h0, [t0], [c0], ''00'']" "length msg0 \<le> 68" "NUL \<notin> set msg0"
    and "length sats \<le> 4" "\<forall>f \<in> set (gsv_fields h t c n sats). no_comma f"
    and "msg @ '','' = fields_text (gsv_fields h t c n sats)" "length msg \<le> 68" "NUL \<notin> set msg"
    and "0 < n" "n < 100" "gsv_name type = Some nm" "length nm = 3"
    and "length (sat_info (g_gnss_info g)) = 400" "unat (sat_len (g_gnss_info g)) = len" "30 \<le> len"
      "len + length (gsv_text type c n sats) < 400"
  shows "\<exists>g1 g2. ut4b0_gsv_msg_parser type0 (msg0 @ NUL # v0) g = Some g1 \<and> text_of (sat_info (g_gnss_info g1)) = no_sat \<and>
    ut4b0_gsv_msg_parser type (msg @ NUL # v) g1 = Some g2 \<and> text_of (sat_info (g_gnss_info g2)) = no_sat"
proof -
  let ?p = "put_text (sat_info (g_gnss_info g)) no_sat"
  define g1 where "g1 = g\<lparr>g_gnss_info := (g_gnss_info g)\<lparr>sat_info := ?p\<rparr>\<rparr>"
  have ns: "NUL \<notin> set no_sat" by (simp add: no_sat_def NUL_def)
  have r1: "ut4b0_gsv_msg_parser type0 (msg0 @ NUL # v0) g = Some g1"
    using gsv_zero_run [OF assms(1-4,14)] by (simp add: g1_def)
  have s1: "sat_info (g_gnss_info g1) = ?p" "sat_len (g_gnss_info g1) = sat_len (g_gnss_info g)" by (simp_all add: g1_def)
  have l1: "length (sat_info (g_gnss_info g1)) = 400" using assms(14) by (simp add: s1 text_lengths)
  have "c = t \<Longrightarrow> 0 < len + length (gsv_text type c n sats)" using assms(16) by simp
  from gsv_run [OF assms(5-13) l1 _ assms(17) this, of v] assms(15) s1(2)
  obtain info where r2: "ut4b0_gsv_msg_parser type (msg @ NUL # v) g1 =
      Some (g1\<lparr>g_gnss_info := (g_gnss_info g1)\<lparr>sat_info := info, sat_len := of_nat (len + length (gsv_text type c n sats))\<rparr>\<rparr>)"
    and b: "begins info (if c = t then butlast (take len ?p @ gsv_text type c n sats) @ '';'' @ [NUL]
      else take len ?p @ gsv_text type c n sats)" by (auto simp: Let_def s1)
  have tk: "take len ?p = no_sat @ NUL # drop 29 (take len ?p)"
  proof -
    have "take 29 ?p = no_sat @ [NUL]" by (simp add: put_text_def text_lengths)
    then have "take 29 (take len ?p) = no_sat @ [NUL]" using assms(16) by (simp add: min_absorb1)
    then show ?thesis by (metis append_Cons append_Nil append_assoc append_take_drop_id)
  qed
  have "\<exists>x. begins info (no_sat @ NUL # x)"
  proof (cases "c = t")
    case True
    define y where "y = drop 29 (take len ?p) @ gsv_text type c n sats"
    have "length (drop 29 (take len ?p)) = len - 29" using assms(14,17) by (simp add: text_lengths)
    then have "y \<noteq> []" using assms(16) by (auto simp: y_def)
    then have "butlast (no_sat @ NUL # y) = no_sat @ NUL # butlast y" by (simp add: butlast_append)
    moreover have "take len ?p @ gsv_text type c n sats = no_sat @ NUL # y" by (subst tk) (simp add: y_def)
    ultimately show ?thesis using b True by auto
  next
    case False
    have "take len ?p @ gsv_text type c n sats = no_sat @ NUL # (drop 29 (take len ?p) @ gsv_text type c n sats)"
      by (subst tk) simp
    then show ?thesis using b False by metis
  qed
  then have "text_of info = no_sat" using text_behind_NUL [OF ns] by blast
  then show ?thesis using r1 r2 ns by (intro exI [of _ g1] exI) (auto simp: s1)
qed

theorem ut4b0_gsv_msg_parser_zero_hides_witness:
  "\<exists>g1 g2. ut4b0_gsv_msg_parser 2 (''GLGSV,1,1,00'' @ NUL # ''65'') (gnss_zero\<lparr>g_gnss_info := (g_gnss_info gnss_zero)\<lparr>sat_len := 40\<rparr>\<rparr>) = Some g1 \<and>
    ut4b0_gsv_msg_parser 0 (''GPGSV,1,1,02,25,44,074,36,31,55,256,00'' @ NUL # ''6F'') g1 = Some g2 \<and>
    text_of (sat_info (g_gnss_info g2)) = no_sat"
proof -
  let ?s = "[(''25'', ''44'', ''074'', ''36''), (''31'', ''55'', ''256'', ''00'')]"
  let ?g = "gnss_zero\<lparr>g_gnss_info := (g_gnss_info gnss_zero)\<lparr>sat_len := 40\<rparr>\<rparr>"
  have d: "digits2 2 = ''02''" by code_simp
  have z: "length (sat_info (g_gnss_info gnss_zero)) = 400" by (simp add: gnss_zero_def)
  have "\<exists>g1 g2. ut4b0_gsv_msg_parser 2 (''GLGSV,1,1,00'' @ NUL # ''65'') ?g = Some g1 \<and> text_of (sat_info (g_gnss_info g1)) = no_sat \<and>
    ut4b0_gsv_msg_parser 0 (''GPGSV,1,1,02,25,44,074,36,31,55,256,00'' @ NUL # ''6F'') g1 = Some g2 \<and>
    text_of (sat_info (g_gnss_info g2)) = no_sat"
    by (rule ut4b0_gsv_msg_parser_zero_hides [of "''GLGSV''" "CHR ''1''" "CHR ''1''" _ ?s "''GPGSV''" "CHR ''1''" "CHR ''1''" 2 _ 0 "''GPS''" ?g 40, OF _ _ _ _ _ _ sample_gsv])
      (simp_all add: sample_gsv_text z, auto simp: gsv_fields_def sat_fields_def no_comma_def d NUL_def gsv_name_def)
  then show ?thesis by blast
qed

end
