(* ===== verification/GnssDispatch.thy ===== *)
theory GnssDispatch
  imports GnssFix
begin

text \<open>
  The way of a received text to the parsers: it is cut into its lines, a statement is looked up by
  its head, and its parser runs only when the check code at its end is right.
\<close>

section \<open>Lines\<close>

abbreviation (input) "LF \<equiv> CHR 0x0A"
abbreviation (input) "CR \<equiv> CHR 0x0D"

definition line :: "string \<Rightarrow> bool" where
  "line l \<longleftrightarrow> NUL \<notin> set l \<and> LF \<notin> set l"

fun lines_text :: "string list \<Rightarrow> string \<Rightarrow> string" where
  "lines_text [] rest = NUL # rest"
| "lines_text (l # ls) rest = l @ LF # lines_text ls rest"

text \<open>The statement in a line starts at its first dollar or number sign.\<close>

definition statement :: "string \<Rightarrow> string" where
  "statement l = dropWhile (\<lambda>c. c \<noteq> CHR ''$'' \<and> c \<noteq> CHR ''#'') l"

definition complete :: "string \<Rightarrow> bool" where
  "complete s \<longleftrightarrow> CHR ''*'' \<in> set s \<and> CR \<in> set s"

text \<open>What the loop does, line by line; a parser also sees the lines behind its own.\<close>

fun run_lines :: "(string \<Rightarrow> 's \<Rightarrow> 's option) \<Rightarrow> string list \<Rightarrow> string \<Rightarrow> 's \<Rightarrow> 's option" where
  "run_lines handler [] rest g = Some g"
| "run_lines handler (l # ls) rest g = do {
     g \<leftarrow> (if complete (statement l) then handler (statement l @ NUL # lines_text ls rest) g else Some g);
     run_lines handler ls rest g
   }"

lemma strchr_None: "strchr s c = None \<longleftrightarrow> c \<notin> set s"
  by (induction s) auto

lemma msg_loop_skip:
  assumes "\<forall>c \<in> set s. c \<noteq> CHR ''$'' \<and> c \<noteq> CHR ''#'' \<and> c \<noteq> NUL"
  shows "msg_loop handler (u @ s @ v) (length u) g = msg_loop handler (u @ s @ v) (length u + length s) g"
  using assms
proof (induction s arbitrary: u)
  case (Cons c s)
  have "msg_loop handler (u @ (c # s) @ v) (length u) g = msg_loop handler ((u @ [c]) @ s @ v) (length (u @ [c])) g"
    by (subst msg_loop.simps) (use Cons.prems in \<open>simp add: rd_at_mid\<close>)
  also have "\<dots> = msg_loop handler ((u @ [c]) @ s @ v) (length (u @ [c]) + length s) g"
    using Cons.prems by (intro Cons.IH) auto
  finally show ?case by simp
qed simp

lemma msg_loop_statement:
  assumes "s \<noteq> []" "line s" "hd s = CHR ''$'' \<or> hd s = CHR ''#''"
  shows "msg_loop handler (u @ s @ LF # v) (length u) g = do {
    g \<leftarrow> (if complete s then handler (s @ NUL # v) g else Some g);
    msg_loop handler (u @ s @ NUL # v) (length u + length s + 1) g
  }"
proof -
  obtain c t where s: "s = c # t" using assms(1) by (cases s) auto
  have nl: "NUL \<notin> set s" "LF \<notin> set s" using assms(2) by (auto simp: line_def)
  have rd: "rd_at (u @ s @ LF # v) (length u) = Some c" using rd_at_mid [of u c] by (simp add: s)
  have c: "c \<noteq> NUL" "c = CHR ''$'' \<or> c = CHR ''#''" using assms(3) s by (auto simp: NUL_def)
  have tok: "strtok (u @ s @ LF # v) (length u) [LF] = Some (u @ s @ NUL # v, Some (length u), length u + length s + 1)"
    using assms(1) nl by (intro strtok_token) (auto simp: NUL_def)
  have cs: "cstr_at (u @ s @ NUL # v) (length u) = Some s" using nl(1) by (rule cstr_at_append)
  show ?thesis
    by (subst msg_loop.simps) (use c in \<open>simp add: rd tok cs strchr_None complete_def\<close>)
qed

lemma msg_loop_line:
  assumes "line l"
  shows "msg_loop handler (u @ l @ LF # v) (length u) g = do {
    g \<leftarrow> (if complete (statement l) then handler (statement l @ NUL # v) g else Some g);
    msg_loop handler (u @ l @ (if statement l = [] then LF else NUL) # v) (length u + length l + 1) g
  }"
proof -
  define p where "p = takeWhile (\<lambda>c. c \<noteq> CHR ''$'' \<and> c \<noteq> CHR ''#'') l"
  define s where "s = statement l"
  have l: "l = p @ s" by (simp add: p_def s_def statement_def)
  have p: "\<forall>c \<in> set p. c \<noteq> CHR ''$'' \<and> c \<noteq> CHR ''#'' \<and> c \<noteq> NUL"
    using assms set_takeWhileD unfolding p_def line_def by fastforce
  have step: "msg_loop handler (u @ p @ s @ LF # v) (length u) g = msg_loop handler ((u @ p) @ s @ LF # v) (length (u @ p)) g"
    using msg_loop_skip [OF p, of handler u "s @ LF # v" g] by simp
  show ?thesis
  proof (cases "s = []")
    case True
    have "\<not> complete s" using True by (simp add: complete_def)
    moreover have "msg_loop handler (u @ (p @ [LF]) @ v) (length u) g = msg_loop handler (u @ (p @ [LF]) @ v) (length u + length (p @ [LF])) g"
      by (rule msg_loop_skip) (use p in \<open>auto simp: NUL_def\<close>)
    ultimately show ?thesis using True l unfolding s_def by simp
  next
    case False
    then have "hd s = CHR ''$'' \<or> hd s = CHR ''#''"
      using hd_dropWhile [of "\<lambda>c. c \<noteq> CHR ''$'' \<and> c \<noteq> CHR ''#''" l] by (auto simp: s_def statement_def)
    moreover have "line s" using assms l by (auto simp: line_def)
    ultimately show ?thesis
      using msg_loop_statement [OF False, of handler "u @ p" v g] False step unfolding s_def [symmetric] by (simp add: l add.assoc)
  qed
qed

lemma msg_loop_lines:
  assumes "\<forall>l \<in> set ls. line l"
  shows "msg_loop handler (u @ lines_text ls rest) (length u) g = run_lines handler ls rest g"
  using assms
proof (induction ls arbitrary: u g)
  case Nil
  show ?case by (subst msg_loop.simps) (simp add: rd_at_mid)
next
  case (Cons l ls)
  let ?e = "if statement l = [] then LF else NUL"
  have l: "line l" and IH: "\<And>u g. msg_loop handler (u @ lines_text ls rest) (length u) g = run_lines handler ls rest g"
    using Cons by auto
  have "msg_loop handler (u @ l @ ?e # lines_text ls rest) (length u + length l + 1) h = run_lines handler ls rest h" for h
    using IH [of "u @ l @ [?e]" h] by (simp add: add.assoc)
  then show ?case using msg_loop_line [OF l, of handler u "lines_text ls rest" g] by simp
qed

section \<open>One statement\<close>

definition code_ok :: "check_type \<Rightarrow> string \<Rightarrow> string \<Rightarrow> bool" where
  "code_ok ct msg code \<longleftrightarrow>
     (case ct of
        CHECK_TYPE_XOR \<Rightarrow> foldl (\<lambda>x b. x XOR b) 0 (char_bytes msg) = ucast (fst (strtoul code 16))
      | CHECK_TYPE_CRC32 \<Rightarrow> foldl crc_byte 0 (char_bytes msg) = fst (strtoul code 16))"

lemma compare_code_ok:
  "\<exists>e. ut4b0_checkcode_compare msg code ct = Some e \<and> (e = CHECKCODE_EQ \<longleftrightarrow> code_ok ct msg code)"
  by (cases ct) (auto simp: ut4b0_checkcode_compare_def util_xor_check_def util_check_crc32_def util_xor_def
      util_crc32_eq char_bytes_def code_ok_def CHECKCODE_EQ_def CHECKCODE_NOEQ_def)

text \<open>The part of a statement that its code covers.\<close>

definition covered :: "string \<Rightarrow> string" where
  "covered s = (if starts_with s ''$command'' then s else tl s)"

lemma cmdhandler_run:
  assumes "find_stmt 0 ut4b0_stmt_handle (x # body @ CHR ''*'' # code @ CR # NUL # rest) = Some (i, ct, parse)"
    and "CHR ''*'' \<notin> set (x # body)" "NUL \<notin> set (x # body)" "code \<noteq> []" "CR \<notin> set code" "NUL \<notin> set code"
  shows "ut4b0_check_cmdhandler (x # body @ CHR ''*'' # code @ CR # NUL # rest) g = do {
     g \<leftarrow> (if i = 0 then map_option (\<lambda>gi. g\<lparr>g_gnss_info := gi\<rparr>) (gnss_receiver_info_clear (g_gnss_info g)) else Some g);
     if code_ok ct (covered (x # body)) code then parse (body @ NUL # code @ NUL # NUL # rest) g else Some g
   }"
proof -
  let ?m = "x # body @ CHR ''*'' # code @ CR # NUL # rest"
  let ?m1 = "(x # body) @ NUL # code @ CR # NUL # rest"
  let ?m2 = "(x # body) @ NUL # code @ NUL # NUL # rest"
  have t1: "strtok ?m 0 ''*'' = Some (?m1, Some 0, length (x # body) + 1)"
    using strtok_token [of "x # body" "''*''" "CHR ''*''" "[]"] assms(2,3) by (simp add: NUL_def)
  have t2: "strtok ?m1 (length (x # body) + 1) [CR] = Some (?m2, Some (length (x # body) + 1), length (x # body) + 1 + length code + 1)"
    using strtok_token [of code "[CR]" CR "(x # body) @ [NUL]"] assms(4-6) by (simp add: NUL_def)
  have c1: "cstr_at ?m2 0 = Some (x # body)" using cstr_at_append [of "x # body" "[]"] assms(3) by simp
  have c2: "cstr_at ?m2 (length (x # body) + 1) = Some code"
    using cstr_at_append [of code "(x # body) @ [NUL]"] assms(6) by simp
  obtain e where e: "ut4b0_checkcode_compare (covered (x # body)) code ct = Some e" "e = CHECKCODE_EQ \<longleftrightarrow> code_ok ct (covered (x # body)) code"
    using compare_code_ok by blast
  have d: "drop (0 + 1) ?m2 = body @ NUL # code @ NUL # NUL # rest" by simp
  show ?thesis
    unfolding ut4b0_check_cmdhandler_def assms(1) t1 c1
    by (simp only: option.case prod.case Option.bind.simps t1 t2 c1 c2 simp_thms option.distinct if_False Let_def
        covered_def [symmetric] e d)
qed

section \<open>Clearing\<close>

lemma clear_run:
  assumes "info_sizes g"
  shows "\<exists>g'. gnss_receiver_info_clear g = Some g' \<and> info_sizes g' \<and> mode_info g' = mode_info g \<and>
    leap_info g' = put_text (leap_info g) no_leap \<and> text_of (leap_info g') = no_leap \<and>
    text_of (time_info g') = no_time \<and> text_of (loc_info g') = no_loc \<and> text_of (sat_info g') = no_sat \<and> sat_len g' = 0"
proof -
  note L = info_sizesD [OF assms]
  have N: "NUL \<notin> set no_time" "NUL \<notin> set no_loc" "NUL \<notin> set no_sat" "NUL \<notin> set no_leap" "NUL \<notin> set no_ver"
    by (simp_all add: no_time_def no_loc_def no_sat_def no_leap_def no_ver_def NUL_def)
  show ?thesis
    unfolding gnss_receiver_info_clear_def using assms N
    by (simp add: strcpy_0 L text_lengths info_sizes_def)
qed

definition cleared :: "gnss \<Rightarrow> gnss" where
  "cleared g = g\<lparr>g_gnss_info := the (gnss_receiver_info_clear (g_gnss_info g))\<rparr>"

lemma clear_Some:
  "info_sizes (g_gnss_info g) \<Longrightarrow>
   map_option (\<lambda>gi. g\<lparr>g_gnss_info := gi\<rparr>) (gnss_receiver_info_clear (g_gnss_info g)) = Some (cleared g)"
  using clear_run [of "g_gnss_info g"] by (auto simp: cleared_def)

section \<open>Properties\<close>

text \<open>C19. The receive buffer is worked off line by line: every line with a statement that has a star and
  a carriage return is handed to the dispatcher, in order, and nothing else is; the loop ends at the
  terminator behind the last line.\<close>

theorem ut4b0_receiver_msg_parser_lines:
  assumes "\<forall>l \<in> set ls. line l"
  shows "ut4b0_receiver_msg_parser (lines_text ls rest) g = run_lines ut4b0_check_cmdhandler ls rest g"
  using msg_loop_lines [OF assms, of ut4b0_check_cmdhandler "[]" rest g] by (simp add: ut4b0_receiver_msg_parser_def)

theorem ut4b0_receiver_msg_parser_lines_witness:
  "ut4b0_receiver_msg_parser (''noise'' @ LF # ''x$GPXXX'' @ LF # NUL # ''$stale'') gnss_zero = Some gnss_zero"
  using ut4b0_receiver_msg_parser_lines [of "[''noise'', ''x$GPXXX'']" "''$stale''" gnss_zero]
  by (simp add: line_def statement_def complete_def NUL_def)

lemma cmdhandler_verifies:
  assumes "find_stmt 0 ut4b0_stmt_handle (x # body @ CHR ''*'' # code @ CR # NUL # rest) = Some (i, ct, parse)"
    and "CHR ''*'' \<notin> set (x # body)" "NUL \<notin> set (x # body)" "code \<noteq> []" "CR \<notin> set code" "NUL \<notin> set code"
    and "info_sizes (g_gnss_info g)"
  shows "ut4b0_check_cmdhandler (x # body @ CHR ''*'' # code @ CR # NUL # rest) g =
    (let g1 = if i = 0 then cleared g else g in
     if code_ok ct (covered (x # body)) code then parse (body @ NUL # code @ NUL # NUL # rest) g1 else Some g1)"
proof (cases "i = 0")
  case True
  then show ?thesis
    unfolding cmdhandler_run [OF assms(1-6)] Let_def if_P [OF True] clear_Some [OF assms(7)] by simp
qed (simp add: cmdhandler_run [OF assms(1-6)])

text \<open>C22. A parser runs only on a statement whose check code is right, and then on the statement
  itself; with a wrong code nothing changes, except that a statement that begins like a GPSUTC statement
  first clears the information of the last second.\<close>

theorem ut4b0_check_cmdhandler_verifies:
  assumes "find_stmt 0 ut4b0_stmt_handle (x # body @ CHR ''*'' # code @ CR # NUL # rest) = Some (i, ct, parse)"
    and "CHR ''*'' \<notin> set (x # body)" "NUL \<notin> set (x # body)" "code \<noteq> []" "CR \<notin> set code" "NUL \<notin> set code"
    and "info_sizes (g_gnss_info g)"
  shows "ut4b0_check_cmdhandler (x # body @ CHR ''*'' # code @ CR # NUL # rest) g =
    (let g1 = if i = 0 then cleared g else g in
     if code_ok ct (covered (x # body)) code then parse (body @ NUL # code @ NUL # NUL # rest) g1 else Some g1)"
  by (rule cmdhandler_verifies [OF assms])

text \<open>The code of a statement as its sender prints it.\<close>

definition crc_code :: "string \<Rightarrow> string" where
  "crc_code body = hex_string 8 (unat (foldl crc_byte 0 (char_bytes body)))"

lemma crc_code_text: "crc_code body \<noteq> []" "CR \<notin> set (crc_code body)" "NUL \<notin> set (crc_code body)"
proof -
  show "crc_code body \<noteq> []" using length_hex_string [of 8] unfolding crc_code_def by (metis list.size(3) zero_neq_numeral)
  have d: "is_digit_of 16 c" if "c \<in> set (crc_code body)" for c
    using that hex_string_is_digit unfolding crc_code_def by blast
  have "\<not> is_digit_of 16 CR" "\<not> is_digit_of 16 NUL" by (simp_all add: is_digit_of_def digit_val_def NUL_def)
  then show "CR \<notin> set (crc_code body)" "NUL \<notin> set (crc_code body)" using d by blast+
qed

lemma crc_code_ok: "code_ok CHECK_TYPE_CRC32 msg (crc_code body) \<longleftrightarrow>
  foldl crc_byte 0 (char_bytes msg) = foldl crc_byte 0 (char_bytes body)"
proof -
  let ?c = "foldl crc_byte 0 (char_bytes body)"
  have "unat ?c mod 16 ^ 8 = unat ?c" using unat32_lt [of ?c] by simp
  then have "fst (strtoul (crc_code body) 16) = ?c" using strtoul_hex_string [of 8 "unat ?c"] by (simp add: crc_code_def)
  then show ?thesis by (simp add: code_ok_def)
qed

lemma head_ANT:
  "find_stmt 0 ut4b0_stmt_handle (CHR ''#'' # ''ANTENNAA;OPEN,1'' @ t) = Some (4, CHECK_TYPE_CRC32, ut4b0_antenna_msg_parser)"
  by (simp add: ut4b0_stmt_handle_def strncmp_eq_def)

lemma antenna_run:
  assumes "length (ant_info (g_gnss_info g)) = 6"
  shows "ut4b0_antenna_msg_parser (''ANTENNAA;OPEN,1'' @ NUL # t) g =
    Some (g\<lparr>g_gnss_info := (g_gnss_info g)\<lparr>ant_info := ''OPEN;'' @ [NUL]\<rparr>\<rparr>)"
proof -
  let ?u = "''ANTENNAA'' @ [NUL]"
  have 1: "strtok (''ANTENNAA;OPEN,1'' @ NUL # t) 0 '';'' = Some (?u @ ''OPEN,1'' @ NUL # t, Some 0, 9)"
    using strtok_token [of "''ANTENNAA''" "'';''" "CHR '';''" "[]" "''OPEN,1'' @ NUL # t"] by (simp add: NUL_eq eval_nat_numeral)
  have 2: "strtok (?u @ ''OPEN,1'' @ NUL # t) 9 '','' = Some (?u @ ''OPEN'' @ NUL # ''1'' @ NUL # t, Some 9, 14)"
    using strtok_token [of "''OPEN''" "'',''" "CHR '',''" ?u "''1'' @ NUL # t"] by (simp add: NUL_eq eval_nat_numeral)
  have 3: "cstr_at (?u @ ''OPEN'' @ NUL # ''1'' @ NUL # t) 9 = Some ''OPEN''"
    using cstr_at_append [of "''OPEN''" ?u] by (simp add: NUL_eq eval_nat_numeral)
  have 4: "strcpy (ant_info (g_gnss_info g)) 0 ''OPEN;'' = Some (''OPEN;'' @ [NUL])"
    using assms by (simp add: strcpy_0 put_text_def)
  show ?thesis
    by (simp only: ut4b0_antenna_msg_parser_def 1 2 3 Option.bind.simps prod.case Let_def snprintf_def) (simp add: 4)
qed

theorem ut4b0_check_cmdhandler_verifies_witness:
  "\<exists>g'. ut4b0_check_cmdhandler (CHR ''#'' # ''ANTENNAA;OPEN,1'' @ CHR ''*'' # crc_code ''ANTENNAA;OPEN,1'' @ CR # NUL # []) gnss_zero = Some g' \<and>
    text_of (ant_info (g_gnss_info g')) = ''OPEN;''"
proof -
  have c: "covered (CHR ''#'' # ''ANTENNAA;OPEN,1'') = ''ANTENNAA;OPEN,1''" by (simp add: covered_def strncmp_eq_def)
  have l: "length (ant_info (g_gnss_info gnss_zero)) = 6" by (simp add: gnss_zero_def)
  have "ut4b0_check_cmdhandler (CHR ''#'' # ''ANTENNAA;OPEN,1'' @ CHR ''*'' # crc_code ''ANTENNAA;OPEN,1'' @ CR # NUL # []) gnss_zero =
    ut4b0_antenna_msg_parser (''ANTENNAA;OPEN,1'' @ NUL # crc_code ''ANTENNAA;OPEN,1'' @ NUL # NUL # []) gnss_zero"
    by (subst ut4b0_check_cmdhandler_verifies [OF head_ANT _ _ crc_code_text gnss_zero_sizes])
      (use c crc_code_ok in \<open>simp_all add: NUL_eq\<close>)
  then show ?thesis unfolding antenna_run [OF l] by (simp add: text_of_def NUL_eq)
qed

text \<open>C24. A statement with a CRC that was damaged on the way within four consecutive characters between
  its head character and its star, without a star or a terminator among the new ones, is not parsed: it
  changes nothing, beyond the clearing that a GPSUTC head causes.\<close>

theorem ut4b0_check_cmdhandler_rejects_damaged:
  assumes "find_stmt 0 ut4b0_stmt_handle (CHR ''#'' # body' @ CHR ''*'' # crc_code body @ CR # NUL # rest) = Some (i, CHECK_TYPE_CRC32, parse)"
    and "CHR ''*'' \<notin> set body'" "NUL \<notin> set body'" "info_sizes (g_gnss_info g)"
    and "differ_in_burst (char_bytes body) (char_bytes body') k"
  shows "ut4b0_check_cmdhandler (CHR ''#'' # body' @ CHR ''*'' # crc_code body @ CR # NUL # rest) g =
    Some (if i = 0 then cleared g else g)"
proof -
  have c: "covered (CHR ''#'' # body') = body'" by (simp add: covered_def strncmp_eq_def)
  have "\<not> code_ok CHECK_TYPE_CRC32 body' (crc_code body)"
    using crc_burst_detected [OF assms(5), of 0] by (simp add: crc_code_ok)
  moreover have "CHR ''*'' \<notin> set (CHR ''#'' # body')" "NUL \<notin> set (CHR ''#'' # body')" using assms(2,3) by (auto simp: NUL_def)
  ultimately show ?thesis
    using cmdhandler_verifies [OF assms(1) _ _ crc_code_text assms(4)] by (simp add: c Let_def)
qed

theorem ut4b0_check_cmdhandler_rejects_damaged_witness:
  "ut4b0_check_cmdhandler (CHR ''#'' # ''ANTENNAA;SHUT,1'' @ CHR ''*'' # crc_code ''ANTENNAA;OPEN,1'' @ CR # NUL # []) gnss_zero = Some gnss_zero"
proof -
  have h: "find_stmt 0 ut4b0_stmt_handle (CHR ''#'' # ''ANTENNAA;SHUT,1'' @ CHR ''*'' # crc_code ''ANTENNAA;OPEN,1'' @ CR # NUL # []) =
    Some (4, CHECK_TYPE_CRC32, ut4b0_antenna_msg_parser)"
    by (simp add: ut4b0_stmt_handle_def strncmp_eq_def)
  have "''ANTENNAA;OPEN,1'' ! j = ''ANTENNAA;SHUT,1'' ! j" if "j < 15" "j < 9 \<or> 9 + 4 \<le> j" for j
  proof -
    have "j \<in> {0,1,2,3,4,5,6,7,8,13,14}" using that by auto
    then show ?thesis by auto
  qed
  moreover have "char_bytes ''ANTENNAA;OPEN,1'' ! 9 \<noteq> char_bytes ''ANTENNAA;SHUT,1'' ! 9" by (simp add: char_bytes_def)
  then have "char_bytes ''ANTENNAA;OPEN,1'' \<noteq> char_bytes ''ANTENNAA;SHUT,1''" by metis
  ultimately have "differ_in_burst (char_bytes ''ANTENNAA;OPEN,1'') (char_bytes ''ANTENNAA;SHUT,1'') 9"
    by (auto simp: differ_in_burst_def char_bytes_def nth_map simp del: list.map)
  from ut4b0_check_cmdhandler_rejects_damaged [OF h _ _ gnss_zero_sizes this]
  show ?thesis by (simp add: NUL_eq)
qed

end
