(* ===== verification/GnssUtc.thy ===== *)
theory GnssUtc
  imports GnssDispatch
begin

text \<open>
  The UTC statements: reading their parameters, and what becomes of a leap second forecast when the
  statements that announce it keep coming.
\<close>

section \<open>Reading the parameters\<close>

fun apply_fields :: "(u8 \<Rightarrow> int \<Rightarrow> utc_params \<Rightarrow> utc_params) \<Rightarrow> u8 \<Rightarrow> string list \<Rightarrow> utc_params \<Rightarrow> utc_params" where
  "apply_fields store n [] v = v"
| "apply_fields store n (f # fs) v = apply_fields store (n + 1) fs (store (n + 1) (atoi f) v)"

lemma skip_head_run:
  assumes "CHR '';'' \<notin> set h" "length u + length h + 1 < 256"
  shows "skip_head (u @ h @ CHR '';'' # v) (of_nat (length u)) = Some (of_nat (length u + length h + 1))"
  using assms
proof (induction h arbitrary: u)
  case Nil
  then have "unat (of_nat (length u) :: u8) = length u" by (intro unat_of_nat8') simp
  then show ?case by (subst skip_head.simps) (simp add: rd_at_mid)
next
  case (Cons c h)
  have "unat (of_nat (length u) :: u8) = length u" using Cons.prems by (intro unat_of_nat8') simp
  then have "skip_head (u @ (c # h) @ CHR '';'' # v) (of_nat (length u)) =
    skip_head ((u @ [c]) @ h @ CHR '';'' # v) (of_nat (length (u @ [c])))"
    using Cons.prems(1) by (subst skip_head.simps) (auto simp: rd_at_mid add.commute)
  also have "\<dots> = Some (of_nat (length (u @ [c]) + length h + 1))" using Cons.prems by (intro Cons.IH) auto
  finally show ?case by (simp add: add_ac)
qed

text \<open>One parameter: its characters go to the buffer, and the comma ends it.\<close>

lemma utc_loop_chars:
  assumes "no_comma f" "length u + length f < 256" "length w + length f < 20" "length buf = 20" "take (length w) buf = w"
  shows "\<exists>buf'. utc_loop store (u @ f @ v) (of_nat (length u)) n (of_nat (length w)) buf p =
      utc_loop store (u @ f @ v) (of_nat (length (u @ f))) n (of_nat (length (w @ f))) buf' p \<and>
    length buf' = 20 \<and> take (length (w @ f)) buf' = w @ f"
  using assms
proof (induction f arbitrary: u w buf)
  case (Cons c f)
  have c: "c \<noteq> CHR '',''" "c \<noteq> NUL" using Cons.prems(1) by (auto simp: no_comma_def)
  have p: "unat (of_nat (length u) :: u8) = length u" "unat (of_nat (length w) :: u8) = length w"
    using Cons.prems by (intro unat_of_nat8'; simp)+
  have lw: "length w < length buf" using Cons.prems by simp
  have step: "utc_loop store (u @ (c # f) @ v) (of_nat (length u)) n (of_nat (length w)) buf p =
    utc_loop store ((u @ [c]) @ f @ v) (of_nat (length (u @ [c]))) n (of_nat (length (w @ [c]))) (buf[length w := c]) p"
    using c by (subst utc_loop.simps) (simp add: rd_at_mid p wr_at_def lw add.commute)
  have tk: "take (length (w @ [c])) (buf[length w := c]) = w @ [c]"
    using Cons.prems(5) lw by (simp add: take_Suc_conv_app_nth take_update_swap)
  have "\<exists>buf'. utc_loop store ((u @ [c]) @ f @ v) (of_nat (length (u @ [c]))) n (of_nat (length (w @ [c]))) (buf[length w := c]) p =
      utc_loop store ((u @ [c]) @ f @ v) (of_nat (length ((u @ [c]) @ f))) n (of_nat (length ((w @ [c]) @ f))) buf' p \<and>
    length buf' = 20 \<and> take (length ((w @ [c]) @ f)) buf' = (w @ [c]) @ f"
    by (rule Cons.IH) (use Cons.prems tk in \<open>auto simp: no_comma_def\<close>)
  then show ?case using step by simp
qed auto

lemma utc_loop_field:
  assumes "no_comma f" "length u + length f < 256" "length f < 20" "length buf = 20"
  shows "\<exists>buf'. utc_loop store (u @ f @ CHR '','' # v) (of_nat (length u)) n 0 buf p =
      (let p' = store (n + 1) (atoi f) p in
       if n + 1 = 8 then Some p'
       else utc_loop store (u @ f @ CHR '','' # v) (of_nat (length (u @ f @ '',''))) (n + 1) 0 buf' p') \<and>
    length buf' = 20"
proof -
  obtain b where b: "utc_loop store (u @ f @ CHR '','' # v) (of_nat (length u)) n 0 buf p =
      utc_loop store (u @ f @ CHR '','' # v) (of_nat (length (u @ f))) n (of_nat (length f)) b p"
    "length b = 20" "take (length f) b = f"
    using utc_loop_chars [of f u "[]" buf store "CHR '','' # v" n p] assms by auto
  have r: "rd_at (u @ f @ CHR '','' # v) (length (u @ f)) = Some (CHR '','')"
    using rd_at_mid [of "u @ f"] by simp
  have pos: "unat (of_nat (length (u @ f)) :: u8) = length (u @ f)" "unat (of_nat (length f) :: u8) = length f"
    using assms by (intro unat_of_nat8'; simp)+
  have nf: "NUL \<notin> set f" using assms(1) by (simp add: no_comma_def)
  have "b[length f := NUL] = f @ NUL # drop (Suc (length f)) b"
    using b(2,3) assms(3) by (metis upd_conv_take_nth_drop)
  then have tx: "text_of (b[length f := NUL]) = f" using takeWhile_to_NUL [OF nf] by (simp add: text_of_def)
  have wr: "wr_at b (length f) NUL = Some (b[length f := NUL])" using b(2) assms(3) by (simp add: wr_at_def)
  have comma: "(CHR '','' = NUL) = False" by (simp add: NUL_def)
  have nxt: "(of_nat (length (u @ f)) + 1 :: u8) = of_nat (length (u @ f @ '',''))" by simp
  have "utc_loop store (u @ f @ CHR '','' # v) (of_nat (length (u @ f))) n (of_nat (length f)) b p =
    (let p' = store (n + 1) (atoi f) p in
       if n + 1 = 8 then Some p'
       else utc_loop store (u @ f @ CHR '','' # v) (of_nat (length (u @ f @ '',''))) (n + 1) 0 (b[length f := NUL]) p')"
    by (subst utc_loop.simps) (simp only: pos r wr comma Option.bind.simps if_False if_True Let_def tx nxt simp_thms)
  then show ?thesis using b by (intro exI [of _ "b[length f := NUL]"]) simp
qed

lemma utc_loop_fields:
  assumes "\<forall>f \<in> set fs. no_comma f \<and> length f < 20" "length (u @ fields_text fs) < 256" "unat n + length fs = 8" "fs \<noteq> []"
    "length buf = 20"
  shows "utc_loop store (u @ fields_text fs @ v) (of_nat (length u)) n 0 buf p = Some (apply_fields store n fs p)"
  using assms
proof (induction fs arbitrary: u n buf p)
  case (Cons f fs)
  have n1: "unat (n + 1) = unat n + 1" using Cons.prems(3) by (intro unat_inc8) simp
  obtain b where b: "utc_loop store (u @ f @ CHR '','' # (fields_text fs @ v)) (of_nat (length u)) n 0 buf p =
      (let p' = store (n + 1) (atoi f) p in
       if n + 1 = 8 then Some p'
       else utc_loop store (u @ f @ CHR '','' # (fields_text fs @ v)) (of_nat (length (u @ f @ '',''))) (n + 1) 0 b p')"
    "length b = 20"
    using utc_loop_field [of f u buf store "fields_text fs @ v" n p] Cons.prems by auto
  show ?case
  proof (cases "fs = []")
    case True
    then have "n + 1 = 8" using Cons.prems(3) n1 by (simp add: word_unat_eq_iff)
    then show ?thesis using b True by (simp add: Let_def)
  next
    case False
    then have "length fs \<noteq> 0" by simp
    then have "unat (n + 1) \<noteq> 8" using Cons.prems(3) n1 by (metis add.commute add_cancel_right_right add_Suc_right list.size(4) plus_1_eq_Suc One_nat_def add_Suc)
    then have n8: "n + 1 \<noteq> 8" by auto
    have "utc_loop store ((u @ f @ '','') @ fields_text fs @ v) (of_nat (length (u @ f @ '',''))) (n + 1) 0 b (store (n + 1) (atoi f) p) =
      Some (apply_fields store (n + 1) fs (store (n + 1) (atoi f) p))"
      by (rule Cons.IH) (use Cons.prems False n1 b(2) in auto)
    then show ?thesis using b n8 by (simp add: Let_def)
  qed
qed simp

definition utc_body :: "string \<Rightarrow> string list \<Rightarrow> string \<Rightarrow> string" where
  "utc_body h fs rest = h @ CHR '';'' # fields_text fs @ rest"

definition utc_ok :: "string \<Rightarrow> string list \<Rightarrow> bool" where
  "utc_ok h fs \<longleftrightarrow> CHR '';'' \<notin> set h \<and> length fs = 8 \<and> (\<forall>f \<in> set fs. no_comma f \<and> length f < 20) \<and>
     length h + 1 + length (fields_text fs) < 256"

lemma utc_read_fields:
  assumes "utc_ok h fs"
  shows "utc_read store (utc_body h fs rest) =
    Some (apply_fields store 0 fs \<lparr>utc_wn = 0, utc_dn = 0, utc_now = 0, utc_next = 0\<rparr>)"
proof -
  have a: "CHR '';'' \<notin> set h" "length fs = 8" "\<forall>f \<in> set fs. no_comma f \<and> length f < 20"
    "length h + 1 + length (fields_text fs) < 256" using assms by (simp_all add: utc_ok_def)
  then have "fs \<noteq> []" by auto
  have 1: "skip_head (utc_body h fs rest) 0 = Some (of_nat (length (h @ '';'')))"
    using skip_head_run [of h "[]" "fields_text fs @ rest"] a by (simp add: utc_body_def)
  have 2: "utc_loop store ((h @ '';'') @ fields_text fs @ rest) (of_nat (length (h @ '';''))) 0 0 (replicate 20 NUL) q =
    Some (apply_fields store 0 fs q)" for q
    by (rule utc_loop_fields) (use a \<open>fs \<noteq> []\<close> in auto)
  have b: "utc_body h fs rest = (h @ '';'') @ fields_text fs @ rest" by (simp add: utc_body_def)
  show ?thesis unfolding utc_read_def 1 Option.bind.simps unfolding b by (rule 2)
qed

lemma eight: "length fs = 8 \<Longrightarrow> \<exists>a b c d e f g h. fs = [a, b, c, d, e, f, g, h]"
  by (auto simp: length_Suc_conv numeral_eq_Suc)

lemma gpsbds_fields:
  "length fs = 8 \<Longrightarrow> apply_fields gpsbds_store 0 fs p =
    \<lparr>utc_wn = of_int (atoi (fs ! 4)), utc_dn = of_int (atoi (fs ! 5)), utc_now = of_int (atoi (fs ! 6)), utc_next = of_int (atoi (fs ! 7))\<rparr>"
  by (drule eight) (auto simp: gpsbds_store_def)

lemma gal_fields:
  "length fs = 8 \<Longrightarrow> apply_fields gal_store 0 fs p =
    \<lparr>utc_wn = of_int (atoi (fs ! 5)), utc_dn = of_int (atoi (fs ! 6)), utc_now = of_int (atoi (fs ! 2)), utc_next = of_int (atoi (fs ! 7))\<rparr>"
  by (drule eight) (auto simp: gal_store_def)

section \<open>Properties\<close>

lemma starts_append: "starts_with h k \<Longrightarrow> starts_with (h @ t) k"
  unfolding starts_with_iff by auto

lemma starts_exclusive: "starts_with h a \<Longrightarrow> take 1 a \<noteq> take 1 b \<Longrightarrow> a \<noteq> [] \<Longrightarrow> b \<noteq> [] \<Longrightarrow> \<not> starts_with h b"
  by (cases h; cases a; cases b) (auto simp: strncmp_eq_def)

text \<open>C33. The three UTC statements feed the leap second state machine with the week, the day and the
  current and announced leap seconds that they carry; those of BeiDou are raised by 14, the number of
  leap seconds at its epoch.\<close>

theorem ut4b0_utc_msg_parsers:
  assumes "utc_ok h fs"
  shows "(starts_with h ''GPSUTC'' \<longrightarrow> ut4b0_gpsbds_utc_msg_parser (utc_body h fs rest) g =
      leap_update GNSS_SAT_TYPE_GPS \<lparr>utc_wn = of_int (atoi (fs ! 4)), utc_dn = of_int (atoi (fs ! 5)),
        utc_now = of_int (atoi (fs ! 6)), utc_next = of_int (atoi (fs ! 7))\<rparr> g) \<and>
    (starts_with h ''BDSUTC'' \<longrightarrow> ut4b0_gpsbds_utc_msg_parser (utc_body h fs rest) g =
      leap_update GNSS_SAT_TYPE_BDS \<lparr>utc_wn = of_int (atoi (fs ! 4)), utc_dn = of_int (atoi (fs ! 5)),
        utc_now = of_int (atoi (fs ! 6)) + 14, utc_next = of_int (atoi (fs ! 7)) + 14\<rparr> g) \<and>
    ut4b0_gal_utc_msg_parser (utc_body h fs rest) g =
      leap_update GNSS_SAT_TYPE_GAL \<lparr>utc_wn = of_int (atoi (fs ! 5)), utc_dn = of_int (atoi (fs ! 6)),
        utc_now = of_int (atoi (fs ! 2)), utc_next = of_int (atoi (fs ! 7))\<rparr> g"
proof -
  have l: "length fs = 8" using assms by (simp add: utc_ok_def)
  have b: "starts_with (utc_body h fs rest) k" if "starts_with h k" for k
    unfolding utc_body_def using that by (rule starts_append)
  have "\<not> starts_with (utc_body h fs rest) ''GPSUTC''" if "starts_with h ''BDSUTC''"
    using starts_exclusive [OF b [OF that], of "''GPSUTC''"] by simp
  then show ?thesis using b [of "''GPSUTC''"] b [of "''BDSUTC''"]
    by (auto simp: ut4b0_gpsbds_utc_msg_parser_def ut4b0_gal_utc_msg_parser_def utc_read_fields [OF assms]
        gpsbds_fields [OF l] gal_fields [OF l])
qed

lemma sample_utc: "utc_ok ''BDSUTCA,97'' [''0'', ''0'', ''0'', ''0'', ''435'', ''0'', ''3'', ''4'']"
  by (simp add: utc_ok_def no_comma_def NUL_eq)

theorem ut4b0_utc_msg_parsers_witness:
  "ut4b0_gpsbds_utc_msg_parser (utc_body ''BDSUTCA,97'' [''0'', ''0'', ''0'', ''0'', ''435'', ''0'', ''3'', ''4''] []) gnss_zero =
    leap_update 1 \<lparr>utc_wn = 435, utc_dn = 0, utc_now = 17, utc_next = 18\<rparr> gnss_zero"
proof -
  have a: "atoi ''435'' = 435" "atoi ''0'' = 0" "atoi ''3'' = 3" "atoi ''4'' = 4" by code_simp+
  have s: "starts_with ''BDSUTCA,97'' ''BDSUTC''" by (simp add: strncmp_eq_def)
  show ?thesis using ut4b0_utc_msg_parsers [OF sample_utc, of "[]" gnss_zero] s by (simp add: a)
qed

text \<open>A pending forecast is shown for one second at most. The GPS statement of the next second
  clears all information texts before it is parsed; since the forecast is already pending, the state
  machine writes no new text, and the query for the leap second reports none.\<close>

theorem gpsutc_erases_forecast:
  assumes "utc_ok h fs" "starts_with h ''GPSUTC''" "body = utc_body h fs tail"
    and "CHR ''*'' \<notin> set body" "NUL \<notin> set body" "code \<noteq> []" "CR \<notin> set code" "NUL \<notin> set code"
    and "info_sizes (g_gnss_info g)" "leap_sign (g_leap g) \<noteq> 0"
    and "(of_int (atoi (fs ! 6)) :: u8) \<noteq> of_int (atoi (fs ! 7))"
  shows "\<exists>g'. ut4b0_check_cmdhandler (CHR ''#'' # body @ CHR ''*'' # code @ CR # NUL # rest) g = Some g' \<and>
    g_leap g' = g_leap g \<and> text_of (leap_info (g_gnss_info g')) = no_leap"
proof -
  have l: "length fs = 8" using assms(1) by (simp add: utc_ok_def)
  have "starts_with body ''GPSUTC''" unfolding assms(3) utc_body_def using assms(2) by (rule starts_append)
  then have "starts_with (CHR ''#'' # body) ''#GPSUTC''" by (simp add: strncmp_eq_def)
  then have "starts_with ((CHR ''#'' # body) @ CHR ''*'' # code @ CR # NUL # rest) ''#GPSUTC''" by (rule starts_append)
  then have f: "find_stmt 0 ut4b0_stmt_handle (CHR ''#'' # body @ CHR ''*'' # code @ CR # NUL # rest) =
    Some (0, CHECK_TYPE_CRC32, ut4b0_gpsbds_utc_msg_parser)" by (simp add: ut4b0_stmt_handle_def)
  define g1 where "g1 = cleared g"
  obtain gi where gi: "gnss_receiver_info_clear (g_gnss_info g) = Some gi" "text_of (leap_info gi) = no_leap"
    using clear_run [OF assms(9)] by blast
  then have g1: "g_leap g1 = g_leap g" "g_gnss_info g1 = gi" by (simp_all add: g1_def cleared_def)
  have body: "body @ NUL # code @ NUL # NUL # rest = utc_body h fs (tail @ NUL # code @ NUL # NUL # rest)"
    by (simp add: assms(3) utc_body_def)
  have sb: "starts_with (utc_body h fs t) ''GPSUTC''" for t unfolding utc_body_def using assms(2) by (rule starts_append)
  have "ut4b0_gpsbds_utc_msg_parser (body @ NUL # code @ NUL # NUL # rest) g1 = Some g1"
    unfolding body using sb assms(10,11)
    by (simp add: ut4b0_gpsbds_utc_msg_parser_def utc_read_fields [OF assms(1)] gpsbds_fields [OF l] leap_update_def g1 pending_step)
  moreover have "CHR ''*'' \<notin> set (CHR ''#'' # body)" "NUL \<notin> set (CHR ''#'' # body)" using assms(4,5) by (auto simp: NUL_eq)
  ultimately have "ut4b0_check_cmdhandler (CHR ''#'' # body @ CHR ''*'' # code @ CR # NUL # rest) g = Some g1"
    using cmdhandler_verifies [OF f _ _ assms(6-9)] by (simp add: Let_def g1_def)
  then show ?thesis using g1 gi by simp
qed

theorem gpsutc_erases_forecast_witness:
  "\<exists>g'. ut4b0_check_cmdhandler
      (CHR ''#'' # utc_body ''GPSUTCA,97'' [''0'', ''0'', ''0'', ''0'', ''1929'', ''7'', ''17'', ''18''] ''0'' @ CHR ''*'' # ''00'' @ CR # NUL # [])
      (gnss_zero\<lparr>g_leap := (g_leap gnss_zero)\<lparr>now_leap := 17, next_leap := 18, leap_sign := 1\<rparr>\<rparr>) = Some g' \<and>
    leap_sign (g_leap g') = 1 \<and> text_of (leap_info (g_gnss_info g')) = ''235960,31,12,2016,18,18,00;''"
proof -
  let ?fs = "[''0'', ''0'', ''0'', ''0'', ''1929'', ''7'', ''17'', ''18'']"
  let ?g = "gnss_zero\<lparr>g_leap := (g_leap gnss_zero)\<lparr>now_leap := 17, next_leap := 18, leap_sign := 1\<rparr>\<rparr>"
  have a: "atoi ''17'' = 17" "atoi ''18'' = 18" by code_simp+
  have "\<exists>g'. ut4b0_check_cmdhandler (CHR ''#'' # utc_body ''GPSUTCA,97'' ?fs ''0'' @ CHR ''*'' # ''00'' @ CR # NUL # []) ?g = Some g' \<and>
    g_leap g' = g_leap ?g \<and> text_of (leap_info (g_gnss_info g')) = no_leap"
    by (rule gpsutc_erases_forecast [of "''GPSUTCA,97''" ?fs])
      (use gnss_zero_sizes in \<open>simp_all add: utc_ok_def no_comma_def NUL_eq strncmp_eq_def utc_body_def a\<close>)
  then show ?thesis by (auto simp: no_leap_def)
qed

end
