(* ===== verification/GnssCmd.thy ===== *)
theory GnssCmd
  imports GnssFix
begin

text \<open>
  Commands to the satellite receiver: the last part of \<^verbatim>\<open>APP/Gnss/ut4b0_receiver.c\<close> and
  \<^verbatim>\<open>APP/Gnss/gnss_receiver.c\<close>. A command is stored in \<^verbatim>\<open>g_save_cmd\<close>, sent, and confirmed
  by the replies that the GNSS task parses meanwhile. The texts that arrive while the caller waits for
  the semaphore are an argument of every command.
\<close>

section \<open>State\<close>

record gdev =
  rx :: gnss
  gp_enable :: u8
  gp_mode :: u8
  gp_priority :: string
  sent :: "string list"  \<comment> \<open>what \<open>GNSS_USART_Send\<close> was given, the latest last\<close>

abbreviation (input) "CRLF \<equiv> [CHR 0x0D, CHR 0x0A]"

section \<open>Storing a command\<close>

text \<open>\<open>strstr(s, "\r\n")\<close>, as the number of characters before it.\<close>

fun find_crlf :: "string \<Rightarrow> nat option" where
  "find_crlf (a # b # s) =
     (if a = CHR 0x0D \<and> b = CHR 0x0A then Some 0 else map_option Suc (find_crlf (b # s)))"
| "find_crlf s = None"

text \<open>The loop over the command: \<open>s\<close> is the text from \<open>p\<close> on, \<open>at\<close> its position.
  When no further line end is found, \<open>p\<close> is the null pointer, which the loop then reads.\<close>

function save_loop :: "string \<Rightarrow> nat \<Rightarrow> u8 \<Rightarrow> u8 list \<Rightarrow> (u8 \<times> u8 list) option" where
  "save_loop s at num index =
     (if s = [] then Some (num, index)
      else case find_crlf s of
        None \<Rightarrow> None
      | Some k \<Rightarrow>
          let s' = drop (k + 2) s; at' = at + k + 2 in
          if s' \<noteq> [] then do {
            index \<leftarrow> wr_at index (unat num) (of_nat at');
            save_loop s' at' (num + 1) index
          } else save_loop s' at' num index)"
  by pat_completeness auto
termination
  by (relation "measure (\<lambda>(s, at, num, index). length s)") auto

declare save_loop.simps [simp del]

definition ut4b0_receiver_cmd_save :: "string \<Rightarrow> combcmd \<Rightarrow> combcmd option" where
  "ut4b0_receiver_cmd_save p_cmd c = do {
     buf \<leftarrow> strcpy (cmd_buf c) 0 p_cmd;
     index \<leftarrow> wr_at (cmd_index c) 0 0;
     (num, index) \<leftarrow> save_loop p_cmd 0 1 index;
     Some (c\<lparr>cmd_num := num, cmd_index := index, cmd_buf := buf\<rparr>)
   }"

section \<open>Waiting for the confirmation\<close>

text \<open>\<open>OSSemPend\<close> with a time-out: the semaphore is taken as soon as it is posted; \<open>msgs\<close>
  are the texts that the GNSS task parses before the time-out.\<close>

fun reply_pend :: "string list \<Rightarrow> gnss \<Rightarrow> (gnss \<times> bool) option" where
  "reply_pend [] g =
     (if 0 < reply_sem g then Some (g\<lparr>reply_sem := reply_sem g - 1\<rparr>, True) else Some (g, False))"
| "reply_pend (m # ms) g =
     (if 0 < reply_sem g then Some (g\<lparr>reply_sem := reply_sem g - 1\<rparr>, True)
      else do { g \<leftarrow> gnss_receiver_msg_parser m g; reply_pend ms g })"

definition ut4b0_receiver_configuration :: "string list \<Rightarrow> string \<Rightarrow> gdev \<Rightarrow> (gdev \<times> u8) option" where
  "ut4b0_receiver_configuration msgs p_cmd d =
     (if 50 < length p_cmd then Some (d, NG)
      else do {
        c \<leftarrow> ut4b0_receiver_cmd_save p_cmd (g_save_cmd (rx d));
        let d = d\<lparr>rx := (rx d)\<lparr>g_save_cmd := c, cmd_send_flag := 1\<rparr>, sent := sent d @ [p_cmd]\<rparr>;
        (g, taken) \<leftarrow> reply_pend msgs (rx d);
        Some (d\<lparr>rx := g\<lparr>cmd_send_flag := 0\<rparr>\<rparr>, if taken then OK else NG)
      })"

section \<open>The commands\<close>

definition acmode_cmd :: "u8 \<Rightarrow> string option" where
  "acmode_cmd acmode =
     (if acmode = 0 then Some (''UNMASK GPS'' @ CRLF @ ''UNMASK BDS'' @ CRLF @ ''UNMASK GLO'' @ CRLF @ ''UNMASK GAL'' @ CRLF)
      else if acmode = 1 then Some (''MASK BDS'' @ CRLF @ ''MASK GLO'' @ CRLF @ ''MASK GAL'' @ CRLF @ ''UNMASK GPS'' @ CRLF)
      else if acmode = 2 then Some (''MASK GPS'' @ CRLF @ ''MASK GLO'' @ CRLF @ ''MASK GAL'' @ CRLF @ ''UNMASK BDS'' @ CRLF)
      else if acmode = 3 then Some (''MASK GPS'' @ CRLF @ ''MASK BDS'' @ CRLF @ ''MASK GAL'' @ CRLF @ ''UNMASK GLO'' @ CRLF)
      else if acmode = 4 then Some (''MASK GPS'' @ CRLF @ ''MASK BDS'' @ CRLF @ ''MASK GLO'' @ CRLF @ ''UNMASK GAL'' @ CRLF)
      else None)"

definition ut4b0_receiver_acmode_set :: "string list \<Rightarrow> u8 \<Rightarrow> gdev \<Rightarrow> (gdev \<times> u8) option" where
  "ut4b0_receiver_acmode_set msgs acmode d =
     (case acmode_cmd acmode of
        Some cmd \<Rightarrow> ut4b0_receiver_configuration msgs cmd d
      | None \<Rightarrow> Some (d, OK))"

definition ut4b0_receiver_serial_baud_set :: "string list \<Rightarrow> string \<Rightarrow> gdev \<Rightarrow> (gdev \<times> u8) option" where
  "ut4b0_receiver_serial_baud_set msgs p_baud d = do {
     buf \<leftarrow> strcpy (replicate 20 NUL) 0 (''CONFIG COM1 '' @ p_baud);
     ut4b0_receiver_configuration msgs (text_of buf) d
   }"

definition ut4b0_receiver_utc_statement_set :: "string list \<Rightarrow> gdev \<Rightarrow> (gdev \<times> u8) option" where
  "ut4b0_receiver_utc_statement_set msgs d =
     ut4b0_receiver_configuration msgs (''GPSUTC 1'' @ CRLF @ ''BDSUTC 1'' @ CRLF @ ''GALUTC 1'' @ CRLF) d"

abbreviation (input) "GNSS_STMT_ZDA \<equiv> (0 :: u8)"
abbreviation (input) "GNSS_STMT_GGA \<equiv> (1 :: u8)"
abbreviation (input) "GNSS_STMT_GSV \<equiv> (2 :: u8)"
abbreviation (input) "GNSS_STMT_UTC \<equiv> (3 :: u8)"
abbreviation (input) "GNSS_STMT_PPS \<equiv> (4 :: u8)"
abbreviation (input) "GNSS_STMT_ANT \<equiv> (5 :: u8)"
abbreviation (input) "GNSS_STMT_VER \<equiv> (6 :: u8)"

definition ut4b0_receiver_statement_set :: "string list \<Rightarrow> u8 \<Rightarrow> u8 \<Rightarrow> gdev \<Rightarrow> (gdev \<times> u8) option" where
  "ut4b0_receiver_statement_set msgs stmt_index on_off_flag d =
     (if on_off_flag = 1 then
        if stmt_index = GNSS_STMT_ZDA then ut4b0_receiver_configuration msgs ''GPZDA 1'' d
        else if stmt_index = GNSS_STMT_GGA then ut4b0_receiver_configuration msgs ''GNGGA 1'' d
        else if stmt_index = GNSS_STMT_GSV then ut4b0_receiver_configuration msgs ''GPGSV 1'' d
        else if stmt_index = GNSS_STMT_UTC then ut4b0_receiver_utc_statement_set msgs d
        else if stmt_index = GNSS_STMT_PPS then ut4b0_receiver_configuration msgs ''BBPPSMSGA ONCHANGED '' d
        else if stmt_index = GNSS_STMT_ANT then ut4b0_receiver_configuration msgs ''ANTENNAA 1'' d
        else if stmt_index = GNSS_STMT_VER then ut4b0_receiver_configuration msgs ''VERSIONA 1'' d
        else Some (d, OK)
      else
        if stmt_index = GNSS_STMT_ZDA then ut4b0_receiver_configuration msgs ''UNLOG GPZDA'' d
        else if stmt_index = GNSS_STMT_GGA then ut4b0_receiver_configuration msgs ''UNLOG GNGGA'' d
        else if stmt_index = GNSS_STMT_GSV then ut4b0_receiver_configuration msgs ''UNLOG GPGSV'' d
        else if stmt_index = GNSS_STMT_UTC \<or> stmt_index = GNSS_STMT_PPS then Some (d, NG)
        else if stmt_index = GNSS_STMT_ANT then ut4b0_receiver_configuration msgs ''UNLOG ANTENNAA'' d
        else if stmt_index = GNSS_STMT_VER then ut4b0_receiver_configuration msgs ''UNLOG VERSIONA'' d
        else Some (d, OK))"

section \<open>The receiver layer\<close>

text \<open>The index of the first table entry that the parameter starts with.\<close>

fun prefix_index :: "string list \<Rightarrow> string \<Rightarrow> nat \<Rightarrow> nat option" where
  "prefix_index [] p i = None"
| "prefix_index (t # ts) p i = (if starts_with p t then Some i else prefix_index ts p (Suc i))"

definition gnss_receiver_acmode_set :: "string list \<Rightarrow> string \<Rightarrow> gdev \<Rightarrow> (gdev \<times> u8) option" where
  "gnss_receiver_acmode_set msgs p_mode d =
     (case prefix_index [''MIX'', ''GPS'', ''BDS'', ''GLO'', ''GAL''] p_mode 0 of
        None \<Rightarrow> Some (d, NG)
      | Some i \<Rightarrow> do {
          let d = d\<lparr>gp_mode := of_nat (i + 1)\<rparr>;
          (d, r) \<leftarrow> (if rec_type (rx d) = 0 then ut4b0_receiver_acmode_set msgs (of_nat i) d else Some (d, OK));
          if r = NG then Some (d, NG)
          else do {
            info \<leftarrow> strcpy (mode_info (g_gnss_info (rx d))) 0 p_mode;
            Some (d\<lparr>rx := (rx d)\<lparr>g_gnss_info := (g_gnss_info (rx d))\<lparr>mode_info := info\<rparr>\<rparr>\<rparr>, OK)
          }
        })"

definition gnss_receiver_serial_baud_set :: "string list \<Rightarrow> string \<Rightarrow> gdev \<Rightarrow> (gdev \<times> u8) option" where
  "gnss_receiver_serial_baud_set msgs p_baud d =
     (case prefix_index [''9600'', ''19200'', ''38400'', ''57600'', ''115200'', ''230400'', ''460800''] p_baud 0 of
        None \<Rightarrow> Some (d, NG)
      | Some i \<Rightarrow> if rec_type (rx d) = 0 then ut4b0_receiver_serial_baud_set msgs p_baud d else Some (d, OK))"

definition gnss_receiver_echo_set :: "string \<Rightarrow> gdev \<Rightarrow> gdev \<times> u8" where
  "gnss_receiver_echo_set p_param d =
     (if strcmp_eq p_param ''ON'' then (d\<lparr>rx := (rx d)\<lparr>echo_switch := 1\<rparr>\<rparr>, OK)
      else if strcmp_eq p_param ''OFF'' then (d\<lparr>rx := (rx d)\<lparr>echo_switch := 0\<rparr>\<rparr>, OK)
      else (d, NG))"

definition gnss_receiver_stmt_set :: "string list \<Rightarrow> string \<Rightarrow> gdev \<Rightarrow> (gdev \<times> u8) option" where
  "gnss_receiver_stmt_set msgs p_param d = do {
     (m, p, q) \<leftarrow> strtok (p_param @ [NUL]) 0 '':'';
     (m, pd, q) \<leftarrow> strtok m q '';'';
     p \<leftarrow> p;
     p_stmt \<leftarrow> cstr_at m p;
     case prefix_index [''ZDA'', ''GGA'', ''GSV'', ''UTC'', ''PPS'', ''ANT'', ''VER''] p_stmt 0 of
       None \<Rightarrow> Some (d, NG)
     | Some i \<Rightarrow> do {
         pd \<leftarrow> pd;
         p_data \<leftarrow> cstr_at m pd;
         if \<not> starts_with p_data ''ON'' \<and> \<not> starts_with p_data ''OFF'' then Some (d, NG)
         else if rec_type (rx d) = 0
           then ut4b0_receiver_statement_set msgs (of_nat i) (if starts_with p_data ''ON'' then 1 else 0) d
         else Some (d, OK)
       }
   }"

text \<open>The text of a query and the status.\<close>

definition gnss_receiver_get_info :: "string \<Rightarrow> gnss_info \<Rightarrow> string option \<times> u8" where
  "gnss_receiver_get_info p_param g =
     (if strcmp_eq p_param ''MODE'' then (Some (text_of (mode_info g)), OK)
      else if strcmp_eq p_param ''TIME'' then (Some (text_of (time_info g)), OK)
      else if strcmp_eq p_param ''LOC'' then (Some (text_of (loc_info g)), OK)
      else if strcmp_eq p_param ''SAT'' then (Some (text_of (sat_info g)), OK)
      else if strcmp_eq p_param ''LEAP'' then (Some (text_of (leap_info g)), OK)
      else if strcmp_eq p_param ''PPS'' then (Some (text_of (pps_info g)), OK)
      else if strcmp_eq p_param ''ANT'' then (Some (text_of (ant_info g)), OK)
      else if strcmp_eq p_param ''VER'' then (Some (text_of (ver_info g)), OK)
      else (None, NG))"

end
