(* ===== verification/GnssConfirm.thy ===== *)
theory GnssConfirm
  imports GnssCmd GnssDispatch
begin

text \<open>
  The protocol of a command and its confirmation: what \<^verbatim>\<open>g_save_cmd\<close> holds after a command of
  several lines was stored, how the replies advance through it, and when the waiting caller is released.
\<close>

section \<open>Storing\<close>

definition cmd_text :: "string list \<Rightarrow> string" where
  "cmd_text cs = concat (map (\<lambda>c. c @ CRLF) cs)"

lemma cmd_text_simps [simp]: "cmd_text [] = []" "cmd_text (c # cs) = c @ CRLF @ cmd_text cs"
  "cmd_text (as @ bs) = cmd_text as @ cmd_text bs"
  by (simp_all add: cmd_text_def)

definition cmd_line :: "string \<Rightarrow> bool" where
  "cmd_line c \<longleftrightarrow> c \<noteq> [] \<and> CHR 0x0D \<notin> set c \<and> CHR '','' \<notin> set c \<and> NUL \<notin> set c"

lemma find_crlf_line: "CHR 0x0D \<notin> set c \<Longrightarrow> find_crlf (c @ CRLF @ t) = Some (length c)"
proof (induction c)
  case (Cons a c)
  then show ?case by (cases c) auto
qed simp

lemma find_crlf_none: "CHR 0x0D \<notin> set c \<Longrightarrow> find_crlf c = None"
  by (induction c rule: find_crlf.induct) auto

text \<open>The position of line \<open>k\<close> in the text.\<close>

definition cmd_pos :: "string list \<Rightarrow> nat \<Rightarrow> nat" where
  "cmd_pos cs k = length (cmd_text (take k cs))"

lemma save_loop_lines:
  assumes "\<forall>c \<in> set cs. cmd_line c" "cs \<noteq> []" "unat num + length cs \<le> Suc (length index)" "length index < 255"
    "at + length (cmd_text cs) < 256" "0 < unat num"
  shows "\<exists>index'. save_loop (cmd_text cs) at num index = Some (num + of_nat (length cs - 1), index') \<and>
    length index' = length index \<and> (\<forall>j < unat num. index' ! j = index ! j) \<and>
    (\<forall>k. 0 < k \<and> k < length cs \<longrightarrow> unat (index' ! (unat num + k - 1)) = at + cmd_pos cs k)"
  using assms
proof (induction cs arbitrary: at num index)
  case (Cons c cs)
  have c: "cmd_line c" using Cons.prems(1) by simp
  then have f: "find_crlf (cmd_text (c # cs)) = Some (length c)"
    using find_crlf_line [of c "cmd_text cs"] by (simp add: cmd_line_def)
  have ne: "cmd_text (c # cs) \<noteq> []" by simp
  have d: "drop (length c + 2) (cmd_text (c # cs)) = cmd_text cs" by simp
  have step: "save_loop (cmd_text (c # cs)) at num index =
    (if cmd_text cs \<noteq> [] then do {
       index \<leftarrow> wr_at index (unat num) (of_nat (at + length c + 2));
       save_loop (cmd_text cs) (at + length c + 2) (num + 1) index
     } else save_loop (cmd_text cs) (at + length c + 2) num index)"
    by (subst save_loop.simps) (simp only: ne f d if_False option.case Let_def)
  show ?case
  proof (cases cs)
    case Nil
    have "save_loop [] x num index = Some (num, index)" for x by (subst save_loop.simps) simp
    then show ?thesis using step Nil by simp
  next
    case (Cons c2 cs2)
    then have ne2: "cs \<noteq> []" "cmd_text cs \<noteq> []" "1 \<le> length cs" by simp_all
    let ?i = "index[unat num := of_nat (at + length c + 2)]"
    have wr: "wr_at index (unat num) (of_nat (at + length c + 2)) = Some ?i"
      using Cons.prems(3) ne2(3) by (simp add: wr_at_def)
    have n1: "unat (num + 1) = unat num + 1"
      using Cons.prems(3,4) ne2(3) by (intro unat_inc8) simp
    have "\<exists>index'. save_loop (cmd_text cs) (at + length c + 2) (num + 1) ?i = Some (num + 1 + of_nat (length cs - 1), index') \<and>
      length index' = length ?i \<and> (\<forall>j < unat (num + 1). index' ! j = ?i ! j) \<and>
      (\<forall>k. 0 < k \<and> k < length cs \<longrightarrow> unat (index' ! (unat (num + 1) + k - 1)) = at + length c + 2 + cmd_pos cs k)"
      by (rule Cons.IH) (use Cons.prems ne2 n1 in auto)
    then obtain index' where i': "save_loop (cmd_text cs) (at + length c + 2) (num + 1) ?i = Some (num + 1 + of_nat (length cs - 1), index')"
      "length index' = length index" "\<forall>j < unat num + 1. index' ! j = ?i ! j"
      "\<forall>k. 0 < k \<and> k < length cs \<longrightarrow> unat (index' ! (unat num + k)) = at + length c + 2 + cmd_pos cs k"
      by (auto simp: n1)
    have l: "num + 1 + of_nat (length cs - 1) = num + of_nat (length (c # cs) - 1)"
      using ne2(3) by (simp add: of_nat_diff)
    have u: "unat (of_nat (at + length c + 2) :: u8) = at + length c + 2"
      using Cons.prems(5) by (intro unat_of_nat8') simp
    have "unat (index' ! (unat num + k - 1)) = at + cmd_pos (c # cs) k" if k: "0 < k" "k < length (c # cs)" for k
    proof (cases "k = 1")
      case True
      then show ?thesis using i'(3) u Cons.prems(3) ne2(3) by (simp add: cmd_pos_def)
    next
      case False
      then obtain k' where k': "k = Suc k'" "0 < k'" using k(1) by (cases k) auto
      then show ?thesis using i'(4) k by (simp add: cmd_pos_def)
    qed
    moreover have "\<forall>j < unat num. index' ! j = index ! j" using i'(3) by simp
    ultimately show ?thesis using step ne2 wr i'(1,2) l by (intro exI [of _ index']) simp
  qed
qed simp

definition cmd_ok :: "string list \<Rightarrow> bool" where
  "cmd_ok cs \<longleftrightarrow> cs \<noteq> [] \<and> length cs \<le> 5 \<and> (\<forall>c \<in> set cs. cmd_line c) \<and> length (cmd_text cs) < 50"

text \<open>What \<open>g_save_cmd\<close> holds after the lines \<open>cs\<close> were stored.\<close>

definition stored :: "string list \<Rightarrow> combcmd \<Rightarrow> bool" where
  "stored cs c \<longleftrightarrow> unat (cmd_num c) = length cs \<and> length (cmd_index c) = 5 \<and> length (cmd_buf c) = 50 \<and>
     (\<forall>k < length cs. unat (cmd_index c ! k) = cmd_pos cs k) \<and> (\<exists>t. cmd_buf c = cmd_text cs @ NUL # t)"

lemma cmd_save_lines:
  assumes "cmd_ok cs" "length (cmd_index c) = 5" "length (cmd_buf c) = 50"
  shows "\<exists>c'. ut4b0_receiver_cmd_save (cmd_text cs) c = Some c' \<and> stored cs c'"
proof -
  have a: "cs \<noteq> []" "length cs \<le> 5" "\<forall>c \<in> set cs. cmd_line c" "length (cmd_text cs) < 50"
    using assms(1) by (simp_all add: cmd_ok_def)
  have wr: "wr_at (cmd_index c) 0 0 = Some ((cmd_index c)[0 := 0])" using assms(2) by (simp add: wr_at_def)
  obtain i where i: "save_loop (cmd_text cs) 0 1 ((cmd_index c)[0 := 0]) = Some (1 + of_nat (length cs - 1), i)"
    "length i = 5" "i ! 0 = 0" "\<forall>k. 0 < k \<and> k < length cs \<longrightarrow> unat (i ! k) = cmd_pos cs k"
    using save_loop_lines [of cs 1 "(cmd_index c)[0 := 0]" 0] a assms(2) by auto
  have "1 + of_nat (length cs - 1) = (of_nat (length cs) :: u8)"
    using a(1) by (cases cs) auto
  then have n: "unat (1 + of_nat (length cs - 1) :: u8) = length cs" using a(2) by (simp add: unat_of_nat)
  have "unat (i ! k) = cmd_pos cs k" if "k < length cs" for k
    using i(3,4) that by (cases k) (auto simp: cmd_pos_def)
  moreover have "strcpy (cmd_buf c) 0 (cmd_text cs) = Some (put_text (cmd_buf c) (cmd_text cs))"
    using a(4) assms(3) by (simp add: strcpy_0)
  ultimately show ?thesis using wr i n a(4) assms(3)
    by (auto simp: ut4b0_receiver_cmd_save_def stored_def put_text_def)
qed

section \<open>Replies\<close>

text \<open>The reply to one line, as its parser gets it.\<close>

definition reply_text :: "string \<Rightarrow> string \<Rightarrow> string" where
  "reply_text c t = ''command,'' @ c @ '',response: OK'' @ NUL # t"

lemma reply_tokens:
  assumes "cmd_line c"
  shows "strtok (reply_text c t) 0 '','' = Some (''command'' @ NUL # c @ '',response: OK'' @ NUL # t, Some 0, 8)"
    "strtok (''command'' @ NUL # c @ '',response: OK'' @ NUL # t) 8 '','' =
      Some (''command'' @ NUL # c @ NUL # ''response: OK'' @ NUL # t, Some 8, 8 + length c + 1)"
    "strtok (''command'' @ NUL # c @ NUL # ''response: OK'' @ NUL # t) (8 + length c + 1) ''*'' =
      Some (''command'' @ NUL # c @ NUL # ''response: OK'' @ NUL # t, Some (8 + length c + 1), 8 + length c + 1 + 12)"
    "cstr_at (''command'' @ NUL # c @ NUL # ''response: OK'' @ NUL # t) 8 = Some c"
    "cstr_at (''command'' @ NUL # c @ NUL # ''response: OK'' @ NUL # t) (8 + length c + 1 + 10) = Some ''OK''"
proof -
  have c: "c \<noteq> []" "NUL \<notin> set c" "CHR '','' \<notin> set c" using assms by (simp_all add: cmd_line_def)
  show "strtok (reply_text c t) 0 '','' = Some (''command'' @ NUL # c @ '',response: OK'' @ NUL # t, Some 0, 8)"
    using strtok_token [of "''command''" "'',''" "CHR '',''" "[]" "c @ '',response: OK'' @ NUL # t"]
    by (simp add: reply_text_def NUL_eq eval_nat_numeral)
  have "length (''command'' @ [NUL]) = 8" by simp
  note s = strtok_token [of c "'',''" "CHR '',''" "''command'' @ [NUL]" "''response: OK'' @ NUL # t", unfolded this]
  show "strtok (''command'' @ NUL # c @ '',response: OK'' @ NUL # t) 8 '','' =
      Some (''command'' @ NUL # c @ NUL # ''response: OK'' @ NUL # t, Some 8, 8 + length c + 1)"
    using s c by (simp add: NUL_eq)
  have l: "length (''command'' @ NUL # c @ [NUL]) = 8 + length c + 1" by simp
  note s2 = strtok_last [of "''response: OK''" "''*''" "''command'' @ NUL # c @ [NUL]" t, unfolded l]
  show "strtok (''command'' @ NUL # c @ NUL # ''response: OK'' @ NUL # t) (8 + length c + 1) ''*'' =
      Some (''command'' @ NUL # c @ NUL # ''response: OK'' @ NUL # t, Some (8 + length c + 1), 8 + length c + 1 + 12)"
    using s2 by (simp add: NUL_eq)
  have l2: "length (''command'' @ [NUL]) = 8" by simp
  show "cstr_at (''command'' @ NUL # c @ NUL # ''response: OK'' @ NUL # t) 8 = Some c"
    using cstr_at_append [OF c(2), of "''command'' @ [NUL]", unfolded l2] by simp
  have l3: "length (''command'' @ NUL # c @ NUL # ''response: '') = 8 + length c + 1 + 10" by simp
  have "NUL \<notin> set ''OK''" by (simp add: NUL_eq)
  from cstr_at_append [OF this, of "''command'' @ NUL # c @ NUL # ''response: ''" t, unfolded l3]
  show "cstr_at (''command'' @ NUL # c @ NUL # ''response: OK'' @ NUL # t) (8 + length c + 1 + 10) = Some ''OK''" by simp
qed

lemma reply_step:
  assumes "stored cs (g_save_cmd g)" "\<forall>c \<in> set cs. cmd_line c" "k < length cs" "unat (cmd_cnt g) = k" "length cs \<le> 5"
  shows "ut4b0_cmd_reply_msg_parser (reply_text (cs ! k) t) g =
    Some (if Suc k = length cs then g\<lparr>cmd_cnt := 0, reply_sem := reply_sem g + 1\<rparr> else g\<lparr>cmd_cnt := of_nat (Suc k)\<rparr>)"
proof -
  have c: "cmd_line (cs ! k)" using assms(2,3) by simp
  let ?m = "''command'' @ NUL # (cs ! k) @ NUL # ''response: OK'' @ NUL # t"
  have st: "unat (cmd_num (g_save_cmd g)) = length cs" "length (cmd_index (g_save_cmd g)) = 5"
    "unat (cmd_index (g_save_cmd g) ! k) = cmd_pos cs k" using assms(1,3) by (auto simp: stored_def)
  obtain z where buf: "cmd_buf (g_save_cmd g) = cmd_text cs @ NUL # z" using assms(1) by (auto simp: stored_def)
  have at: "rd_at (cmd_index (g_save_cmd g)) (unat (cmd_cnt g)) = Some (cmd_index (g_save_cmd g) ! k)"
    using assms(3-5) st(2) by (simp add: rd_at_def)
  have cs: "cs = take k cs @ cs ! k # drop (Suc k) cs" using assms(3) by (rule id_take_nth_drop)
  define r where "r = cs ! k @ CRLF @ cmd_text (drop (Suc k) cs)"
  have ct: "cmd_text cs = cmd_text (take k cs) @ r"
    by (subst cs) (simp add: r_def)
  have "\<forall>c \<in> set cs. NUL \<notin> set c" using assms(2) by (simp add: cmd_line_def)
  then have "NUL \<notin> set (cmd_text cs)" by (auto simp: cmd_text_def NUL_eq)
  then have nr: "NUL \<notin> set r" by (simp add: ct)
  have sent: "cstr_at (cmd_buf (g_save_cmd g)) (unat (cmd_index (g_save_cmd g) ! k)) = Some r"
    using cstr_at_append [OF nr, of "cmd_text (take k cs)" z] by (simp add: buf ct st(3) cmd_pos_def)
  have sw: "starts_with r (cs ! k)" unfolding starts_with_iff r_def by blast
  have cnt: "cmd_cnt g + 1 = of_nat (Suc k)" using assms(4) by (metis of_nat_Suc add.commute of_nat_unat ucast_id)
  have ku: "unat (of_nat (Suc k) :: u8) = Suc k" using assms(3,5) by (intro unat_of_nat8') simp
  have eq: "(of_nat (Suc k) = cmd_num (g_save_cmd g)) = (Suc k = length cs)"
    unfolding word_unat_eq_iff ku st(1) ..
  have "ut4b0_cmd_reply_msg_parser (reply_text (cs ! k) t) g =
    (let h = g\<lparr>cmd_cnt := cmd_cnt g + 1\<rparr> in
      if cmd_cnt h = cmd_num (g_save_cmd h) then Some (h\<lparr>reply_sem := reply_sem h + 1, cmd_cnt := 0\<rparr>) else Some h)"
    by (simp only: ut4b0_cmd_reply_msg_parser_def reply_tokens [OF c] Option.bind.simps prod.case at sent sw if_True simp_thms)
  also have "\<dots> = Some (if Suc k = length cs then g\<lparr>cmd_cnt := 0, reply_sem := reply_sem g + 1\<rparr> else g\<lparr>cmd_cnt := of_nat (Suc k)\<rparr>)"
    using eq by (simp add: cnt Let_def del: of_nat_Suc)
  finally show ?thesis .
qed

text \<open>The reply to another line than the expected one sets the counter back.\<close>

definition prefix_free :: "string list \<Rightarrow> bool" where
  "prefix_free cs \<longleftrightarrow> (\<forall>i < length cs. \<forall>j < length cs. i \<noteq> j \<longrightarrow> \<not> starts_with (cs ! i) (cs ! j))"

lemma starts_with_line:
  assumes "starts_with (c @ CRLF @ x) d" "CHR 0x0D \<notin> set d"
  shows "starts_with c d"
proof -
  obtain z where z: "c @ CRLF @ x = d @ z" using assms(1) unfolding starts_with_iff by blast
  have "length d \<le> length c"
  proof (rule ccontr)
    assume "\<not> length d \<le> length c"
    then have "d ! length c = (c @ CRLF @ x) ! length c" "d ! length c \<in> set d" unfolding z by (simp_all add: nth_append)
    then show False using assms(2) by simp
  qed
  then have "c = d @ drop (length d) c" using z by (metis append_eq_append_conv_if append_take_drop_id)
  then show ?thesis unfolding starts_with_iff by blast
qed

lemma reply_other:
  assumes "stored cs (g_save_cmd g)" "\<forall>c \<in> set cs. cmd_line c" "k < length cs" "unat (cmd_cnt g) = k" "length cs \<le> 5"
    and "j < length cs" "\<not> starts_with (cs ! k) (cs ! j)"
  shows "ut4b0_cmd_reply_msg_parser (reply_text (cs ! j) t) g = Some (g\<lparr>cmd_cnt := 0\<rparr>)"
proof -
  have c: "cmd_line (cs ! j)" using assms(2,6) by simp
  have st: "length (cmd_index (g_save_cmd g)) = 5" "unat (cmd_index (g_save_cmd g) ! k) = cmd_pos cs k"
    using assms(1,3) by (auto simp: stored_def)
  obtain z where buf: "cmd_buf (g_save_cmd g) = cmd_text cs @ NUL # z" using assms(1) by (auto simp: stored_def)
  have at: "rd_at (cmd_index (g_save_cmd g)) (unat (cmd_cnt g)) = Some (cmd_index (g_save_cmd g) ! k)"
    using assms(3-5) st(1) by (simp add: rd_at_def)
  have cs: "cs = take k cs @ cs ! k # drop (Suc k) cs" using assms(3) by (rule id_take_nth_drop)
  define r where "r = cs ! k @ CRLF @ cmd_text (drop (Suc k) cs)"
  have ct: "cmd_text cs = cmd_text (take k cs) @ r"
    by (subst cs) (simp add: r_def)
  have "\<forall>c \<in> set cs. NUL \<notin> set c" using assms(2) by (simp add: cmd_line_def)
  then have "NUL \<notin> set (cmd_text cs)" by (auto simp: cmd_text_def NUL_eq)
  then have nr: "NUL \<notin> set r" by (simp add: ct)
  have sent: "cstr_at (cmd_buf (g_save_cmd g)) (unat (cmd_index (g_save_cmd g) ! k)) = Some r"
    using cstr_at_append [OF nr, of "cmd_text (take k cs)" z] by (simp add: buf ct st(2) cmd_pos_def)
  have "\<not> starts_with r (cs ! j)"
    using starts_with_line [of "cs ! k" "cmd_text (drop (Suc k) cs)" "cs ! j"] c assms(7) by (auto simp: r_def cmd_line_def)
  then show ?thesis
    by (simp only: ut4b0_cmd_reply_msg_parser_def reply_tokens [OF c] Option.bind.simps prod.case at sent if_False simp_thms)
qed

fun replies :: "(string \<times> string) list \<Rightarrow> gnss \<Rightarrow> gnss option" where
  "replies [] g = Some g"
| "replies ((c, t) # cs) g = do { g \<leftarrow> ut4b0_cmd_reply_msg_parser (reply_text c t) g; replies cs g }"

lemma replies_run:
  assumes "stored cs (g_save_cmd g)" "cmd_ok cs" "unat (cmd_cnt g) = k" "k < length cs" "map fst rs = take n (drop k cs)"
    "k + n \<le> length cs"
  shows "replies rs g = Some (if n = 0 then g
    else if k + n = length cs then g\<lparr>cmd_cnt := 0, reply_sem := reply_sem g + 1\<rparr> else g\<lparr>cmd_cnt := of_nat (k + n)\<rparr>)"
  using assms
proof (induction n arbitrary: rs g k)
  case (Suc n)
  have lines: "\<forall>c \<in> set cs. cmd_line c" "length cs \<le> 5" using Suc.prems(2) by (simp_all add: cmd_ok_def)
  have "drop k cs = cs ! k # drop (Suc k) cs" using Suc.prems(4) by (rule Cons_nth_drop_Suc [symmetric])
  then obtain t rs' where rs: "rs = (cs ! k, t) # rs'" "map fst rs' = take n (drop (Suc k) cs)"
    using Suc.prems(5) by (cases rs) auto
  note step = reply_step [OF Suc.prems(1) lines(1) Suc.prems(4,3) lines(2), of t]
  show ?case
  proof (cases "Suc k = length cs")
    case True
    then have "n = 0" "rs' = []" using Suc.prems(6) rs(2) by auto
    then show ?thesis using step True rs(1) by simp
  next
    case False
    let ?g = "g\<lparr>cmd_cnt := of_nat (Suc k)\<rparr>"
    have k: "Suc k < length cs" using False Suc.prems(4) by simp
    have u: "unat (of_nat (Suc k) :: u8) = Suc k" using k lines(2) by (intro unat_of_nat8') simp
    have "replies rs' ?g = Some (if n = 0 then ?g
      else if Suc k + n = length cs then ?g\<lparr>cmd_cnt := 0, reply_sem := reply_sem ?g + 1\<rparr> else ?g\<lparr>cmd_cnt := of_nat (Suc k + n)\<rparr>)"
      by (rule Suc.IH) (use Suc.prems k u rs(2) in \<open>simp_all del: of_nat_Suc\<close>)
    then show ?thesis using step False rs(1) by (auto simp del: of_nat_Suc)
  qed
qed simp

section \<open>The reply as it arrives\<close>

text \<open>The text of a reply with the right check code.\<close>

definition reply_msg :: "string \<Rightarrow> string \<Rightarrow> bool" where
  "reply_msg c m \<longleftrightarrow> (\<exists>code rest. m = lines_text [''$command,'' @ c @ '',response: OK*'' @ code @ [CR]] rest \<and>
     code \<noteq> [] \<and> line code \<and> CR \<notin> set code \<and> CHR ''*'' \<notin> set c \<and> LF \<notin> set c \<and>
     code_ok CHECK_TYPE_XOR (''$command,'' @ c @ '',response: OK'') code)"

lemma reply_msg_parse:
  assumes "reply_msg c m" "cmd_line c" "rec_type g = 0"
  shows "\<exists>t. gnss_receiver_msg_parser m g = ut4b0_cmd_reply_msg_parser (reply_text c t) g"
proof -
  obtain code rest where m: "m = lines_text [''$command,'' @ c @ '',response: OK*'' @ code @ [CR]] rest"
    and k: "code \<noteq> []" "line code" "CR \<notin> set code" "CHR ''*'' \<notin> set c" "LF \<notin> set c"
      "code_ok CHECK_TYPE_XOR (''$command,'' @ c @ '',response: OK'') code"
    using assms(1) by (auto simp: reply_msg_def)
  let ?body = "''command,'' @ c @ '',response: OK''" and ?l = "''$command,'' @ c @ '',response: OK*'' @ code @ [CR]"
  have c: "CHR 0x0D \<notin> set c" "NUL \<notin> set c" using assms(2) by (simp_all add: cmd_line_def)
  have l: "line ?l" using c k by (auto simp: line_def NUL_eq)
  have st: "statement ?l = ?l" by (simp add: statement_def)
  have cp: "complete ?l" by (simp add: complete_def)
  have split: "?l @ NUL # lines_text [] rest = CHR ''$'' # ?body @ CHR ''*'' # code @ CR # NUL # (NUL # rest)" by simp
  have f: "find_stmt 0 ut4b0_stmt_handle (CHR ''$'' # ?body @ CHR ''*'' # code @ CR # NUL # (NUL # rest)) =
    Some (20, CHECK_TYPE_XOR, ut4b0_cmd_reply_msg_parser)"
    by (simp add: ut4b0_stmt_handle_def strncmp_eq_def)
  have cov: "covered (CHR ''$'' # ?body) = ''$command,'' @ c @ '',response: OK''" by (simp add: covered_def strncmp_eq_def)
  have "ut4b0_check_cmdhandler (CHR ''$'' # ?body @ CHR ''*'' # code @ CR # NUL # (NUL # rest)) g =
    ut4b0_cmd_reply_msg_parser (?body @ NUL # code @ NUL # NUL # (NUL # rest)) g"
    unfolding cmdhandler_run [OF f _ _ k(1,3)] by (subst cmdhandler_run [OF f])
      (use c k in \<open>simp_all add: cov [simplified] line_def NUL_eq\<close>)
  moreover have r: "run_lines ut4b0_check_cmdhandler [] rest = Some" by (rule ext) simp
  moreover have "gnss_receiver_msg_parser m g = run_lines ut4b0_check_cmdhandler [?l] rest g"
    using msg_loop_lines [of "[?l]" ut4b0_check_cmdhandler "[]" rest g] l assms(3)
    by (simp add: gnss_receiver_msg_parser_def ut4b0_receiver_msg_parser_def m del: lines_text.simps run_lines.simps)
  ultimately have "gnss_receiver_msg_parser m g = ut4b0_cmd_reply_msg_parser (?body @ NUL # code @ NUL # NUL # (NUL # rest)) g"
    by (simp only: run_lines.simps(2) st cp if_True split r Option.bind_runit)
  then show ?thesis by (intro exI [of _ "code @ NUL # NUL # NUL # rest"]) (simp add: reply_text_def)
qed

lemma reply_msg_step:
  assumes "reply_msg (cs ! k) m" "stored cs (g_save_cmd g)" "cmd_ok cs" "k < length cs" "unat (cmd_cnt g) = k" "rec_type g = 0"
  shows "gnss_receiver_msg_parser m g =
    Some (if Suc k = length cs then g\<lparr>cmd_cnt := 0, reply_sem := reply_sem g + 1\<rparr> else g\<lparr>cmd_cnt := of_nat (Suc k)\<rparr>)"
proof -
  have c: "\<forall>c \<in> set cs. cmd_line c" "length cs \<le> 5" using assms(3) by (simp_all add: cmd_ok_def)
  then have "cmd_line (cs ! k)" using assms(4) by simp
  from reply_msg_parse [OF assms(1) this assms(6)] obtain t where
    "gnss_receiver_msg_parser m g = ut4b0_cmd_reply_msg_parser (reply_text (cs ! k) t) g" by blast
  with reply_step [OF assms(2) c(1) assms(4,5) c(2)] show ?thesis by simp
qed

lemma reply_pend_run:
  assumes "stored cs (g_save_cmd g)" "cmd_ok cs" "unat (cmd_cnt g) = k" "k < length cs" "rec_type g = 0" "reply_sem g = 0"
    "length msgs = length cs - k" "\<forall>j < length msgs. reply_msg (cs ! (k + j)) (msgs ! j)"
  shows "reply_pend (msgs @ others) g = Some (g\<lparr>cmd_cnt := 0\<rparr>, True)"
  using assms
proof (induction msgs arbitrary: g k)
  case (Cons m msgs)
  have m: "reply_msg (cs ! k) m" using Cons.prems(8) by force
  note step = reply_msg_step [OF m Cons.prems(1,2,4,3,5)]
  show ?case
  proof (cases "Suc k = length cs")
    case True
    then have "msgs = []" using Cons.prems(7) by (simp add: True [symmetric])
    then show ?thesis using step True Cons.prems(6) by (cases others) simp_all
  next
    case False
    let ?g = "g\<lparr>cmd_cnt := of_nat (Suc k)\<rparr>"
    have u: "unat (of_nat (Suc k) :: u8) = Suc k"
      using False Cons.prems(2,4) by (intro unat_of_nat8') (simp add: cmd_ok_def)
    have js: "reply_msg (cs ! (Suc k + j)) (msgs ! j)" if "j < length msgs" for j
      using Cons.prems(8)[rule_format, of "Suc j"] that by simp
    have "reply_pend (msgs @ others) ?g = Some (?g\<lparr>cmd_cnt := 0\<rparr>, True)"
      by (rule Cons.IH [of ?g "Suc k"]) (use Cons.prems False u js in \<open>simp_all del: of_nat_Suc\<close>)
    then show ?thesis using step False Cons.prems(6) by simp
  qed
qed simp

text \<open>Only the first lines are confirmed: the counter keeps their number.\<close>

lemma reply_pend_some:
  assumes "stored cs (g_save_cmd g)" "cmd_ok cs" "unat (cmd_cnt g) = k" "rec_type g = 0" "reply_sem g = 0"
    "k + length msgs < length cs" "\<forall>j < length msgs. reply_msg (cs ! (k + j)) (msgs ! j)"
  shows "reply_pend msgs g = Some (g\<lparr>cmd_cnt := of_nat (k + length msgs)\<rparr>, False)"
  using assms
proof (induction msgs arbitrary: g k)
  case Nil
  then have "of_nat k = cmd_cnt g" by (metis of_nat_unat ucast_id)
  then show ?case using Nil by simp
next
  case (Cons m msgs)
  have m: "reply_msg (cs ! k) m" using Cons.prems(7) by force
  have kl: "k < length cs" "Suc k \<noteq> length cs" using Cons.prems(6) by auto
  note step = reply_msg_step [OF m Cons.prems(1,2) kl(1) Cons.prems(3,4)]
  let ?g = "g\<lparr>cmd_cnt := of_nat (Suc k)\<rparr>"
  have u: "unat (of_nat (Suc k) :: u8) = Suc k"
    using kl Cons.prems(2) by (intro unat_of_nat8') (simp add: cmd_ok_def)
  have js: "reply_msg (cs ! (Suc k + j)) (msgs ! j)" if "j < length msgs" for j
    using Cons.prems(7)[rule_format, of "Suc j"] that by simp
  have "reply_pend msgs ?g = Some (?g\<lparr>cmd_cnt := of_nat (Suc k + length msgs)\<rparr>, False)"
    by (rule Cons.IH [of ?g "Suc k"]) (use Cons.prems u js in \<open>simp_all del: of_nat_Suc\<close>)
  then show ?case using step kl(2) Cons.prems(5) by (simp del: of_nat_Suc)
qed

text \<open>Replies to other lines than the expected one leave the caller waiting.\<close>

lemma reply_msg_other:
  assumes "reply_msg (cs ! j) m" "stored cs (g_save_cmd g)" "cmd_ok cs" "prefix_free cs" "unat (cmd_cnt g) = k" "rec_type g = 0"
    and "k < length cs" "j < length cs" "j \<noteq> k"
  shows "gnss_receiver_msg_parser m g = Some (g\<lparr>cmd_cnt := 0\<rparr>)"
proof -
  have c: "\<forall>c \<in> set cs. cmd_line c" "length cs \<le> 5" using assms(3) by (simp_all add: cmd_ok_def)
  then have "cmd_line (cs ! j)" using assms(8) by simp
  from reply_msg_parse [OF assms(1) this assms(6)] obtain t where
    t: "gnss_receiver_msg_parser m g = ut4b0_cmd_reply_msg_parser (reply_text (cs ! j) t) g" by blast
  have "\<not> starts_with (cs ! k) (cs ! j)" using assms(4,7-9) by (auto simp: prefix_free_def)
  from reply_other [OF assms(2) c(1) assms(7,5) c(2) assms(8) this] t show ?thesis by simp
qed

lemma reply_pend_skipped:
  assumes "stored cs (g_save_cmd g)" "cmd_ok cs" "prefix_free cs" "rec_type g = 0" "reply_sem g = 0" "cmd_cnt g = 0" "0 < n"
    and "\<forall>j < length msgs. n + j < length cs \<and> reply_msg (cs ! (n + j)) (msgs ! j)"
  shows "reply_pend msgs g = Some (g, False)"
  using assms(7,8)
proof (induction msgs arbitrary: n)
  case (Cons m msgs)
  have m: "reply_msg (cs ! n) m" "n < length cs" using Cons.prems(2) by force+
  have "gnss_receiver_msg_parser m g = Some (g\<lparr>cmd_cnt := 0\<rparr>)"
    by (rule reply_msg_other [OF m(1) assms(1-3) _ assms(4), where k = 0]) (use m(2) Cons.prems(1) assms(6) in auto)
  moreover have "g\<lparr>cmd_cnt := 0\<rparr> = g" using assms(6) by simp
  moreover have "reply_msg (cs ! (Suc n + j)) (msgs ! j) \<and> Suc n + j < length cs" if "j < length msgs" for j
    using Cons.prems(2)[rule_format, of "Suc j"] that by simp
  then have "reply_pend msgs g = Some (g, False)" using Cons.IH [of "Suc n"] by auto
  ultimately show ?case using assms(5) by simp
qed (use assms(5) in simp)

definition dev_ok :: "gdev \<Rightarrow> bool" where
  "dev_ok d \<longleftrightarrow> length (cmd_index (g_save_cmd (rx d))) = 5 \<and> length (cmd_buf (g_save_cmd (rx d))) = 50 \<and> rec_type (rx d) = 0"

lemma configuration_run:
  assumes "cmd_ok cs" "dev_ok d"
  obtains c where "stored cs c" "ut4b0_receiver_configuration msgs (cmd_text cs) d = do {
      (g, taken) \<leftarrow> reply_pend msgs ((rx d)\<lparr>g_save_cmd := c, cmd_send_flag := 1\<rparr>);
      Some (d\<lparr>sent := sent d @ [cmd_text cs], rx := g\<lparr>cmd_send_flag := 0\<rparr>\<rparr>, if taken then OK else NG)
    }"
proof -
  obtain c where c: "ut4b0_receiver_cmd_save (cmd_text cs) (g_save_cmd (rx d)) = Some c" "stored cs c"
    using cmd_save_lines [OF assms(1)] assms(2) by (auto simp: dev_ok_def)
  have "\<not> 50 < length (cmd_text cs)" using assms(1) by (simp add: cmd_ok_def)
  then show ?thesis using c by (intro that [of c]) (auto simp: ut4b0_receiver_configuration_def)
qed

section \<open>Properties\<close>

text \<open>C31. When a command of up to five lines succeeds. The counter of replies is a static variable that
  storing a command does not reset. With the counter at 0 and no post left over, the command returns OK when the receiver
  confirms every line: the replies, each with its check code, take the caller through the lines in
  order, the last one releases it, and whatever arrives later is left to the GNSS task. When only the first lines
  are confirmed before the time-out, it returns NG and the counter keeps their number. With a counter that such a
  command left behind, a command of more lines than that, none the beginning of another, returns NG although
  every line of it is confirmed in time; the counter is then 0 again.\<close>

theorem ut4b0_receiver_configuration_confirmed:
  assumes "cmd_ok cs" "dev_ok d" "reply_sem (rx d) = 0"
    and "length msgs = length cs" "\<forall>j < length cs. reply_msg (cs ! j) (msgs ! j)"
  shows "(cmd_cnt (rx d) = 0 \<longrightarrow>
      (\<exists>d'. ut4b0_receiver_configuration (msgs @ others) (cmd_text cs) d = Some (d', OK) \<and>
        stored cs (g_save_cmd (rx d')) \<and> cmd_cnt (rx d') = 0 \<and> reply_sem (rx d') = 0 \<and>
        g_gnss_info (rx d') = g_gnss_info (rx d) \<and> g_leap (rx d') = g_leap (rx d) \<and> sent d' = sent d @ [cmd_text cs]) \<and>
      (\<forall>n < length cs. \<exists>d'. ut4b0_receiver_configuration (take n msgs) (cmd_text cs) d = Some (d', NG) \<and>
        cmd_cnt (rx d') = of_nat n \<and> reply_sem (rx d') = 0 \<and> dev_ok d' \<and> sent d' = sent d @ [cmd_text cs])) \<and>
    (0 < cmd_cnt (rx d) \<and> unat (cmd_cnt (rx d)) < length cs \<and> prefix_free cs \<longrightarrow>
      (\<exists>d'. ut4b0_receiver_configuration msgs (cmd_text cs) d = Some (d', NG) \<and>
        cmd_cnt (rx d') = 0 \<and> reply_sem (rx d') = 0 \<and> dev_ok d' \<and> sent d' = sent d @ [cmd_text cs]))"
proof -
  let ?g = "\<lambda>c. (rx d)\<lparr>g_save_cmd := c, cmd_send_flag := 1\<rparr>"
  have run: "\<exists>c. stored cs c \<and> ut4b0_receiver_configuration ms (cmd_text cs) d = do {
      (g, taken) \<leftarrow> reply_pend ms (?g c);
      Some (d\<lparr>sent := sent d @ [cmd_text cs], rx := g\<lparr>cmd_send_flag := 0\<rparr>\<rparr>, if taken then OK else NG)
    }" for ms by (rule configuration_run [OF assms(1,2), of ms]) blast
  have ne: "cs \<noteq> []" using assms(1) by (simp add: cmd_ok_def)
  have all: "\<exists>d'. ut4b0_receiver_configuration (msgs @ others) (cmd_text cs) d = Some (d', OK) \<and>
      stored cs (g_save_cmd (rx d')) \<and> cmd_cnt (rx d') = 0 \<and> reply_sem (rx d') = 0 \<and>
      g_gnss_info (rx d') = g_gnss_info (rx d) \<and> g_leap (rx d') = g_leap (rx d) \<and> sent d' = sent d @ [cmd_text cs]"
    if z: "cmd_cnt (rx d) = 0"
  proof -
    obtain c where c: "stored cs c" "ut4b0_receiver_configuration (msgs @ others) (cmd_text cs) d = do {
        (g, taken) \<leftarrow> reply_pend (msgs @ others) (?g c);
        Some (d\<lparr>sent := sent d @ [cmd_text cs], rx := g\<lparr>cmd_send_flag := 0\<rparr>\<rparr>, if taken then OK else NG)
      }" using run [of "msgs @ others"] by blast
    have "reply_pend (msgs @ others) (?g c) = Some ((?g c)\<lparr>cmd_cnt := 0\<rparr>, True)"
      by (intro reply_pend_run [where k = 0 and cs = cs]) (use assms z ne c(1) in \<open>auto simp: dev_ok_def\<close>)
    then show ?thesis using c assms(3) z by simp
  qed
  have some: "\<exists>d'. ut4b0_receiver_configuration (take n msgs) (cmd_text cs) d = Some (d', NG) \<and>
      cmd_cnt (rx d') = of_nat n \<and> reply_sem (rx d') = 0 \<and> dev_ok d' \<and> sent d' = sent d @ [cmd_text cs]"
    if z: "cmd_cnt (rx d) = 0" and n: "n < length cs" for n
  proof -
    obtain c where c: "stored cs c" "ut4b0_receiver_configuration (take n msgs) (cmd_text cs) d = do {
        (g, taken) \<leftarrow> reply_pend (take n msgs) (?g c);
        Some (d\<lparr>sent := sent d @ [cmd_text cs], rx := g\<lparr>cmd_send_flag := 0\<rparr>\<rparr>, if taken then OK else NG)
      }" using run [of "take n msgs"] by blast
    have "reply_pend (take n msgs) (?g c) = Some ((?g c)\<lparr>cmd_cnt := of_nat (0 + length (take n msgs))\<rparr>, False)"
      by (rule reply_pend_some [where cs = cs]) (use assms z n c(1) in \<open>auto simp: dev_ok_def\<close>)
    then show ?thesis using c assms(2-4) n by (simp add: dev_ok_def stored_def)
  qed
  have behind: "\<exists>d'. ut4b0_receiver_configuration msgs (cmd_text cs) d = Some (d', NG) \<and>
      cmd_cnt (rx d') = 0 \<and> reply_sem (rx d') = 0 \<and> dev_ok d' \<and> sent d' = sent d @ [cmd_text cs]"
    if p: "0 < cmd_cnt (rx d)" "unat (cmd_cnt (rx d)) < length cs" "prefix_free cs"
  proof -
    obtain c where c: "stored cs c" "ut4b0_receiver_configuration msgs (cmd_text cs) d = do {
        (g, taken) \<leftarrow> reply_pend msgs (?g c);
        Some (d\<lparr>sent := sent d @ [cmd_text cs], rx := g\<lparr>cmd_send_flag := 0\<rparr>\<rparr>, if taken then OK else NG)
      }" using run [of msgs] by blast
    let ?h = "(?g c)\<lparr>cmd_cnt := 0\<rparr>"
    obtain m ms where m: "msgs = m # ms" using assms(4) ne by (cases msgs) auto
    have r1: "1 + j < length cs \<and> reply_msg (cs ! (1 + j)) (ms ! j)" if "j < length ms" for j
      using assms(4) assms(5)[rule_format, of "Suc j"] that by (simp add: m)
    have r: "reply_msg (cs ! 0) m" "\<forall>j < length ms. 1 + j < length cs \<and> reply_msg (cs ! (1 + j)) (ms ! j)"
      using assms(5) ne r1 by (force simp: m, blast)
    have "gnss_receiver_msg_parser m (?g c) = Some ?h"
      by (rule reply_msg_other [OF r(1) _ assms(1) p(3)]) (use c(1) p assms(2) in \<open>auto simp: dev_ok_def word_less_nat_alt\<close>)
    moreover have "reply_pend ms ?h = Some (?h, False)"
      by (rule reply_pend_skipped [OF _ assms(1) p(3) _ _ _ _ r(2)]) (use c(1) assms(2,3) in \<open>auto simp: dev_ok_def\<close>)
    ultimately have pend: "reply_pend msgs (?g c) = Some (?h, False)" using assms(3) by (simp add: m)
    then show ?thesis using c assms(2,3) by (simp add: dev_ok_def stored_def)
  qed
  show ?thesis using all some behind by blast
qed

text \<open>A reply to the line UNMASK GPS with its code, and the device it is sent to.\<close>

definition ok_reply :: "string \<Rightarrow> string" where
  "ok_reply c = lines_text [''$command,'' @ c @ '',response: OK*'' @
     hex_string 2 (unat (foldl (\<lambda>x b. x XOR b) (0 :: u8) (char_bytes (''$command,'' @ c @ '',response: OK'')))) @ [CR]] []"

lemma u8_u32_u8: "ucast (of_nat (unat x) :: u32) = (x :: u8)"
  by (simp add: bit_eq_iff bit_ucast_iff)

lemma ok_reply_msg: "CHR ''*'' \<notin> set c \<Longrightarrow> LF \<notin> set c \<Longrightarrow> reply_msg c (ok_reply c)"
proof -
  let ?x = "foldl (\<lambda>x b. x XOR b) (0 :: u8) (char_bytes (''$command,'' @ c @ '',response: OK''))"
  let ?h = "hex_string 2 (unat ?x)"
  assume c: "CHR ''*'' \<notin> set c" "LF \<notin> set c"
  have d: "is_digit_of 16 z" if "z \<in> set ?h" for z using that by (rule hex_string_is_digit)
  have "\<not> is_digit_of 16 CR" "\<not> is_digit_of 16 LF" "\<not> is_digit_of 16 NUL" by (simp_all add: is_digit_of_def digit_val_def NUL_def)
  then have t: "CR \<notin> set ?h" "line ?h" using d by (auto simp: line_def)
  have "?h \<noteq> []" using length_hex_string [of 2] by (metis list.size(3) zero_neq_numeral)
  moreover have "unat ?x mod 16 ^ 2 = unat ?x" using unat8_lt [of ?x] by simp
  then have "fst (strtoul ?h 16) = of_nat (unat ?x)" using strtoul_hex_string [of 2 "unat ?x"] by simp
  then have "ucast (fst (strtoul ?h 16)) = ?x" by (simp only: u8_u32_u8)
  then have "code_ok CHECK_TYPE_XOR (''$command,'' @ c @ '',response: OK'') ?h" by (simp only: code_ok_def check_type.case)
  ultimately show "reply_msg c (ok_reply c)" using t c unfolding reply_msg_def ok_reply_def by blast
qed

definition gdev_zero :: gdev where
  "gdev_zero = \<lparr>rx = gnss_zero, gp_enable = 1, gp_mode = 1, gp_priority = ''1234'', sent = []\<rparr>"

lemma gdev_zero_ok: "dev_ok gdev_zero" "cmd_cnt (rx gdev_zero) = 0" "reply_sem (rx gdev_zero) = 0"
  by (simp_all add: dev_ok_def gdev_zero_def gnss_zero_def)

lemma sample_cmd: "cmd_ok [''MASK BDS'', ''UNMASK GPS'']" "cmd_text [''MASK BDS'', ''UNMASK GPS''] = ''MASK BDS'' @ CRLF @ ''UNMASK GPS'' @ CRLF"
  by (simp_all add: cmd_ok_def cmd_line_def NUL_eq)

theorem ut4b0_receiver_configuration_confirmed_witness:
  "let send = (\<lambda>msgs. ut4b0_receiver_configuration msgs (''MASK BDS'' @ CRLF @ ''UNMASK GPS'' @ CRLF));
       confirmed = [ok_reply ''MASK BDS'', ok_reply ''UNMASK GPS''] in
   \<exists>d0 d1 d2 d3. send confirmed gdev_zero = Some (d0, OK) \<and> send (take 1 confirmed) gdev_zero = Some (d1, NG) \<and>
     send confirmed d1 = Some (d2, NG) \<and> send confirmed d2 = Some (d3, OK)"
proof -
  let ?cs = "[''MASK BDS'', ''UNMASK GPS'']" and ?ms = "[ok_reply ''MASK BDS'', ok_reply ''UNMASK GPS'']"
  have r: "reply_msg ''MASK BDS'' (ok_reply ''MASK BDS'')" "reply_msg ''UNMASK GPS'' (ok_reply ''UNMASK GPS'')"
    by (rule ok_reply_msg; simp)+
  have m: "length ?ms = length ?cs" "\<forall>j < length ?cs. reply_msg (?cs ! j) (?ms ! j)"
    using r by (auto simp: less_Suc_eq)
  have f: "prefix_free ?cs" by (auto simp: prefix_free_def less_Suc_eq strncmp_eq_def)
  note c = ut4b0_receiver_configuration_confirmed [OF sample_cmd(1) _ _ m, of _ "[]", unfolded sample_cmd(2)]
  obtain d0 d1 where d: "ut4b0_receiver_configuration ?ms (''MASK BDS'' @ CRLF @ ''UNMASK GPS'' @ CRLF) gdev_zero = Some (d0, OK)"
    "ut4b0_receiver_configuration (take 1 ?ms) (''MASK BDS'' @ CRLF @ ''UNMASK GPS'' @ CRLF) gdev_zero = Some (d1, NG)"
    "cmd_cnt (rx d1) = of_nat 1" "reply_sem (rx d1) = 0" "dev_ok d1"
    using c [OF gdev_zero_ok(1,3)] gdev_zero_ok(2) by (auto dest!: spec [of _ "1 :: nat"])
  obtain d2 where d2: "ut4b0_receiver_configuration ?ms (''MASK BDS'' @ CRLF @ ''UNMASK GPS'' @ CRLF) d1 = Some (d2, NG)"
    "cmd_cnt (rx d2) = 0" "reply_sem (rx d2) = 0" "dev_ok d2"
    using c [OF d(5,4)] d(3) f by auto
  obtain d3 where "ut4b0_receiver_configuration ?ms (''MASK BDS'' @ CRLF @ ''UNMASK GPS'' @ CRLF) d2 = Some (d3, OK)"
    using c [OF d2(4,3)] d2(2) by auto
  then show ?thesis using d(1,2) d2(1) by (auto simp: Let_def)
qed

text \<open>C39. A reply that comes too late confirms the next command. The semaphore is not emptied before
  a command is sent, so when the replies to a command arrive after its time-out, the following command
  is reported as executed although the receiver has not answered it.\<close>

theorem ut4b0_receiver_late_reply_confirms_next:
  assumes "cmd_ok cs" "dev_ok d" "cmd_cnt (rx d) = 0" "reply_sem (rx d) = 0"
    and "map fst rs = cs" "cmd_ok cs2"
  shows "\<exists>d1 g d2. ut4b0_receiver_configuration [] (cmd_text cs) d = Some (d1, NG) \<and>
    replies rs (rx d1) = Some g \<and>
    ut4b0_receiver_configuration [] (cmd_text cs2) (d1\<lparr>rx := g\<rparr>) = Some (d2, OK)"
proof -
  obtain c where c: "stored cs c" "ut4b0_receiver_configuration [] (cmd_text cs) d = do {
      (g, taken) \<leftarrow> reply_pend [] ((rx d)\<lparr>g_save_cmd := c, cmd_send_flag := 1\<rparr>);
      Some (d\<lparr>sent := sent d @ [cmd_text cs], rx := g\<lparr>cmd_send_flag := 0\<rparr>\<rparr>, if taken then OK else NG)
    }" by (rule configuration_run [OF assms(1,2)])
  define d1 where "d1 = d\<lparr>sent := sent d @ [cmd_text cs], rx := (rx d)\<lparr>g_save_cmd := c, cmd_send_flag := 0\<rparr>\<rparr>"
  have r1: "ut4b0_receiver_configuration [] (cmd_text cs) d = Some (d1, NG)" using c(2) assms(4) by (simp add: d1_def)
  have ne: "cs \<noteq> []" using assms(1) by (simp add: cmd_ok_def)
  define g where "g = (rx d1)\<lparr>cmd_cnt := 0, reply_sem := 1\<rparr>"
  have s1: "stored cs (g_save_cmd (rx d1))" "unat (cmd_cnt (rx d1)) = 0" "reply_sem (rx d1) = 0"
    using c(1) assms(3,4) by (simp_all add: d1_def)
  have "replies rs (rx d1) = Some (if length cs = 0 then rx d1
      else if 0 + length cs = length cs then (rx d1)\<lparr>cmd_cnt := 0, reply_sem := reply_sem (rx d1) + 1\<rparr>
      else (rx d1)\<lparr>cmd_cnt := of_nat (0 + length cs)\<rparr>)"
    by (rule replies_run [OF s1(1) assms(1) s1(2)]) (use ne assms(5) in simp_all)
  then have r2: "replies rs (rx d1) = Some g" using ne s1(3) by (simp add: g_def)
  have "dev_ok (d1\<lparr>rx := g\<rparr>)" using c(1) assms(2) by (simp add: dev_ok_def d1_def g_def stored_def)
  from configuration_run [OF assms(6) this, of "[]"] obtain c2 where
    "ut4b0_receiver_configuration [] (cmd_text cs2) (d1\<lparr>rx := g\<rparr>) = do {
      (h, taken) \<leftarrow> reply_pend [] (g\<lparr>g_save_cmd := c2, cmd_send_flag := 1\<rparr>);
      Some (d1\<lparr>sent := sent d1 @ [cmd_text cs2], rx := h\<lparr>cmd_send_flag := 0\<rparr>\<rparr>, if taken then OK else NG)
    }" by auto
  then show ?thesis using r1 r2 by (intro exI conjI) (assumption | simp add: g_def)+
qed

theorem ut4b0_receiver_late_reply_confirms_next_witness:
  "\<exists>d1 g d2. ut4b0_receiver_configuration [] (cmd_text [''MASK BDS'', ''UNMASK GPS'']) gdev_zero = Some (d1, NG) \<and>
    replies [(''MASK BDS'', []), (''UNMASK GPS'', [])] (rx d1) = Some g \<and>
    ut4b0_receiver_configuration [] (cmd_text [''MASK BDS'', ''UNMASK GPS'']) (d1\<lparr>rx := g\<rparr>) = Some (d2, OK)"
  by (rule ut4b0_receiver_late_reply_confirms_next [OF sample_cmd(1) gdev_zero_ok _ sample_cmd(1)]) simp

text \<open>A command of a single line, without the line end that the multi-line commands have, makes the
  search for the next line follow a null pointer. This concerns every setting of the baud rate and every
  switching of a statement other than UTC.\<close>

theorem ut4b0_receiver_single_line_undefined:
  assumes "rec_type (rx d) = 0" "length (cmd_buf (g_save_cmd (rx d))) = 50" "length (cmd_index (g_save_cmd (rx d))) = 5"
    and "CR \<notin> set p_baud" "NUL \<notin> set p_baud" "prefix_index [''9600'', ''19200'', ''38400'', ''57600'', ''115200'', ''230400'', ''460800''] p_baud 0 \<noteq> None"
  shows "gnss_receiver_serial_baud_set msgs p_baud d = None \<and>
    (\<forall>i \<in> {0, 1, 2, 4, 5, 6}. ut4b0_receiver_statement_set msgs i 1 d = None) \<and>
    (\<forall>i \<in> {0, 1, 2, 5, 6}. ut4b0_receiver_statement_set msgs i 0 d = None)"
proof -
  have *: "ut4b0_receiver_configuration msgs p d = None" if "CR \<notin> set p" "p \<noteq> []" "length p \<le> 50" for p
  proof -
    have "save_loop p 0 1 i = None" for i
      using that by (subst save_loop.simps) (simp add: find_crlf_none)
    then have "ut4b0_receiver_cmd_save p (g_save_cmd (rx d)) = None"
      by (auto simp: ut4b0_receiver_cmd_save_def bind_eq_None_conv)
    then show ?thesis using that by (simp add: ut4b0_receiver_configuration_def)
  qed
  obtain i where i: "prefix_index [''9600'', ''19200'', ''38400'', ''57600'', ''115200'', ''230400'', ''460800''] p_baud 0 = Some i"
    using assms(6) by blast
  let ?p = "''CONFIG COM1 '' @ p_baud"
  have "ut4b0_receiver_serial_baud_set msgs p_baud d = None"
  proof (cases "length ?p < 20")
    case True
    have "NUL \<notin> set ?p" using assms(5) by (auto simp: NUL_eq)
    then have "text_of (put_text (replicate 20 NUL) ?p) = ?p" by (rule text_of_put_text)
    moreover have "strcpy (replicate 20 NUL) 0 ?p = Some (put_text (replicate 20 NUL) ?p)"
      using True by (intro strcpy_0) simp
    moreover have "ut4b0_receiver_configuration msgs ?p d = None"
      by (rule *) (use True assms(4) in auto)
    ultimately show ?thesis by (simp only: ut4b0_receiver_serial_baud_set_def Option.bind.simps)
  next
    case False
    then have "strcpy (replicate 20 NUL) 0 ?p = None" by (intro strcpy_too_long) simp
    then show ?thesis by (simp only: ut4b0_receiver_serial_baud_set_def Option.bind.simps)
  qed
  then have "gnss_receiver_serial_baud_set msgs p_baud d = None"
    by (simp only: gnss_receiver_serial_baud_set_def i option.case assms(1) simp_thms if_True)
  then show ?thesis by (auto simp: ut4b0_receiver_statement_set_def intro!: *)
qed

theorem ut4b0_receiver_single_line_undefined_witness:
  "gnss_receiver_serial_baud_set [] ''115200'' gdev_zero = None"
proof -
  have "prefix_index [''9600'', ''19200'', ''38400'', ''57600'', ''115200'', ''230400'', ''460800''] ''115200'' 0 \<noteq> None"
    by (simp add: strncmp_eq_def)
  then show ?thesis
    using ut4b0_receiver_single_line_undefined [of gdev_zero "''115200''" "[]"] by (simp add: gdev_zero_def gnss_zero_def NUL_eq)
qed

end
