(* ===== verification/Fpga.thy ===== *)
theory Fpga
  imports CString
begin

text \<open>
  The registers of the FPGA, reached over SPI (\<^verbatim>\<open>BSP/src/bsp_spi.c\<close>). The FPGA and the SPI
  peripheral are hardware: a record of functions on a state \<open>'d\<close> of their own is a parameter
  of every definition. The second half states what a device that follows the protocol of
  \<^verbatim>\<open>bsp_spi.h\<close> does, and derives reading and writing of registers from it.

  \<open>SPI_FPGA_SendByte\<close> stores the byte it receives through a pointer that most calls give as
  null; the model drops that byte.
\<close>

section \<open>The link\<close>

text \<open>\<open>dev_xfer\<close> exchanges one byte; \<open>None\<close> is one of the two time-outs.\<close>

record 'd fpga_dev =
  dev_cs_low :: "'d \<Rightarrow> 'd"
  dev_cs_high :: "'d \<Rightarrow> 'd"
  dev_xfer :: "u8 \<Rightarrow> 'd \<Rightarrow> 'd \<times> u8 option"

abbreviation (input) "FPGA_WRITE_BYTE \<equiv> (0x07 :: u8)"
abbreviation (input) "FPGA_READ_BYTE \<equiv> (0x03 :: u8)"
abbreviation (input) "FPGA_WRITE_MULBYTE \<equiv> (0x02 :: u8)"
abbreviation (input) "FPGA_READ_MULBYTE \<equiv> (0x0B :: u8)"
abbreviation (input) "Dummy_Byte \<equiv> (0xFF :: u8)"

definition SPI_FPGA_SendByte :: "'d fpga_dev \<Rightarrow> u8 \<Rightarrow> 'd \<Rightarrow> 'd \<times> u8 option" where
  "SPI_FPGA_SendByte dv send_byte d = dev_xfer dv send_byte d"

definition SPI_FPGA_ReadByte :: "'d fpga_dev \<Rightarrow> 'd \<Rightarrow> 'd \<times> u8 option" where
  "SPI_FPGA_ReadByte dv d = SPI_FPGA_SendByte dv Dummy_Byte d"

text \<open>\<^verbatim>\<open>ret |= SPI_FPGA_SendByte(...)\<close> once per byte: a failure does not stop the sequence.\<close>

fun send_all :: "'d fpga_dev \<Rightarrow> bytes \<Rightarrow> 'd \<Rightarrow> 'd \<times> bool" where
  "send_all dv [] d = (d, True)"
| "send_all dv (b # bs) d =
     (let (d, r) = SPI_FPGA_SendByte dv b d; (d, ok) = send_all dv bs d in (d, r \<noteq> None \<and> ok))"

fun recv_all :: "'d fpga_dev \<Rightarrow> nat \<Rightarrow> 'd \<Rightarrow> 'd \<times> u8 option list" where
  "recv_all dv 0 d = (d, [])"
| "recv_all dv (Suc n) d =
     (let (d, r) = SPI_FPGA_ReadByte dv d; (d, rs) = recv_all dv n d in (d, r # rs))"

definition addr_bytes :: "u32 \<Rightarrow> bytes" where
  "addr_bytes a =
     [ucast (drop_bit 24 (a AND 0xFF000000)), ucast (drop_bit 16 (a AND 0xFF0000)),
      ucast (drop_bit 8 (a AND 0xFF00)), ucast (a AND 0xFF)]"

text \<open>The part the four operations share: chip select, command, address.\<close>

definition spi_open :: "'d fpga_dev \<Rightarrow> u8 \<Rightarrow> u32 \<Rightarrow> 'd \<Rightarrow> 'd \<times> bool" where
  "spi_open dv cmd a d =
     (let d = dev_cs_low dv d; (d, r) = SPI_FPGA_SendByte dv cmd d in
      if r = None then (d, False) else send_all dv (addr_bytes a) d)"

definition SPI_FPGA_ByteWrite :: "'d fpga_dev \<Rightarrow> u8 \<Rightarrow> u32 \<Rightarrow> 'd \<Rightarrow> 'd \<times> u8" where
  "SPI_FPGA_ByteWrite dv write_byte write_addr d =
     (let (d, ok) = spi_open dv FPGA_WRITE_BYTE write_addr d in
      if \<not> ok then (dev_cs_high dv d, NG)
      else let (d, r) = SPI_FPGA_SendByte dv write_byte d in
        (dev_cs_high dv d, if r = None then NG else OK))"

text \<open>\<open>None\<close> is the status \<open>NG\<close>, which leaves the caller's variable as it was.\<close>

definition SPI_FPGA_ByteRead :: "'d fpga_dev \<Rightarrow> u32 \<Rightarrow> 'd \<Rightarrow> 'd \<times> u8 option" where
  "SPI_FPGA_ByteRead dv read_addr d =
     (let (d, ok) = spi_open dv FPGA_READ_BYTE read_addr d in
      if \<not> ok then (dev_cs_high dv d, None)
      else let (d, r) = SPI_FPGA_ReadByte dv d in (dev_cs_high dv d, r))"

text \<open>\<open>pbuf\<close> are the \<open>write_size\<close> bytes that are sent, at most 255.\<close>

definition SPI_FPGA_BufferWrite :: "'d fpga_dev \<Rightarrow> bytes \<Rightarrow> u32 \<Rightarrow> 'd \<Rightarrow> 'd \<times> u8" where
  "SPI_FPGA_BufferWrite dv pbuf write_addr d =
     (let (d, ok) = spi_open dv FPGA_WRITE_MULBYTE write_addr d in
      if \<not> ok then (dev_cs_high dv d, NG)
      else let (d, r) = SPI_FPGA_SendByte dv (of_nat (length pbuf)) d in
        if r = None then (dev_cs_high dv d, NG)
        else let (d, ok) = send_all dv pbuf d in (dev_cs_high dv d, if ok then OK else NG))"

text \<open>The bytes that arrive; where one is \<open>None\<close> the buffer keeps what it held.\<close>

definition SPI_FPGA_BufferRead :: "'d fpga_dev \<Rightarrow> u32 \<Rightarrow> u8 \<Rightarrow> 'd \<Rightarrow> 'd \<times> u8 option list \<times> u8" where
  "SPI_FPGA_BufferRead dv read_addr read_size d =
     (let (d, ok) = spi_open dv FPGA_READ_MULBYTE read_addr d in
      if \<not> ok then (dev_cs_high dv d, [], NG)
      else let (d, r) = SPI_FPGA_SendByte dv read_size d in
        if r = None then (dev_cs_high dv d, [], NG)
        else let (d, rs) = recv_all dv (unat read_size) d in
          (dev_cs_high dv d, rs, if None \<in> set rs then NG else OK))"

section \<open>Devices that follow the protocol\<close>

fun xfers :: "'d fpga_dev \<Rightarrow> bytes \<Rightarrow> 'd \<Rightarrow> 'd \<times> u8 option list" where
  "xfers dv [] d = (d, [])"
| "xfers dv (b # bs) d = (let (d, r) = dev_xfer dv b d; (d, rs) = xfers dv bs d in (d, r # rs))"

text \<open>One frame: the bytes between chip select low and high.\<close>

definition frame :: "'d fpga_dev \<Rightarrow> bytes \<Rightarrow> 'd \<Rightarrow> 'd \<times> u8 option list" where
  "frame dv bs d = (let (d, rs) = xfers dv bs (dev_cs_low dv d) in (dev_cs_high dv d, rs))"

text \<open>The device never times out, a single-byte write frame sets the register and a single-byte
  read frame answers its content and changes none.\<close>

definition fpga_ok :: "'d fpga_dev \<Rightarrow> ('d \<Rightarrow> u32 \<Rightarrow> u8) \<Rightarrow> bool" where
  "fpga_ok dv regs \<longleftrightarrow>
     (\<forall>b d. snd (dev_xfer dv b d) \<noteq> None) \<and>
     (\<forall>a v d. regs (fst (frame dv (FPGA_WRITE_BYTE # addr_bytes a @ [v]) d)) = (regs d)(a := v)) \<and>
     (\<forall>a d. last (snd (frame dv (FPGA_READ_BYTE # addr_bytes a @ [Dummy_Byte]) d)) = Some (regs d a) \<and>
        regs (fst (frame dv (FPGA_READ_BYTE # addr_bytes a @ [Dummy_Byte]) d)) = regs d)"

lemma xfers_append:
  "xfers dv (bs @ cs) d = (let (d, rs) = xfers dv bs d; (d, ss) = xfers dv cs d in (d, rs @ ss))"
  by (induction bs arbitrary: d) (auto simp: Let_def split: prod.splits)

lemma send_all_ok:
  assumes "\<And>b d. snd (dev_xfer dv b d) \<noteq> None"
  shows "send_all dv bs d = (fst (xfers dv bs d), True)"
proof (induction bs arbitrary: d)
  case (Cons b bs)
  have "\<exists>r. snd (dev_xfer dv b d) = Some r" using assms [of b d] by auto
  then show ?case by (auto simp: SPI_FPGA_SendByte_def Cons case_prod_beta Let_def)
qed simp

lemma spi_open_ok:
  assumes "\<And>b d. snd (dev_xfer dv b d) \<noteq> None"
  shows "spi_open dv c a d = (fst (xfers dv (c # addr_bytes a) (dev_cs_low dv d)), True)"
proof -
  have "\<exists>r. snd (dev_xfer dv c (dev_cs_low dv d)) = Some r" using assms by auto
  then show ?thesis by (auto simp: spi_open_def SPI_FPGA_SendByte_def send_all_ok [OF assms] case_prod_beta Let_def)
qed

text \<open>Reading and writing registers on such a device.\<close>

lemma ByteWrite_regs:
  assumes "fpga_ok dv regs"
  shows "snd (SPI_FPGA_ByteWrite dv v a d) = OK"
    and "regs (fst (SPI_FPGA_ByteWrite dv v a d)) = (regs d)(a := v)"
proof -
  have n: "\<And>b d. snd (dev_xfer dv b d) \<noteq> None" using assms by (simp add: fpga_ok_def)
  have "SPI_FPGA_ByteWrite dv v a d = (fst (frame dv (FPGA_WRITE_BYTE # addr_bytes a @ [v]) d), OK)"
    using n by (simp add: SPI_FPGA_ByteWrite_def spi_open_ok [OF n] frame_def xfers_append
        SPI_FPGA_SendByte_def case_prod_beta Let_def)
  then show "snd (SPI_FPGA_ByteWrite dv v a d) = OK" "regs (fst (SPI_FPGA_ByteWrite dv v a d)) = (regs d)(a := v)"
    using assms by (simp_all add: fpga_ok_def)
qed

lemma ByteRead_regs:
  assumes "fpga_ok dv regs"
  shows "snd (SPI_FPGA_ByteRead dv a d) = Some (regs d a)"
    and "regs (fst (SPI_FPGA_ByteRead dv a d)) = regs d"
proof -
  have n: "\<And>b d. snd (dev_xfer dv b d) \<noteq> None" using assms by (simp add: fpga_ok_def)
  let ?f = "frame dv (FPGA_READ_BYTE # addr_bytes a @ [Dummy_Byte]) d"
  have "SPI_FPGA_ByteRead dv a d = (fst ?f, last (snd ?f))"
    using n by (simp add: SPI_FPGA_ByteRead_def SPI_FPGA_ReadByte_def spi_open_ok [OF n] frame_def xfers_append
        SPI_FPGA_SendByte_def case_prod_beta Let_def)
  then show "snd (SPI_FPGA_ByteRead dv a d) = Some (regs d a)" "regs (fst (SPI_FPGA_ByteRead dv a d)) = regs d"
    using assms by (simp_all add: fpga_ok_def)
qed

section \<open>A device\<close>

text \<open>A register file behind the protocol, to evaluate the definitions: the state is the bytes of
  the frame so far and the registers.\<close>

definition addr_of :: "bytes \<Rightarrow> u32" where
  "addr_of bs = foldl (\<lambda>a b. push_bit 8 a OR ucast b) 0 bs"

definition reg_file :: "(bytes \<times> (u32 \<Rightarrow> u8)) fpga_dev" where
  "reg_file =
     \<lparr>dev_cs_low = (\<lambda>(bs, m). ([], m)),
      dev_cs_high = (\<lambda>(bs, m).
        if length bs = 6 \<and> bs ! 0 = FPGA_WRITE_BYTE then ([], m(addr_of (take 4 (drop 1 bs)) := bs ! 5)) else ([], m)),
      dev_xfer = (\<lambda>b (bs, m).
        ((bs @ [b], m), Some (if length bs = 5 \<and> bs ! 0 = FPGA_READ_BYTE then m (addr_of (drop 1 bs)) else 0)))\<rparr>"

text \<open>The bytes of a word: masks drop out under the truncation to a byte.\<close>

lemma mask_byte: "(0xFF :: 'a::len word) = mask 8"
  by (simp add: mask_eq_exp_minus_1)

lemma ucast_mask_byte: "(ucast (x AND 0xFF :: u32) :: u8) = ucast x"
  unfolding mask_byte by (rule bit_word_eqI) (auto simp: bit_simps)

lemma bytes_joined:
  "push_bit 24 (ucast (ucast (drop_bit 24 a) :: u8)) OR push_bit 16 (ucast (ucast (drop_bit 16 a) :: u8))
     OR push_bit 8 (ucast (ucast (drop_bit 8 a) :: u8)) OR ucast (ucast a :: u8) = (a :: u32)"
  (is "?l = a")
proof (rule bit_word_eqI)
  fix n assume "n < LENGTH(32)"
  then consider "n < 8" | "8 \<le> n" "n < 16" | "16 \<le> n" "n < 24" | "24 \<le> n" "n < 32" by fastforce
  then show "bit ?l n = bit a n" by cases (auto simp: bit_simps)
qed

lemma addr_bytes_eq: "addr_bytes a = [ucast (drop_bit 24 a), ucast (drop_bit 16 a), ucast (drop_bit 8 a), ucast a]"
  by (simp add: addr_bytes_def ucast_mask_byte)

lemma addr_of_bytes: "addr_of (addr_bytes a) = a"
  using bytes_joined [of a] by (simp add: addr_of_def addr_bytes_eq or.assoc)

lemma reg_file_ok: "fpga_ok reg_file snd"
  by (auto simp: fpga_ok_def reg_file_def frame_def addr_bytes_eq Let_def
      addr_of_bytes [unfolded addr_bytes_eq] split: prod.splits)

end
