(* ===== verification/SystemRegs.thy ===== *)
theory SystemRegs
  imports Fpga
begin

text \<open>
  The register accesses of \<^verbatim>\<open>APP/System/system.c\<close>. Most ignore the status of the transfer.
\<close>

section \<open>Time\<close>

record system_time =
  st_year :: u16
  st_mon :: u8
  st_day :: u8
  st_hour :: u8
  st_min :: u8
  st_sec :: u8

text \<open>The new value of \<open>g_time\<close>.\<close>

definition system_update_time :: "u16 \<Rightarrow> u8 \<Rightarrow> u8 \<Rightarrow> u8 \<Rightarrow> u8 \<Rightarrow> u8 \<Rightarrow> system_time \<Rightarrow> system_time" where
  "system_update_time year mon day hour minute sec g_time =
     g_time\<lparr>st_year := year, st_mon := mon, st_day := day, st_hour := hour, st_min := minute, st_sec := sec\<rparr>"

section \<open>Writing\<close>

text \<open>Writes whose status nobody looks at.\<close>

definition wr :: "'d fpga_dev \<Rightarrow> u8 \<Rightarrow> u32 \<Rightarrow> 'd \<Rightarrow> 'd" where
  "wr dv v a d = fst (SPI_FPGA_ByteWrite dv v a d)"

definition system_set_wdienable where "system_set_wdienable dv wdienable d = wr dv wdienable 0x0003 d"

definition system_set_wdi where "system_set_wdi dv d = wr dv 1 0x0004 (wr dv 0 0x0004 d)"

definition system_vlan_enable where "system_vlan_enable dv enable d = wr dv (enable AND 0x1) 0x0100 d"

definition system_vlan_proi where "system_vlan_proi dv proi d = wr dv (proi AND 0x7) 0x0101 d"

definition system_vlan_cfi where "system_vlan_cfi dv cfi d = wr dv cfi 0x0102 d"

text \<open>The identifier is a byte, so its upper half is zero.\<close>

definition system_vlan_id :: "'d fpga_dev \<Rightarrow> u8 \<Rightarrow> 'd \<Rightarrow> 'd" where
  "system_vlan_id dv vid d =
     (let w = (ucast vid :: u32) in
      wr dv (ucast (w AND 0xFF)) 0x0104 (wr dv (ucast (drop_bit 8 (w AND 0xFF00))) 0x0103 d))"

text \<open>The bytes of an array, from its start, to registers given in order; too short an array is
  read past its end.\<close>

fun wr_bytes :: "'d fpga_dev \<Rightarrow> bytes \<Rightarrow> u32 list \<Rightarrow> 'd \<Rightarrow> 'd option" where
  "wr_bytes dv bs [] d = Some d"
| "wr_bytes dv [] (a # as) d = None"
| "wr_bytes dv (b # bs) (a # as) d = wr_bytes dv bs as (wr dv (b AND 0xFF) a d)"

definition system_set_mac where
  "system_set_mac dv mac d = wr_bytes dv mac [0x0105, 0x0106, 0x0107, 0x0108, 0x0109, 0x0110] d"

definition system_set_ip where
  "system_set_ip dv ip d = wr_bytes dv ip [0x0111, 0x0112, 0x0113, 0x0114] d"

definition system_set_mask where
  "system_set_mask dv msk d = wr_bytes dv msk [0x0115, 0x0116, 0x0117, 0x0118] d"

definition system_set_gateway where
  "system_set_gateway dv gateway d = wr_bytes dv gateway [0x0105, 0x0106, 0x0107, 0x0108] d"

definition system_set_leap where "system_set_leap dv leap d = wr dv leap 0x0007 d"

definition system_set_time_skew where "system_set_time_skew dv skew d = wr dv (skew AND 0x1F) 0x0008 d"

definition system_set_alarm_led where "system_set_alarm_led dv level d = wr dv level 0x0039 d"

definition system_set_gnss_led where "system_set_gnss_led dv state d = wr dv state 0x0039 d"

definition system_set_out_signal_type where "system_set_out_signal_type dv type d = wr dv type 0x0045 d"

definition system_set_ref_source_alarm where
  "system_set_ref_source_alarm dv state d = wr dv (state AND 0x1) 0x0041 d"

section \<open>Reading\<close>

text \<open>A variable keeps its value when the read fails.\<close>

definition rd :: "'d fpga_dev \<Rightarrow> u32 \<Rightarrow> u8 \<Rightarrow> 'd \<Rightarrow> 'd \<times> u8" where
  "rd dv a old d = (let (d, r) = SPI_FPGA_ByteRead dv a d in (d, case r of None \<Rightarrow> old | Some v \<Rightarrow> v))"

definition version_text :: "u8 \<Rightarrow> u8 \<Rightarrow> string" where
  "version_text m s = ''V'' @ pad_left (CHR ''0'') 2 (dec (unat m)) @ ''.'' @ pad_left (CHR ''0'') 2 (dec (unat s))"

text \<open>\<open>m0\<close> and \<open>s0\<close> are what the uninitialised variables hold; the two texts are
  written to arrays of seven bytes.\<close>

definition system_version_get :: "'d fpga_dev \<Rightarrow> u8 \<Rightarrow> u8 \<Rightarrow> 'd \<Rightarrow> 'd \<times> (string \<times> string) option" where
  "system_version_get dv m0 s0 d =
     (let (d, m1) = rd dv 0x0001 m0 d; (d, s1) = rd dv 0x0002 s0 d;
          (d, m2) = rd dv 0x0001 m1 d; (d, s2) = rd dv 0x0002 s1 d;
          hw = version_text m1 s1; fpga = version_text m2 s2
      in (d, if length hw < 7 \<and> length fpga < 7 then Some (hw, fpga) else None))"

definition system_get_pll_state :: "'d fpga_dev \<Rightarrow> u8 \<Rightarrow> 'd \<Rightarrow> 'd \<times> u8" where
  "system_get_pll_state dv state d = rd dv 0x0010 state d"

text \<open>Sign and magnitude, as \<^verbatim>\<open>sign * phase\<close> in unsigned arithmetic, converted back.\<close>

definition system_get_phase :: "'d fpga_dev \<Rightarrow> 'd \<Rightarrow> 'd \<times> int" where
  "system_get_phase dv d =
     (let (d, t0) = rd dv 0x0031 0 d; (d, t1) = rd dv 0x0032 t0 d; (d, t2) = rd dv 0x0033 t1 d;
          phase = push_bit 16 (ucast (t0 AND 0x7F)) OR push_bit 8 (ucast (t1 AND 0xFF)) OR ucast (t2 AND 0xFF) :: u32
      in (d, sint (if t0 AND 0x80 \<noteq> 0 then - phase else phase)))"

definition system_get_refactory_signal :: "'d fpga_dev \<Rightarrow> 'd \<Rightarrow> 'd \<times> u8" where
  "system_get_refactory_signal dv d = (let (d, t) = rd dv 0x0046 0 d in (d, if t \<noteq> 0xAA then NG else OK))"

text \<open>\<open>value\<close> is the static counter. The comparison is one of \<open>int\<close>s: the complement is
  taken after the promotion.\<close>

definition system_xo_check :: "'d fpga_dev \<Rightarrow> u8 \<Rightarrow> 'd \<Rightarrow> 'd \<times> u8 \<times> u8" where
  "system_xo_check dv value d =
     (let d = wr dv value 0x0008 d; (d, t) = rd dv 0x0008 0 d in
      (d, value + 1, if int (unat value) = not (int (unat t)) then OK else NG))"

section \<open>Facts\<close>

lemma wr_regs: "fpga_ok dv regs \<Longrightarrow> regs (wr dv v a d) = (regs d)(a := v)"
  by (simp only: wr_def ByteWrite_regs(2))

lemma rd_regs:
  assumes "fpga_ok dv regs"
  shows "snd (rd dv a old d) = regs d a" "regs (fst (rd dv a old d)) = regs d"
  using ByteRead_regs [OF assms, of a d] by (simp_all add: rd_def case_prod_beta Let_def)

end
