(* ===== verification/FpgaCmd.thy ===== *)
theory FpgaCmd
  imports Fpga
begin

text \<open>
  The commands that read and write FPGA registers by address (\<^verbatim>\<open>APP/Fpga/fpga_handler.c\<close>) and
  the register accesses of \<^verbatim>\<open>APP/System/system.c\<close>.
\<close>

section \<open>Parameters of a command\<close>

text \<open>The handlers take their parameters as \<^verbatim>\<open>va_list\<close> and copy them to an array of six
  pointers, null where none was given. Using a null pointer is undefined, as is a seventh
  parameter.\<close>

definition MAX_PARAM_NUM :: nat where "MAX_PARAM_NUM = 6"

definition arg :: "string option list \<Rightarrow> nat \<Rightarrow> string option" where
  "arg ps k = (if k < length ps then ps ! k else None)"

section \<open>Writing\<close>

abbreviation (input) "FPGA_RW_MAX_SIZE \<equiv> (256 :: nat)"

text \<open>The loop over the text; \<open>None\<close> also when it does not end. The byte behind the last
  separator is converted from what \<open>param_buf\<close> holds then.\<close>

definition param_byte :: "string \<Rightarrow> u8" where
  "param_byte param_buf = ucast (fst (strtoul (text_of param_buf) 16))"

partial_function (option) write_data_loop ::
  "string \<Rightarrow> u8 \<Rightarrow> u8 \<Rightarrow> string \<Rightarrow> u8 \<Rightarrow> bytes \<Rightarrow> (u8 \<times> bytes \<times> u8) option" where
  "write_data_loop p_param i param_len param_buf cnt p_data = do {
     c \<leftarrow> rd_at p_param (unat i);
     if c = NUL then do {
       p_data \<leftarrow> wr_at p_data (unat cnt) (param_byte param_buf);
       Some (OK, p_data, cnt + 1)
     } else if c = CHR '' '' then write_data_loop p_param i param_len param_buf cnt p_data
     else if c = CHR '','' \<or> c = CHR ''.'' then do {
       param_buf \<leftarrow> wr_at param_buf (unat param_len) NUL;
       p_data \<leftarrow> wr_at p_data (unat cnt) (param_byte param_buf);
       write_data_loop p_param (i + 1) 0 param_buf (cnt + 1) p_data
     } else if param_len \<ge> 3 then Some (NG, p_data, cnt)
     else do {
       param_buf \<leftarrow> wr_at param_buf (unat param_len) c;
       write_data_loop p_param (i + 1) (param_len + 1) param_buf cnt p_data
     }
   }"

text \<open>The status, the buffer and, when the status is \<open>OK\<close>, the number of bytes.\<close>

definition fpga_write_data_parser :: "string \<Rightarrow> bytes \<Rightarrow> (u8 \<times> bytes \<times> u8) option" where
  "fpga_write_data_parser p_param p_data = write_data_loop p_param 0 0 (replicate 4 NUL) 0 p_data"

text \<open>\<open>buf\<close> is what the uninitialised buffer holds.\<close>

definition fpga_write_cmd_handler :: "'d fpga_dev \<Rightarrow> bytes \<Rightarrow> string option list \<Rightarrow> 'd \<Rightarrow> ('d \<times> u8) option" where
  "fpga_write_cmd_handler dv buf ps d =
     (if MAX_PARAM_NUM < length ps then None
      else if None \<in> set ps then Some (d, NG)
      else do {
        p0 \<leftarrow> arg ps 0;
        p1 \<leftarrow> arg ps 1;
        let write_addr = fst (strtoul p0 16);
        let write_size = (word_of_int (atoi p1) :: u8);
        p2 \<leftarrow> arg ps 2;
        if write_size = 1 then Some (SPI_FPGA_ByteWrite dv (ucast (fst (strtoul p2 16))) write_addr d)
        else do {
          (r, write_buf, write_cnt) \<leftarrow> fpga_write_data_parser (p2 @ [NUL]) buf;
          if r = NG then Some (d, NG)
          else do {
            let write_cnt = (if write_cnt > write_size then write_size else write_cnt);
            Some (SPI_FPGA_BufferWrite dv (take (unat write_cnt) write_buf) write_addr d)
          }
        }
      })"

section \<open>Reading\<close>

text \<open>The bytes that arrived over those the buffer held; past its end is undefined.\<close>

fun store_bytes :: "bytes \<Rightarrow> nat \<Rightarrow> u8 option list \<Rightarrow> bytes option" where
  "store_bytes buf i [] = Some buf"
| "store_bytes buf i (None # rs) = store_bytes buf (Suc i) rs"
| "store_bytes buf i (Some b # rs) = do { buf \<leftarrow> wr_at buf i b; store_bytes buf (Suc i) rs }"

text \<open>\<open>buf\<close> is the memory the third parameter points to.\<close>

definition fpga_read_cmd_handler ::
  "'d fpga_dev \<Rightarrow> string option list \<Rightarrow> bytes \<Rightarrow> 'd \<Rightarrow> ('d \<times> bytes \<times> u8) option" where
  "fpga_read_cmd_handler dv ps buf d =
     (if MAX_PARAM_NUM < length ps then None
      else if None \<in> set ps then Some (d, buf, NG)
      else do {
        p0 \<leftarrow> arg ps 0;
        p1 \<leftarrow> arg ps 1;
        let read_addr = fst (strtoul p0 16);
        let read_size = (word_of_int (atoi p1) :: u8);
        p2 \<leftarrow> arg ps 2;
        if read_size = 1 then
          (case SPI_FPGA_ByteRead dv read_addr d of
             (d, None) \<Rightarrow> Some (d, buf, NG)
           | (d, Some v) \<Rightarrow> do { buf \<leftarrow> wr_at buf 0 v; Some (d, buf, OK) })
        else
          (case SPI_FPGA_BufferRead dv read_addr read_size d of
             (d, rs, r) \<Rightarrow> do {
               buf \<leftarrow> store_bytes buf 0 rs;
               if r = NG then Some (d, buf, NG)
               else do { buf \<leftarrow> wr_at buf (unat read_size) 0; Some (d, buf, OK) }
             })
      })"

end
