(* ===== verification/Settings.thy ===== *)
theory Settings
  imports SystemRegs FpgaCmd
begin

text \<open>
  The settings of the outputs: the parts of \<^verbatim>\<open>tConfigParameters\<close> (\<^verbatim>\<open>APP/Config/config.h\<close>)
  that the commands of \<^verbatim>\<open>APP/Output\<close> change, the state those commands work on, and the
  sequences of register accesses they share.
\<close>

section \<open>Parameters\<close>

record ptp_net =
  ptp_mac :: bytes
  ptp_ipaddr :: u32
  ptp_submask :: u32
  ptp_gateway :: u32
  vlan_enable :: u8
  vlan_cfi :: u8
  vlan_pcp :: u8
  vlan_vid :: u16

text \<open>The fields that are bit fields of one bit hold 0 or 1.\<close>

record ptp_mode =
  sync_frequency :: u8
  anounce_frequency :: u8
  domain :: u8
  protocol :: u8
  priority1 :: u8
  priority2 :: u8
  port_enable :: u8
  esmc_enable :: u8
  delay_type :: u8
  unicast :: u8
  encode_package :: u8
  step_type :: u8
  flag_freq_trac :: u8
  flag_time_trac :: u8
  flag_time_scale :: u8
  flag_leap59 :: u8
  flag_leap61 :: u8
  time_source :: u8
  esmc_ssm :: u8
  clock_class :: bytes
  utc_offset :: u16
  ntp_en :: u8

record pps_irigb =
  delay_irigb_com :: int
  delay_pps_tod_com :: int
  signal_type :: u8
  pps_status :: u8
  tod_jitter :: u8
  tod_clock_type :: u8
  tod_clock_status :: u16
  tod_moni_alarm :: u16
  time_zone :: u8
  flag_leappre :: u8
  daylight_pre :: u8
  clock_quality :: u8

record arp_entry =
  arp_reseved :: u16
  arp_time_out :: u16
  arp_flag :: u16
  arp_mac :: bytes
  arp_ip :: bytes

record 'd xgm =
  fpga :: 'd
  net_par :: ptp_net
  mode_par :: ptp_mode
  out_par :: pps_irigb
  gnss_delay :: int
  arp_table :: "arp_entry list"

section \<open>Register sequences\<close>

text \<open>Writes in order; the first that fails ends the sequence with \<open>NG\<close>.\<close>

fun reg_writes :: "'d fpga_dev \<Rightarrow> (u8 \<times> u32) list \<Rightarrow> 'd xgm \<Rightarrow> 'd xgm \<times> u8" where
  "reg_writes dv [] s = (s, OK)"
| "reg_writes dv ((v, a) # vas) s =
     (let (d, r) = SPI_FPGA_ByteWrite dv v a (fpga s); s = s\<lparr>fpga := d\<rparr> in
      if r = NG then (s, NG) else reg_writes dv vas s)"

text \<open>Reads in order; the first that fails ends the sequence with \<open>None\<close>.\<close>

fun reg_reads :: "'d fpga_dev \<Rightarrow> u32 list \<Rightarrow> 'd xgm \<Rightarrow> 'd xgm \<times> bytes option" where
  "reg_reads dv [] s = (s, Some [])"
| "reg_reads dv (a # as) s =
     (let (d, r) = SPI_FPGA_ByteRead dv a (fpga s); s = s\<lparr>fpga := d\<rparr> in
      case r of None \<Rightarrow> (s, None)
      | Some v \<Rightarrow> (let (s, vs) = reg_reads dv as s in (s, map_option (\<lambda>vs. v # vs) vs)))"

section \<open>Commands\<close>

text \<open>A setting takes its text, null or not, and is \<open>None\<close> where its behaviour is undefined; a
  query writes its answer over the text of its buffer.\<close>

type_synonym 'd setter = "string option \<Rightarrow> 'd xgm \<Rightarrow> ('d xgm \<times> u8) option"
type_synonym 'd query = "string option \<Rightarrow> 'd xgm \<Rightarrow> 'd xgm \<times> string option \<times> u8"

definition set_param :: "(string \<Rightarrow> 'd xgm \<Rightarrow> 'd xgm \<times> u8) \<Rightarrow> 'd setter" where
  "set_param f p_param s = Some (case p_param of None \<Rightarrow> (s, NG) | Some t \<Rightarrow> f t s)"

definition set_partial :: "(string \<Rightarrow> 'd xgm \<Rightarrow> ('d xgm \<times> u8) option) \<Rightarrow> 'd setter" where
  "set_partial f p_param s = (case p_param of None \<Rightarrow> Some (s, NG) | Some t \<Rightarrow> f t s)"

text \<open>A query that reads registers and then answers: \<open>ans\<close> gives the text, the settings to
  store and the status from the bytes read.\<close>

definition query_regs ::
  "'d fpga_dev \<Rightarrow> u32 list \<Rightarrow> (bytes \<Rightarrow> 'd xgm \<Rightarrow> 'd xgm \<times> string option \<times> u8) \<Rightarrow> 'd query" where
  "query_regs dv as ans p_param s =
     (case p_param of
        None \<Rightarrow> (s, p_param, NG)
      | Some old \<Rightarrow>
          (case reg_reads dv as s of
             (s, None) \<Rightarrow> (s, p_param, NG)
           | (s, Some vs) \<Rightarrow>
               (let (s, t, r) = ans vs s in (s, case t of None \<Rightarrow> p_param | Some t \<Rightarrow> Some t, r))))"

abbreviation (input) "NL \<equiv> [CHR 0x0D, CHR 0x0A]"

text \<open>\<open>%d\<close> of an \<open>int\<close>.\<close>

definition sdec :: "int \<Rightarrow> string" where
  "sdec i = (if i < 0 then CHR ''-'' # dec (nat (- i)) else dec (nat i))"

text \<open>The first entry of a table that the text starts with.\<close>

fun find_prefix :: "string list \<Rightarrow> string \<Rightarrow> nat \<Rightarrow> nat option" where
  "find_prefix [] p i = None"
| "find_prefix (t # ts) p i = (if starts_with p t then Some i else find_prefix ts p (Suc i))"

text \<open>The settings that compare the text with the names of their values in turn, store the value
  and write it to one register; and the queries that print the name of the value of a register.\<close>

fun chosen :: "(string \<times> u8) list \<Rightarrow> string \<Rightarrow> u8 option" where
  "chosen [] p = None"
| "chosen ((t, v) # tvs) p = (if starts_with p t then Some v else chosen tvs p)"

definition switch_set :: "'d fpga_dev \<Rightarrow> u32 \<Rightarrow> (string \<times> u8) list \<Rightarrow> (u8 \<Rightarrow> 'd xgm \<Rightarrow> 'd xgm) \<Rightarrow> 'd setter" where
  "switch_set dv reg tbl store = set_param (\<lambda>t s.
     case chosen tbl t of None \<Rightarrow> (s, NG) | Some v \<Rightarrow> reg_writes dv [(v, reg)] (store v s))"

definition switch_rtrv :: "'d fpga_dev \<Rightarrow> u32 \<Rightarrow> string list \<Rightarrow> (u8 \<Rightarrow> 'd xgm \<Rightarrow> 'd xgm) \<Rightarrow> 'd query" where
  "switch_rtrv dv reg names store = query_regs dv [reg] (\<lambda>t s.
     if unat (t ! 0) < length names then (store (t ! 0) s, Some (names ! unat (t ! 0) @ NL), OK)
     else (s, Some (''failure'' @ NL), NG))"

text \<open>The queries that print the value of a register as a number.\<close>

definition number_rtrv :: "'d fpga_dev \<Rightarrow> u32 \<Rightarrow> (u8 \<Rightarrow> 'd xgm \<Rightarrow> 'd xgm) \<Rightarrow> 'd query" where
  "number_rtrv dv reg store = query_regs dv [reg] (\<lambda>t s.
     (store (t ! 0) s, Some (dec (unat (t ! 0)) @ NL), OK))"

text \<open>What a handler does with a sub-command: with three parameters the query, into the buffer
  that is the last; with four the setting, of the last but one.\<close>

definition query_or_set ::
  "nat \<Rightarrow> nat \<Rightarrow> 'd query \<Rightarrow> 'd setter \<Rightarrow> string option list \<Rightarrow> 'd xgm \<Rightarrow>
     ('d xgm \<times> string option \<times> u8) option" where
  "query_or_set rtrv set_num q st ps s =
     (let num = length ps; buf = arg ps (num - 1) in
      if num = rtrv then Some (q buf s)
      else if num = set_num then do { (s, r) \<leftarrow> st (arg ps (num - 2)) s; Some (s, buf, r) }
      else Some (s, buf, NG))"

section \<open>On a device that follows the protocol\<close>

fun dev_writes :: "'d fpga_dev \<Rightarrow> (u8 \<times> u32) list \<Rightarrow> 'd \<Rightarrow> 'd" where
  "dev_writes dv [] d = d"
| "dev_writes dv ((v, a) # vas) d = dev_writes dv vas (fst (SPI_FPGA_ByteWrite dv v a d))"

fun dev_reads :: "'d fpga_dev \<Rightarrow> u32 list \<Rightarrow> 'd \<Rightarrow> 'd" where
  "dev_reads dv [] d = d"
| "dev_reads dv (a # as) d = dev_reads dv as (fst (SPI_FPGA_ByteRead dv a d))"

fun regs_set :: "(u8 \<times> u32) list \<Rightarrow> (u32 \<Rightarrow> u8) \<Rightarrow> u32 \<Rightarrow> u8" where
  "regs_set [] m = m"
| "regs_set ((v, a) # vas) m = regs_set vas (m(a := v))"

lemma reg_writes_ok:
  assumes "fpga_ok dv regs"
  shows "reg_writes dv vas s = (s\<lparr>fpga := dev_writes dv vas (fpga s)\<rparr>, OK)"
proof (induction vas arbitrary: s)
  case (Cons va vas)
  obtain v a where va: "va = (v, a)" by (cases va)
  have "snd (SPI_FPGA_ByteWrite dv v a (fpga s)) = OK" by (rule ByteWrite_regs(1) [OF assms])
  then show ?case by (simp add: va Let_def case_prod_beta Cons.IH)
qed simp

lemma dev_writes_regs:
  assumes "fpga_ok dv regs"
  shows "regs (dev_writes dv vas d) = regs_set vas (regs d)"
proof (induction vas arbitrary: d)
  case (Cons va vas)
  show ?case by (cases va) (simp add: Cons.IH ByteWrite_regs(2) [OF assms] del: fun_upd_apply)
qed simp

lemma dev_reads_regs:
  assumes "fpga_ok dv regs"
  shows "regs (dev_reads dv as d) = regs d"
  by (induction as arbitrary: d) (simp_all add: ByteRead_regs(2) [OF assms])

lemma reg_reads_ok:
  assumes "fpga_ok dv regs"
  shows "reg_reads dv as s = (s\<lparr>fpga := dev_reads dv as (fpga s)\<rparr>, Some (map (regs (fpga s)) as))"
proof (induction as arbitrary: s)
  case (Cons a as)
  have r: "snd (SPI_FPGA_ByteRead dv a (fpga s)) = Some (regs (fpga s) a)" by (rule ByteRead_regs(1) [OF assms])
  have k: "regs (fst (SPI_FPGA_ByteRead dv a (fpga s))) = regs (fpga s)" by (rule ByteRead_regs(2) [OF assms])
  show ?case by (simp add: Let_def case_prod_beta Cons.IH r k)
qed simp

text \<open>Distinct registers are read back as they were written.\<close>

lemma regs_set_other: "a \<notin> snd ` set vas \<Longrightarrow> regs_set vas m a = m a"
  by (induction vas m rule: regs_set.induct) auto

lemma regs_set_map:
  assumes "distinct (map snd vas)"
  shows "map (regs_set vas m) (map snd vas) = map fst vas"
  using assms
proof (induction vas arbitrary: m)
  case (Cons va vas)
  obtain v a where va: "va = (v, a)" by (cases va)
  have "regs_set vas (m(a := v)) a = v" using Cons.prems by (simp add: va regs_set_other)
  then show ?case using Cons by (simp add: va)
qed simp

lemma query_regs_ok:
  assumes "fpga_ok dv regs"
  shows "query_regs dv as ans (Some old) s =
    (let (s, t, r) = ans (map (regs (fpga s)) as) (s\<lparr>fpga := dev_reads dv as (fpga s)\<rparr>) in
     (s, case t of None \<Rightarrow> Some old | Some t \<Rightarrow> Some t, r))"
  by (simp add: query_regs_def reg_reads_ok [OF assms])

end
