(* ===== verification/OutPps.thy ===== *)
theory OutPps
  imports Settings
begin

text \<open>
  The 1PPS, time-of-day and IRIG-B outputs: \<^verbatim>\<open>APP/Output/out_pps_tod.c\<close>, and the 1PPS delay of
  \<^verbatim>\<open>APP/Gnss/gnss_handler.c\<close>. A setting checks its text, stores the value and writes it to
  registers; a query reads the registers, stores what it found and prints it.

  The conversion of a number outside the range of \<open>int\<close> is undefined in C; the model
  converts it, and the properties bound the numbers.
\<close>

section \<open>Delays\<close>

text \<open>Sign and magnitude in units of 8, in four bytes.\<close>

definition DLY_COMP_UNIT :: int where "DLY_COMP_UNIT = 8"

definition delay_bytes :: "int \<Rightarrow> bytes" where
  "delay_bytes offset =
     (let value = (word_of_int (\<bar>offset\<bar> div DLY_COMP_UNIT) :: u32);
          value = (if offset < 0 then value OR 0x08000000 else value) in
      [ucast (drop_bit 24 (value AND 0x0F000000)), ucast (drop_bit 16 (value AND 0xFF0000)),
       ucast (drop_bit 8 (value AND 0xFF00)), ucast (value AND 0xFF)])"

definition delay_value :: "bytes \<Rightarrow> int" where
  "delay_value t =
     (let ret_sign = t ! 0 AND 0x08 \<noteq> 0;
          v = (ucast (t ! 0 AND 0x07) :: u32);
          v = push_bit 8 v OR ucast (t ! 1 AND 0xFF);
          v = push_bit 8 v OR ucast (t ! 2 AND 0xFF);
          v = push_bit 8 v OR ucast (t ! 3 AND 0xFF) in
      if ret_sign then - uint v * 8 else uint v * 8)"

definition OUT_B_OFFSET_REG :: "u32 list" where "OUT_B_OFFSET_REG = [0x0050, 0x0051, 0x0052, 0x0053]"
definition OUT_TOD_OFFSET_REG :: "u32 list" where "OUT_TOD_OFFSET_REG = [0x0011, 0x0012, 0x0013, 0x0014]"
definition GNSS_GPS_PPS_OFFSET_REG :: "u32 list" where "GNSS_GPS_PPS_OFFSET_REG = [0x0027, 0x0028, 0x0029, 0x0030]"

definition out_set_irigb_dlycom :: "'d fpga_dev \<Rightarrow> 'd setter" where
  "out_set_irigb_dlycom dv = set_param (\<lambda>t s.
     let offset = atoi t; s = s\<lparr>out_par := (out_par s)\<lparr>delay_irigb_com := offset\<rparr>\<rparr> in
     reg_writes dv (zip (delay_bytes offset) OUT_B_OFFSET_REG) s)"

definition out_set_ppstod_dlycom :: "'d fpga_dev \<Rightarrow> 'd setter" where
  "out_set_ppstod_dlycom dv = set_param (\<lambda>t s.
     let offset = atoi t; s = s\<lparr>out_par := (out_par s)\<lparr>delay_pps_tod_com := offset\<rparr>\<rparr> in
     reg_writes dv (zip (delay_bytes offset) OUT_TOD_OFFSET_REG) s)"

definition out_irigb_dlycom_rtrv :: "'d fpga_dev \<Rightarrow> 'd query" where
  "out_irigb_dlycom_rtrv dv = query_regs dv OUT_B_OFFSET_REG (\<lambda>t s.
     (s\<lparr>out_par := (out_par s)\<lparr>delay_irigb_com := delay_value t\<rparr>\<rparr>, Some (sdec (delay_value t) @ NL), OK))"

definition out_ppstod_dlycom_rtrv :: "'d fpga_dev \<Rightarrow> 'd query" where
  "out_ppstod_dlycom_rtrv dv = query_regs dv OUT_TOD_OFFSET_REG (\<lambda>t s.
     (s\<lparr>out_par := (out_par s)\<lparr>delay_pps_tod_com := delay_value t\<rparr>\<rparr>, Some (sdec (delay_value t) @ NL), OK))"

text \<open>The limits are those of \<^verbatim>\<open>gnss_handler.h\<close>.\<close>

definition gnss_set_gps_pps_offset :: "'d fpga_dev \<Rightarrow> int \<Rightarrow> 'd xgm \<Rightarrow> 'd xgm \<times> u8" where
  "gnss_set_gps_pps_offset dv offset s =
     (if offset > 1000000 \<or> offset < - 1000000 then (s, NG)
      else reg_writes dv (zip (delay_bytes offset) GNSS_GPS_PPS_OFFSET_REG) (s\<lparr>gnss_delay := offset\<rparr>))"

text \<open>The status of the first read is ignored, and \<open>NG\<close> is returned as the value 1.\<close>

definition gnss_get_gps_pps_offset :: "'d fpga_dev \<Rightarrow> 'd xgm \<Rightarrow> 'd xgm \<times> int" where
  "gnss_get_gps_pps_offset dv s =
     (let (d, t0) = rd dv (GNSS_GPS_PPS_OFFSET_REG ! 0) 0 (fpga s);
          (s, r) = reg_reads dv (tl GNSS_GPS_PPS_OFFSET_REG) (s\<lparr>fpga := d\<rparr>) in
      case r of None \<Rightarrow> (s, 1)
      | Some t \<Rightarrow> (s\<lparr>gnss_delay := delay_value (t0 # t)\<rparr>, delay_value (t0 # t)))"

section \<open>IRIG-B\<close>

definition pPrecuationValue :: "string list" where "pPrecuationValue = [''00'', ''01'', ''10'', ''11'']"

definition pTimeZone :: "string list" where
  "pTimeZone = [''utc+0'', ''utc+1'', ''utc+2'', ''utc+3'', ''utc+4'', ''utc+5'', ''utc+6'', ''utc+7'',
     ''utc+8'', ''utc+9'', ''utc+10'', ''utc+11'', ''utc+12'', ''utc-11'', ''utc-10'', ''utc-9'',
     ''utc-8'', ''utc-7'', ''utc-6'', ''utc-5'', ''utc-4'', ''utc-3'', ''utc-2'', ''utc-1'']"

abbreviation (input) "TIME_ZONE_NUM \<equiv> (24 :: nat)"
abbreviation (input) "WEST_1_ZONE \<equiv> (13 :: nat)"

definition out_set_irigb_leapPreflag :: "'d fpga_dev \<Rightarrow> 'd setter" where
  "out_set_irigb_leapPreflag dv = switch_set dv 0x0054 [(''00'', 0), (''01'', 1), (''10'', 2), (''11'', 3)]
     (\<lambda>v s. s\<lparr>out_par := (out_par s)\<lparr>flag_leappre := v\<rparr>\<rparr>)"

definition out_set_irigb_daylight :: "'d fpga_dev \<Rightarrow> 'd setter" where
  "out_set_irigb_daylight dv = switch_set dv 0x0055 [(''00'', 0), (''01'', 1), (''10'', 2), (''11'', 3)]
     (\<lambda>v s. s\<lparr>out_par := (out_par s)\<lparr>daylight_pre := v\<rparr>\<rparr>)"

definition zone_code :: "nat \<Rightarrow> u8" where
  "zone_code i = (if WEST_1_ZONE \<le> i then of_nat (TIME_ZONE_NUM - i) OR 0x10 else of_nat i)"

definition out_set_irigb_timeskew :: "'d fpga_dev \<Rightarrow> 'd setter" where
  "out_set_irigb_timeskew dv = set_param (\<lambda>t s.
     case find_prefix pTimeZone t 0 of
       None \<Rightarrow> (s, NG)
     | Some i \<Rightarrow> reg_writes dv [(zone_code i, 0x0056)] (s\<lparr>out_par := (out_par s)\<lparr>time_zone := zone_code i\<rparr>\<rparr>))"

definition out_set_irigb_clockquality :: "'d fpga_dev \<Rightarrow> 'd setter" where
  "out_set_irigb_clockquality dv = set_param (\<lambda>t s.
     let tmp = word_of_int (atoi t) AND 0x0F in
     reg_writes dv [(tmp, 0x0057)] (s\<lparr>out_par := (out_par s)\<lparr>clock_quality := tmp\<rparr>\<rparr>))"

definition out_irigb_leapPreflag_rtrv :: "'d fpga_dev \<Rightarrow> 'd query" where
  "out_irigb_leapPreflag_rtrv dv = query_regs dv [0x0054] (\<lambda>t s.
     let tmp = t ! 0 in
     if 4 \<le> unat tmp then (s, None, NG)
     else (s\<lparr>out_par := (out_par s)\<lparr>flag_leappre := tmp AND 0x3\<rparr>\<rparr>, Some (pPrecuationValue ! unat tmp @ NL), OK))"

definition out_irigb_daylight_rtrv :: "'d fpga_dev \<Rightarrow> 'd query" where
  "out_irigb_daylight_rtrv dv = query_regs dv [0x0055] (\<lambda>t s.
     let tmp = t ! 0 in
     if 4 \<le> unat tmp then (s, None, NG)
     else (s\<lparr>out_par := (out_par s)\<lparr>daylight_pre := tmp AND 0x3\<rparr>\<rparr>, Some (pPrecuationValue ! unat tmp @ NL), OK))"

text \<open>The index is computed in a byte, so it may wrap.\<close>

definition out_irigb_timeskew_rtrv :: "'d fpga_dev \<Rightarrow> 'd query" where
  "out_irigb_timeskew_rtrv dv = query_regs dv [0x0056] (\<lambda>t s.
     let tmp = t ! 0; indx = (if tmp AND 0x10 \<noteq> 0 then 24 - (tmp AND 0x0F) else tmp AND 0x0F) in
     if TIME_ZONE_NUM \<le> unat indx then (s, None, NG)
     else (s\<lparr>out_par := (out_par s)\<lparr>time_zone := tmp\<rparr>\<rparr>, Some (pTimeZone ! unat indx @ NL), OK))"

definition out_irigb_clockquality_rtrv :: "'d fpga_dev \<Rightarrow> 'd query" where
  "out_irigb_clockquality_rtrv dv = query_regs dv [0x0057] (\<lambda>t s.
     (s\<lparr>out_par := (out_par s)\<lparr>clock_quality := t ! 0 AND 0x0F\<rparr>\<rparr>, Some (dec (unat (t ! 0 AND 0x0F)) @ NL), OK))"

section \<open>Time of day\<close>

text \<open>The type is stored in the field of the clock type.\<close>

definition out_set_tod_type :: "'d fpga_dev \<Rightarrow> 'd setter" where
  "out_set_tod_type dv = switch_set dv 0x0015 [(''0'', 0), (''1'', 1)]
     (\<lambda>v s. s\<lparr>out_par := (out_par s)\<lparr>tod_clock_type := v\<rparr>\<rparr>)"

definition out_set_pps_status :: "'d fpga_dev \<Rightarrow> 'd setter" where
  "out_set_pps_status dv = set_param (\<lambda>t s.
     let tmp = word_of_int (atoi t) in
     reg_writes dv [(tmp, 0x0016)] (s\<lparr>out_par := (out_par s)\<lparr>pps_status := tmp\<rparr>\<rparr>))"

definition out_set_tod_jitter :: "'d fpga_dev \<Rightarrow> 'd setter" where
  "out_set_tod_jitter dv = set_param (\<lambda>t s.
     let tmp = word_of_int (atoi t) in
     reg_writes dv [(tmp, 0x0017)] (s\<lparr>out_par := (out_par s)\<lparr>tod_jitter := tmp\<rparr>\<rparr>))"

definition out_set_clock_type :: "'d fpga_dev \<Rightarrow> 'd setter" where
  "out_set_clock_type dv = set_param (\<lambda>t s.
     let tmp = word_of_int (atoi t) AND 0xC0 in
     reg_writes dv [(tmp, 0x0018)] (s\<lparr>out_par := (out_par s)\<lparr>tod_clock_type := tmp\<rparr>\<rparr>))"

text \<open>The two settings of 16 bits store the variable that is still zero.\<close>

definition out_set_clock_status :: "'d fpga_dev \<Rightarrow> 'd setter" where
  "out_set_clock_status dv = set_param (\<lambda>t s.
     let temp = (word_of_int (atoi t) :: u16) in
     reg_writes dv [(ucast (drop_bit 8 temp AND 0xFF), 0x0019), (ucast (temp AND 0xFF), 0x0020)]
       (s\<lparr>out_par := (out_par s)\<lparr>tod_clock_status := 0\<rparr>\<rparr>))"

definition out_set_monitor_alarm :: "'d fpga_dev \<Rightarrow> 'd setter" where
  "out_set_monitor_alarm dv = set_param (\<lambda>t s.
     let temp = (word_of_int (atoi t) :: u16) in
     reg_writes dv [(ucast (drop_bit 8 temp AND 0xFF), 0x0021), (ucast (temp AND 0xFF), 0x0022)]
       (s\<lparr>out_par := (out_par s)\<lparr>tod_moni_alarm := 0\<rparr>\<rparr>))"

definition out_tod_type_rtrv :: "'d fpga_dev \<Rightarrow> 'd query" where
  "out_tod_type_rtrv dv = query_regs dv [0x0015] (\<lambda>t s.
     if t ! 0 = 0 \<or> t ! 0 = 1
     then (s\<lparr>out_par := (out_par s)\<lparr>tod_clock_type := t ! 0\<rparr>\<rparr>, Some (dec (unat (t ! 0)) @ NL), OK)
     else (s, None, NG))"

definition out_pps_status_rtrv :: "'d fpga_dev \<Rightarrow> 'd query" where
  "out_pps_status_rtrv dv = number_rtrv dv 0x0016 (\<lambda>v s. s\<lparr>out_par := (out_par s)\<lparr>pps_status := v\<rparr>\<rparr>)"

definition out_tod_jitter_rtrv :: "'d fpga_dev \<Rightarrow> 'd query" where
  "out_tod_jitter_rtrv dv = number_rtrv dv 0x0017 (\<lambda>v s. s\<lparr>out_par := (out_par s)\<lparr>tod_jitter := v\<rparr>\<rparr>)"

definition out_clock_type_rtrv :: "'d fpga_dev \<Rightarrow> 'd query" where
  "out_clock_type_rtrv dv = query_regs dv [0x0018] (\<lambda>t s.
     (s\<lparr>out_par := (out_par s)\<lparr>tod_clock_type := t ! 0 AND 0xC0\<rparr>\<rparr>, Some (dec (unat (t ! 0 AND 0xC0)) @ NL), OK))"

definition two_bytes :: "bytes \<Rightarrow> u16" where
  "two_bytes t = push_bit 8 (ucast (t ! 0 AND 0xFF)) OR ucast (t ! 1 AND 0xFF)"

definition out_clock_status_rtrv :: "'d fpga_dev \<Rightarrow> 'd query" where
  "out_clock_status_rtrv dv = query_regs dv [0x0019, 0x0020] (\<lambda>t s.
     (s\<lparr>out_par := (out_par s)\<lparr>tod_clock_status := two_bytes t\<rparr>\<rparr>, Some (dec (unat (two_bytes t)) @ NL), OK))"

definition out_monitor_alarm_rtrv :: "'d fpga_dev \<Rightarrow> 'd query" where
  "out_monitor_alarm_rtrv dv = query_regs dv [0x0021, 0x0022] (\<lambda>t s.
     (s\<lparr>out_par := (out_par s)\<lparr>tod_moni_alarm := two_bytes t\<rparr>\<rparr>, Some (dec (unat (two_bytes t)) @ NL), OK))"

section \<open>Signal type\<close>

definition pSignalType :: "string list" where
  "pSignalType = [''gnss-pps'', ''sys-pps'', ''dc-irigb'', ''2mhz'', ''10mhz'']"

definition out_set_singal_type :: "'d fpga_dev \<Rightarrow> 'd setter" where
  "out_set_singal_type dv = set_param (\<lambda>t s.
     case find_prefix pSignalType t 0 of
       None \<Rightarrow> (s, NG)
     | Some i \<Rightarrow> reg_writes dv [(of_nat i, 0x0045)] (s\<lparr>out_par := (out_par s)\<lparr>signal_type := of_nat i\<rparr>\<rparr>))"

definition out_singal_type_rtrv :: "'d fpga_dev \<Rightarrow> 'd query" where
  "out_singal_type_rtrv dv = query_regs dv [0x0045] (\<lambda>t s.
     if 5 \<le> unat (t ! 0) then (s, None, NG)
     else (s\<lparr>out_par := (out_par s)\<lparr>signal_type := t ! 0\<rparr>\<rparr>, Some (pSignalType ! unat (t ! 0) @ NL), OK))"

section \<open>The command\<close>

definition sub_irigb_command :: "string list" where "sub_irigb_command = [''c'', ''l'', ''d'', ''z'', ''q'']"
definition sub_pps_command :: "string list" where "sub_pps_command = [''c'', ''t'', ''s'', ''j'', ''k'', ''l'', ''a'']"

definition irigb_query_parse :: "'d fpga_dev \<Rightarrow> 'd query list" where
  "irigb_query_parse dv =
     [out_irigb_dlycom_rtrv dv, out_irigb_leapPreflag_rtrv dv, out_irigb_daylight_rtrv dv,
      out_irigb_timeskew_rtrv dv, out_irigb_clockquality_rtrv dv]"

definition ppstod_query_parse :: "'d fpga_dev \<Rightarrow> 'd query list" where
  "ppstod_query_parse dv =
     [out_ppstod_dlycom_rtrv dv, out_tod_type_rtrv dv, out_pps_status_rtrv dv, out_tod_jitter_rtrv dv,
      out_clock_type_rtrv dv, out_clock_status_rtrv dv, out_monitor_alarm_rtrv dv]"

definition irigb_set_parse :: "'d fpga_dev \<Rightarrow> 'd setter list" where
  "irigb_set_parse dv =
     [out_set_irigb_dlycom dv, out_set_irigb_leapPreflag dv, out_set_irigb_daylight dv,
      out_set_irigb_timeskew dv, out_set_irigb_clockquality dv]"

definition ppstod_set_parse :: "'d fpga_dev \<Rightarrow> 'd setter list" where
  "ppstod_set_parse dv =
     [out_set_ppstod_dlycom dv, out_set_tod_type dv, out_set_pps_status dv, out_set_tod_jitter dv,
      out_set_clock_type dv, out_set_clock_status dv, out_set_monitor_alarm dv]"

text \<open>The state, the text of the buffer and the status. \<open>None\<close> is the use of a null pointer or
  of a seventh parameter; the help text is not modelled.\<close>

definition out_pps_handler :: "'d fpga_dev \<Rightarrow> string option list \<Rightarrow> 'd xgm \<Rightarrow> ('d xgm \<times> string option \<times> u8) option" where
  "out_pps_handler dv ps s =
     (let buf = arg ps (length ps - 1) in
      if MAX_PARAM_NUM < length ps then None
      else if None \<in> set ps then Some (s, buf, NG)
      else do {
        p0 \<leftarrow> arg ps 0;
        if starts_with p0 ''help'' then Some (s, buf, OK)
        else if starts_with p0 ''b'' then do {
          p1 \<leftarrow> arg ps 1;
          (case find_prefix sub_irigb_command p1 0 of
                  None \<Rightarrow> Some (s, buf, NG)
                | Some i \<Rightarrow> query_or_set 3 4 (irigb_query_parse dv ! i) (irigb_set_parse dv ! i) ps s)
        } else if starts_with p0 ''p'' then do {
          p1 \<leftarrow> arg ps 1;
          (case find_prefix sub_pps_command p1 0 of
                  None \<Rightarrow> Some (s, buf, NG)
                | Some i \<Rightarrow> query_or_set 3 4 (ppstod_query_parse dv ! i) (ppstod_set_parse dv ! i) ps s)
        } else if starts_with p0 ''s'' then
          query_or_set 3 4 (out_singal_type_rtrv dv) (out_set_singal_type dv) ps s
        else Some (s, buf, NG)
      })"

end
