(* ===== verification/GnssHandler.thy ===== *)
theory GnssHandler
  imports GnssCmd OutPps
begin

text \<open>
  The commands and queries of the satellite receiver as the console sees them, and the supervision
  of the receiver: \<^verbatim>\<open>APP/Gnss/gnss_handler.c\<close>, with the three functions of
  \<^verbatim>\<open>APP/Config/config.c\<close> that cut a value out of a text of the receiver.
\<close>

section \<open>State\<close>

text \<open>All state that a console command can reach. \<open>settings\<close> holds
  \<^verbatim>\<open>GnssParameters.delaycom\<close>, \<open>gnssdev\<close> the other fields of
  \<^verbatim>\<open>GnssParameters\<close>; the two counters are the static variables of
  \<^verbatim>\<open>check_gnss_available\<close>.\<close>

record 'd machine =
  settings :: "'d xgm"
  gnssdev :: gdev
  debug_switch :: u8
  debug_level :: u8
  roll_switch :: u8
  avail_count :: u8
  unavail_count :: u8

type_synonym 'd command = "string option list \<Rightarrow> 'd machine \<Rightarrow> ('d machine \<times> string option \<times> u8) option"

abbreviation info_of :: "'d machine \<Rightarrow> gnss_info" where "info_of m \<equiv> g_gnss_info (rx (gnssdev m))"

section \<open>Start\<close>

definition gnss_global_variable_init :: "'d fpga_dev \<Rightarrow> 'd machine \<Rightarrow> 'd machine option" where
  "gnss_global_variable_init dv m =
     (let r = (rx (gnssdev m))\<lparr>init_finished := 0, cmd_send_flag := 0, echo_switch := 0\<rparr>;
          r = r\<lparr>g_leap := (g_leap r)\<lparr>now_leap := 18, next_leap := 18, leap_sign := 0\<rparr>\<rparr>;
          g = g_gnss_info r in do {
        mode \<leftarrow> strcpy (mode_info g) 0 ''MIX;'';
        g \<leftarrow> gnss_receiver_info_clear (g\<lparr>mode_info := mode\<rparr>);
        let d = system_set_leap dv 18 (fpga (settings m));
        Some (m\<lparr>settings := (settings m)\<lparr>fpga := d\<rparr>, gnssdev := (gnssdev m)\<lparr>rx := r\<lparr>g_gnss_info := g\<rparr>\<rparr>\<rparr>)
      })"

section \<open>Printing\<close>

definition gnss_info_print :: "gnss_info \<Rightarrow> string list" where
  "gnss_info_print g =
     map (\<lambda>t. case fst (gnss_receiver_get_info t g) of None \<Rightarrow> [] | Some x \<Rightarrow> x)
       [''MODE'', ''TIME'', ''LOC'', ''SAT'', ''LEAP'', ''PPS'', ''ANT'', ''VER'']"

text \<open>The lines of a received text, each copied to a buffer of 200 bytes up to its line feed; the
  terminator of the text does not stop the copying.\<close>

function gnss_stmt_echo :: "string \<Rightarrow> string list option" where
  "gnss_stmt_echo m =
     (case m of
        [] \<Rightarrow> None
      | c # _ \<Rightarrow>
          if c = NUL then Some []
          else
            let l = takeWhile (\<lambda>c. c \<noteq> CHR 0x0A) m; r = dropWhile (\<lambda>c. c \<noteq> CHR 0x0A) m in
            if r = [] \<or> 200 \<le> length l then None
            else map_option (\<lambda>ls. text_of (l @ [NUL]) # ls) (gnss_stmt_echo (tl r)))"
  by pat_completeness auto
termination
  by (relation "measure length") (auto simp: less_Suc_eq_le dest!: sym [of "_ # _"] intro!: order_trans [OF diff_le_self] length_dropWhile_le)

declare gnss_stmt_echo.simps [simp del]

section \<open>A value out of a text\<close>

text \<open>\<open>strstr\<close>, as the number of characters before the first occurrence.\<close>

fun find_str :: "string \<Rightarrow> string \<Rightarrow> nat option" where
  "find_str k [] = (if k = [] then Some 0 else None)"
| "find_str k (c # s) = (if starts_with (c # s) k then Some 0 else map_option Suc (find_str k s))"

definition info_buf :: "string \<Rightarrow> gnss_info \<Rightarrow> string" where
  "info_buf type g = (case fst (gnss_receiver_get_info type g) of None \<Rightarrow> [] | Some t \<Rightarrow> t)"

text \<open>The three functions write to a buffer that their callers have cleared; the result is its
  text.

  The search for the start character runs down from the end found; it stops at the first character
  of the buffer without comparing it, and never stops when the end found is that character.\<close>

fun back_search :: "string \<Rightarrow> char \<Rightarrow> nat \<Rightarrow> nat option" where
  "back_search b c 0 = None"
| "back_search b c (Suc 0) = None"
| "back_search b c (Suc k) = (if b ! k = c then Some k else back_search b c k)"

definition get_gnss_info :: "string \<Rightarrow> char \<Rightarrow> string \<Rightarrow> gnss_info \<Rightarrow> string option" where
  "get_gnss_info type startch endstr g =
     (let buf = info_buf type g; p = find_str endstr buf in
      if startch \<noteq> NUL then
        (case p of
           None \<Rightarrow> Some []
         | Some p \<Rightarrow>
             if p = 0 then None
             else case back_search buf startch p of
               None \<Rightarrow> Some []
             | Some p1 \<Rightarrow> Some (take (p - p1 - 1) (drop (p1 + 1) buf)))
      else (case p of None \<Rightarrow> Some [] | Some p \<Rightarrow> Some (take p buf)))"

text \<open>The last position at which the count of the character, a byte, is \<open>n\<close>.\<close>

fun nth_char :: "char \<Rightarrow> u8 \<Rightarrow> string \<Rightarrow> nat \<Rightarrow> u8 \<Rightarrow> nat option \<Rightarrow> nat option" where
  "nth_char c n [] i count p = p"
| "nth_char c n (x # xs) i count p =
     (if x = c then nth_char c n xs (Suc i) (count + 1) (if n = count + 1 then Some i else p)
      else nth_char c n xs (Suc i) count p)"

text \<open>A text that is found is undefined in the next two functions: its terminator is stored at the
  negative of its length.\<close>

definition split_gnss_info :: "string \<Rightarrow> char \<Rightarrow> char \<Rightarrow> u8 \<Rightarrow> u8 \<Rightarrow> gnss_info \<Rightarrow> string option" where
  "split_gnss_info type startch endch split_num end_num g =
     (let buf = info_buf type g in
      if startch \<noteq> NUL \<and> endch \<noteq> NUL then
        (case (nth_char startch split_num buf 0 0 None, nth_char endch end_num buf 0 0 None) of
           (Some p, Some p1) \<Rightarrow> None
         | _ \<Rightarrow> Some [])
      else Some [])"

definition split1_gnss_info :: "string \<Rightarrow> string \<Rightarrow> char \<Rightarrow> gnss_info \<Rightarrow> string option" where
  "split1_gnss_info type startstr endch g =
     (let buf = info_buf type g in
      case find_str startstr buf of
        None \<Rightarrow> Some []
      | Some p \<Rightarrow>
          (case find_str [endch] (drop (p + 1) buf) of
             None \<Rightarrow> Some []
           | Some k \<Rightarrow> None))"

section \<open>Commands with one parameter\<close>

text \<open>\<open>msgs\<close> are the texts the receiver sends while a command waits for its confirmation. The
  handlers read their first parameter only; the text of the result buffer is the last one.\<close>

definition gnssdev_then :: "string option \<Rightarrow> (gdev \<times> u8) option \<Rightarrow> 'd machine \<Rightarrow> ('d machine \<times> string option \<times> u8) option" where
  "gnssdev_then buf r m = map_option (\<lambda>(d, r). (m\<lparr>gnssdev := d\<rparr>, buf, r)) r"

abbreviation (input) "result_buf ps \<equiv> arg ps (length ps - 1)"

definition gnss_acmode_set_handler :: "string list \<Rightarrow> 'd command" where
  "gnss_acmode_set_handler msgs ps m =
     (case arg ps 0 of
        None \<Rightarrow> Some (m, result_buf ps, NG)
      | Some p \<Rightarrow> gnssdev_then (result_buf ps) (gnss_receiver_acmode_set msgs p (gnssdev m)) m)"

definition gnss_serial_baud_set_handler :: "string list \<Rightarrow> 'd command" where
  "gnss_serial_baud_set_handler msgs ps m =
     (case arg ps 0 of
        None \<Rightarrow> Some (m, result_buf ps, OK)
      | Some p \<Rightarrow> gnssdev_then (result_buf ps) (gnss_receiver_serial_baud_set msgs p (gnssdev m)) m)"

definition gnss_stmt_set_handler :: "string list \<Rightarrow> 'd command" where
  "gnss_stmt_set_handler msgs ps m =
     (case arg ps 0 of
        None \<Rightarrow> Some (m, result_buf ps, OK)
      | Some p \<Rightarrow> gnssdev_then (result_buf ps) (gnss_receiver_stmt_set msgs p (gnssdev m)) m)"

definition gnss_echo_set_handler :: "'d command" where
  "gnss_echo_set_handler ps m =
     (case arg ps 0 of
        None \<Rightarrow> Some (m, result_buf ps, OK)
      | Some p \<Rightarrow>
          if starts_with p ''OFF'' then Some (m\<lparr>gnssdev := (gnssdev m)\<lparr>rx := (rx (gnssdev m))\<lparr>echo_switch := 0\<rparr>\<rparr>\<rparr>, result_buf ps, OK)
          else if starts_with p ''ON'' then Some (m\<lparr>gnssdev := (gnssdev m)\<lparr>rx := (rx (gnssdev m))\<lparr>echo_switch := 1\<rparr>\<rparr>\<rparr>, result_buf ps, OK)
          else Some (m, result_buf ps, NG))"

text \<open>The switches of the debug output and of the periodic output
  (\<^verbatim>\<open>Debug/mtfs30_debug.c\<close>, \<^verbatim>\<open>Roll/roll_print.c\<close>).\<close>

definition mtfs30_debug_set_handler :: "'d command" where
  "mtfs30_debug_set_handler ps m =
     (case arg ps 0 of
        None \<Rightarrow> Some (m, result_buf ps, OK)
      | Some p \<Rightarrow>
          if starts_with p ''OFF'' then Some (m\<lparr>debug_switch := 0\<rparr>, result_buf ps, OK)
          else if starts_with p ''ON'' then Some (m\<lparr>debug_switch := 1\<rparr>, result_buf ps, OK)
          else Some (m, result_buf ps, NG))"

definition roll_print_set_handler :: "'d command" where
  "roll_print_set_handler ps m =
     (case arg ps 0 of
        None \<Rightarrow> Some (m, result_buf ps, OK)
      | Some p \<Rightarrow>
          if starts_with p ''OFF'' then Some (m\<lparr>roll_switch := 0\<rparr>, result_buf ps, OK)
          else if starts_with p ''ON'' then Some (m\<lparr>roll_switch := 1\<rparr>, result_buf ps, OK)
          else Some (m, result_buf ps, NG))"

abbreviation (input) "DBG_DISABLE \<equiv> (0 :: int)"
abbreviation (input) "DBG_DEBUG \<equiv> (8 :: int)"

definition debug_level_set_handler :: "'d command" where
  "debug_level_set_handler ps m =
     (case arg ps 0 of
        None \<Rightarrow> Some (m, result_buf ps, OK)
      | Some p \<Rightarrow>
          (let level = atoi p in
           if level \<ge> DBG_DISABLE \<and> level \<le> DBG_DEBUG then Some (m\<lparr>debug_level := word_of_int level\<rparr>, result_buf ps, OK)
           else Some (m, result_buf ps, NG)))"

section \<open>The command \<^verbatim>\<open>gnss\<close>\<close>

definition gnss_mode :: "string list" where "gnss_mode = [''MIX'', ''GPS'', ''BD'', ''GLO'', ''GAL'']"

text \<open>The first character of a parameter, the terminator of an empty one; a null pointer is
  \<open>None\<close>.\<close>

definition first_char :: "string option list \<Rightarrow> nat \<Rightarrow> char option" where
  "first_char ps k = map_option (\<lambda>p. case p of [] \<Rightarrow> NUL | c # _ \<Rightarrow> c) (arg ps k)"

text \<open>The queries. \<open>num\<close> is at most three and counts the buffer; with two parameters the second
  is the buffer itself. \<open>None\<close> is undefined, \<open>Some None\<close> the status \<open>NG\<close>.\<close>

definition gnss_query :: "string option list \<Rightarrow> u8 \<Rightarrow> u8 \<Rightarrow> string \<Rightarrow> gnss_info \<Rightarrow> char \<Rightarrow> string option option" where
  "gnss_query ps mode enable priority g c =
     (let two = (length ps = 2) in
      if c = CHR ''m'' then do {
        c1 \<leftarrow> first_char ps 1;
        if c1 = CHR ''m'' then
          (if 1 \<le> unat mode \<and> unat mode \<le> 5 then Some (Some (gnss_mode ! (unat mode - 1))) else None)
        else if c1 = CHR ''p'' then Some (Some priority)
        else if c1 = CHR ''e'' then Some (Some (dec (unat enable)))
        else Some None
      }
      else if c = CHR ''t'' then
        if two then map_option Some (get_gnss_info ''TIME'' NUL '';'' g) else Some None
      else if c = CHR ''l'' then
        if two then Some (Some (info_buf ''LOC'' g))
        else do {
          c1 \<leftarrow> first_char ps 1;
          if c1 = CHR ''s'' then map_option Some (get_gnss_info ''LOC'' NUL '','' g)
          else if c1 = CHR ''t'' then map_option Some (get_gnss_info ''TIME'' NUL '';'' g)
          else if c1 = CHR ''i'' then map_option Some (split_gnss_info ''LOC'' CHR '','' CHR '','' 2 4 g)
          else if c1 = CHR ''o'' then map_option Some (split_gnss_info ''LOC'' CHR '','' CHR '','' 4 6 g)
          else if c1 = CHR ''a'' then map_option Some (get_gnss_info ''LOC'' CHR '','' '';'' g)
          else Some None
        }
      else if c = CHR ''p'' then if two then map_option Some (get_gnss_info ''PPS'' NUL '';'' g) else Some None
      else if c = CHR ''a'' then if two then map_option Some (get_gnss_info ''ANT'' NUL '';'' g) else Some None
      else if c = CHR ''v'' then if two then map_option Some (get_gnss_info ''VER'' NUL '';'' g) else Some None
      else if c = CHR ''o'' then
        if two then map_option Some (split_gnss_info ''LEAP'' CHR '','' CHR '','' 5 6 g)
        else do {
          c1 \<leftarrow> first_char ps 1;
          if c1 = CHR ''p'' then Some (Some (info_buf ''LEAP'' g)) else Some None
        }
      else if c = CHR ''g'' then
        if two then Some (Some (info_buf ''SAT'' g))
        else do {
          c1 \<leftarrow> first_char ps 1;
          if c1 = CHR ''g'' then map_option Some (split1_gnss_info ''SAT'' ''GPS'' CHR '';'' g)
          else if c1 = CHR ''b'' then map_option Some (split1_gnss_info ''SAT'' ''BDS'' CHR '';'' g)
          else if c1 = CHR ''l'' then map_option Some (split1_gnss_info ''SAT'' ''GLO'' CHR '';'' g)
          else if c1 = CHR ''a'' then map_option Some (split1_gnss_info ''SAT'' ''GAL'' CHR '';'' g)
          else Some None
        }
      else Some None)"

abbreviation (input) "GNSS_COMMAND_RTRV \<equiv> (3 :: nat)"
abbreviation (input) "GNSS_COMMAND_SET \<equiv> (4 :: nat)"

definition gnss_set :: "'d fpga_dev \<Rightarrow> string list \<Rightarrow> 'd command" where
  "gnss_set dv msgs ps m = do {
     let buf = result_buf ps;
     let ng = Some (m, buf, NG);
     c0 \<leftarrow> first_char ps 0;
     c1 \<leftarrow> first_char ps 1;
     p2 \<leftarrow> arg ps 2;
     if c0 = CHR ''m'' then
       if c1 = CHR ''m'' then map_option (\<lambda>(m, _, r). (m, buf, r)) (gnss_acmode_set_handler msgs [Some p2] m)
       else if c1 = CHR ''p'' then
         if length p2 = 4 then Some (m\<lparr>gnssdev := (gnssdev m)\<lparr>gp_priority := p2\<rparr>\<rparr>, buf, OK) else ng
       else if c1 = CHR ''e'' then
         if starts_with p2 ''enable'' then Some (m\<lparr>gnssdev := (gnssdev m)\<lparr>gp_enable := 1\<rparr>\<rparr>, buf, OK)
         else if starts_with p2 ''disable'' then Some (m\<lparr>gnssdev := (gnssdev m)\<lparr>gp_enable := 0\<rparr>\<rparr>, buf, OK)
         else ng
       else ng
     else if c0 = CHR ''d'' then
       if c1 = CHR ''c'' then
         (case gnss_set_gps_pps_offset dv (atoi p2) (settings m) of (s, r) \<Rightarrow> Some (m\<lparr>settings := s\<rparr>, buf, r))
       else ng
     else ng
   }"

text \<open>More than four parameters are answered with success and do nothing.\<close>

definition gnss_command_execute :: "'d fpga_dev \<Rightarrow> string list \<Rightarrow> 'd command" where
  "gnss_command_execute dv msgs ps m =
     (let buf = result_buf ps in
      if MAX_PARAM_NUM < length ps then None
      else if None \<in> set ps then Some (m, buf, NG)
      else do {
        p0 \<leftarrow> arg ps 0;
        if starts_with p0 ''help'' then Some (m, buf, OK)
        else if length ps \<le> GNSS_COMMAND_RTRV then do {
          c0 \<leftarrow> first_char ps 0;
          if c0 = CHR ''d'' then do {
            q \<leftarrow> (if length ps = 2 then Some True else map_option (\<lambda>c. c = CHR ''c'') (first_char ps 1));
            if q then (case gnss_get_gps_pps_offset dv (settings m) of
              (s, dlycom) \<Rightarrow> Some (m\<lparr>settings := s\<rparr>, Some (sdec dlycom @ NL), OK))
            else Some (m, buf, NG)
          } else do {
            r \<leftarrow> gnss_query ps (gp_mode (gnssdev m)) (gp_enable (gnssdev m)) (gp_priority (gnssdev m)) (info_of m) c0;
            (case r of None \<Rightarrow> Some (m, buf, NG) | Some t \<Rightarrow> Some (m, Some (t @ NL), OK))
          }
        } else if length ps = GNSS_COMMAND_SET then gnss_set dv msgs ps m
        else Some (m, buf, OK)
      })"

section \<open>Supervision\<close>

text \<open>One check per second: the receiver is available after 61 successful checks in a row, and
  unavailable after 61 failed ones.\<close>

abbreviation (input) "GNSS_PPS_AVAIL_FITER \<equiv> (60 :: u8)"
abbreviation (input) "GNSS_ALARM_REG_ADDR \<equiv> (0x0009 :: u32)"
abbreviation (input) "GNSS_PPS_AVAIL_REG_ADDR \<equiv> (0x0041 :: u32)"

definition gnss_usable :: "'d fpga_dev \<Rightarrow> 'd machine \<Rightarrow> 'd \<times> bool" where
  "gnss_usable dv m =
     (let d = fpga (settings m) in
      if gp_enable (gnssdev m) \<noteq> 1 then (d, False)
      else case SPI_FPGA_ByteRead dv GNSS_ALARM_REG_ADDR d of
        (d, None) \<Rightarrow> (d, False)
      | (d, Some tmp) \<Rightarrow> (d, tmp AND 3 = 0 \<and> pps_info (info_of m) ! 0 = CHR ''3''))"

definition check_gnss_available :: "'d fpga_dev \<Rightarrow> 'd machine \<Rightarrow> 'd machine" where
  "check_gnss_available dv m =
     (let (d, ok) = gnss_usable dv m; m = m\<lparr>settings := (settings m)\<lparr>fpga := d\<rparr>\<rparr> in
      if ok then
        let m = m\<lparr>unavail_count := 0\<rparr> in
        if avail_count m < GNSS_PPS_AVAIL_FITER then m\<lparr>avail_count := avail_count m + 1\<rparr>
        else m\<lparr>settings := (settings m)\<lparr>fpga := fst (SPI_FPGA_ByteWrite dv 1 GNSS_PPS_AVAIL_REG_ADDR d)\<rparr>\<rparr>
      else
        let m = m\<lparr>avail_count := 0\<rparr> in
        if unavail_count m < GNSS_PPS_AVAIL_FITER then m\<lparr>unavail_count := unavail_count m + 1\<rparr>
        else m\<lparr>settings := (settings m)\<lparr>fpga := fst (SPI_FPGA_ByteWrite dv 0 GNSS_PPS_AVAIL_REG_ADDR d)\<rparr>\<rparr>)"

text \<open>One round of \<^verbatim>\<open>roll_task\<close>: the texts it prints and the state.\<close>

definition roll_task_round :: "'d fpga_dev \<Rightarrow> 'd machine \<Rightarrow> 'd machine \<times> string list" where
  "roll_task_round dv m =
     (check_gnss_available dv m, if roll_switch m = 1 then gnss_info_print (info_of m) else [])"

text \<open>One message of the queue of \<^verbatim>\<open>gnss_task\<close>: the echo, then the parser.\<close>

definition gnss_task_round :: "string option \<Rightarrow> 'd machine \<Rightarrow> ('d machine \<times> string list) option" where
  "gnss_task_round pmsg m =
     (case pmsg of
        None \<Rightarrow> Some (m, [])
      | Some msg \<Rightarrow> do {
          let r = rx (gnssdev m);
          out \<leftarrow> (if echo_switch r = 1 then gnss_stmt_echo msg else Some []);
          r \<leftarrow> (if init_finished r = 1 then gnss_receiver_msg_parser msg r else Some r);
          Some (m\<lparr>gnssdev := (gnssdev m)\<lparr>rx := r\<rparr>\<rparr>, out)
        })"

end
