(* ===== verification/PtpNet.thy ===== *)
theory PtpNet
  imports Settings
begin

text \<open>
  The network settings of the PTP port: the first part of \<^verbatim>\<open>APP/Output/out_ptp.c\<close>, with
  \<open>StringtoInt\<close> of \<^verbatim>\<open>APP/Config/config.c\<close>.
\<close>

section \<open>Characters\<close>

abbreviation isdigit :: "char \<Rightarrow> bool" where "isdigit \<equiv> is_digit_of 10"
abbreviation isxdigit :: "char \<Rightarrow> bool" where "isxdigit \<equiv> is_digit_of 16"

text \<open>A character that is no hexadecimal digit counts as zero in the first place and is skipped in
  the second.\<close>

definition StringtoInt :: "char \<Rightarrow> char \<Rightarrow> u8" where
  "StringtoInt c0 c1 =
     (let lvaule = (case digit_val c0 of Some d \<Rightarrow> if d < 16 then d else 0 | None \<Rightarrow> 0) in
      of_nat (case digit_val c1 of Some d \<Rightarrow> if d < 16 then lvaule * 16 + d else lvaule | None \<Rightarrow> lvaule))"

definition hex2 :: "u8 \<Rightarrow> string" where
  "hex2 b = (let h = (\<lambda>n. if n < 10 then char_of (48 + n) else char_of (87 + n)) in [h (unat b div 16), h (unat b mod 16)])"

fun joined :: "string \<Rightarrow> string list \<Rightarrow> string" where
  "joined sep [] = []"
| "joined sep [t] = t"
| "joined sep (t # u # ts) = t @ sep @ joined sep (u # ts)"

definition dotted :: "bytes \<Rightarrow> string" where "dotted bs = joined ''.'' (map (\<lambda>b. dec (unat b)) bs) @ NL"
definition mac_text :: "bytes \<Rightarrow> string" where "mac_text bs = joined ''-'' (map hex2 bs) @ NL"

section \<open>Hardware address\<close>

definition PTP_MAC_REG :: "u32 list" where "PTP_MAC_REG = [0x0105, 0x0106, 0x0107, 0x0108, 0x0109, 0x0110]"

definition ptp_mac_parser :: "'d fpga_dev \<Rightarrow> 'd setter" where
  "ptp_mac_parser dv = set_param (\<lambda>t s.
     if length t \<noteq> 12 then (s, NG)
     else if \<not> list_all isxdigit t then (s, NG)
     else
       let mac = map (\<lambda>i. StringtoInt (t ! (2 * i)) (t ! (2 * i + 1))) [0, 1, 2, 3, 4, 5] in
       reg_writes dv (zip mac PTP_MAC_REG) (s\<lparr>net_par := (net_par s)\<lparr>ptp_mac := mac\<rparr>\<rparr>))"

definition ptp_macaddr_rtrv :: "'d fpga_dev \<Rightarrow> 'd query" where
  "ptp_macaddr_rtrv dv = query_regs dv PTP_MAC_REG (\<lambda>t s.
     (s\<lparr>net_par := (net_par s)\<lparr>ptp_mac := t\<rparr>\<rparr>, Some (mac_text t), OK))"

section \<open>Internet addresses\<close>

definition PTP_IP_REG :: "u32 list" where "PTP_IP_REG = [0x0111, 0x0112, 0x0113, 0x0114]"
definition PTP_MASK_REG :: "u32 list" where "PTP_MASK_REG = [0x0115, 0x0116, 0x0117, 0x0118]"
definition PTP_GATEWAY_REG :: "u32 list" where "PTP_GATEWAY_REG = [0x0119, 0x0120, 0x0121, 0x0122]"

text \<open>The check of the characters of a separated list: each separator must be followed by a proper
  character. The number of separators added to \<open>n\<close>, or \<open>None\<close> for \<open>NG\<close>.\<close>

fun sep_chars :: "char \<Rightarrow> (char \<Rightarrow> bool) \<Rightarrow> string \<Rightarrow> nat \<Rightarrow> nat option" where
  "sep_chars sep ok [] n = Some n"
| "sep_chars sep ok (c # cs) n =
     (if c = sep then
        (case cs of [] \<Rightarrow> None | d # ds \<Rightarrow> if ok d then sep_chars sep ok ds (Suc n) else None)
      else if ok c then sep_chars sep ok cs n else None)"

text \<open>\<open>None\<close>: a token is missing and the null pointer is converted. \<open>Some None\<close> is
  \<open>NG\<close>.\<close>

definition get_decimalip_value :: "string \<Rightarrow> u32 option option" where
  "get_decimalip_value t =
     (if 15 < length t then Some None
      else if sep_chars (CHR ''.'') isdigit t 1 \<noteq> Some 4 then Some None
      else do {
        (m, p0, q) \<leftarrow> strtok (t @ [NUL]) 0 ''.'';
        v0 \<leftarrow> atoi_at m p0;
        let lvalue = ucast (word_of_int v0 :: u8);
        (m, p1, q) \<leftarrow> strtok m q ''.'';
        v1 \<leftarrow> atoi_at m p1;
        let lvalue = push_bit 8 lvalue OR ucast (word_of_int v1 :: u8);
        (m, p2, q) \<leftarrow> strtok m q ''.'';
        v2 \<leftarrow> atoi_at m p2;
        let lvalue = push_bit 8 lvalue OR ucast (word_of_int v2 :: u8);
        (m, p3, q) \<leftarrow> strtok m q ''.'';
        v3 \<leftarrow> atoi_at m p3;
        Some (Some (push_bit 8 lvalue OR ucast (word_of_int v3 :: u8)))
      })"

definition ip_bytes :: "u32 \<Rightarrow> bytes" where
  "ip_bytes a =
     [ucast (drop_bit 24 a AND 0xFF), ucast (drop_bit 16 a AND 0xFF), ucast (drop_bit 8 a AND 0xFF), ucast (a AND 0xFF)]"

definition ip_word :: "bytes \<Rightarrow> u32" where
  "ip_word t =
     push_bit 24 (ucast (t ! 0)) OR push_bit 16 (ucast (t ! 1)) OR push_bit 8 (ucast (t ! 2)) OR ucast (t ! 3)"

definition address_set :: "'d fpga_dev \<Rightarrow> u32 list \<Rightarrow> (u32 \<Rightarrow> 'd xgm \<Rightarrow> 'd xgm) \<Rightarrow> 'd setter" where
  "address_set dv reg store = set_partial (\<lambda>t s. do {
     r \<leftarrow> get_decimalip_value t;
     Some (case r of None \<Rightarrow> (s, NG) | Some a \<Rightarrow> reg_writes dv (zip (ip_bytes a) reg) (store a s))
   })"

definition address_rtrv :: "'d fpga_dev \<Rightarrow> u32 list \<Rightarrow> (u32 \<Rightarrow> 'd xgm \<Rightarrow> 'd xgm) \<Rightarrow> 'd query" where
  "address_rtrv dv reg store = query_regs dv reg (\<lambda>t s. (store (ip_word t) s, Some (dotted t), OK))"

definition ptp_ip_parser :: "'d fpga_dev \<Rightarrow> 'd setter" where
  "ptp_ip_parser dv = address_set dv PTP_IP_REG (\<lambda>a s. s\<lparr>net_par := (net_par s)\<lparr>ptp_ipaddr := a\<rparr>\<rparr>)"

definition ptp_mask_parser :: "'d fpga_dev \<Rightarrow> 'd setter" where
  "ptp_mask_parser dv = address_set dv PTP_MASK_REG (\<lambda>a s. s\<lparr>net_par := (net_par s)\<lparr>ptp_submask := a\<rparr>\<rparr>)"

definition ptp_gateway_parser :: "'d fpga_dev \<Rightarrow> 'd setter" where
  "ptp_gateway_parser dv = address_set dv PTP_GATEWAY_REG (\<lambda>a s. s\<lparr>net_par := (net_par s)\<lparr>ptp_gateway := a\<rparr>\<rparr>)"

definition ptp_ipaddr_rtrv :: "'d fpga_dev \<Rightarrow> 'd query" where
  "ptp_ipaddr_rtrv dv = address_rtrv dv PTP_IP_REG (\<lambda>a s. s\<lparr>net_par := (net_par s)\<lparr>ptp_ipaddr := a\<rparr>\<rparr>)"

definition ptp_maskaddr_rtrv :: "'d fpga_dev \<Rightarrow> 'd query" where
  "ptp_maskaddr_rtrv dv = address_rtrv dv PTP_MASK_REG (\<lambda>a s. s\<lparr>net_par := (net_par s)\<lparr>ptp_submask := a\<rparr>\<rparr>)"

definition ptp_gateway_rtrv :: "'d fpga_dev \<Rightarrow> 'd query" where
  "ptp_gateway_rtrv dv = address_rtrv dv PTP_GATEWAY_REG (\<lambda>a s. s\<lparr>net_par := (net_par s)\<lparr>ptp_gateway := a\<rparr>\<rparr>)"

section \<open>Virtual LAN\<close>

text \<open>The four settings write the registers only; the stored settings follow at the next query.\<close>

definition ptp_vlanen_set :: "'d fpga_dev \<Rightarrow> 'd setter" where
  "ptp_vlanen_set dv = switch_set dv 0x0100 [(''off'', 0), (''on'', 1)] (\<lambda>v s. s)"

definition ptp_vlanpcp_set :: "'d fpga_dev \<Rightarrow> 'd setter" where
  "ptp_vlanpcp_set dv = set_param (\<lambda>t s.
     if (of_nat (length t) :: u8) \<noteq> 1 then (s, NG)
     else let c = (of_char (t ! 0) :: u8) in
       if c < 0x30 \<or> c > 0x37 then (s, NG) else reg_writes dv [(c - 0x30, 0x0101)] s)"

definition ptp_vlancfi_set :: "'d fpga_dev \<Rightarrow> 'd setter" where
  "ptp_vlancfi_set dv = set_param (\<lambda>t s.
     if (of_nat (length t) :: u8) \<noteq> 1 then (s, NG)
     else if t ! 0 = CHR ''0'' then reg_writes dv [(0, 0x0102)] s
     else if t ! 0 = CHR ''1'' then reg_writes dv [(1, 0x0102)] s
     else (s, NG))"

definition ptp_vlanvid_set :: "'d fpga_dev \<Rightarrow> 'd setter" where
  "ptp_vlanvid_set dv = set_param (\<lambda>t s.
     let len = unat (of_nat (length t) :: u8) in
     if len < 1 \<or> len > 4 then (s, NG)
     else if \<not> list_all isdigit (take len t) then (s, NG)
     else let temp = (word_of_int (atoi t) :: u16) in
       if temp > 4095 then (s, NG)
       else reg_writes dv [(ucast (drop_bit 8 temp AND 0x0F), 0x0103), (ucast (temp AND 0xFF), 0x0104)] s)"

definition ptp_vlanen_rtrv :: "'d fpga_dev \<Rightarrow> 'd query" where
  "ptp_vlanen_rtrv dv = switch_rtrv dv 0x0100 [''off'', ''on''] (\<lambda>v s. s\<lparr>net_par := (net_par s)\<lparr>vlan_enable := v\<rparr>\<rparr>)"

definition ptp_vlanpcp_rtrv :: "'d fpga_dev \<Rightarrow> 'd query" where
  "ptp_vlanpcp_rtrv dv = number_rtrv dv 0x0101 (\<lambda>v s. s\<lparr>net_par := (net_par s)\<lparr>vlan_pcp := v\<rparr>\<rparr>)"

definition ptp_vlancfi_rtrv :: "'d fpga_dev \<Rightarrow> 'd query" where
  "ptp_vlancfi_rtrv dv = number_rtrv dv 0x0102 (\<lambda>v s. s\<lparr>net_par := (net_par s)\<lparr>vlan_cfi := v\<rparr>\<rparr>)"

definition ptp_vlanvid_rtrv :: "'d fpga_dev \<Rightarrow> 'd query" where
  "ptp_vlanvid_rtrv dv = query_regs dv [0x0103, 0x0104] (\<lambda>t s.
     let temp = (push_bit 8 (ucast (t ! 0 AND 0x0F)) OR ucast (t ! 1) :: u16) in
     (s\<lparr>net_par := (net_par s)\<lparr>vlan_vid := temp\<rparr>\<rparr>, Some (dec (unat temp) @ NL), OK))"

section \<open>The commands\<close>

text \<open>All four addresses in one text. Each block is appended when its registers were read; a failed
  read leaves what was printed so far. The source appends by printing the buffer into itself.\<close>

fun print_blocks ::
  "'d fpga_dev \<Rightarrow> (u32 list \<times> (bytes \<Rightarrow> string)) list \<Rightarrow> string \<Rightarrow> 'd xgm \<Rightarrow> 'd xgm \<times> string \<times> u8" where
  "print_blocks dv [] buf s = (s, buf, OK)"
| "print_blocks dv ((reg, show) # bs) buf s =
     (case reg_reads dv reg s of
        (s, None) \<Rightarrow> (s, buf, NG)
      | (s, Some t) \<Rightarrow> print_blocks dv bs (buf @ show t) s)"

definition ptp_ipconfig_parser :: "'d fpga_dev \<Rightarrow> 'd query" where
  "ptp_ipconfig_parser dv p_param s =
     (case p_param of
        None \<Rightarrow> (s, p_param, NG)
      | Some old \<Rightarrow>
          (case reg_reads dv PTP_MAC_REG s of
             (s, None) \<Rightarrow> (s, p_param, NG)
           | (s, Some t) \<Rightarrow>
               (let (s, buf, r) = print_blocks dv
                  [(PTP_IP_REG, dotted), (PTP_MASK_REG, dotted), (PTP_GATEWAY_REG, dotted)] (mac_text t) s
                in (s, Some buf, r))))"

definition sub_net_command :: "string list" where "sub_net_command = [''-s'', ''-a'', ''-m'', ''-g'']"
definition sub_vlan_command :: "string list" where "sub_vlan_command = [''-e'', ''-p'', ''-v'', ''-c'']"

definition ipconfig_set_psubcmd_parser :: "'d fpga_dev \<Rightarrow> 'd setter list" where
  "ipconfig_set_psubcmd_parser dv = [ptp_mac_parser dv, ptp_ip_parser dv, ptp_mask_parser dv, ptp_gateway_parser dv]"

definition ipconfig_query_psubcmd_parser :: "'d fpga_dev \<Rightarrow> 'd query list" where
  "ipconfig_query_psubcmd_parser dv =
     [ptp_macaddr_rtrv dv, ptp_ipaddr_rtrv dv, ptp_maskaddr_rtrv dv, ptp_gateway_rtrv dv]"

definition ifconfig_set_psubcmd_parser :: "'d fpga_dev \<Rightarrow> 'd setter list" where
  "ifconfig_set_psubcmd_parser dv = [ptp_vlanen_set dv, ptp_vlanpcp_set dv, ptp_vlanvid_set dv, ptp_vlancfi_set dv]"

definition ifconfig_query_psubcmd_parser :: "'d fpga_dev \<Rightarrow> 'd query list" where
  "ifconfig_query_psubcmd_parser dv = [ptp_vlanen_rtrv dv, ptp_vlanpcp_rtrv dv, ptp_vlanvid_rtrv dv, ptp_vlancfi_rtrv dv]"

definition ptp_ipconfig_handler ::
  "'d fpga_dev \<Rightarrow> string option list \<Rightarrow> 'd xgm \<Rightarrow> ('d xgm \<times> string option \<times> u8) option" where
  "ptp_ipconfig_handler dv ps s =
     (let buf = arg ps (length ps - 1) in
      if MAX_PARAM_NUM < length ps then None
      else if None \<in> set ps then Some (s, buf, NG)
      else do {
        p0 \<leftarrow> arg ps 0;
        if starts_with p0 ''help'' then Some (s, buf, OK)
        else if length ps = 1 then Some (ptp_ipconfig_parser dv (Some p0) s)
        else (case find_prefix sub_net_command p0 0 of
          None \<Rightarrow> Some (s, buf, NG)
        | Some i \<Rightarrow> query_or_set 2 3 (ipconfig_query_psubcmd_parser dv ! i) (ipconfig_set_psubcmd_parser dv ! i) ps s)
      })"

definition ptp_ifconfig_handler ::
  "'d fpga_dev \<Rightarrow> string option list \<Rightarrow> 'd xgm \<Rightarrow> ('d xgm \<times> string option \<times> u8) option" where
  "ptp_ifconfig_handler dv ps s =
     (let buf = arg ps (length ps - 1) in
      if MAX_PARAM_NUM < length ps then None
      else if None \<in> set ps then Some (s, buf, NG)
      else do {
        p0 \<leftarrow> arg ps 0;
        if starts_with p0 ''help'' then Some (s, buf, OK)
        else if length ps \<noteq> 3 \<and> length ps \<noteq> 4 then Some (s, buf, NG)
        else if \<not> starts_with p0 ''vlan'' then Some (s, buf, NG)
        else do {
          p1 \<leftarrow> arg ps 1;
          (case find_prefix sub_vlan_command p1 0 of
            None \<Rightarrow> Some (s, buf, NG)
          | Some i \<Rightarrow> query_or_set 3 4 (ifconfig_query_psubcmd_parser dv ! i) (ifconfig_set_psubcmd_parser dv ! i) ps s)
        }
      })"

end
