(* ===== verification/PtpMode.thy ===== *)
theory PtpMode
  imports PtpNet
begin

text \<open>
  The settings of the PTP protocol: the rest of \<^verbatim>\<open>APP/Output/out_ptp.c\<close>.
\<close>

section \<open>Switches\<close>

definition ptp_protocol_set :: "'d fpga_dev \<Rightarrow> 'd setter" where
  "ptp_protocol_set dv = switch_set dv 0x0147 [(''eth'', 0), (''udp'', 1)]
     (\<lambda>v s. s\<lparr>mode_par := (mode_par s)\<lparr>encode_package := v\<rparr>\<rparr>)"

definition ptp_mechanism_set :: "'d fpga_dev \<Rightarrow> 'd setter" where
  "ptp_mechanism_set dv = switch_set dv 0x0149 [(''e2e'', 0), (''p2p'', 1)]
     (\<lambda>v s. s\<lparr>mode_par := (mode_par s)\<lparr>delay_type := v\<rparr>\<rparr>)"

definition ptp_unicast_set :: "'d fpga_dev \<Rightarrow> 'd setter" where
  "ptp_unicast_set dv = switch_set dv 0x0146 [(''disable'', 0), (''enable'', 1)]
     (\<lambda>v s. s\<lparr>mode_par := (mode_par s)\<lparr>unicast := v\<rparr>\<rparr>)"

definition ptp_fretraceable_set :: "'d fpga_dev \<Rightarrow> 'd setter" where
  "ptp_fretraceable_set dv = switch_set dv 0x0129 [(''false'', 0), (''true'', 1)]
     (\<lambda>v s. s\<lparr>mode_par := (mode_par s)\<lparr>flag_freq_trac := v\<rparr>\<rparr>)"

definition ptp_timetraceable_set :: "'d fpga_dev \<Rightarrow> 'd setter" where
  "ptp_timetraceable_set dv = switch_set dv 0x0130 [(''false'', 0), (''true'', 1)]
     (\<lambda>v s. s\<lparr>mode_par := (mode_par s)\<lparr>flag_time_trac := v\<rparr>\<rparr>)"

definition ptp_porten_set :: "'d fpga_dev \<Rightarrow> 'd setter" where
  "ptp_porten_set dv = switch_set dv 0x0123 [(''off'', 0), (''on'', 1)]
     (\<lambda>v s. s\<lparr>mode_par := (mode_par s)\<lparr>port_enable := v\<rparr>\<rparr>)"

definition ptp_ntpen_set :: "'d fpga_dev \<Rightarrow> 'd setter" where
  "ptp_ntpen_set dv = switch_set dv 0x0154 [(''off'', 0), (''on'', 1)]
     (\<lambda>v s. s\<lparr>mode_par := (mode_par s)\<lparr>protocol := v, ntp_en := v\<rparr>\<rparr>)"

definition ptp_steptype_set :: "'d fpga_dev \<Rightarrow> 'd setter" where
  "ptp_steptype_set dv = switch_set dv 0x0148 [(''off'', 0), (''on'', 1)]
     (\<lambda>v s. s\<lparr>mode_par := (mode_par s)\<lparr>step_type := v\<rparr>\<rparr>)"

definition ptp_timeformat_set :: "'d fpga_dev \<Rightarrow> 'd setter" where
  "ptp_timeformat_set dv = switch_set dv 0x0131 [(''arb'', 0), (''ptp'', 1)]
     (\<lambda>v s. s\<lparr>mode_par := (mode_par s)\<lparr>flag_time_scale := v\<rparr>\<rparr>)"

definition ptp_leap59flag_set :: "'d fpga_dev \<Rightarrow> 'd setter" where
  "ptp_leap59flag_set dv = switch_set dv 0x0133 [(''0'', 0), (''1'', 1)]
     (\<lambda>v s. s\<lparr>mode_par := (mode_par s)\<lparr>flag_leap59 := v\<rparr>\<rparr>)"

definition ptp_leap61flag_set :: "'d fpga_dev \<Rightarrow> 'd setter" where
  "ptp_leap61flag_set dv = switch_set dv 0x0134 [(''0'', 0), (''1'', 1)]
     (\<lambda>v s. s\<lparr>mode_par := (mode_par s)\<lparr>flag_leap61 := v\<rparr>\<rparr>)"

definition ptp_esmcen_set :: "'d fpga_dev \<Rightarrow> 'd setter" where
  "ptp_esmcen_set dv = switch_set dv 0x0152 [(''off'', 0), (''on'', 1)]
     (\<lambda>v s. s\<lparr>mode_par := (mode_par s)\<lparr>esmc_enable := v\<rparr>\<rparr>)"

definition ptp_esmcssm_set :: "'d fpga_dev \<Rightarrow> 'd setter" where
  "ptp_esmcssm_set dv = switch_set dv 0x0153 [(''00'', 0x00), (''02'', 0x02), (''04'', 0x04), (''0F'', 0x0F)]
     (\<lambda>v s. s\<lparr>mode_par := (mode_par s)\<lparr>esmc_ssm := v\<rparr>\<rparr>)"

definition ptp_protocol_rtrv :: "'d fpga_dev \<Rightarrow> 'd query" where
  "ptp_protocol_rtrv dv = switch_rtrv dv 0x0147 [''eth'', ''udp'']
     (\<lambda>v s. s\<lparr>mode_par := (mode_par s)\<lparr>encode_package := v\<rparr>\<rparr>)"

definition ptp_mechanism_rtrv :: "'d fpga_dev \<Rightarrow> 'd query" where
  "ptp_mechanism_rtrv dv = switch_rtrv dv 0x0149 [''e2e'', ''p2p'']
     (\<lambda>v s. s\<lparr>mode_par := (mode_par s)\<lparr>delay_type := v\<rparr>\<rparr>)"

definition ptp_unicast_rtrv :: "'d fpga_dev \<Rightarrow> 'd query" where
  "ptp_unicast_rtrv dv = switch_rtrv dv 0x0146 [''disable'', ''enable'']
     (\<lambda>v s. s\<lparr>mode_par := (mode_par s)\<lparr>unicast := v\<rparr>\<rparr>)"

definition ptp_fretraceable_rtrv :: "'d fpga_dev \<Rightarrow> 'd query" where
  "ptp_fretraceable_rtrv dv = switch_rtrv dv 0x0129 [''false'', ''true'']
     (\<lambda>v s. s\<lparr>mode_par := (mode_par s)\<lparr>flag_freq_trac := v\<rparr>\<rparr>)"

definition ptp_timetraceable_rtrv :: "'d fpga_dev \<Rightarrow> 'd query" where
  "ptp_timetraceable_rtrv dv = switch_rtrv dv 0x0130 [''false'', ''true'']
     (\<lambda>v s. s\<lparr>mode_par := (mode_par s)\<lparr>flag_time_trac := v\<rparr>\<rparr>)"

definition ptp_porten_rtrv :: "'d fpga_dev \<Rightarrow> 'd query" where
  "ptp_porten_rtrv dv = switch_rtrv dv 0x0123 [''off'', ''on'']
     (\<lambda>v s. s\<lparr>mode_par := (mode_par s)\<lparr>port_enable := v\<rparr>\<rparr>)"

definition ptp_ntpen_rtrv :: "'d fpga_dev \<Rightarrow> 'd query" where
  "ptp_ntpen_rtrv dv = switch_rtrv dv 0x0154 [''off'', ''on'']
     (\<lambda>v s. s\<lparr>mode_par := (mode_par s)\<lparr>ntp_en := v, protocol := v\<rparr>\<rparr>)"

definition ptp_steptype_rtrv :: "'d fpga_dev \<Rightarrow> 'd query" where
  "ptp_steptype_rtrv dv = switch_rtrv dv 0x0148 [''off'', ''on'']
     (\<lambda>v s. s\<lparr>mode_par := (mode_par s)\<lparr>step_type := v\<rparr>\<rparr>)"

definition ptp_timeformat_rtrv :: "'d fpga_dev \<Rightarrow> 'd query" where
  "ptp_timeformat_rtrv dv = switch_rtrv dv 0x0131 [''arb'', ''ptp'']
     (\<lambda>v s. s\<lparr>mode_par := (mode_par s)\<lparr>flag_time_scale := v\<rparr>\<rparr>)"

definition ptp_esmcen_rtrv :: "'d fpga_dev \<Rightarrow> 'd query" where
  "ptp_esmcen_rtrv dv = switch_rtrv dv 0x0152 [''off'', ''on'']
     (\<lambda>v s. s\<lparr>mode_par := (mode_par s)\<lparr>esmc_enable := v\<rparr>\<rparr>)"

text \<open>The two leap flags are bit fields of one bit; the register is printed whole.\<close>

definition ptp_leap59flag_rtrv :: "'d fpga_dev \<Rightarrow> 'd query" where
  "ptp_leap59flag_rtrv dv = number_rtrv dv 0x0133 (\<lambda>v s. s\<lparr>mode_par := (mode_par s)\<lparr>flag_leap59 := v AND 1\<rparr>\<rparr>)"

definition ptp_leap61flag_rtrv :: "'d fpga_dev \<Rightarrow> 'd query" where
  "ptp_leap61flag_rtrv dv = number_rtrv dv 0x0134 (\<lambda>v s. s\<lparr>mode_par := (mode_par s)\<lparr>flag_leap61 := v AND 1\<rparr>\<rparr>)"

definition ptp_esmcssm_rtrv :: "'d fpga_dev \<Rightarrow> 'd query" where
  "ptp_esmcssm_rtrv dv = query_regs dv [0x0153] (\<lambda>t s.
     (s\<lparr>mode_par := (mode_par s)\<lparr>esmc_ssm := t ! 0\<rparr>\<rparr>, Some (hex2 (t ! 0) @ NL), OK))"

section \<open>Message intervals\<close>

definition p_frequcy :: "string list" where
  "p_frequcy = [''1/256'', ''1/128'', ''1/64'', ''1/32'', ''1/16'', ''1/8'', ''1/4'',
     ''1/2'', ''1'', ''2'', ''4'', ''8'', ''16'', ''32'', ''64'']"

abbreviation (input) "PTP_MESSAGE_FRE_OFFSET \<equiv> (8 :: int)"

definition interval_set :: "'d fpga_dev \<Rightarrow> u32 \<Rightarrow> (u8 \<Rightarrow> 'd xgm \<Rightarrow> 'd xgm) \<Rightarrow> 'd setter" where
  "interval_set dv reg store = set_param (\<lambda>t s.
     case find_prefix p_frequcy t 0 of
       None \<Rightarrow> (s, NG)
     | Some i \<Rightarrow> reg_writes dv [(word_of_int (int i - PTP_MESSAGE_FRE_OFFSET), reg)] (store (of_nat i) s))"

text \<open>The register is read into a signed byte.\<close>

definition interval_rtrv :: "'d fpga_dev \<Rightarrow> u32 \<Rightarrow> (u8 \<Rightarrow> 'd xgm \<Rightarrow> 'd xgm) \<Rightarrow> 'd query" where
  "interval_rtrv dv reg store = query_regs dv [reg] (\<lambda>t s.
     let tmp = sint (t ! 0) in
     if tmp < -8 \<or> tmp > 6 then (s, Some (''failure'' @ NL), NG)
     else (store (word_of_int (PTP_MESSAGE_FRE_OFFSET + tmp)) s,
           Some (p_frequcy ! nat (PTP_MESSAGE_FRE_OFFSET + tmp) @ NL), OK))"

definition ptp_syncinter_set :: "'d fpga_dev \<Rightarrow> 'd setter" where
  "ptp_syncinter_set dv = interval_set dv 0x0151 (\<lambda>v s. s\<lparr>mode_par := (mode_par s)\<lparr>sync_frequency := v\<rparr>\<rparr>)"

definition ptp_announceinter_set :: "'d fpga_dev \<Rightarrow> 'd setter" where
  "ptp_announceinter_set dv = interval_set dv 0x0150 (\<lambda>v s. s\<lparr>mode_par := (mode_par s)\<lparr>anounce_frequency := v\<rparr>\<rparr>)"

definition ptp_syncinter_rtrv :: "'d fpga_dev \<Rightarrow> 'd query" where
  "ptp_syncinter_rtrv dv = interval_rtrv dv 0x0151 (\<lambda>v s. s\<lparr>mode_par := (mode_par s)\<lparr>sync_frequency := v\<rparr>\<rparr>)"

definition ptp_announceinter_rtrv :: "'d fpga_dev \<Rightarrow> 'd query" where
  "ptp_announceinter_rtrv dv = interval_rtrv dv 0x0150 (\<lambda>v s. s\<lparr>mode_par := (mode_par s)\<lparr>anounce_frequency := v\<rparr>\<rparr>)"

text \<open>The intervals of delay requests are not implemented.\<close>

definition ptp_delayrinter_set :: "'d setter" where "ptp_delayrinter_set p_param s = Some (s, NG)"
definition ptp_pdelayrinter_set :: "'d setter" where "ptp_pdelayrinter_set p_param s = Some (s, NG)"
definition ptp_delayrinter_rtrv :: "'d query" where "ptp_delayrinter_rtrv p_param s = (s, p_param, NG)"
definition ptp_pdelayrinter_rtrv :: "'d query" where "ptp_pdelayrinter_rtrv p_param s = (s, p_param, NG)"

section \<open>Numbers\<close>

text \<open>The check of the digits counts in a byte: behind 255 digits it starts over.\<close>

definition byte_set :: "'d fpga_dev \<Rightarrow> u32 \<Rightarrow> (u8 \<Rightarrow> 'd xgm \<Rightarrow> 'd xgm) \<Rightarrow> 'd setter" where
  "byte_set dv reg store = set_partial (\<lambda>t s.
     if \<not> list_all isdigit (take 256 t) then Some (s, NG)
     else if 256 \<le> length t then None
     else let temp = atoi t in
       if temp > 255 \<or> temp < 0 then Some (s, NG)
       else Some (reg_writes dv [(word_of_int temp, reg)] (store (word_of_int temp) s)))"

definition ptp_domain_set :: "'d fpga_dev \<Rightarrow> 'd setter" where
  "ptp_domain_set dv = byte_set dv 0x0124 (\<lambda>v s. s\<lparr>mode_par := (mode_par s)\<lparr>domain := v\<rparr>\<rparr>)"

definition ptp_timesource_set :: "'d fpga_dev \<Rightarrow> 'd setter" where
  "ptp_timesource_set dv = byte_set dv 0x0145 (\<lambda>v s. s\<lparr>mode_par := (mode_par s)\<lparr>time_source := v\<rparr>\<rparr>)"

definition ptp_domain_rtrv :: "'d fpga_dev \<Rightarrow> 'd query" where
  "ptp_domain_rtrv dv = number_rtrv dv 0x0124 (\<lambda>v s. s\<lparr>mode_par := (mode_par s)\<lparr>domain := v\<rparr>\<rparr>)"

definition ptp_timesource_rtrv :: "'d fpga_dev \<Rightarrow> 'd query" where
  "ptp_timesource_rtrv dv = number_rtrv dv 0x0145 (\<lambda>v s. s\<lparr>mode_par := (mode_par s)\<lparr>time_source := v\<rparr>\<rparr>)"

definition u8_len :: "string \<Rightarrow> nat" where "u8_len t = unat (of_nat (length t) :: u8)"

definition ptp_utcoffset_set :: "'d fpga_dev \<Rightarrow> 'd setter" where
  "ptp_utcoffset_set dv = set_param (\<lambda>t s.
     if \<not> list_all isdigit (take (u8_len t) t) then (s, NG)
     else let temp = (word_of_int (atoi t) :: u16) in
       reg_writes dv [(ucast (drop_bit 8 temp AND 0xFF), 0x0135), (ucast (temp AND 0xFF), 0x0136)]
         (s\<lparr>mode_par := (mode_par s)\<lparr>utc_offset := temp\<rparr>\<rparr>))"

definition ptp_utcoffset_rtrv :: "'d fpga_dev \<Rightarrow> 'd query" where
  "ptp_utcoffset_rtrv dv = query_regs dv [0x0135, 0x0136] (\<lambda>t s.
     let v = (push_bit 8 (ucast (t ! 0)) OR ucast (t ! 1) :: u16) in
     (s\<lparr>mode_par := (mode_par s)\<lparr>utc_offset := v\<rparr>\<rparr>, Some (dec (unat v) @ NL), OK))"

section \<open>Priorities\<close>

definition ptp_priority1_set :: "'d fpga_dev \<Rightarrow> 'd setter" where
  "ptp_priority1_set dv = set_param (\<lambda>t s.
     if \<not> list_all isdigit (take (u8_len t) t) then (s, NG)
     else let tmp = word_of_int (atoi t) in
       reg_writes dv [(tmp, 0x0137)] (s\<lparr>mode_par := (mode_par s)\<lparr>priority1 := tmp\<rparr>\<rparr>))"

definition ptp_priority2_set :: "'d fpga_dev \<Rightarrow> 'd setter" where
  "ptp_priority2_set dv = set_param (\<lambda>t s.
     if \<not> list_all isdigit (take (u8_len t) t) then (s, NG)
     else let tmp = word_of_int (atoi t) in
       reg_writes dv [(tmp, 0x0142)] (s\<lparr>mode_par := (mode_par s)\<lparr>priority2 := tmp\<rparr>\<rparr>))"

text \<open>The tokens of a separated list, as many as asked for; fewer is \<open>None\<close>.\<close>

fun tokens :: "nat \<Rightarrow> string \<Rightarrow> nat \<Rightarrow> string \<Rightarrow> string list option" where
  "tokens 0 m q ds = Some []"
| "tokens (Suc n) m q ds = do {
     (m, p, q) \<leftarrow> strtok m q ds;
     p \<leftarrow> p;
     t \<leftarrow> cstr_at m p;
     ts \<leftarrow> tokens n m q ds;
     Some (t # ts)
   }"

definition ptp_priority_set :: "'d fpga_dev \<Rightarrow> 'd setter" where
  "ptp_priority_set dv = set_param (\<lambda>t s.
     if sep_chars (CHR '','') isdigit (take (u8_len t) t) 0 \<noteq> Some 1 then (s, NG)
     else (case tokens 2 (t @ [NUL]) 0 '','' of
       Some [t1, t2] \<Rightarrow>
         (let v1 = word_of_int (atoi t1); v2 = word_of_int (atoi t2);
              (s, r) = reg_writes dv [(v1, 0x0137)] (s\<lparr>mode_par := (mode_par s)\<lparr>priority1 := v1\<rparr>\<rparr>) in
          if r = NG then (s, NG)
          else reg_writes dv [(v2, 0x0142)] (s\<lparr>mode_par := (mode_par s)\<lparr>priority2 := v2\<rparr>\<rparr>))
     | _ \<Rightarrow> (s, NG)))"

definition ptp_priority_rtrv :: "'d fpga_dev \<Rightarrow> 'd query" where
  "ptp_priority_rtrv dv = query_regs dv [0x0137, 0x0142] (\<lambda>t s.
     (s\<lparr>mode_par := (mode_par s)\<lparr>priority1 := t ! 0, priority2 := t ! 1\<rparr>\<rparr>,
      Some (dec (unat (t ! 0)) @ '','' @ dec (unat (t ! 1)) @ NL), OK))"

section \<open>Clock quality and class\<close>

text \<open>The setting does not store its values.\<close>

definition hex_value :: "string \<Rightarrow> u32" where "hex_value t = fst (strtoul t 16)"

definition ptp_clockquality_set :: "'d fpga_dev \<Rightarrow> 'd setter" where
  "ptp_clockquality_set dv = set_param (\<lambda>t s.
     if sep_chars (CHR '','') isxdigit (take (u8_len t) t) 0 \<noteq> Some 2 then (s, NG)
     else (case tokens 3 (t @ [NUL]) 0 '','' of
       Some [t1, t2, t3] \<Rightarrow>
         reg_writes dv
           [(ucast (hex_value t1), 0x0138), (ucast (hex_value t2), 0x0139),
            (ucast (drop_bit 8 (hex_value t3) AND 0xFF), 0x0140), (ucast (hex_value t3 AND 0xFF), 0x0141)] s
     | _ \<Rightarrow> (s, NG)))"

definition ptp_clockquality_rtrv :: "'d fpga_dev \<Rightarrow> 'd query" where
  "ptp_clockquality_rtrv dv = query_regs dv [0x0138, 0x0139, 0x0140, 0x0141] (\<lambda>t s.
     (s, Some (hex2 (t ! 0) @ '','' @ hex2 (t ! 1) @ '','' @ hex2 (t ! 2) @ hex2 (t ! 3) @ NL), OK))"

definition get_str_split_value :: "string \<Rightarrow> nat \<Rightarrow> nat \<Rightarrow> bytes option" where
  "get_str_split_value t num base =
     (if sep_chars (CHR '','') (is_digit_of (if base = 16 then 16 else 10)) (take (u8_len t) t) 1 \<noteq> Some num then None
      else map_option
        (map (\<lambda>p. if base = 16 then ucast (hex_value p) else word_of_int (atoi p)))
        (tokens num (t @ [NUL]) 0 '',''))"

definition ptp_clockclass_set :: "'d setter" where
  "ptp_clockclass_set = set_param (\<lambda>t s.
     case get_str_split_value t 3 10 of
       None \<Rightarrow> (s, NG)
     | Some p_value \<Rightarrow> (s\<lparr>mode_par := (mode_par s)\<lparr>clock_class := p_value\<rparr>\<rparr>, OK))"

definition ptp_clockclass_rtrv :: "'d query" where
  "ptp_clockclass_rtrv p_param s =
     (case p_param of None \<Rightarrow> (s, p_param, NG)
      | Some old \<Rightarrow> (s, Some (joined '','' (map (\<lambda>b. dec (unat b)) (clock_class (mode_par s))) @ NL), OK))"

section \<open>The table of unicast slaves\<close>

definition PTP_SLAVE_IP_TB_LEN :: nat where "PTP_SLAVE_IP_TB_LEN = 1024"
abbreviation (input) "PTP_MTC_START_ADDR \<equiv> (0x00020000 :: u32)"

text \<open>The packed entry in memory: a half-word of three bit fields, low byte first, six and four
  bytes.\<close>

definition arp_bytes :: "arp_entry \<Rightarrow> bytes" where
  "arp_bytes e =
     (let w = (arp_reseved e AND 0x1FFF) OR push_bit 13 (arp_time_out e AND 3) OR push_bit 15 (arp_flag e AND 1) in
      [ucast (w AND 0xFF), ucast (drop_bit 8 w)] @ arp_mac e @ arp_ip e)"

definition arp_of_bytes :: "bytes \<Rightarrow> arp_entry" where
  "arp_of_bytes b =
     (let w = (ucast (b ! 0) OR push_bit 8 (ucast (b ! 1)) :: u16) in
      \<lparr>arp_reseved = w AND 0x1FFF, arp_time_out = drop_bit 13 w AND 3, arp_flag = drop_bit 15 w,
       arp_mac = take 6 (drop 2 b), arp_ip = take 4 (drop 8 b)\<rparr>)"

text \<open>The first free entry, or the length of the table.\<close>

definition free_entry :: "arp_entry list \<Rightarrow> nat" where
  "free_entry tb = length (takeWhile (\<lambda>e. arp_ip e ! 0 \<noteq> 0) tb)"

definition ptp_ufs_add :: "'d fpga_dev \<Rightarrow> 'd setter" where
  "ptp_ufs_add dv = set_partial (\<lambda>t s.
     let indx = free_entry (arp_table s) in do {
       r \<leftarrow> get_decimalip_value t;
       case r of
         None \<Rightarrow> Some (s, NG)
       | Some ulipaddr \<Rightarrow> do {
           let e = \<lparr>arp_reseved = 0, arp_time_out = 0, arp_flag = 0, arp_mac = replicate 6 0, arp_ip = ip_bytes ulipaddr\<rparr>;
           tb \<leftarrow> wr_at (arp_table s) indx e;
           let (d, r) = SPI_FPGA_BufferWrite dv (arp_bytes e) (PTP_MTC_START_ADDR + of_nat indx) (fpga s);
           Some (s\<lparr>fpga := d, arp_table := tb\<rparr>, r)
         }
     })"

text \<open>The first entry with the address is cleared; the entry that is then written to the FPGA is
  the one the search stopped at, which lies behind the table when there was none.\<close>

definition ptp_ufs_del :: "'d fpga_dev \<Rightarrow> 'd setter" where
  "ptp_ufs_del dv = set_partial (\<lambda>t s. do {
     r \<leftarrow> get_decimalip_value t;
     case r of
       None \<Rightarrow> Some (s, NG)
     | Some ulipaddr \<Rightarrow> do {
         let indx = length (takeWhile (\<lambda>e. arp_ip e \<noteq> ip_bytes ulipaddr) (arp_table s));
         let e = \<lparr>arp_reseved = 0, arp_time_out = 0, arp_flag = 0, arp_mac = replicate 6 0, arp_ip = replicate 4 0\<rparr>;
         tb \<leftarrow> wr_at (arp_table s) indx e;
         let (d, r) = SPI_FPGA_BufferWrite dv (arp_bytes e) (PTP_MTC_START_ADDR + of_nat indx) (fpga s);
         Some (s\<lparr>fpga := d, arp_table := tb\<rparr>, r)
       }
   })"

text \<open>The bytes that arrived over those an entry had; each entry read gets its index.\<close>

fun overlay :: "bytes \<Rightarrow> u8 option list \<Rightarrow> bytes" where
  "overlay (b # bs) (r # rs) = (case r of None \<Rightarrow> b | Some v \<Rightarrow> v) # overlay bs rs"
| "overlay bs rs = bs"

fun ufs_read :: "'d fpga_dev \<Rightarrow> nat list \<Rightarrow> 'd xgm \<Rightarrow> 'd xgm \<times> u8" where
  "ufs_read dv [] s = (s, OK)"
| "ufs_read dv (i # is) s =
     (let (d, rs, r) = SPI_FPGA_BufferRead dv (PTP_MTC_START_ADDR + of_nat i) 12 (fpga s);
          e = arp_of_bytes (overlay (arp_bytes (arp_table s ! i)) rs) in
      if r = NG then (s\<lparr>fpga := d, arp_table := (arp_table s)[i := e]\<rparr>, NG)
      else ufs_read dv is (s\<lparr>fpga := d, arp_table := (arp_table s)[i := e\<lparr>arp_reseved := of_nat i AND 0x1FFF\<rparr>]\<rparr>))"

definition ptp_ufs_rtrv :: "'d fpga_dev \<Rightarrow> 'd query" where
  "ptp_ufs_rtrv dv p_param s =
     (case p_param of None \<Rightarrow> (s, p_param, NG)
      | Some old \<Rightarrow> (let (s, r) = ufs_read dv [0..<PTP_SLAVE_IP_TB_LEN] s in (s, p_param, r)))"

section \<open>The command\<close>

definition p_ptp_port_subcmd :: "string list" where
  "p_ptp_port_subcmd = [''p'', ''m'', ''di'', ''pi'', ''ai'', ''u'', ''f'', ''t'', ''s'', ''e'', ''n'', ''si'']"
definition p_ptp_clock_subcmd :: "string list" where "p_ptp_clock_subcmd = [''t'', ''q'', ''p'', ''d'']"
definition p_ptp_time_subcmd :: "string list" where "p_ptp_time_subcmd = [''s'', ''l'', ''o'']"
definition p_ptp_esmc_subcmd :: "string list" where "p_ptp_esmc_subcmd = [''e'', ''s'']"

definition ptp2_set_psubcmd_parser :: "'d fpga_dev \<Rightarrow> 'd setter list" where
  "ptp2_set_psubcmd_parser dv =
     [ptp_protocol_set dv, ptp_mechanism_set dv, ptp_delayrinter_set, ptp_pdelayrinter_set, ptp_announceinter_set dv,
      ptp_unicast_set dv, ptp_fretraceable_set dv, ptp_timetraceable_set dv, ptp_timesource_set dv,
      ptp_porten_set dv, ptp_ntpen_set dv, ptp_syncinter_set dv]"

definition ptp2_query_psubcmd_parser :: "'d fpga_dev \<Rightarrow> 'd query list" where
  "ptp2_query_psubcmd_parser dv =
     [ptp_protocol_rtrv dv, ptp_mechanism_rtrv dv, ptp_delayrinter_rtrv, ptp_pdelayrinter_rtrv, ptp_announceinter_rtrv dv,
      ptp_unicast_rtrv dv, ptp_fretraceable_rtrv dv, ptp_timetraceable_rtrv dv, ptp_timesource_rtrv dv,
      ptp_porten_rtrv dv, ptp_ntpen_rtrv dv, ptp_syncinter_rtrv dv]"

definition ptp2_set_csubcmd_parser :: "'d fpga_dev \<Rightarrow> 'd setter list" where
  "ptp2_set_csubcmd_parser dv = [ptp_steptype_set dv, ptp_clockquality_set dv, ptp_priority_set dv, ptp_domain_set dv]"

definition ptp2_query_csubcmd_parser :: "'d fpga_dev \<Rightarrow> 'd query list" where
  "ptp2_query_csubcmd_parser dv = [ptp_steptype_rtrv dv, ptp_clockquality_rtrv dv, ptp_priority_rtrv dv, ptp_domain_rtrv dv]"

text \<open>The second entry of the time commands, the leap flags, is a null function.\<close>

definition ptp2_set_tsubcmd_parser :: "'d fpga_dev \<Rightarrow> 'd setter option list" where
  "ptp2_set_tsubcmd_parser dv = [Some (ptp_timeformat_set dv), None, Some (ptp_utcoffset_set dv)]"

definition ptp2_query_tsubcmd_parser :: "'d fpga_dev \<Rightarrow> 'd query option list" where
  "ptp2_query_tsubcmd_parser dv = [Some (ptp_timeformat_rtrv dv), None, Some (ptp_utcoffset_rtrv dv)]"

definition ptp2_set_esubcmd_parser :: "'d fpga_dev \<Rightarrow> 'd setter list" where
  "ptp2_set_esubcmd_parser dv = [ptp_esmcen_set dv, ptp_esmcssm_set dv]"

definition ptp2_query_esubcmd_parser :: "'d fpga_dev \<Rightarrow> 'd query list" where
  "ptp2_query_esubcmd_parser dv = [ptp_esmcen_rtrv dv, ptp_esmcssm_rtrv dv]"

text \<open>Here the sub-command given may be any prefix of an entry of the table.\<close>

fun find_extension :: "string list \<Rightarrow> string \<Rightarrow> nat \<Rightarrow> nat option" where
  "find_extension [] p i = None"
| "find_extension (t # ts) p i = (if starts_with t p then Some i else find_extension ts p (Suc i))"

text \<open>A query, or a setting, of the given parameter.\<close>

definition run_set :: "'d setter \<Rightarrow> nat \<Rightarrow> string option list \<Rightarrow> 'd xgm \<Rightarrow> ('d xgm \<times> string option \<times> u8) option" where
  "run_set st k ps s = do { (s, r) \<leftarrow> st (arg ps k) s; Some (s, arg ps (length ps - 1), r) }"

text \<open>A first parameter that names no group is answered with success.\<close>

definition ptp_set_handler ::
  "'d fpga_dev \<Rightarrow> string option list \<Rightarrow> 'd xgm \<Rightarrow> ('d xgm \<times> string option \<times> u8) option" where
  "ptp_set_handler dv ps s =
     (let num = length ps; buf = arg ps (num - 1); ng = Some (s, buf, NG) in
      if MAX_PARAM_NUM < num then None
      else if None \<in> set ps then ng
      else do {
        p0 \<leftarrow> arg ps 0;
        if starts_with p0 ''help'' then Some (s, buf, OK)
        else if starts_with p0 ''p'' then do {
          p1 \<leftarrow> arg ps 1;
          (case find_extension p_ptp_port_subcmd p1 0 of
            None \<Rightarrow> ng
          | Some i \<Rightarrow> query_or_set 3 4 (ptp2_query_psubcmd_parser dv ! i) (ptp2_set_psubcmd_parser dv ! i) ps s)
        } else if starts_with p0 ''c'' then do {
          p1 \<leftarrow> arg ps 1;
          (case find_extension p_ptp_clock_subcmd p1 0 of
            None \<Rightarrow> ng
          | Some i \<Rightarrow>
              if num = 5 then
                if starts_with p1 ''p'' then do {
                  p2 \<leftarrow> arg ps 2;
                  if starts_with p2 ''1'' then run_set (ptp_priority1_set dv) 3 ps s
                  else if starts_with p2 ''2'' then run_set (ptp_priority2_set dv) 3 ps s
                  else ng
                } else ng
              else query_or_set 3 4 (ptp2_query_csubcmd_parser dv ! i) (ptp2_set_csubcmd_parser dv ! i) ps s)
        } else if starts_with p0 ''u'' then do {
          p1 \<leftarrow> arg ps 1;
          if starts_with p1 ''f'' then do {
            p2 \<leftarrow> arg ps 2;
            if starts_with p2 ''s'' then
              if num = 6 then do {
                p3 \<leftarrow> arg ps 3;
                if starts_with p3 ''add'' then run_set (ptp_ufs_add dv) 4 ps s
                else if starts_with p3 ''del'' then run_set (ptp_ufs_del dv) 4 ps s
                else ng
              } else if num = 4 then Some (ptp_ufs_rtrv dv (arg ps 3) s)
              else ng
            else ng
          } else ng
        } else if starts_with p0 ''g'' then do {
          p1 \<leftarrow> arg ps 1;
          if starts_with p1 ''c'' then query_or_set 3 4 ptp_clockclass_rtrv ptp_clockclass_set ps s else ng
        } else if starts_with p0 ''t'' then do {
          p1 \<leftarrow> arg ps 1;
          (case find_extension p_ptp_time_subcmd p1 0 of
            None \<Rightarrow> ng
          | Some i \<Rightarrow>
              if num = 3 then
                (case ptp2_query_tsubcmd_parser dv ! i of None \<Rightarrow> ng | Some q \<Rightarrow> Some (q (arg ps 2) s))
              else if num = 4 then
                (case ptp2_set_tsubcmd_parser dv ! i of
                   None \<Rightarrow> do {
                     p2 \<leftarrow> arg ps 2;
                     if starts_with p2 ''59'' then Some (ptp_leap59flag_rtrv dv (arg ps 3) s)
                     else if starts_with p2 ''61'' then Some (ptp_leap61flag_rtrv dv (arg ps 3) s)
                     else ng
                   }
                 | Some st \<Rightarrow> run_set st 2 ps s)
              else if num = 5 then do {
                p2 \<leftarrow> arg ps 2;
                if starts_with p2 ''59'' then run_set (ptp_leap59flag_set dv) 3 ps s
                else if starts_with p2 ''61'' then run_set (ptp_leap61flag_set dv) 3 ps s
                else ng
              } else ng)
        } else if starts_with p0 ''e'' then do {
          p1 \<leftarrow> arg ps 1;
          (case find_extension p_ptp_esmc_subcmd p1 0 of
            None \<Rightarrow> ng
          | Some i \<Rightarrow> query_or_set 3 4 (ptp2_query_esubcmd_parser dv ! i) (ptp2_set_esubcmd_parser dv ! i) ps s)
        } else Some (s, buf, OK)
      })"

end
