(* ===== verification/Outputs.thy ===== *)
theory Outputs
  imports OutPps PtpMode
begin

text \<open>
  Settings and queries of the outputs agree: what a setting accepted is what the query of the same
  sub-command prints afterwards, and no register of another setting changes.
\<close>

section \<open>A setting followed by its query\<close>

definition set_query :: "'d setter \<Rightarrow> 'd query \<Rightarrow> string \<Rightarrow> string \<Rightarrow> 'd xgm \<Rightarrow> ('d xgm \<times> u8 \<times> string option \<times> u8) option" where
  "set_query st q t old s = do {
     (s, r1) \<leftarrow> st (Some t) s;
     let (s, buf, r2) = q (Some old) s;
     Some (s, r1, buf, r2)
   }"

text \<open>What a setting and its query do to the stored settings, as a function of the text and of the
  bytes of its registers.\<close>

type_synonym 'd effect = "string \<Rightarrow> bytes \<Rightarrow> 'd xgm \<Rightarrow> 'd xgm"

definition out_mem :: "(bytes \<Rightarrow> pps_irigb \<Rightarrow> pps_irigb) \<Rightarrow> 'd effect" where
  "out_mem u t bs s = s\<lparr>out_par := u bs (out_par s)\<rparr>"

definition net_mem :: "(bytes \<Rightarrow> ptp_net \<Rightarrow> ptp_net) \<Rightarrow> 'd effect" where
  "net_mem u t bs s = s\<lparr>net_par := u bs (net_par s)\<rparr>"

definition mode_mem :: "(bytes \<Rightarrow> ptp_mode \<Rightarrow> ptp_mode) \<Rightarrow> 'd effect" where
  "mode_mem u t bs s = s\<lparr>mode_par := u bs (mode_par s)\<rparr>"

lemmas mem_defs = out_mem_def net_mem_def mode_mem_def

text \<open>Both succeed, the answer to \<open>t\<close> is \<open>f t\<close>, only the registers \<open>rs\<close> have
  changed, and the rest of the state is what \<open>g\<close> makes of it with the bytes those registers
  hold.\<close>

definition answers ::
  "('d \<Rightarrow> u32 \<Rightarrow> u8) \<Rightarrow> 'd setter \<Rightarrow> 'd query \<Rightarrow> u32 list \<Rightarrow> (string \<Rightarrow> string) \<Rightarrow> 'd effect \<Rightarrow> string set \<Rightarrow> bool" where
  "answers regs st q rs f g T \<longleftrightarrow>
     (\<forall>t \<in> T. \<forall>old s. \<exists>s'. set_query st q t old s = Some (s', OK, Some (f t @ NL), OK) \<and>
        s' = (g t (map (regs (fpga s')) rs) s)\<lparr>fpga := fpga s'\<rparr> \<and>
        (\<forall>a. a \<notin> set rs \<longrightarrow> regs (fpga s') a = regs (fpga s) a))"

lemma answersI:
  assumes ok: "fpga_ok dv regs" and d: "distinct rs" and q: "q = query_regs dv rs ans"
    and st: "\<And>t s. t \<in> T \<Longrightarrow> \<exists>vs s'. st (Some t) s = Some (reg_writes dv (zip vs rs) s') \<and> fpga s' = fpga s \<and>
      length vs = length rs \<and> (\<forall>d. ans vs (s'\<lparr>fpga := d\<rparr>) = ((g t vs s)\<lparr>fpga := d\<rparr>, Some (f t @ NL), OK))"
  shows "answers regs st q rs f g T"
  unfolding answers_def
proof (intro ballI allI)
  fix t old s assume "t \<in> T"
  then obtain vs s' where s': "st (Some t) s = Some (reg_writes dv (zip vs rs) s')" "fpga s' = fpga s"
    "length vs = length rs" and an: "\<And>d. ans vs (s'\<lparr>fpga := d\<rparr>) = ((g t vs s)\<lparr>fpga := d\<rparr>, Some (f t @ NL), OK)"
    using st [of t s] by blast
  define d1 where "d1 = dev_writes dv (zip vs rs) (fpga s)"
  have r1: "regs d1 = regs_set (zip vs rs) (regs (fpga s))" unfolding d1_def by (rule dev_writes_regs [OF ok])
  have vs: "map (regs d1) rs = vs"
    using regs_set_map [of "zip vs rs" "regs (fpga s)"] d s'(3) by (simp add: r1)
  define s2 where "s2 = (g t vs s)\<lparr>fpga := dev_reads dv rs d1\<rparr>"
  have "ans vs (s'\<lparr>fpga := dev_reads dv rs d1\<rparr>) = (s2, Some (f t @ NL), OK)" unfolding s2_def by (rule an)
  then have "set_query st q t old s = Some (s2, OK, Some (f t @ NL), OK)"
    using vs by (simp add: set_query_def s'(1,2) reg_writes_ok [OF ok] q query_regs_ok [OF ok] d1_def [symmetric])
  moreover have r2: "regs (fpga s2) = regs d1" by (simp add: s2_def dev_reads_regs [OF ok])
  moreover have "s2 = (g t (map (regs (fpga s2)) rs) s)\<lparr>fpga := fpga s2\<rparr>" unfolding r2 vs by (simp add: s2_def)
  moreover have "snd ` set (zip vs rs) = set rs" using s'(3) by (metis map_snd_zip set_map)
  then have "\<forall>a. a \<notin> set rs \<longrightarrow> regs (fpga s2) a = regs (fpga s) a" by (simp add: r2 r1 regs_set_other)
  ultimately show "\<exists>s'. set_query st q t old s = Some (s', OK, Some (f t @ NL), OK) \<and>
      s' = (g t (map (regs (fpga s')) rs) s)\<lparr>fpga := fpga s'\<rparr> \<and>
      (\<forall>a. a \<notin> set rs \<longrightarrow> regs (fpga s') a = regs (fpga s) a)" by blast
qed

section \<open>Switches\<close>

definition named :: "(string \<times> u8) list \<Rightarrow> string list \<Rightarrow> string set \<Rightarrow> bool" where
  "named tbl names T \<longleftrightarrow>
     (\<forall>t \<in> T. case chosen tbl t of None \<Rightarrow> False | Some v \<Rightarrow> unat v < length names \<and> names ! unat v = t)"

lemma switch_answers:
  assumes "fpga_ok dv regs" "named tbl names T"
    and "\<And>v s. fpga (st v s) = fpga s" "\<And>t v s d. st' v ((st v s)\<lparr>fpga := d\<rparr>) = (g t [v] s)\<lparr>fpga := d\<rparr>"
  shows "answers regs (switch_set dv reg tbl st) (switch_rtrv dv reg names st') [reg] id g T"
proof (rule answersI [OF assms(1) _ switch_rtrv_def])
  fix t and s :: "'a xgm" assume "t \<in> T"
  then obtain v where "chosen tbl t = Some v" "unat v < length names" "names ! unat v = t"
    using assms(2) by (auto simp: named_def split: option.splits)
  then show "\<exists>vs s'. switch_set dv reg tbl st (Some t) s = Some (reg_writes dv (zip vs [reg]) s') \<and> fpga s' = fpga s \<and>
      length vs = length [reg] \<and> (\<forall>d. (if unat (vs ! 0) < length names
        then (st' (vs ! 0) (s'\<lparr>fpga := d\<rparr>), Some (names ! unat (vs ! 0) @ NL), OK) else (s'\<lparr>fpga := d\<rparr>, Some (''failure'' @ NL), NG)) =
          ((g t vs s)\<lparr>fpga := d\<rparr>, Some (id t @ NL), OK))"
    by (intro exI [of _ "[v]"] exI [of _ "st v s"]) (simp add: switch_set_def set_param_def assms(3,4))
qed simp

lemmas switch_names = named_def strncmp_eq_def mem_defs

lemma protocol_answers:
  "fpga_ok dv regs \<Longrightarrow> answers regs (ptp_protocol_set dv) (ptp_protocol_rtrv dv) [0x0147] id (mode_mem (\<lambda>v p. p\<lparr>encode_package := v ! 0\<rparr>)) {''eth'', ''udp''}"
  unfolding ptp_protocol_set_def ptp_protocol_rtrv_def by (rule switch_answers) (simp_all add: switch_names)

lemma mechanism_answers:
  "fpga_ok dv regs \<Longrightarrow> answers regs (ptp_mechanism_set dv) (ptp_mechanism_rtrv dv) [0x0149] id (mode_mem (\<lambda>v p. p\<lparr>delay_type := v ! 0\<rparr>)) {''e2e'', ''p2p''}"
  unfolding ptp_mechanism_set_def ptp_mechanism_rtrv_def by (rule switch_answers) (simp_all add: switch_names)

lemma unicast_answers:
  "fpga_ok dv regs \<Longrightarrow> answers regs (ptp_unicast_set dv) (ptp_unicast_rtrv dv) [0x0146] id (mode_mem (\<lambda>v p. p\<lparr>unicast := v ! 0\<rparr>)) {''disable'', ''enable''}"
  unfolding ptp_unicast_set_def ptp_unicast_rtrv_def by (rule switch_answers) (simp_all add: switch_names)

lemma fretraceable_answers:
  "fpga_ok dv regs \<Longrightarrow> answers regs (ptp_fretraceable_set dv) (ptp_fretraceable_rtrv dv) [0x0129] id (mode_mem (\<lambda>v p. p\<lparr>flag_freq_trac := v ! 0\<rparr>)) {''false'', ''true''}"
  unfolding ptp_fretraceable_set_def ptp_fretraceable_rtrv_def by (rule switch_answers) (simp_all add: switch_names)

lemma timetraceable_answers:
  "fpga_ok dv regs \<Longrightarrow> answers regs (ptp_timetraceable_set dv) (ptp_timetraceable_rtrv dv) [0x0130] id (mode_mem (\<lambda>v p. p\<lparr>flag_time_trac := v ! 0\<rparr>)) {''false'', ''true''}"
  unfolding ptp_timetraceable_set_def ptp_timetraceable_rtrv_def by (rule switch_answers) (simp_all add: switch_names)

lemma porten_answers:
  "fpga_ok dv regs \<Longrightarrow> answers regs (ptp_porten_set dv) (ptp_porten_rtrv dv) [0x0123] id (mode_mem (\<lambda>v p. p\<lparr>port_enable := v ! 0\<rparr>)) {''off'', ''on''}"
  unfolding ptp_porten_set_def ptp_porten_rtrv_def by (rule switch_answers) (simp_all add: switch_names)

lemma ntpen_answers:
  "fpga_ok dv regs \<Longrightarrow> answers regs (ptp_ntpen_set dv) (ptp_ntpen_rtrv dv) [0x0154] id (mode_mem (\<lambda>v p. p\<lparr>protocol := v ! 0, ntp_en := v ! 0\<rparr>)) {''off'', ''on''}"
  unfolding ptp_ntpen_set_def ptp_ntpen_rtrv_def by (rule switch_answers) (simp_all add: switch_names)

lemma steptype_answers:
  "fpga_ok dv regs \<Longrightarrow> answers regs (ptp_steptype_set dv) (ptp_steptype_rtrv dv) [0x0148] id (mode_mem (\<lambda>v p. p\<lparr>step_type := v ! 0\<rparr>)) {''off'', ''on''}"
  unfolding ptp_steptype_set_def ptp_steptype_rtrv_def by (rule switch_answers) (simp_all add: switch_names)

lemma timeformat_answers:
  "fpga_ok dv regs \<Longrightarrow> answers regs (ptp_timeformat_set dv) (ptp_timeformat_rtrv dv) [0x0131] id (mode_mem (\<lambda>v p. p\<lparr>flag_time_scale := v ! 0\<rparr>)) {''arb'', ''ptp''}"
  unfolding ptp_timeformat_set_def ptp_timeformat_rtrv_def by (rule switch_answers) (simp_all add: switch_names)

lemma esmcen_answers:
  "fpga_ok dv regs \<Longrightarrow> answers regs (ptp_esmcen_set dv) (ptp_esmcen_rtrv dv) [0x0152] id (mode_mem (\<lambda>v p. p\<lparr>esmc_enable := v ! 0\<rparr>)) {''off'', ''on''}"
  unfolding ptp_esmcen_set_def ptp_esmcen_rtrv_def by (rule switch_answers) (simp_all add: switch_names)

lemma vlanen_answers:
  "fpga_ok dv regs \<Longrightarrow> answers regs (ptp_vlanen_set dv) (ptp_vlanen_rtrv dv) [0x0100] id (net_mem (\<lambda>v p. p\<lparr>vlan_enable := v ! 0\<rparr>)) {''off'', ''on''}"
  unfolding ptp_vlanen_set_def ptp_vlanen_rtrv_def by (rule switch_answers) (simp_all add: switch_names)

section \<open>Tables\<close>

text \<open>A setting whose value is found in a table, and a query whose answer \<open>sh\<close> is computed
  from one register: that they agree is a computation over the names \<open>T\<close>.\<close>

definition agree :: "(string \<Rightarrow> u8 option) \<Rightarrow> (u8 \<Rightarrow> string option) \<Rightarrow> (string \<Rightarrow> string) \<Rightarrow> string list \<Rightarrow> bool" where
  "agree code sh f T \<longleftrightarrow> list_all (\<lambda>t. case code t of None \<Rightarrow> False | Some v \<Rightarrow> sh v = Some (f t)) T"

lemma table_answers:
  assumes "fpga_ok dv regs" "agree code sh f T"
    and q: "q = query_regs dv [reg] ans"
    and st: "\<And>t v s. code t = Some v \<Longrightarrow> st (Some t) s = Some (reg_writes dv [(v, reg)] (store v s))"
    and store: "\<And>v s. fpga (store v s) = fpga s"
    and ans: "\<And>t v x s d. sh v = Some x \<Longrightarrow>
      ans [v] ((store v s)\<lparr>fpga := d\<rparr>) = ((g t [v] s)\<lparr>fpga := d\<rparr>, Some (x @ NL), OK)"
  shows "answers regs st q [reg] f g (set T)"
proof (rule answersI [OF assms(1) _ q])
  fix t and s :: "'a xgm" assume "t \<in> set T"
  then obtain v where v: "code t = Some v" "sh v = Some (f t)"
    using assms(2) by (auto simp: agree_def list_all_iff split: option.splits)
  show "\<exists>vs s'. st (Some t) s = Some (reg_writes dv (zip vs [reg]) s') \<and> fpga s' = fpga s \<and>
      length vs = length [reg] \<and> (\<forall>d. ans vs (s'\<lparr>fpga := d\<rparr>) = ((g t vs s)\<lparr>fpga := d\<rparr>, Some (f t @ NL), OK))"
    by (intro exI [of _ "[v]"] exI [of _ "store v s"]) (auto simp: st [OF v(1)] store ans [OF v(2)] simp del: reg_writes.simps)
qed simp

text \<open>Three zones and one interval have a shorter entry as prefix that the search finds first.\<close>

definition shown_zone :: "string \<Rightarrow> string" where
  "shown_zone t = (if t = ''utc+10'' \<or> t = ''utc+11'' \<or> t = ''utc+12'' then ''utc+1'' else t)"

definition shown_interval :: "string \<Rightarrow> string" where
  "shown_interval t = (if t = ''16'' then ''1'' else t)"

definition entry :: "string list \<Rightarrow> nat \<Rightarrow> string option" where
  "entry tb i = (if i < length tb then Some (tb ! i) else None)"

definition zone_index :: "u8 \<Rightarrow> nat" where
  "zone_index v = unat (if v AND 0x10 \<noteq> 0 then 24 - (v AND 0x0F) else v AND 0x0F)"

definition interval_index :: "u8 \<Rightarrow> nat" where
  "interval_index v = (if sint v < -8 \<or> sint v > 6 then 15 else nat (8 + sint v))"

lemma precaution_agree: "agree (chosen [(''00'', 0), (''01'', 1), (''10'', 2), (''11'', 3)]) (\<lambda>v. entry pPrecuationValue (unat v)) id pPrecuationValue"
  by code_simp

lemma signal_agree: "agree (\<lambda>t. map_option of_nat (find_prefix pSignalType t 0)) (\<lambda>v. entry pSignalType (unat v)) id pSignalType"
  by code_simp

lemma zone_agree: "agree (\<lambda>t. map_option zone_code (find_prefix pTimeZone t 0)) (\<lambda>v. entry pTimeZone (zone_index v)) shown_zone pTimeZone"
  by code_simp

lemma interval_agree:
  "agree (\<lambda>t. map_option (\<lambda>i. word_of_int (int i - 8)) (find_prefix p_frequcy t 0)) (\<lambda>v. entry p_frequcy (interval_index v))
     shown_interval p_frequcy"
  by code_simp

lemma table_lengths:
  shows length_pSignalType: "length pSignalType = 5" and length_pTimeZone: "length pTimeZone = 24"
    and length_p_frequcy: "length p_frequcy = 15"
  by (simp_all add: pSignalType_def pTimeZone_def p_frequcy_def)

lemma leapPreflag_answers:
  "fpga_ok dv regs \<Longrightarrow> answers regs (out_set_irigb_leapPreflag dv) (out_irigb_leapPreflag_rtrv dv) [0x0054] id
    (out_mem (\<lambda>v p. p\<lparr>flag_leappre := v ! 0 AND 3\<rparr>)) (set pPrecuationValue)"
  by (rule table_answers [OF _ precaution_agree out_irigb_leapPreflag_rtrv_def,
        where store = "\<lambda>v s. s\<lparr>out_par := (out_par s)\<lparr>flag_leappre := v\<rparr>\<rparr>"])
    (simp_all add: mem_defs out_set_irigb_leapPreflag_def switch_set_def set_param_def entry_def pPrecuationValue_def
        Let_def del: chosen.simps reg_writes.simps split: if_splits)

lemma daylight_answers:
  "fpga_ok dv regs \<Longrightarrow> answers regs (out_set_irigb_daylight dv) (out_irigb_daylight_rtrv dv) [0x0055] id
    (out_mem (\<lambda>v p. p\<lparr>daylight_pre := v ! 0 AND 3\<rparr>)) (set pPrecuationValue)"
  by (rule table_answers [OF _ precaution_agree out_irigb_daylight_rtrv_def,
        where store = "\<lambda>v s. s\<lparr>out_par := (out_par s)\<lparr>daylight_pre := v\<rparr>\<rparr>"])
    (simp_all add: mem_defs out_set_irigb_daylight_def switch_set_def set_param_def entry_def pPrecuationValue_def
        Let_def del: chosen.simps reg_writes.simps split: if_splits)

lemma singal_type_answers:
  "fpga_ok dv regs \<Longrightarrow> answers regs (out_set_singal_type dv) (out_singal_type_rtrv dv) [0x0045] id
    (out_mem (\<lambda>v p. p\<lparr>signal_type := v ! 0\<rparr>)) (set pSignalType)"
  by (rule table_answers [OF _ signal_agree out_singal_type_rtrv_def,
        where store = "\<lambda>v s. s\<lparr>out_par := (out_par s)\<lparr>signal_type := v\<rparr>\<rparr>"])
    (auto simp: mem_defs out_set_singal_type_def set_param_def entry_def length_pSignalType
        Let_def simp del: find_prefix.simps reg_writes.simps split: if_splits)

lemma timeskew_answers:
  "fpga_ok dv regs \<Longrightarrow> answers regs (out_set_irigb_timeskew dv) (out_irigb_timeskew_rtrv dv) [0x0056] shown_zone
    (out_mem (\<lambda>v p. p\<lparr>time_zone := v ! 0\<rparr>)) (set pTimeZone)"
  by (rule table_answers [OF _ zone_agree out_irigb_timeskew_rtrv_def,
        where store = "\<lambda>v s. s\<lparr>out_par := (out_par s)\<lparr>time_zone := v\<rparr>\<rparr>"])
    (auto simp: mem_defs out_set_irigb_timeskew_def set_param_def entry_def length_pTimeZone zone_index_def
        Let_def simp del: find_prefix.simps reg_writes.simps split: if_splits)

lemma interval_answers:
  assumes "fpga_ok dv regs" "\<And>v s. fpga (st v s) = fpga s" "\<And>t v w s d. st' w ((st v s)\<lparr>fpga := d\<rparr>) = (g t w s)\<lparr>fpga := d\<rparr>"
  shows "answers regs (interval_set dv reg st) (interval_rtrv dv reg st') [reg] shown_interval
    (\<lambda>t bs. g t (bs ! 0 + 8)) (set p_frequcy)"
  by (rule table_answers [OF assms(1) interval_agree interval_rtrv_def,
        where store = "\<lambda>v. st (v + 8)"])
    (auto simp: mem_defs interval_set_def set_param_def entry_def length_p_frequcy interval_index_def assms(2,3) ac_simps
        Let_def simp del: find_prefix.simps reg_writes.simps split: if_splits)

section \<open>Numbers\<close>

definition below :: "nat \<Rightarrow> string set" where "below n = dec ` {..<n}"

lemma number_answers:
  assumes "fpga_ok dv regs" "\<And>v s. fpga (store v s) = fpga s"
    and ans: "\<And>t v s d. store' v ((store v s)\<lparr>fpga := d\<rparr>) = (g t [v] s)\<lparr>fpga := d\<rparr>"
    and st: "\<And>k s. k < n \<Longrightarrow> st (Some (dec k)) s = Some (reg_writes dv [(of_nat k, reg)] (store (of_nat k) s))"
    and "n \<le> 256"
  shows "answers regs st (number_rtrv dv reg store') [reg] id g (below n)"
proof (rule answersI [OF assms(1) _ number_rtrv_def])
  fix t and s :: "'a xgm" assume "t \<in> below n"
  then obtain k where k: "k < n" "t = dec k" by (auto simp: below_def)
  have "unat (of_nat k :: u8) = k" using k(1) assms(5) by (simp add: unat_of_nat)
  then show "\<exists>vs s'. st (Some t) s = Some (reg_writes dv (zip vs [reg]) s') \<and> fpga s' = fpga s \<and> length vs = length [reg] \<and>
    (\<forall>d. (store' (vs ! 0) (s'\<lparr>fpga := d\<rparr>), Some (dec (unat (vs ! 0)) @ NL), 0) = ((g t vs s)\<lparr>fpga := d\<rparr>, Some (id t @ NL), OK))"
    using k by (intro exI [of _ "[of_nat k]"] exI [of _ "store (of_nat k) s"]) (simp add: assms(2) ans st del: reg_writes.simps)
qed simp

lemma dec_isdigit: "list_all isdigit (take m (dec n))"
  using dec_digits [of n] by (auto simp: list_all_iff dest: in_set_takeD)

lemma dec_isdigit_all: "list_all isdigit (dec n)"
  using dec_digits [of n] by (simp add: list_all_iff)

lemmas number_simps = set_param_def set_partial_def atoi_dec dec_isdigit

lemma pps_status_answers: "fpga_ok dv regs \<Longrightarrow> answers regs (out_set_pps_status dv) (out_pps_status_rtrv dv) [0x0016] id
    (out_mem (\<lambda>v p. p\<lparr>pps_status := v ! 0\<rparr>)) (below 256)"
  unfolding out_pps_status_rtrv_def
  by (rule number_answers [where store = "\<lambda>v s. s\<lparr>out_par := (out_par s)\<lparr>pps_status := v\<rparr>\<rparr>"]) (auto simp: mem_defs out_set_pps_status_def number_simps Let_def simp del: reg_writes.simps)

lemma tod_jitter_answers: "fpga_ok dv regs \<Longrightarrow> answers regs (out_set_tod_jitter dv) (out_tod_jitter_rtrv dv) [0x0017] id
    (out_mem (\<lambda>v p. p\<lparr>tod_jitter := v ! 0\<rparr>)) (below 256)"
  unfolding out_tod_jitter_rtrv_def
  by (rule number_answers [where store = "\<lambda>v s. s\<lparr>out_par := (out_par s)\<lparr>tod_jitter := v\<rparr>\<rparr>"]) (auto simp: mem_defs out_set_tod_jitter_def number_simps Let_def simp del: reg_writes.simps)

lemma length_dec_byte: "n < 256 \<Longrightarrow> \<not> 256 \<le> length (dec n)"
  using dec_length_le [of n 3] by simp

lemma byte_set_answers:
  assumes "fpga_ok dv regs" "\<And>v s. fpga (st v s) = fpga s" "\<And>t v s d. st' v ((st v s)\<lparr>fpga := d\<rparr>) = (g t [v] s)\<lparr>fpga := d\<rparr>"
  shows "answers regs (byte_set dv reg st) (number_rtrv dv reg st') [reg] id g (below 256)"
  by (rule number_answers [where store = st, OF assms(1,2,3)])
    (auto simp: byte_set_def number_simps Let_def length_dec_byte simp del: reg_writes.simps)

lemma domain_answers: "fpga_ok dv regs \<Longrightarrow> answers regs (ptp_domain_set dv) (ptp_domain_rtrv dv) [0x0124] id
    (mode_mem (\<lambda>v p. p\<lparr>domain := v ! 0\<rparr>)) (below 256)"
  unfolding ptp_domain_set_def ptp_domain_rtrv_def by (rule byte_set_answers) (simp_all add: mem_defs)

lemma timesource_answers: "fpga_ok dv regs \<Longrightarrow> answers regs (ptp_timesource_set dv) (ptp_timesource_rtrv dv) [0x0145] id
    (mode_mem (\<lambda>v p. p\<lparr>time_source := v ! 0\<rparr>)) (below 256)"
  unfolding ptp_timesource_set_def ptp_timesource_rtrv_def by (rule byte_set_answers) (simp_all add: mem_defs)

lemma dec_digit: "n < 10 \<Longrightarrow> dec n = [char_of (48 + n)]"
  by (subst dec.simps) simp

lemma dec_bits: "dec 0 = ''0''" "dec (Suc 0) = ''1''"
  by code_simp+

lemma leap59_answers: "fpga_ok dv regs \<Longrightarrow> answers regs (ptp_leap59flag_set dv) (ptp_leap59flag_rtrv dv) [0x0133] id
    (mode_mem (\<lambda>v p. p\<lparr>flag_leap59 := v ! 0 AND 1\<rparr>)) (below 2)"
  unfolding ptp_leap59flag_rtrv_def
  by (rule number_answers [where store = "\<lambda>v s. s\<lparr>mode_par := (mode_par s)\<lparr>flag_leap59 := v\<rparr>\<rparr>"]) (auto simp: mem_defs ptp_leap59flag_set_def switch_set_def number_simps strncmp_eq_def dec_bits less_2_cases_iff
      simp del: reg_writes.simps)

lemma leap61_answers: "fpga_ok dv regs \<Longrightarrow> answers regs (ptp_leap61flag_set dv) (ptp_leap61flag_rtrv dv) [0x0134] id
    (mode_mem (\<lambda>v p. p\<lparr>flag_leap61 := v ! 0 AND 1\<rparr>)) (below 2)"
  unfolding ptp_leap61flag_rtrv_def
  by (rule number_answers [where store = "\<lambda>v s. s\<lparr>mode_par := (mode_par s)\<lparr>flag_leap61 := v\<rparr>\<rparr>"]) (auto simp: mem_defs ptp_leap61flag_set_def switch_set_def number_simps strncmp_eq_def dec_bits less_2_cases_iff
      simp del: reg_writes.simps)

lemma vlancfi_answers: "fpga_ok dv regs \<Longrightarrow> answers regs (ptp_vlancfi_set dv) (ptp_vlancfi_rtrv dv) [0x0102] id
    (net_mem (\<lambda>v p. p\<lparr>vlan_cfi := v ! 0\<rparr>)) (below 2)"
  unfolding ptp_vlancfi_rtrv_def
  by (rule number_answers [where store = "\<lambda>v s. s"]) (auto simp: mem_defs ptp_vlancfi_set_def set_param_def dec_bits less_2_cases_iff simp del: reg_writes.simps)

lemma vlanpcp_answers: "fpga_ok dv regs \<Longrightarrow> answers regs (ptp_vlanpcp_set dv) (ptp_vlanpcp_rtrv dv) [0x0101] id
    (net_mem (\<lambda>v p. p\<lparr>vlan_pcp := v ! 0\<rparr>)) (below 8)"
  unfolding ptp_vlanpcp_rtrv_def
proof (rule number_answers [where store = "\<lambda>v s. s"])
  fix k and s :: "'a xgm" assume k: "k < (8 :: nat)"
  have "(of_char (char_of (48 + k)) :: nat) = 48 + k" using k by (simp add: of_char_of)
  then have c: "of_char (char_of (48 + k)) = (of_nat (48 + k) :: u8)" by (metis of_nat_of_char)
  have "unat (of_nat (48 + k) :: u8) = 48 + k" using k by (simp only: unat_of_nat) simp
  then have "\<not> (of_nat (48 + k) :: u8) < 0x30" "\<not> (of_nat (48 + k) :: u8) > 0x37" using k by (simp_all add: word_less_nat_alt)
  moreover have "(of_nat (48 + k) :: u8) - 0x30 = of_nat k" by simp
  ultimately show "ptp_vlanpcp_set dv (Some (dec k)) s = Some (reg_writes dv [(of_nat k, 0x0101)] s)"
    using k by (simp add: ptp_vlanpcp_set_def set_param_def dec_digit c Let_def del: reg_writes.simps of_nat_add)
qed (simp_all add: mem_defs)

text \<open>Numbers of 16 bits in two registers.\<close>

lemma high_low: "push_bit 8 (ucast (ucast (drop_bit 8 w AND 0xFF) :: u8)) OR ucast (ucast (w AND 0xFF) :: u8) = (w :: u16)"
  (is "?l = w")
proof (rule bit_word_eqI)
  fix n assume "n < LENGTH(16)"
  then consider "n < 8" | "8 \<le> n" "n < 16" by fastforce
  then show "bit ?l n = bit w n" by cases (auto simp: mask_byte bit_simps)
qed

lemma word_answers:
  assumes "fpga_ok dv regs" "r0 \<noteq> r1" "q = query_regs dv [r0, r1] ans" "n \<le> 65536"
    and store: "\<And>k s. fpga (store k s) = fpga s"
    and st: "\<And>k s. k < n \<Longrightarrow> st (Some (dec k)) s =
      Some (reg_writes dv [(ucast (drop_bit 8 (of_nat k :: u16) AND 0xFF), r0), (ucast ((of_nat k :: u16) AND 0xFF), r1)] (store k s))"
    and ans: "\<And>t k vs s d. k < n \<Longrightarrow> unat (of_nat k :: u16) = k \<Longrightarrow>
      vs = [ucast (drop_bit 8 (of_nat k :: u16) AND 0xFF), ucast ((of_nat k :: u16) AND 0xFF)] \<Longrightarrow>
      ans vs ((store k s)\<lparr>fpga := d\<rparr>) = ((g t vs s)\<lparr>fpga := d\<rparr>, Some (dec k @ NL), OK)"
  shows "answers regs st q [r0, r1] id g (below n)"
proof (rule answersI [OF assms(1) _ assms(3)])
  fix t and s :: "'a xgm" assume "t \<in> below n"
  then obtain k where k: "k < n" "t = dec k" by (auto simp: below_def)
  let ?w = "of_nat k :: u16"
  define vs :: bytes where "vs = [ucast (drop_bit 8 ?w AND 0xFF), ucast (?w AND 0xFF)]"
  have "st (Some t) s = Some (reg_writes dv (zip vs [r0, r1]) (store k s))"
    using st [OF k(1), of s] k(2) by (simp add: vs_def del: reg_writes.simps)
  moreover have "unat ?w = k" using k(1) assms(4) by (simp add: unat_of_nat)
  then have "ans vs ((store k s)\<lparr>fpga := d\<rparr>) = ((g t vs s)\<lparr>fpga := d\<rparr>, Some (id t @ NL), OK)" for d
    using ans [OF k(1) _ vs_def] k(2) by simp
  moreover have "length vs = length [r0, r1]" by (simp add: vs_def)
  ultimately show "\<exists>vs s'. st (Some t) s = Some (reg_writes dv (zip vs [r0, r1]) s') \<and> fpga s' = fpga s \<and>
    length vs = length [r0, r1] \<and> (\<forall>d. ans vs (s'\<lparr>fpga := d\<rparr>) = ((g t vs s)\<lparr>fpga := d\<rparr>, Some (id t @ NL), OK))"
    using store by blast
qed (use assms(2) in simp)

lemma two_bytes_word: "two_bytes [ucast (drop_bit 8 w AND 0xFF), ucast (w AND 0xFF)] = w"
proof -
  have "v AND 0xFF = v" for v :: u8
    using take_bit_length_eq [of v] unfolding mask_byte by (simp add: take_bit_eq_mask)
  then show ?thesis using high_low [of w] by (simp add: two_bytes_def)
qed

lemma clock_status_answers:
  "fpga_ok dv regs \<Longrightarrow> answers regs (out_set_clock_status dv) (out_clock_status_rtrv dv) [0x0019, 0x0020] id
    (out_mem (\<lambda>v p. p\<lparr>tod_clock_status := two_bytes v\<rparr>)) (below 65536)"
  by (rule word_answers [OF _ _ out_clock_status_rtrv_def, where store = "\<lambda>k s. s\<lparr>out_par := (out_par s)\<lparr>tod_clock_status := 0\<rparr>\<rparr>"])
    (auto simp: mem_defs out_set_clock_status_def number_simps two_bytes_word Let_def simp del: reg_writes.simps)

lemma monitor_alarm_answers:
  "fpga_ok dv regs \<Longrightarrow> answers regs (out_set_monitor_alarm dv) (out_monitor_alarm_rtrv dv) [0x0021, 0x0022] id
    (out_mem (\<lambda>v p. p\<lparr>tod_moni_alarm := two_bytes v\<rparr>)) (below 65536)"
  by (rule word_answers [OF _ _ out_monitor_alarm_rtrv_def, where store = "\<lambda>k s. s\<lparr>out_par := (out_par s)\<lparr>tod_moni_alarm := 0\<rparr>\<rparr>"])
    (auto simp: mem_defs out_set_monitor_alarm_def number_simps two_bytes_word Let_def simp del: reg_writes.simps)

lemma utcoffset_answers:
  "fpga_ok dv regs \<Longrightarrow> answers regs (ptp_utcoffset_set dv) (ptp_utcoffset_rtrv dv) [0x0135, 0x0136] id
    (mode_mem (\<lambda>v p. p\<lparr>utc_offset := push_bit 8 (ucast (v ! 0)) OR ucast (v ! 1)\<rparr>)) (below 65536)"
  by (rule word_answers [OF _ _ ptp_utcoffset_rtrv_def, where store = "\<lambda>k s. s\<lparr>mode_par := (mode_par s)\<lparr>utc_offset := of_nat k\<rparr>\<rparr>"])
    (auto simp: mem_defs ptp_utcoffset_set_def number_simps high_low Let_def simp del: reg_writes.simps)

text \<open>Numbers whose setting or query masks them.\<close>

lemma take_bit_small: "unat w < 2 ^ n \<Longrightarrow> take_bit n w = w"
  by (rule unsigned_word_eqI [where ?'a = nat]) (simp add: unsigned_take_bit_eq take_bit_nat_eq_self)

lemma and_15: "k < 16 \<Longrightarrow> (of_nat k :: u8) AND 0x0F = of_nat k"
proof -
  assume "k < 16"
  moreover have m: "(0x0F :: u8) = mask 4" by (simp add: mask_eq_exp_minus_1)
  ultimately show ?thesis unfolding m
    using take_bit_small [of "of_nat k :: u8" 4] by (simp only: take_bit_eq_mask unat_of_nat) simp
qed

lemma clockquality_answers:
  "fpga_ok dv regs \<Longrightarrow> answers regs (out_set_irigb_clockquality dv) (out_irigb_clockquality_rtrv dv) [0x0057] id
    (out_mem (\<lambda>v p. p\<lparr>clock_quality := v ! 0 AND 0x0F\<rparr>)) (below 16)"
proof (rule answersI [OF _ _ out_irigb_clockquality_rtrv_def])
  fix t and s :: "'a xgm" assume "t \<in> below 16"
  then obtain k where k: "k < 16" "t = dec k" by (auto simp: below_def)
  have u: "unat (of_nat k :: u8) = k" using k(1) by (simp add: unat_of_nat)
  show "\<exists>vs s'. out_set_irigb_clockquality dv (Some t) s = Some (reg_writes dv (zip vs [0x0057]) s') \<and> fpga s' = fpga s \<and>
    length vs = length [0x0057 :: u32] \<and>
    (\<forall>d. ((s'\<lparr>fpga := d\<rparr>)\<lparr>out_par := (out_par (s'\<lparr>fpga := d\<rparr>))\<lparr>clock_quality := vs ! 0 AND 0x0F\<rparr>\<rparr>,
        Some (dec (unat (vs ! 0 AND 0x0F)) @ NL), 0) =
      ((out_mem (\<lambda>v p. p\<lparr>clock_quality := v ! 0 AND 0x0F\<rparr>) t vs s)\<lparr>fpga := d\<rparr>, Some (id t @ NL), OK))"
    using k by (intro exI [of _ "[of_nat k]"] exI [of _ "s\<lparr>out_par := (out_par s)\<lparr>clock_quality := of_nat k\<rparr>\<rparr>"])
      (auto simp: out_set_irigb_clockquality_def set_param_def atoi_dec and_15 u mem_defs Let_def simp del: reg_writes.simps)
qed simp_all

definition clock_types :: "string list" where "clock_types = [''0'', ''64'', ''128'', ''192'']"

lemma clock_type_answers:
  "fpga_ok dv regs \<Longrightarrow> answers regs (out_set_clock_type dv) (out_clock_type_rtrv dv) [0x0018] id
    (out_mem (\<lambda>v p. p\<lparr>tod_clock_type := v ! 0 AND 0xC0\<rparr>)) (set clock_types)"
proof (rule table_answers [OF _ _ out_clock_type_rtrv_def,
      where code = "\<lambda>t. Some (word_of_int (atoi t) AND 0xC0)" and sh = "\<lambda>v. Some (dec (unat (v AND 0xC0)))"
        and store = "\<lambda>v s. s\<lparr>out_par := (out_par s)\<lparr>tod_clock_type := v\<rparr>\<rparr>"])
  show "agree (\<lambda>t. Some (word_of_int (atoi t) AND 0xC0)) (\<lambda>v. Some (dec (unat (v AND 0xC0)))) id clock_types"
    by code_simp
qed (auto simp: mem_defs out_set_clock_type_def set_param_def Let_def simp del: reg_writes.simps)

lemma tod_type_answers: "fpga_ok dv regs \<Longrightarrow> answers regs (out_set_tod_type dv) (out_tod_type_rtrv dv) [0x0015] id
    (out_mem (\<lambda>v p. p\<lparr>tod_clock_type := v ! 0\<rparr>)) (set [''0'', ''1''])"
proof (rule table_answers [OF _ _ out_tod_type_rtrv_def,
      where code = "chosen [(''0'', 0), (''1'', 1)]" and sh = "\<lambda>v. if v = 0 \<or> v = 1 then Some (dec (unat v)) else None"
        and store = "\<lambda>v s. s\<lparr>out_par := (out_par s)\<lparr>tod_clock_type := v\<rparr>\<rparr>"])
  show "agree (chosen [(''0'', 0), (''1'', 1)]) (\<lambda>v. if v = 0 \<or> v = 1 then Some (dec (unat v)) else None) id [''0'', ''1'']"
    by code_simp
qed (auto simp: mem_defs out_set_tod_type_def switch_set_def set_param_def Let_def simp del: reg_writes.simps chosen.simps split: if_splits)

definition ssm_codes :: "string list" where "ssm_codes = [''00'', ''02'', ''04'']"

lemma esmcssm_answers:
  "fpga_ok dv regs \<Longrightarrow> answers regs (ptp_esmcssm_set dv) (ptp_esmcssm_rtrv dv) [0x0153] id
    (mode_mem (\<lambda>v p. p\<lparr>esmc_ssm := v ! 0\<rparr>)) (set ssm_codes)"
proof (rule table_answers [OF _ _ ptp_esmcssm_rtrv_def,
      where code = "chosen [(''00'', 0x00), (''02'', 0x02), (''04'', 0x04), (''0F'', 0x0F)]" and sh = "\<lambda>v. Some (hex2 v)"
        and store = "\<lambda>v s. s\<lparr>mode_par := (mode_par s)\<lparr>esmc_ssm := v\<rparr>\<rparr>"])
  show "agree (chosen [(''00'', 0x00), (''02'', 0x02), (''04'', 0x04), (''0F'', 0x0F)]) (\<lambda>v. Some (hex2 v)) id ssm_codes"
    by code_simp
qed (auto simp: mem_defs ptp_esmcssm_set_def switch_set_def set_param_def Let_def simp del: reg_writes.simps chosen.simps)

lemma vid_word:
  assumes "unat (w :: u16) < 4096"
  shows "push_bit 8 (ucast (ucast (drop_bit 8 w AND 0x0F) AND 0x0F :: u8)) OR ucast (ucast (w AND 0xFF) :: u8) = w"
  (is "?l = w")
proof (rule bit_word_eqI)
  have m: "(0x0F :: u8) = mask 4" "(0x0F :: u16) = mask 4" by (simp_all add: mask_eq_exp_minus_1)
  have "take_bit 12 w = w" using assms by (intro take_bit_small) simp
  then have z: "12 \<le> n \<Longrightarrow> \<not> bit w n" for n by (metis bit_take_bit_iff not_le)
  fix n assume "n < LENGTH(16)"
  then consider "n < 8" | "8 \<le> n" "n < 12" | "12 \<le> n" "n < 16" by fastforce
  then show "bit ?l n = bit w n" by cases (auto simp: m mask_byte bit_simps z)
qed

lemma dec_len_vid: "k < 4096 \<Longrightarrow> 0 < length (dec k) \<and> length (dec k) \<le> 4"
  using dec_length_le [of k 4] dec_Cons [of k] by auto

lemma vlanvid_answers:
  "fpga_ok dv regs \<Longrightarrow> answers regs (ptp_vlanvid_set dv) (ptp_vlanvid_rtrv dv) [0x0103, 0x0104] id
    (net_mem (\<lambda>v p. p\<lparr>vlan_vid := push_bit 8 (ucast (v ! 0 AND 0x0F)) OR ucast (v ! 1)\<rparr>)) (below 4096)"
proof (rule answersI [OF _ _ ptp_vlanvid_rtrv_def])
  fix t and s :: "'a xgm" assume "t \<in> below 4096"
  then obtain k where k: "k < 4096" "t = dec k" by (auto simp: below_def)
  let ?w = "of_nat k :: u16"
  let ?vs = "[ucast (drop_bit 8 ?w AND 0x0F), ucast (?w AND 0xFF)] :: bytes"
  have u: "unat ?w = k" using k(1) by (simp add: unat_of_nat)
  have l: "unat (of_nat (length (dec k)) :: u8) = length (dec k)" using dec_len_vid [OF k(1)] by (simp add: unat_of_nat)
  have "\<not> ?w > 4095" using k(1) u by (simp add: word_less_nat_alt)
  then have "ptp_vlanvid_set dv (Some t) s = Some (reg_writes dv (zip ?vs [0x0103, 0x0104]) s)"
    using dec_len_vid [OF k(1)] l
    by (auto simp: ptp_vlanvid_set_def set_param_def k(2) Let_def atoi_dec dec_isdigit dec_isdigit_all simp del: reg_writes.simps)
  moreover have "push_bit 8 (ucast (?vs ! 0 AND 0x0F)) OR ucast (?vs ! 1) = ?w"
    using vid_word [of ?w] k(1) u by simp
  ultimately show "\<exists>vs s'. ptp_vlanvid_set dv (Some t) s = Some (reg_writes dv (zip vs [0x0103, 0x0104]) s') \<and> fpga s' = fpga s \<and>
    length vs = length [0x0103, 0x0104 :: u32] \<and>
    (\<forall>d. (let temp = (push_bit 8 (ucast (vs ! 0 AND 0x0F)) OR ucast (vs ! 1) :: u16) in
      ((s'\<lparr>fpga := d\<rparr>)\<lparr>net_par := (net_par (s'\<lparr>fpga := d\<rparr>))\<lparr>vlan_vid := temp\<rparr>\<rparr>, Some (dec (unat temp) @ NL), 0)) =
      ((net_mem (\<lambda>v p. p\<lparr>vlan_vid := push_bit 8 (ucast (v ! 0 AND 0x0F)) OR ucast (v ! 1)\<rparr>) t vs s)\<lparr>fpga := d\<rparr>,
        Some (id t @ NL), OK))"
    by (intro exI [of _ ?vs] exI [of _ s]) (simp add: u k(2) mem_defs Let_def del: reg_writes.simps)
qed simp_all

section \<open>Delays\<close>

text \<open>The delay that a setting keeps: rounded towards zero to a multiple of 8.\<close>

definition rounded :: "int \<Rightarrow> int" where "rounded n = sgn n * (\<bar>n\<bar> div 8 * 8)"

lemma sign_bit8: "(x :: u8) AND 0x08 = 0 \<longleftrightarrow> \<not> bit x 3"
  using and_exp_eq_0_iff_not_bit [of x 3] by simp

lemma bits_delay:
  fixes w :: u32 and neg :: bool
  assumes "unat w < 2 ^ 27"
  defines "v \<equiv> (if neg then w OR 0x08000000 else w)"
  shows "bit (ucast (drop_bit 24 (v AND 0x0F000000)) :: u8) 3 = neg"
    and "push_bit 24 (ucast ((ucast (drop_bit 24 (v AND 0x0F000000)) :: u8) AND 0x07)) OR
      push_bit 16 (ucast (ucast (drop_bit 16 (v AND 0xFF0000)) :: u8)) OR
      push_bit 8 (ucast (ucast (drop_bit 8 (v AND 0xFF00)) :: u8)) OR ucast (ucast (v AND 0xFF) :: u8) = w"
      (is "?l = w")
proof -
  have m: "(0x0F000000 :: u32) = push_bit 24 (mask 4)"
    "(0xFF0000 :: u32) = push_bit 16 (mask 8)" "(0xFF00 :: u32) = push_bit 8 (mask 8)" "(0x07 :: u8) = mask 3"
    by (simp_all add: mask_eq_exp_minus_1)
  have "take_bit 27 w = w" using assms(1) by (rule take_bit_small)
  then have z: "27 \<le> n \<Longrightarrow> \<not> bit w n" for n by (metis bit_take_bit_iff not_le)
  obtain h where h: "(0x08000000 :: u32) = h" by simp
  have b: "bit h n \<longleftrightarrow> n = 27" for n
  proof -
    have "bit ((2 :: u32) ^ 27) n \<longleftrightarrow> n = 27" by (simp only: bit_exp_iff) auto
    then show ?thesis by (simp flip: h)
  qed
  show "bit (ucast (drop_bit 24 (v AND 0x0F000000)) :: u8) 3 = neg"
    unfolding v_def m(1) h by (auto simp: bit_simps z b)
  show "?l = w"
  proof (rule bit_word_eqI)
    fix n assume "n < LENGTH(32)"
    then consider "n < 8" | "8 \<le> n" "n < 16" | "16 \<le> n" "n < 24" | "24 \<le> n" "n < 27" | "27 \<le> n" "n < 32" by fastforce
    then show "bit ?l n = bit w n" unfolding v_def m(1-4) h
      by cases (auto simp: mask_byte bit_simps z b)
  qed
qed

lemma and_FF: "(v :: u8) AND 0xFF = v"
  using take_bit_length_eq [of v] unfolding mask_byte by (simp add: take_bit_eq_mask)

lemma delay_round:
  assumes "\<bar>n\<bar> < 2 ^ 30"
  shows "delay_value (delay_bytes n) = rounded n"
proof -
  define w where "w = (word_of_int (\<bar>n\<bar> div 8) :: u32)"
  have r: "0 \<le> \<bar>n\<bar> div 8" "\<bar>n\<bar> div 8 < 2 ^ 27" using assms by auto
  have u: "uint w = \<bar>n\<bar> div 8" using r by (simp add: w_def uint_word_of_int)
  then have "unat w < 2 ^ 27" using r by (simp add: unat_eq_nat_uint nat_less_iff)
  note b = bits_delay [OF this, of "n < 0"]
  show ?thesis
    unfolding delay_value_def delay_bytes_def DLY_COMP_UNIT_def w_def [symmetric] Let_def
    using b u by (auto simp: and_FF sign_bit8 rounded_def or.assoc sgn_if)
qed

lemma atoi_sdec: "atoi (sdec n) = n"
proof (cases "n < 0")
  case True
  then show ?thesis by (simp add: sdec_def atoi_def isspace_def digits_value_dec)
qed (simp add: sdec_def atoi_dec)

definition delays :: "string set" where "delays = sdec ` {n. \<bar>n\<bar> < 2 ^ 30}"

definition shown_delay :: "string \<Rightarrow> string" where "shown_delay t = sdec (rounded (atoi t))"

lemma delay_answers:
  assumes "fpga_ok dv regs" "distinct rs" "length rs = 4"
    and q: "q = query_regs dv rs ans"
    and store: "\<And>n s. fpga (store n s) = fpga s"
    and st: "\<And>n s. st (Some (sdec n)) s = Some (reg_writes dv (zip (delay_bytes n) rs) (store n s))"
    and ans: "\<And>t n vs s d. ans vs ((store n s)\<lparr>fpga := d\<rparr>) = ((g t vs s)\<lparr>fpga := d\<rparr>, Some (sdec (delay_value vs) @ NL), OK)"
  shows "answers regs st q rs shown_delay g delays"
proof (rule answersI [OF assms(1,2) q])
  fix t and s :: "'a xgm" assume "t \<in> delays"
  then obtain n where n: "\<bar>n\<bar> < 2 ^ 30" "t = sdec n" by (auto simp: delays_def)
  have "st (Some t) s = Some (reg_writes dv (zip (delay_bytes n) rs) (store n s))" using st n(2) by simp
  moreover have "ans (delay_bytes n) ((store n s)\<lparr>fpga := d\<rparr>) =
      ((g t (delay_bytes n) s)\<lparr>fpga := d\<rparr>, Some (shown_delay t @ NL), OK)" for d
    using ans [where vs = "delay_bytes n" and n = n and s = s and d = d and t = t] delay_round [OF n(1)] by (simp add: shown_delay_def n(2) atoi_sdec)
  moreover have "length (delay_bytes n) = length rs" by (simp add: delay_bytes_def Let_def assms(3))
  ultimately show "\<exists>vs s'. st (Some t) s = Some (reg_writes dv (zip vs rs) s') \<and> fpga s' = fpga s \<and>
    length vs = length rs \<and> (\<forall>d. ans vs (s'\<lparr>fpga := d\<rparr>) = ((g t vs s)\<lparr>fpga := d\<rparr>, Some (shown_delay t @ NL), OK))"
    using store by blast
qed

lemma irigb_dlycom_answers:
  "fpga_ok dv regs \<Longrightarrow> answers regs (out_set_irigb_dlycom dv) (out_irigb_dlycom_rtrv dv) OUT_B_OFFSET_REG shown_delay
    (out_mem (\<lambda>v p. p\<lparr>delay_irigb_com := delay_value v\<rparr>)) delays"
  by (rule delay_answers [OF _ _ _ out_irigb_dlycom_rtrv_def, where store = "\<lambda>n s. s\<lparr>out_par := (out_par s)\<lparr>delay_irigb_com := n\<rparr>\<rparr>"])
    (auto simp: mem_defs out_set_irigb_dlycom_def set_param_def atoi_sdec OUT_B_OFFSET_REG_def Let_def simp del: reg_writes.simps)

lemma ppstod_dlycom_answers:
  "fpga_ok dv regs \<Longrightarrow> answers regs (out_set_ppstod_dlycom dv) (out_ppstod_dlycom_rtrv dv) OUT_TOD_OFFSET_REG shown_delay
    (out_mem (\<lambda>v p. p\<lparr>delay_pps_tod_com := delay_value v\<rparr>)) delays"
  by (rule delay_answers [OF _ _ _ out_ppstod_dlycom_rtrv_def, where store = "\<lambda>n s. s\<lparr>out_par := (out_par s)\<lparr>delay_pps_tod_com := n\<rparr>\<rparr>"])
    (auto simp: mem_defs out_set_ppstod_dlycom_def set_param_def atoi_sdec OUT_TOD_OFFSET_REG_def Let_def simp del: reg_writes.simps)

end
