(* ===== verification/OutAddr.thy ===== *)
theory OutAddr
  imports Outputs
begin

text \<open>
  Settings whose text is a list of values with separators: hardware and internet addresses,
  priorities and clock quality. A text that the query prints is taken apart into the same values.
\<close>

section \<open>Taking a list apart\<close>

lemma joined_Cons: "ts \<noteq> [] \<Longrightarrow> joined sep (t # ts) = t @ sep @ joined sep ts"
  by (cases ts) simp_all

lemma strtok_joined:
  assumes "t \<noteq> []" "set t \<inter> {NUL, d} = {}" "d \<noteq> NUL"
  shows "strtok (u @ joined [d] (t # ts) @ [NUL]) (length u) [d] =
    (if ts = [] then Some (u @ t @ [NUL], Some (length u), length u + length t)
     else Some ((u @ t @ [NUL]) @ joined [d] ts @ [NUL], Some (length u), length (u @ t @ [NUL])))"
  using strtok_token [of t "[d]" d u "joined [d] ts @ [NUL]"] strtok_last [of t "[d]" u "[]"] assms
  by (auto simp: joined_Cons)

lemma tokens_joined:
  assumes "\<forall>t \<in> set ts. t \<noteq> [] \<and> set t \<inter> {NUL, d} = {}" "d \<noteq> NUL"
  shows "tokens (length ts) (u @ joined [d] ts @ [NUL]) (length u) [d] = Some ts"
  using assms(1)
proof (induction ts arbitrary: u)
  case (Cons t ts)
  have t: "t \<noteq> []" "set t \<inter> {NUL, d} = {}" using Cons.prems by simp_all
  have c: "cstr_at (u @ t @ NUL # x) (length u) = Some t" for x using t(2) by (intro cstr_at_append) simp
  show ?case
  proof (cases "ts = []")
    case True
    then show ?thesis using strtok_joined [OF t assms(2), of u "[]"] c [of "[]"] by simp
  next
    case False
    then show ?thesis
      using strtok_joined [OF t assms(2), of u ts] c [of "joined [d] ts @ [NUL]"] Cons.IH [of "u @ t @ [NUL]"] Cons.prems
      by simp
  qed
qed simp

lemma sep_chars_run:
  assumes "list_all ok t" "\<not> ok sep"
  shows "sep_chars sep ok (t @ us) n = sep_chars sep ok us n"
  using assms by (induction t) auto

lemma sep_chars_joined:
  assumes "\<forall>t \<in> set ts. t \<noteq> [] \<and> list_all ok t" "\<not> ok sep" "ts \<noteq> []"
  shows "sep_chars sep ok (joined [sep] ts) n = Some (n + length ts - 1)"
  using assms(1,3)
proof (induction ts arbitrary: n)
  case (Cons t ts)
  show ?case
  proof (cases "ts = []")
    case True
    then show ?thesis using Cons.prems sep_chars_run [of ok t sep, OF _ assms(2), of "[]" n] by simp
  next
    case False
    then obtain c x where t1: "hd ts = c # x" "ok c" using Cons.prems by (cases ts; cases "hd ts") auto
    then obtain y where j: "joined [sep] ts = c # y" using False by (cases ts; cases "tl ts") auto
    have "sep_chars sep ok (joined [sep] (t # ts)) n = sep_chars sep ok (sep # joined [sep] ts) n"
      using False Cons.prems sep_chars_run [of ok t sep, OF _ assms(2), of "sep # joined [sep] ts" n] by (simp add: joined_Cons)
    also have "\<dots> = sep_chars sep ok (joined [sep] ts) (Suc n)"
      using t1(2) assms(2) by (auto simp: j)
    finally show ?thesis using Cons.IH [of "Suc n"] Cons.prems False by (cases ts) simp_all
  qed
qed simp

section \<open>Internet addresses\<close>

definition quad :: "bytes \<Rightarrow> string" where "quad bs = joined ''.'' (map (\<lambda>b. dec (unat b)) bs)"

definition quads :: "string set" where "quads = quad ` {bs. length bs = 4}"

lemma get_decimalip_value_tokens:
  assumes "length t \<le> 15" "sep_chars (CHR ''.'') isdigit t 1 = Some 4" "tokens 4 (t @ [NUL]) 0 ''.'' = Some [a, b, c, d]"
  shows "get_decimalip_value t = Some (Some (ip_word (map (\<lambda>x. word_of_int (atoi x)) [a, b, c, d])))"
proof -
  have 4: "tokens 4 m q ds = tokens (Suc (Suc (Suc (Suc 0)))) m q ds" for m q ds by (simp add: numeral_eq_Suc)
  obtain m1 p1 q1 m2 p2 q2 m3 p3 q3 m4 p4 q4 where
    "strtok (t @ [NUL]) 0 ''.'' = Some (m1, Some p1, q1)" "cstr_at m1 p1 = Some a"
    "strtok m1 q1 ''.'' = Some (m2, Some p2, q2)" "cstr_at m2 p2 = Some b"
    "strtok m2 q2 ''.'' = Some (m3, Some p3, q3)" "cstr_at m3 p3 = Some c"
    "strtok m3 q3 ''.'' = Some (m4, Some p4, q4)" "cstr_at m4 p4 = Some d"
    using assms(3) unfolding 4 by (auto simp: bind_eq_Some_conv)
  then show ?thesis
    unfolding get_decimalip_value_def ip_word_def using assms(1,2) by (simp add: atoi_at_def or.assoc)
qed

lemma quad_length: "length bs = 4 \<Longrightarrow> length (quad bs) \<le> 15"
proof -
  assume "length bs = 4"
  then obtain a b c d where bs: "bs = [a, b, c, d]" by (auto simp: numeral_eq_Suc length_Suc_conv)
  have "length (dec (unat (x :: u8))) \<le> 3" for x using dec_length_le [of "unat x" 3] unat8_lt [of x] by simp
  from this [of a] this [of b] this [of c] this [of d] show ?thesis by (simp add: quad_def bs)
qed

lemma dec_nonempty: "dec n \<noteq> []"
  by (simp add: dec.simps [of n])

lemma dec_token: "digit_val d = None \<Longrightarrow> dec n \<noteq> [] \<and> set (dec n) \<inter> {NUL, d} = {}"
  using dec_no [of d n] dec_no [of NUL n] by (simp add: dec_nonempty NUL_def digit_val_def)

lemma get_decimalip_value_quad:
  assumes "length bs = 4"
  shows "get_decimalip_value (quad bs) = Some (Some (ip_word bs))"
proof -
  obtain a b c d where bs: "bs = [a, b, c, d]" using assms by (auto simp: numeral_eq_Suc length_Suc_conv)
  let ?ts = "map (\<lambda>b. dec (unat b)) bs"
  have dot: "digit_val CHR ''.'' = None" by (simp add: digit_val_def)
  have "sep_chars CHR ''.'' isdigit (quad bs) 1 = Some 4"
    unfolding quad_def using assms
    by (subst sep_chars_joined) (auto simp: dec_nonempty dec_isdigit_all is_digit_of_def dot)
  moreover have "tokens 4 (quad bs @ [NUL]) 0 ''.'' = Some ?ts"
    using tokens_joined [of ?ts "CHR ''.''" "[]"] assms dec_token [OF dot]
    by (simp add: quad_def NUL_def)
  ultimately show ?thesis
    using get_decimalip_value_tokens [of "quad bs"] quad_length [OF assms] by (simp add: bs atoi_dec)
qed

lemma ip_bytes_word: "length bs = 4 \<Longrightarrow> ip_bytes (ip_word bs) = bs"
proof -
  assume "length bs = 4"
  then obtain a b c d where bs: "bs = [a, b, c, d]" by (auto simp: numeral_eq_Suc length_Suc_conv)
  have m: "(0xFF :: u32) = mask 8" by (simp add: mask_eq_exp_minus_1)
  have z: "\<not> bit (x :: u8) (8 + n)" "\<not> bit x (16 + n)" "\<not> bit x (24 + n)" for x n
    using bit_imp_le_length [of x] by fastforce+
  show ?thesis unfolding bs ip_bytes_def ip_word_def m
    by (auto intro!: bit_word_eqI simp: bit_simps z)
qed

lemma dotted_quad: "dotted bs = quad bs @ NL"
  by (simp add: dotted_def quad_def)

lemma address_answers:
  assumes "fpga_ok dv regs" "distinct rs" "length rs = 4"
    and "\<And>v s. fpga (st v s) = fpga s" "\<And>t v s d. st' v ((st v s)\<lparr>fpga := d\<rparr>) = (g t v s)\<lparr>fpga := d\<rparr>"
  shows "answers regs (address_set dv rs st) (address_rtrv dv rs st') rs id (\<lambda>t bs. g t (ip_word bs)) quads"
proof (rule answersI [OF assms(1,2) address_rtrv_def])
  fix t and s :: "'a xgm" assume "t \<in> quads"
  then obtain bs where bs: "length bs = 4" "t = quad bs" by (auto simp: quads_def)
  then show "\<exists>vs s'. address_set dv rs st (Some t) s = Some (reg_writes dv (zip vs rs) s') \<and> fpga s' = fpga s \<and>
    length vs = length rs \<and> (\<forall>d. (st' (ip_word vs) (s'\<lparr>fpga := d\<rparr>), Some (dotted vs), 0) =
      ((g t (ip_word vs) s)\<lparr>fpga := d\<rparr>, Some (id t @ NL), OK))"
    by (intro exI [of _ bs] exI [of _ "st (ip_word bs) s"])
      (simp add: address_set_def set_partial_def get_decimalip_value_quad ip_bytes_word assms(3,4) assms(5) [of _ _ _ t] dotted_quad)
qed

lemma ipaddr_answers:
  "fpga_ok dv regs \<Longrightarrow> answers regs (ptp_ip_parser dv) (ptp_ipaddr_rtrv dv) PTP_IP_REG id
    (net_mem (\<lambda>v p. p\<lparr>ptp_ipaddr := ip_word v\<rparr>)) quads"
  unfolding ptp_ip_parser_def ptp_ipaddr_rtrv_def net_mem_def by (rule address_answers) (simp_all add: PTP_IP_REG_def)

lemma maskaddr_answers:
  "fpga_ok dv regs \<Longrightarrow> answers regs (ptp_mask_parser dv) (ptp_maskaddr_rtrv dv) PTP_MASK_REG id
    (net_mem (\<lambda>v p. p\<lparr>ptp_submask := ip_word v\<rparr>)) quads"
  unfolding ptp_mask_parser_def ptp_maskaddr_rtrv_def net_mem_def by (rule address_answers) (simp_all add: PTP_MASK_REG_def)

lemma gateway_answers:
  "fpga_ok dv regs \<Longrightarrow> answers regs (ptp_gateway_parser dv) (ptp_gateway_rtrv dv) PTP_GATEWAY_REG id
    (net_mem (\<lambda>v p. p\<lparr>ptp_gateway := ip_word v\<rparr>)) quads"
  unfolding ptp_gateway_parser_def ptp_gateway_rtrv_def net_mem_def by (rule address_answers) (simp_all add: PTP_GATEWAY_REG_def)

section \<open>Hexadecimal bytes\<close>

lemma hex_digit: "n < 16 \<Longrightarrow> digit_val (if n < 10 then char_of (48 + n) else char_of (87 + n)) = Some n"
  by (simp add: digit_val_def of_char_of)

lemma hex2_Cons: "\<exists>c0 c1. hex2 b = [c0, c1] \<and> digit_val c0 = Some (unat b div 16) \<and> digit_val c1 = Some (unat b mod 16)"
proof -
  have "unat b div 16 < 16" using unat8_lt [of b] by simp
  then show ?thesis unfolding hex2_def Let_def using hex_digit [of "unat b div 16"] hex_digit [of "unat b mod 16"] by simp
qed

lemma hex2_isxdigit: "list_all isxdigit (hex2 b)"
  using hex2_Cons [of b] unat8_lt [of b] by (auto simp: is_digit_of_def)

lemma StringtoInt_hex2: "StringtoInt (hex2 b ! 0) (hex2 b ! 1) = b"
proof -
  have "(of_nat (unat b div 16 * 16 + unat b mod 16) :: u8) = b" by (simp only: div_mult_mod_eq) simp
  moreover have "unat b div 16 < 16" "unat b mod 16 < 16" using unat8_lt [of b] by simp_all
  ultimately show ?thesis using hex2_Cons [of b] by (auto simp: StringtoInt_def Let_def simp del: of_nat_add of_nat_mult)
qed

definition macs :: "string set" where "macs = (\<lambda>bs. concat (map hex2 bs)) ` {bs. length bs = 6}"

text \<open>The twelve digits in pairs.\<close>

fun pairs :: "string \<Rightarrow> string list" where
  "pairs (a # b # t) = [a, b] # pairs t"
| "pairs t = []"

definition dashed :: "string \<Rightarrow> string" where "dashed t = joined ''-'' (pairs t)"

lemma pairs_hex: "pairs (concat (map hex2 bs)) = map hex2 bs"
proof (induction bs)
  case (Cons b bs)
  then show ?case using hex2_Cons [of b] by auto
qed simp

lemma mac_answers:
  "fpga_ok dv regs \<Longrightarrow> answers regs (ptp_mac_parser dv) (ptp_macaddr_rtrv dv) PTP_MAC_REG dashed
    (net_mem (\<lambda>v p. p\<lparr>ptp_mac := v\<rparr>)) macs"
proof (rule answersI [OF _ _ ptp_macaddr_rtrv_def])
  fix t and s :: "'a xgm" assume "t \<in> macs"
  then obtain bs where bs: "length bs = 6" "t = concat (map hex2 bs)" by (auto simp: macs_def)
  then obtain a b c d e f where l: "bs = [a, b, c, d, e, f]" by (auto simp: numeral_eq_Suc length_Suc_conv)
  obtain a0 a1 b0 b1 c0 c1 d0 d1 e0 e1 f0 f1 where h: "hex2 a = [a0, a1]" "hex2 b = [b0, b1]" "hex2 c = [c0, c1]"
    "hex2 d = [d0, d1]" "hex2 e = [e0, e1]" "hex2 f = [f0, f1]" using hex2_Cons by metis
  have t: "t = [a0, a1, b0, b1, c0, c1, d0, d1, e0, e1, f0, f1]" by (simp add: bs(2) l h)
  have "list_all isxdigit t" unfolding bs(2) using hex2_isxdigit by (auto simp: list_all_iff)
  moreover have "map (\<lambda>i. StringtoInt (t ! (2 * i)) (t ! (2 * i + 1))) [0, 1, 2, 3, 4, 5] = bs"
    using StringtoInt_hex2 [of a] StringtoInt_hex2 [of b] StringtoInt_hex2 [of c] StringtoInt_hex2 [of d]
      StringtoInt_hex2 [of e] StringtoInt_hex2 [of f] unfolding h by (simp add: t l)
  ultimately have "ptp_mac_parser dv (Some t) s = Some (reg_writes dv (zip bs PTP_MAC_REG) (s\<lparr>net_par := (net_par s)\<lparr>ptp_mac := bs\<rparr>\<rparr>))"
    by (simp only: ptp_mac_parser_def set_param_def Let_def option.case if_True if_False) (simp add: t)
  moreover have "mac_text bs = dashed t @ NL" by (simp add: mac_text_def dashed_def bs(2) pairs_hex)
  ultimately show "\<exists>vs s'. ptp_mac_parser dv (Some t) s = Some (reg_writes dv (zip vs PTP_MAC_REG) s') \<and> fpga s' = fpga s \<and>
    length vs = length PTP_MAC_REG \<and>
    (\<forall>d. ((s'\<lparr>fpga := d\<rparr>)\<lparr>net_par := (net_par (s'\<lparr>fpga := d\<rparr>))\<lparr>ptp_mac := vs\<rparr>\<rparr>, Some (mac_text vs), 0) =
      ((net_mem (\<lambda>v p. p\<lparr>ptp_mac := v\<rparr>) t vs s)\<lparr>fpga := d\<rparr>, Some (dashed t @ NL), OK))"
    by (intro exI [of _ bs] exI [of _ "s\<lparr>net_par := (net_par s)\<lparr>ptp_mac := bs\<rparr>\<rparr>"]) (simp add: bs(1) PTP_MAC_REG_def mem_defs)
qed (simp_all add: PTP_MAC_REG_def)

section \<open>Priorities and clock quality\<close>

lemma u8_len_short: "length t < 256 \<Longrightarrow> take (u8_len t) t = t"
  by (simp add: u8_len_def unat_of_nat)

definition priority_pairs :: "string set" where
  "priority_pairs = (\<lambda>(a :: u8, b :: u8). dec (unat a) @ '','' @ dec (unat b)) ` UNIV"

lemma priority_answers:
  "fpga_ok dv regs \<Longrightarrow> answers regs (ptp_priority_set dv) (ptp_priority_rtrv dv) [0x0137, 0x0142] id
    (mode_mem (\<lambda>v p. p\<lparr>priority1 := v ! 0, priority2 := v ! 1\<rparr>)) priority_pairs"
proof (rule answersI [OF _ _ ptp_priority_rtrv_def])
  fix t and s :: "'a xgm" assume ok: "fpga_ok dv regs" and "t \<in> priority_pairs"
  then obtain a b :: u8 where t: "t = dec (unat a) @ '','' @ dec (unat b)" by (auto simp: priority_pairs_def)
  let ?ts = "[dec (unat a), dec (unat b)]"
  have l: "length (dec (unat (x :: u8))) \<le> 3" for x using dec_length_le [of "unat x" 3] unat8_lt [of x] by simp
  have comma: "digit_val CHR '','' = None" by (simp add: digit_val_def)
  have j: "t = joined '','' ?ts" by (simp add: t)
  have "sep_chars CHR '','' isdigit t 0 = Some 1"
    unfolding j by (subst sep_chars_joined) (auto simp: dec_nonempty dec_isdigit_all is_digit_of_def comma)
  moreover have "tokens 2 (t @ [NUL]) 0 '','' = Some ?ts"
    using tokens_joined [of ?ts "CHR '',''" "[]"] dec_token [OF comma] by (simp add: j NUL_def numeral_eq_Suc)
  moreover have "take (u8_len t) t = t" using l [of a] l [of b] by (intro u8_len_short) (simp add: t)
  ultimately have "ptp_priority_set dv (Some t) s =
      Some (reg_writes dv (zip [a, b] [0x0137, 0x0142]) (s\<lparr>mode_par := (mode_par s)\<lparr>priority1 := a, priority2 := b\<rparr>\<rparr>))"
    by (simp add: ptp_priority_set_def set_param_def atoi_dec Let_def reg_writes_ok [OF ok] del: reg_writes.simps)
  then show "\<exists>vs s'. ptp_priority_set dv (Some t) s = Some (reg_writes dv (zip vs [0x0137, 0x0142]) s') \<and> fpga s' = fpga s \<and>
    length vs = length [0x0137, 0x0142 :: u32] \<and>
    (\<forall>d. ((s'\<lparr>fpga := d\<rparr>)\<lparr>mode_par := (mode_par (s'\<lparr>fpga := d\<rparr>))\<lparr>priority1 := vs ! 0, priority2 := vs ! 1\<rparr>\<rparr>,
      Some (dec (unat (vs ! 0)) @ '','' @ dec (unat (vs ! 1)) @ NL), 0) =
      ((mode_mem (\<lambda>v p. p\<lparr>priority1 := v ! 0, priority2 := v ! 1\<rparr>) t vs s)\<lparr>fpga := d\<rparr>, Some (id t @ NL), OK))"
    by (intro exI [of _ "[a, b]"] exI [of _ "s\<lparr>mode_par := (mode_par s)\<lparr>priority1 := a, priority2 := b\<rparr>\<rparr>"]) (simp add: t mem_defs)
qed simp_all

lemma hex_not_space: "is_digit_of 16 c \<Longrightarrow> \<not> isspace c \<and> c \<noteq> CHR ''-'' \<and> c \<noteq> CHR ''+'' \<and> c \<noteq> CHR ''x'' \<and> c \<noteq> CHR ''X''"
  by (auto simp: is_digit_of_def digit_val_def isspace_def Let_def split: if_splits)

lemma hex_value_digits:
  assumes "list_all isxdigit t" "t \<noteq> []" "digits_value 16 0 t < 2 ^ 32"
  shows "hex_value t = of_nat (digits_value 16 0 t)"
proof -
  obtain c u where t: "t = c # u" using assms(2) by (cases t) auto
  have c: "\<not> isspace c" "c \<noteq> CHR ''-''" "c \<noteq> CHR ''+''" "is_digit_of 16 c"
    using assms(1) hex_not_space [of c] by (simp_all add: t)
  have "strtoul_digits 16 t = t"
    using assms(1) hex_not_space [of "CHR ''x''"] hex_not_space [of "CHR ''X''"]
    unfolding strtoul_digits_def by (auto split: list.splits)
  then show ?thesis using c assms(3) by (simp add: hex_value_def strtoul_def t Let_def)
qed

lemma hex_value_hex2: "hex_value (hex2 b) = ucast b"
proof -
  obtain c0 c1 where h: "hex2 b = [c0, c1]" "digit_val c0 = Some (unat b div 16)" "digit_val c1 = Some (unat b mod 16)"
    using hex2_Cons by metis
  moreover have "unat b div 16 < 16" using unat8_lt [of b] by simp
  ultimately have "digits_value 16 0 (hex2 b) = unat b" by simp
  then show ?thesis using hex_value_digits [OF hex2_isxdigit, of b] unat8_lt [of b] by (simp add: h(1) unsigned_ucast_eq)
qed

lemma hex_value_hex4: "hex_value (hex2 a @ hex2 b) = of_nat (256 * unat a + unat b)"
proof -
  obtain c0 c1 where h: "hex2 a = [c0, c1]" "digit_val c0 = Some (unat a div 16)" "digit_val c1 = Some (unat a mod 16)"
    using hex2_Cons by metis
  obtain d0 d1 where k: "hex2 b = [d0, d1]" "digit_val d0 = Some (unat b div 16)" "digit_val d1 = Some (unat b mod 16)"
    using hex2_Cons by metis
  have "unat a div 16 < 16" "unat b div 16 < 16" using unat8_lt [of a] unat8_lt [of b] by simp_all
  then have "digits_value 16 0 (hex2 a @ hex2 b) = ((unat a div 16 * 16 + unat a mod 16) * 16 + unat b div 16) * 16 + unat b mod 16"
    by (simp add: h k)
  also have "\<dots> = 256 * unat a + unat b" by presburger
  finally show ?thesis
    using hex_value_digits [of "hex2 a @ hex2 b"] hex2_isxdigit [of a] hex2_isxdigit [of b] unat8_lt [of a] unat8_lt [of b]
    by (simp add: h(1))
qed

definition qualities :: "string set" where
  "qualities = (\<lambda>(a, b, c, d). hex2 a @ '','' @ hex2 b @ '','' @ hex2 c @ hex2 d) ` UNIV"

lemma hex2_token: "digit_val d = None \<Longrightarrow> hex2 b \<noteq> [] \<and> set (hex2 b) \<inter> {NUL, d} = {}"
  using hex2_Cons [of b] by (auto simp: NUL_def digit_val_def)

lemma low_bytes:
  fixes w :: u32 and a b :: u8
  assumes "unat w = 256 * unat a + unat b"
  shows "ucast (drop_bit 8 w AND 0xFF) = a" "ucast (w AND 0xFF) = b"
proof -
  have m: "(0xFF :: u32) = mask 8" by (simp add: mask_eq_exp_minus_1)
  show "ucast (drop_bit 8 w AND 0xFF) = a"
    unfolding m take_bit_eq_mask [symmetric] using unat8_lt [of a] unat8_lt [of b] assms
    by (intro unsigned_word_eqI [where ?'a = nat])
      (simp add: unsigned_ucast_eq unsigned_take_bit_eq unsigned_drop_bit_eq drop_bit_eq_div [where ?'a = nat] take_bit_eq_mod [where ?'a = nat])
  show "ucast (w AND 0xFF) = b"
    unfolding m take_bit_eq_mask [symmetric] using unat8_lt [of b] assms
    by (intro unsigned_word_eqI [where ?'a = nat])
      (simp add: unsigned_ucast_eq unsigned_take_bit_eq take_bit_eq_mod [where ?'a = nat])
qed

lemma hex4_bytes:
  "ucast (drop_bit 8 (of_nat (256 * unat a + unat b) :: u32) AND 0xFF) = (a :: u8)"
  "ucast ((of_nat (256 * unat a + unat b) :: u32) AND 0xFF) = (b :: u8)"
proof -
  have "256 * unat a + unat b < 2 ^ 32" using unat8_lt [of a] unat8_lt [of b] by simp
  then have u: "unat (of_nat (256 * unat a + unat b) :: u32) = 256 * unat a + unat b" by (simp only: unat_of_nat) simp
  show "ucast (drop_bit 8 (of_nat (256 * unat a + unat b) :: u32) AND 0xFF) = a"
    "ucast ((of_nat (256 * unat a + unat b) :: u32) AND 0xFF) = b"
    using low_bytes [OF u] by blast+
qed

lemma back_to_byte: "ucast (ucast a :: u32) = (a :: u8)"
  by (rule bit_word_eqI) (simp add: bit_simps)

lemma ptp_clockquality_answers:
  "fpga_ok dv regs \<Longrightarrow> answers regs (ptp_clockquality_set dv) (ptp_clockquality_rtrv dv) [0x0138, 0x0139, 0x0140, 0x0141] id
    (\<lambda>t v s. s) qualities"
proof (rule answersI [OF _ _ ptp_clockquality_rtrv_def])
  fix t and s :: "'a xgm" assume ok: "fpga_ok dv regs" and "t \<in> qualities"
  then obtain a b c d where t: "t = hex2 a @ '','' @ hex2 b @ '','' @ hex2 c @ hex2 d" by (auto simp: qualities_def)
  let ?ts = "[hex2 a, hex2 b, hex2 c @ hex2 d]"
  have comma: "digit_val CHR '','' = None" by (simp add: digit_val_def)
  have j: "t = joined '','' ?ts" by (simp add: t)
  have l: "length (hex2 x) = 2" for x using hex2_Cons [of x] by auto
  have "sep_chars CHR '','' isxdigit t 0 = Some 2"
    unfolding j using hex2_token [OF comma] hex2_isxdigit by (subst sep_chars_joined) (auto simp: is_digit_of_def comma)
  moreover have "tokens 3 (t @ [NUL]) 0 '','' = Some ?ts"
    using tokens_joined [of ?ts "CHR '',''" "[]"] hex2_token [OF comma] by (auto simp: j NUL_def numeral_eq_Suc)
  moreover have "take (u8_len t) t = t" by (intro u8_len_short) (simp add: t l)
  ultimately have "ptp_clockquality_set dv (Some t) s = Some (reg_writes dv (zip [a, b, c, d] [0x0138, 0x0139, 0x0140, 0x0141]) s)"
    by (simp add: ptp_clockquality_set_def set_param_def hex_value_hex2 hex_value_hex4 hex4_bytes back_to_byte Let_def
        del: reg_writes.simps of_nat_add of_nat_mult)
  then show "\<exists>vs s'. ptp_clockquality_set dv (Some t) s = Some (reg_writes dv (zip vs [0x0138, 0x0139, 0x0140, 0x0141]) s') \<and>
    fpga s' = fpga s \<and> length vs = length [0x0138, 0x0139, 0x0140, 0x0141 :: u32] \<and>
    (\<forall>d. (s'\<lparr>fpga := d\<rparr>, Some (hex2 (vs ! 0) @ '','' @ hex2 (vs ! 1) @ '','' @ hex2 (vs ! 2) @ hex2 (vs ! 3) @ NL), 0) =
      (s\<lparr>fpga := d\<rparr>, Some (id t @ NL), OK))"
    by (intro exI [of _ "[a, b, c, d]"] exI [of _ s]) (simp add: t)
qed simp_all

end
