(* ===== verification/OutCommands.thy ===== *)
theory OutCommands
  imports OutAddr
begin

text \<open>
  The commands of the outputs as a whole: each handler with the words that select a setting, the
  registers the setting is kept in, the texts it takes and what its query prints for each of them.
\<close>

section \<open>A command and its query\<close>

type_synonym 'd handler = "string option list \<Rightarrow> 'd xgm \<Rightarrow> ('d xgm \<times> string option \<times> u8) option"

text \<open>The words with a text and the buffer, then the words with the buffer alone.\<close>

definition command_query ::
  "'d handler \<Rightarrow> string list \<Rightarrow> string \<Rightarrow> string \<Rightarrow> 'd xgm \<Rightarrow>
     ('d xgm \<times> string option \<times> u8 \<times> string option \<times> u8) option" where
  "command_query h ws t old s = do {
     (s, b, r1) \<leftarrow> h (map Some ws @ [Some t, Some old]) s;
     (s, buf, r2) \<leftarrow> h (map Some ws @ [Some old]) s;
     Some (s, b, r1, buf, r2)
   }"

definition command_answers ::
  "('d \<Rightarrow> u32 \<Rightarrow> u8) \<Rightarrow> 'd handler \<Rightarrow> string list \<Rightarrow> u32 list \<Rightarrow> (string \<Rightarrow> string) \<Rightarrow> 'd effect \<Rightarrow> string set \<Rightarrow> bool" where
  "command_answers regs h ws rs f g T \<longleftrightarrow>
     (\<forall>t \<in> T. \<forall>old s. \<exists>s'. command_query h ws t old s = Some (s', Some old, OK, Some (f t @ NL), OK) \<and>
        s' = (g t (map (regs (fpga s')) rs) s)\<lparr>fpga := fpga s'\<rparr> \<and>
        (\<forall>a. a \<notin> set rs \<longrightarrow> regs (fpga s') a = regs (fpga s) a))"

lemma command_answersI:
  assumes "answers regs st q rs f g T"
    and st: "\<And>t old s. h (map Some ws @ [Some t, Some old]) s = do { (s, r) \<leftarrow> st (Some t) s; Some (s, Some old, r) }"
    and q: "\<And>old s. h (map Some ws @ [Some old]) s = Some (q (Some old) s)"
  shows "command_answers regs h ws rs f g T"
proof -
  have "command_query h ws t old s = map_option (\<lambda>(s, r1, b). (s, Some old, r1, b)) (set_query st q t old s)" for t old s
    unfolding command_query_def set_query_def st q
    by (cases "st (Some t) s") (auto simp: case_prod_beta Let_def)
  then show ?thesis using assms(1) by (fastforce simp: command_answers_def answers_def)
qed

section \<open>The words of the commands\<close>

text \<open>With the words given, a handler does what the setting and the query at their place do.\<close>

lemma query_or_set_words:
  "query_or_set (Suc (length ws)) (Suc (Suc (length ws))) q st (map Some ws @ [Some t, Some old]) s =
     do { (s, r) \<leftarrow> st (Some t) s; Some (s, Some old, r) }"
  "query_or_set (Suc (length ws)) (Suc (Suc (length ws))) q st (map Some ws @ [Some old]) s = Some (q (Some old) s)"
  by (simp_all add: query_or_set_def arg_def nth_append)

lemma command_words:
  assumes "answers regs st q rs f g T" "k = Suc (length ws)" "m = Suc k"
    and h: "\<And>ps s. ps \<noteq> [] \<Longrightarrow> length ps \<le> 2 \<Longrightarrow> None \<notin> set ps \<Longrightarrow>
      h (map Some ws @ ps) s = query_or_set k m q st (map Some ws @ ps) s"
  shows "command_answers regs h ws rs f g T"
  by (rule command_answersI [OF assms(1)]) (simp_all add: h query_or_set_words assms(2,3))

lemmas handler_simps = arg_def MAX_PARAM_NUM_def strncmp_eq_def Let_def

lemma out_pps_handler_irigb:
  assumes "find_prefix sub_irigb_command w 0 = Some i" "length ps \<le> 2" "None \<notin> set ps"
  shows "out_pps_handler dv (map Some [''b'', w] @ ps) s =
    query_or_set 3 4 (irigb_query_parse dv ! i) (irigb_set_parse dv ! i) (map Some [''b'', w] @ ps) s"
  using assms by (simp add: out_pps_handler_def handler_simps)

lemma out_pps_handler_tod:
  assumes "find_prefix sub_pps_command w 0 = Some i" "length ps \<le> 2" "None \<notin> set ps"
  shows "out_pps_handler dv (map Some [''p'', w] @ ps) s =
    query_or_set 3 4 (ppstod_query_parse dv ! i) (ppstod_set_parse dv ! i) (map Some [''p'', w] @ ps) s"
  using assms by (simp add: out_pps_handler_def handler_simps)

lemma irigb_command:
  assumes "find_prefix sub_irigb_command w 0 = Some i" "answers regs (irigb_set_parse dv ! i) (irigb_query_parse dv ! i) rs f g T"
  shows "command_answers regs (out_pps_handler dv) [''b'', w] rs f g T"
  by (rule command_words [OF assms(2) _ _ out_pps_handler_irigb [OF assms(1)]]) simp_all

lemma tod_command:
  assumes "find_prefix sub_pps_command w 0 = Some i" "answers regs (ppstod_set_parse dv ! i) (ppstod_query_parse dv ! i) rs f g T"
  shows "command_answers regs (out_pps_handler dv) [''p'', w] rs f g T"
  by (rule command_words [OF assms(2) _ _ out_pps_handler_tod [OF assms(1)]]) simp_all

lemma signal_command:
  assumes "answers regs (out_set_singal_type dv) (out_singal_type_rtrv dv) rs f g T"
  shows "command_answers regs (out_pps_handler dv) [''s'', w] rs f g T"
  by (rule command_words [OF assms, of 3 _ 4]) (simp_all add: out_pps_handler_def handler_simps)

lemma net_command:
  assumes "find_prefix sub_net_command w 0 = Some i" "\<not> starts_with w ''help''"
    and "answers regs (ipconfig_set_psubcmd_parser dv ! i) (ipconfig_query_psubcmd_parser dv ! i) rs f g T"
  shows "command_answers regs (ptp_ipconfig_handler dv) [w] rs f g T"
  by (rule command_words [OF assms(3), of 2 _ 3])
    (use assms(1,2) in \<open>simp_all add: ptp_ipconfig_handler_def arg_def MAX_PARAM_NUM_def Let_def\<close>)

lemma vlan_command:
  assumes "find_prefix sub_vlan_command w 0 = Some i"
    and "answers regs (ifconfig_set_psubcmd_parser dv ! i) (ifconfig_query_psubcmd_parser dv ! i) rs f g T"
  shows "command_answers regs (ptp_ifconfig_handler dv) [''vlan'', w] rs f g T"
proof (rule command_words [OF assms(2), of 3 _ 4])
  fix ps :: "string option list" and s :: "'a xgm"
  assume ps: "ps \<noteq> []" "length ps \<le> 2" "None \<notin> set ps"
  then have "length ps = 1 \<or> length ps = 2" by (cases ps; cases "tl ps") auto
  then show "ptp_ifconfig_handler dv (map Some [''vlan'', w] @ ps) s =
      query_or_set 3 4 (ifconfig_query_psubcmd_parser dv ! i) (ifconfig_set_psubcmd_parser dv ! i) (map Some [''vlan'', w] @ ps) s"
    using assms(1) ps(3) by (auto simp add: ptp_ifconfig_handler_def handler_simps)
qed simp_all

lemma port_command:
  assumes "find_extension p_ptp_port_subcmd w 0 = Some i"
    and "answers regs (ptp2_set_psubcmd_parser dv ! i) (ptp2_query_psubcmd_parser dv ! i) rs f g T"
  shows "command_answers regs (ptp_set_handler dv) [''p'', w] rs f g T"
  by (rule command_words [OF assms(2), of 3 _ 4])
    (use assms(1) in \<open>simp_all add: ptp_set_handler_def handler_simps\<close>)

lemma clock_command:
  assumes "find_extension p_ptp_clock_subcmd w 0 = Some i"
    and "answers regs (ptp2_set_csubcmd_parser dv ! i) (ptp2_query_csubcmd_parser dv ! i) rs f g T"
  shows "command_answers regs (ptp_set_handler dv) [''c'', w] rs f g T"
  by (rule command_words [OF assms(2), of 3 _ 4])
    (use assms(1) in \<open>simp_all add: ptp_set_handler_def handler_simps\<close>)

lemma esmc_command:
  assumes "find_extension p_ptp_esmc_subcmd w 0 = Some i"
    and "answers regs (ptp2_set_esubcmd_parser dv ! i) (ptp2_query_esubcmd_parser dv ! i) rs f g T"
  shows "command_answers regs (ptp_set_handler dv) [''e'', w] rs f g T"
  by (rule command_words [OF assms(2), of 3 _ 4])
    (use assms(1) in \<open>simp_all add: ptp_set_handler_def handler_simps\<close>)

lemma time_command:
  assumes "find_extension p_ptp_time_subcmd w 0 = Some i"
    and "ptp2_set_tsubcmd_parser dv ! i = Some st" "ptp2_query_tsubcmd_parser dv ! i = Some q" "answers regs st q rs f g T"
  shows "command_answers regs (ptp_set_handler dv) [''t'', w] rs f g T"
  by (rule command_answersI [OF assms(4)])
    (use assms(1-3) in \<open>simp_all add: ptp_set_handler_def run_set_def handler_simps\<close>)

lemma leap_commands:
  assumes "answers regs (ptp_leap59flag_set dv) (ptp_leap59flag_rtrv dv) rs f g T"
    and "answers regs (ptp_leap61flag_set dv) (ptp_leap61flag_rtrv dv) rs' f' g' T'"
  shows "command_answers regs (ptp_set_handler dv) [''t'', ''l'', ''59''] rs f g T"
    and "command_answers regs (ptp_set_handler dv) [''t'', ''l'', ''61''] rs' f' g' T'"
proof -
  have l: "find_extension p_ptp_time_subcmd ''l'' 0 = Some (Suc 0)" by code_simp
  note simps = l ptp_set_handler_def run_set_def ptp2_query_tsubcmd_parser_def handler_simps ptp2_set_tsubcmd_parser_def
  show "command_answers regs (ptp_set_handler dv) [''t'', ''l'', ''59''] rs f g T"
    by (rule command_answersI [OF assms(1)]) (simp_all add: simps)
  show "command_answers regs (ptp_set_handler dv) [''t'', ''l'', ''61''] rs' f' g' T'"
    by (rule command_answersI [OF assms(2)]) (simp_all add: simps)
qed

lemma class_command:
  assumes "answers regs ptp_clockclass_set ptp_clockclass_rtrv rs f g T"
  shows "command_answers regs (ptp_set_handler dv) [''g'', ''c''] rs f g T"
  by (rule command_words [OF assms, of 3 _ 4]) (simp_all add: ptp_set_handler_def handler_simps)

text \<open>The clock class is kept in memory only.\<close>

definition classes :: "string set" where
  "classes = (\<lambda>(a :: u8, b :: u8, c :: u8). joined '','' [dec (unat a), dec (unat b), dec (unat c)]) ` UNIV"

text \<open>The three numbers of a text.\<close>

definition class_bytes :: "string \<Rightarrow> bytes" where
  "class_bytes t = (case get_str_split_value t 3 10 of Some bs \<Rightarrow> bs | None \<Rightarrow> [])"

lemma clockclass_answers:
  "answers regs ptp_clockclass_set ptp_clockclass_rtrv [] id
    (\<lambda>t v s. s\<lparr>mode_par := (mode_par s)\<lparr>clock_class := class_bytes t\<rparr>\<rparr>) classes"
  unfolding answers_def
proof (intro ballI allI)
  fix t old and s :: "'a xgm" assume "t \<in> classes"
  then obtain a b c :: u8 where j: "t = joined '','' [dec (unat a), dec (unat b), dec (unat c)]" by (auto simp: classes_def)
  have l: "length (dec (unat (x :: u8))) \<le> 3" for x using dec_length_le [of "unat x" 3] unat8_lt [of x] by simp
  have comma: "digit_val CHR '','' = None" by (simp add: digit_val_def)
  have "sep_chars CHR '','' isdigit t 1 = Some 3"
    unfolding j by (subst sep_chars_joined) (auto simp: dec_nonempty dec_isdigit_all is_digit_of_def comma)
  moreover have "tokens 3 (t @ [NUL]) 0 '','' = Some [dec (unat a), dec (unat b), dec (unat c)]"
    using tokens_joined [of "[dec (unat a), dec (unat b), dec (unat c)]" "CHR '',''" "[]"] dec_token [OF comma]
    by (simp add: j NUL_def numeral_eq_Suc)
  moreover have "take (u8_len t) t = t" using l [of a] l [of b] l [of c] by (intro u8_len_short) (simp add: j)
  ultimately have "get_str_split_value t 3 10 = Some [a, b, c]"
    by (simp add: get_str_split_value_def atoi_dec)
  then show "\<exists>s'. set_query ptp_clockclass_set ptp_clockclass_rtrv t old s = Some (s', OK, Some (id t @ NL), OK) \<and>
      s' = (s\<lparr>mode_par := (mode_par s)\<lparr>clock_class := class_bytes t\<rparr>\<rparr>)\<lparr>fpga := fpga s'\<rparr> \<and>
      (\<forall>x. x \<notin> set [] \<longrightarrow> regs (fpga s') x = regs (fpga s) x)"
    by (simp add: set_query_def ptp_clockclass_set_def ptp_clockclass_rtrv_def set_param_def class_bytes_def j)
qed

section \<open>All commands\<close>

definition setting_commands ::
  "'d fpga_dev \<Rightarrow> ('d handler \<times> string list \<times> u32 list \<times> (string \<Rightarrow> string) \<times> 'd effect \<times> string set) list" where
  "setting_commands dv =
     [(out_pps_handler dv, [''b'', ''c''], OUT_B_OFFSET_REG, shown_delay,
        out_mem (\<lambda>v p. p\<lparr>delay_irigb_com := delay_value v\<rparr>), delays),
      (out_pps_handler dv, [''b'', ''l''], [0x0054], id,
        out_mem (\<lambda>v p. p\<lparr>flag_leappre := v ! 0 AND 3\<rparr>), set pPrecuationValue),
      (out_pps_handler dv, [''b'', ''d''], [0x0055], id,
        out_mem (\<lambda>v p. p\<lparr>daylight_pre := v ! 0 AND 3\<rparr>), set pPrecuationValue),
      (out_pps_handler dv, [''b'', ''z''], [0x0056], shown_zone,
        out_mem (\<lambda>v p. p\<lparr>time_zone := v ! 0\<rparr>), set pTimeZone),
      (out_pps_handler dv, [''b'', ''q''], [0x0057], id,
        out_mem (\<lambda>v p. p\<lparr>clock_quality := v ! 0 AND 0x0F\<rparr>), below 16),
      (out_pps_handler dv, [''p'', ''c''], OUT_TOD_OFFSET_REG, shown_delay,
        out_mem (\<lambda>v p. p\<lparr>delay_pps_tod_com := delay_value v\<rparr>), delays),
      (out_pps_handler dv, [''p'', ''t''], [0x0015], id,
        out_mem (\<lambda>v p. p\<lparr>tod_clock_type := v ! 0\<rparr>), set [''0'', ''1'']),
      (out_pps_handler dv, [''p'', ''s''], [0x0016], id,
        out_mem (\<lambda>v p. p\<lparr>pps_status := v ! 0\<rparr>), below 256),
      (out_pps_handler dv, [''p'', ''j''], [0x0017], id,
        out_mem (\<lambda>v p. p\<lparr>tod_jitter := v ! 0\<rparr>), below 256),
      (out_pps_handler dv, [''p'', ''k''], [0x0018], id,
        out_mem (\<lambda>v p. p\<lparr>tod_clock_type := v ! 0 AND 0xC0\<rparr>), set clock_types),
      (out_pps_handler dv, [''p'', ''l''], [0x0019, 0x0020], id,
        out_mem (\<lambda>v p. p\<lparr>tod_clock_status := two_bytes v\<rparr>), below 65536),
      (out_pps_handler dv, [''p'', ''a''], [0x0021, 0x0022], id,
        out_mem (\<lambda>v p. p\<lparr>tod_moni_alarm := two_bytes v\<rparr>), below 65536),
      (out_pps_handler dv, [''s'', ''t''], [0x0045], id,
        out_mem (\<lambda>v p. p\<lparr>signal_type := v ! 0\<rparr>), set pSignalType),
      (ptp_ipconfig_handler dv, [''-s''], PTP_MAC_REG, dashed,
        net_mem (\<lambda>v p. p\<lparr>ptp_mac := v\<rparr>), macs),
      (ptp_ipconfig_handler dv, [''-a''], PTP_IP_REG, id,
        net_mem (\<lambda>v p. p\<lparr>ptp_ipaddr := ip_word v\<rparr>), quads),
      (ptp_ipconfig_handler dv, [''-m''], PTP_MASK_REG, id,
        net_mem (\<lambda>v p. p\<lparr>ptp_submask := ip_word v\<rparr>), quads),
      (ptp_ipconfig_handler dv, [''-g''], PTP_GATEWAY_REG, id,
        net_mem (\<lambda>v p. p\<lparr>ptp_gateway := ip_word v\<rparr>), quads),
      (ptp_ifconfig_handler dv, [''vlan'', ''-e''], [0x0100], id,
        net_mem (\<lambda>v p. p\<lparr>vlan_enable := v ! 0\<rparr>), {''off'', ''on''}),
      (ptp_ifconfig_handler dv, [''vlan'', ''-p''], [0x0101], id,
        net_mem (\<lambda>v p. p\<lparr>vlan_pcp := v ! 0\<rparr>), below 8),
      (ptp_ifconfig_handler dv, [''vlan'', ''-v''], [0x0103, 0x0104], id,
        net_mem (\<lambda>v p. p\<lparr>vlan_vid := push_bit 8 (ucast (v ! 0 AND 0x0F)) OR ucast (v ! 1)\<rparr>), below 4096),
      (ptp_ifconfig_handler dv, [''vlan'', ''-c''], [0x0102], id,
        net_mem (\<lambda>v p. p\<lparr>vlan_cfi := v ! 0\<rparr>), below 2),
      (ptp_set_handler dv, [''p'', ''p''], [0x0147], id,
        mode_mem (\<lambda>v p. p\<lparr>encode_package := v ! 0\<rparr>), {''eth'', ''udp''}),
      (ptp_set_handler dv, [''p'', ''m''], [0x0149], id,
        mode_mem (\<lambda>v p. p\<lparr>delay_type := v ! 0\<rparr>), {''e2e'', ''p2p''}),
      (ptp_set_handler dv, [''p'', ''ai''], [0x0150], shown_interval,
        mode_mem (\<lambda>v p. p\<lparr>anounce_frequency := v ! 0 + 8\<rparr>), set p_frequcy),
      (ptp_set_handler dv, [''p'', ''u''], [0x0146], id,
        mode_mem (\<lambda>v p. p\<lparr>unicast := v ! 0\<rparr>), {''disable'', ''enable''}),
      (ptp_set_handler dv, [''p'', ''f''], [0x0129], id,
        mode_mem (\<lambda>v p. p\<lparr>flag_freq_trac := v ! 0\<rparr>), {''false'', ''true''}),
      (ptp_set_handler dv, [''p'', ''t''], [0x0130], id,
        mode_mem (\<lambda>v p. p\<lparr>flag_time_trac := v ! 0\<rparr>), {''false'', ''true''}),
      (ptp_set_handler dv, [''p'', ''s''], [0x0145], id,
        mode_mem (\<lambda>v p. p\<lparr>time_source := v ! 0\<rparr>), below 256),
      (ptp_set_handler dv, [''p'', ''e''], [0x0123], id,
        mode_mem (\<lambda>v p. p\<lparr>port_enable := v ! 0\<rparr>), {''off'', ''on''}),
      (ptp_set_handler dv, [''p'', ''n''], [0x0154], id,
        mode_mem (\<lambda>v p. p\<lparr>protocol := v ! 0, ntp_en := v ! 0\<rparr>), {''off'', ''on''}),
      (ptp_set_handler dv, [''p'', ''si''], [0x0151], shown_interval,
        mode_mem (\<lambda>v p. p\<lparr>sync_frequency := v ! 0 + 8\<rparr>), set p_frequcy),
      (ptp_set_handler dv, [''c'', ''t''], [0x0148], id,
        mode_mem (\<lambda>v p. p\<lparr>step_type := v ! 0\<rparr>), {''off'', ''on''}),
      (ptp_set_handler dv, [''c'', ''q''], [0x0138, 0x0139, 0x0140, 0x0141], id,
        \<lambda>t v s. s, qualities),
      (ptp_set_handler dv, [''c'', ''p''], [0x0137, 0x0142], id,
        mode_mem (\<lambda>v p. p\<lparr>priority1 := v ! 0, priority2 := v ! 1\<rparr>), priority_pairs),
      (ptp_set_handler dv, [''c'', ''d''], [0x0124], id,
        mode_mem (\<lambda>v p. p\<lparr>domain := v ! 0\<rparr>), below 256),
      (ptp_set_handler dv, [''t'', ''s''], [0x0131], id,
        mode_mem (\<lambda>v p. p\<lparr>flag_time_scale := v ! 0\<rparr>), {''arb'', ''ptp''}),
      (ptp_set_handler dv, [''t'', ''o''], [0x0135, 0x0136], id,
        mode_mem (\<lambda>v p. p\<lparr>utc_offset := push_bit 8 (ucast (v ! 0)) OR ucast (v ! 1)\<rparr>), below 65536),
      (ptp_set_handler dv, [''t'', ''l'', ''59''], [0x0133], id,
        mode_mem (\<lambda>v p. p\<lparr>flag_leap59 := v ! 0 AND 1\<rparr>), below 2),
      (ptp_set_handler dv, [''t'', ''l'', ''61''], [0x0134], id,
        mode_mem (\<lambda>v p. p\<lparr>flag_leap61 := v ! 0 AND 1\<rparr>), below 2),
      (ptp_set_handler dv, [''e'', ''e''], [0x0152], id,
        mode_mem (\<lambda>v p. p\<lparr>esmc_enable := v ! 0\<rparr>), {''off'', ''on''}),
      (ptp_set_handler dv, [''e'', ''s''], [0x0153], id,
        mode_mem (\<lambda>v p. p\<lparr>esmc_ssm := v ! 0\<rparr>), set ssm_codes),
      (ptp_set_handler dv, [''g'', ''c''], [], id,
        \<lambda>t v s. s\<lparr>mode_par := (mode_par s)\<lparr>clock_class := class_bytes t\<rparr>\<rparr>, classes)]"

lemma word_indices:
  "map (\<lambda>w. find_prefix sub_irigb_command w 0) [''c'', ''l'', ''d'', ''z'', ''q''] = map Some [0..<5]"
  "map (\<lambda>w. find_prefix sub_pps_command w 0) [''c'', ''t'', ''s'', ''j'', ''k'', ''l'', ''a''] = map Some [0..<7]"
  "map (\<lambda>w. find_prefix sub_net_command w 0) [''-s'', ''-a'', ''-m'', ''-g''] = map Some [0..<4]"
  "map (\<lambda>w. find_prefix sub_vlan_command w 0) [''-e'', ''-p'', ''-v'', ''-c''] = map Some [0..<4]"
  "map (\<lambda>w. find_extension p_ptp_port_subcmd w 0) [''p'', ''m'', ''ai'', ''u'', ''f'', ''t'', ''s'', ''e'', ''n'', ''si''] =
     map Some [0, 1, 4, 5, 6, 7, 8, 9, 10, 11]"
  "map (\<lambda>w. find_extension p_ptp_clock_subcmd w 0) [''t'', ''q'', ''p'', ''d''] = map Some [0..<4]"
  "map (\<lambda>w. find_extension p_ptp_time_subcmd w 0) [''s'', ''o''] = map Some [0, 2]"
  "map (\<lambda>w. find_extension p_ptp_esmc_subcmd w 0) [''e'', ''s''] = map Some [0, 1]"
  by code_simp+

lemma port_intervals:
  assumes "fpga_ok dv regs"
  shows "answers regs (ptp_announceinter_set dv) (ptp_announceinter_rtrv dv) [0x0150] shown_interval
      (mode_mem (\<lambda>v p. p\<lparr>anounce_frequency := v ! 0 + 8\<rparr>)) (set p_frequcy)"
    and "answers regs (ptp_syncinter_set dv) (ptp_syncinter_rtrv dv) [0x0151] shown_interval
      (mode_mem (\<lambda>v p. p\<lparr>sync_frequency := v ! 0 + 8\<rparr>)) (set p_frequcy)"
  unfolding ptp_announceinter_set_def ptp_announceinter_rtrv_def ptp_syncinter_set_def ptp_syncinter_rtrv_def mode_mem_def
  by (rule interval_answers [OF assms]; simp)+

lemma pps_all:
  assumes ok: "fpga_ok dv regs"
  shows "\<forall>(h, ws, rs, f, g, T) \<in> set (take 13 (setting_commands dv)). command_answers regs h ws rs f g T"
proof -
  note irigb = irigb_dlycom_answers leapPreflag_answers daylight_answers timeskew_answers clockquality_answers
  note tod = ppstod_dlycom_answers tod_type_answers pps_status_answers tod_jitter_answers clock_type_answers
    clock_status_answers monitor_alarm_answers
  have b: "find_prefix sub_irigb_command w 0 = Some i \<Longrightarrow>
      answers regs (irigb_set_parse dv ! i) (irigb_query_parse dv ! i) rs f g T \<Longrightarrow>
      command_answers regs (out_pps_handler dv) [''b'', w] rs f g T" for w i rs f g T by (rule irigb_command)
  have p: "find_prefix sub_pps_command w 0 = Some i \<Longrightarrow>
      answers regs (ppstod_set_parse dv ! i) (ppstod_query_parse dv ! i) rs f g T \<Longrightarrow>
      command_answers regs (out_pps_handler dv) [''p'', w] rs f g T" for w i rs f g T by (rule tod_command)
  show ?thesis
    using word_indices(1,2) irigb [OF ok] tod [OF ok] singal_type_answers [OF ok]
    by (simp add: setting_commands_def b p signal_command irigb_set_parse_def irigb_query_parse_def
        ppstod_set_parse_def ppstod_query_parse_def upt_rec)
qed

lemma net_all:
  assumes ok: "fpga_ok dv regs"
  shows "\<forall>(h, ws, rs, f, g, T) \<in> set (take 8 (drop 13 (setting_commands dv))). command_answers regs h ws rs f g T"
proof -
  note net = mac_answers ipaddr_answers maskaddr_answers gateway_answers
  note vlan = vlanen_answers vlanpcp_answers vlanvid_answers vlancfi_answers
  have n: "\<not> starts_with ''-s'' ''help''" "\<not> starts_with ''-a'' ''help''" "\<not> starts_with ''-m'' ''help''" "\<not> starts_with ''-g'' ''help''"
    by (simp_all add: strncmp_eq_def)
  show ?thesis
    using word_indices(3,4) net [OF ok] vlan [OF ok]
    by (simp add: setting_commands_def net_command [OF _ n(1)] net_command [OF _ n(2)] net_command [OF _ n(3)] net_command [OF _ n(4)]
        vlan_command ipconfig_set_psubcmd_parser_def ipconfig_query_psubcmd_parser_def
        ifconfig_set_psubcmd_parser_def ifconfig_query_psubcmd_parser_def upt_rec)
qed

lemma ptp_all:
  assumes ok: "fpga_ok dv regs"
  shows "\<forall>(h, ws, rs, f, g, T) \<in> set (drop 21 (setting_commands dv)). command_answers regs h ws rs f g T"
proof -
  note port = protocol_answers mechanism_answers port_intervals unicast_answers fretraceable_answers timetraceable_answers
    timesource_answers porten_answers ntpen_answers
  note clock = steptype_answers ptp_clockquality_answers priority_answers domain_answers
  note rest = timeformat_answers utcoffset_answers leap59_answers leap61_answers esmcen_answers esmcssm_answers
  show ?thesis
    using word_indices(5-8) port [OF ok] clock [OF ok] rest [OF ok] clockclass_answers [of regs]
      leap_commands [of regs dv "[0x0133]" id "mode_mem (\<lambda>v p. p\<lparr>flag_leap59 := v ! 0 AND 1\<rparr>)" "below 2"
        "[0x0134]" id "mode_mem (\<lambda>v p. p\<lparr>flag_leap61 := v ! 0 AND 1\<rparr>)" "below 2"]
    by (simp add: setting_commands_def port_command clock_command esmc_command time_command class_command
        ptp2_set_psubcmd_parser_def ptp2_query_psubcmd_parser_def ptp2_set_csubcmd_parser_def ptp2_query_csubcmd_parser_def
        ptp2_set_tsubcmd_parser_def ptp2_query_tsubcmd_parser_def ptp2_set_esubcmd_parser_def ptp2_query_esubcmd_parser_def upt_rec)
qed

lemma all_commands:
  assumes "fpga_ok dv regs" "(h, ws, rs, f, g, T) \<in> set (setting_commands dv)"
  shows "command_answers regs h ws rs f g T"
proof -
  have "setting_commands dv = take 13 (setting_commands dv) @ take 8 (drop 13 (setting_commands dv)) @ drop 21 (setting_commands dv)"
    using append_take_drop_id [of 13 "setting_commands dv"] append_take_drop_id [of 8 "drop 13 (setting_commands dv)"] by simp
  then have "(h, ws, rs, f, g, T) \<in> set (take 13 (setting_commands dv)) \<union> set (take 8 (drop 13 (setting_commands dv))) \<union>
      set (drop 21 (setting_commands dv))"
    using assms(2) by (metis set_append Un_assoc)
  then show ?thesis using pps_all [OF assms(1)] net_all [OF assms(1)] ptp_all [OF assms(1)] by auto
qed

end
