(* ===== verification/UserCmd.thy ===== *)
theory UserCmd
  imports GnssHandler OutCommands
begin

text \<open>
  The console: the table of commands and the parser of a command line
  (\<^verbatim>\<open>APP/Debug/user_cmd.c\<close>), with the formatting of the lines it prints
  (\<^verbatim>\<open>APP/Debug/mtfs30_debug.c\<close>).
\<close>

section \<open>Printing\<close>

abbreviation (input) "DEBUG_MSG_MAX_LEN \<equiv> (256 :: nat)"

text \<open>\<open>vsnprintf\<close> keeps one byte of the 253 for the terminator.\<close>

definition debug_msg_format :: "string \<Rightarrow> string" where
  "debug_msg_format t = take (DEBUG_MSG_MAX_LEN - 4) t @ NL"

section \<open>The table\<close>

text \<open>A command works on the buffer of the parser, which holds the line: its parameters are
  pointers into it, null where the line had fewer words than blanks, and the last one is the buffer
  itself. Every handler but that of \<^verbatim>\<open>$FPGA-R\<close> takes the texts of its parameters and
  writes a text over the start of the buffer.\<close>

type_synonym 'd raw_command = "string \<Rightarrow> nat option list \<Rightarrow> 'd machine \<Rightarrow> ('d machine \<times> string \<times> u8) option"

definition param_texts :: "string \<Rightarrow> nat option list \<Rightarrow> string option list" where
  "param_texts tmp ps = map (map_option (\<lambda>p. text_of (drop p tmp))) ps"

definition on_texts :: "'d command \<Rightarrow> 'd raw_command" where
  "on_texts f tmp ps m = do {
     (m, buf, r) \<leftarrow> f (param_texts tmp ps) m;
     case buf of None \<Rightarrow> Some (m, tmp, r) | Some t \<Rightarrow> map_option (\<lambda>tmp. (m, tmp, r)) (strcpy tmp 0 t)
   }"

definition on_settings :: "'d handler \<Rightarrow> 'd command" where
  "on_settings h ps m = map_option (\<lambda>(s, buf, r). (m\<lparr>settings := s\<rparr>, buf, r)) (h ps (settings m))"

text \<open>\<open>wbuf\<close> is what the uninitialised buffer of the handler holds.\<close>

definition fpga_write :: "'d fpga_dev \<Rightarrow> bytes \<Rightarrow> 'd command" where
  "fpga_write dv wbuf ps m =
     map_option (\<lambda>(d, r). (m\<lparr>settings := (settings m)\<lparr>fpga := d\<rparr>\<rparr>, result_buf ps, r))
       (fpga_write_cmd_handler dv wbuf ps (fpga (settings m)))"

text \<open>The bytes read go to the memory behind the third parameter, the buffer itself when the
  line gives two.\<close>

definition fpga_read :: "'d fpga_dev \<Rightarrow> 'd raw_command" where
  "fpga_read dv tmp ps m =
     (let p = (case drop 2 ps of Some p # _ \<Rightarrow> p | _ \<Rightarrow> 0) in
      map_option
        (\<lambda>(d, buf, r). (m\<lparr>settings := (settings m)\<lparr>fpga := d\<rparr>\<rparr>, take p tmp @ map (\<lambda>b. char_of (unat b)) buf, r))
        (fpga_read_cmd_handler dv (param_texts tmp ps) (map of_char (drop p tmp)) (fpga (settings m))))"

definition user_cmdhandle :: "'d fpga_dev \<Rightarrow> string list \<Rightarrow> bytes \<Rightarrow> (string \<times> 'd raw_command) list" where
  "user_cmdhandle dv msgs wbuf =
     [(''$DEBUGPRINT'', on_texts mtfs30_debug_set_handler),
      (''$DEBUGLVL'', on_texts debug_level_set_handler),
      (''$ROLLPRINT'', on_texts roll_print_set_handler),
      (''$SATEPRINT'', on_texts gnss_echo_set_handler),
      (''$G-SET-MODE'', on_texts (gnss_acmode_set_handler msgs)),
      (''$G-SET-BAUD'', on_texts (gnss_serial_baud_set_handler msgs)),
      (''$G-SET-STMT'', on_texts (gnss_stmt_set_handler msgs)),
      (''$FPGA-W'', on_texts (fpga_write dv wbuf)),
      (''$FPGA-R'', fpga_read dv),
      (''gnss'', on_texts (gnss_command_execute dv msgs)),
      (''ipconfig'', on_texts (on_settings (ptp_ipconfig_handler dv))),
      (''ifconfig'', on_texts (on_settings (ptp_ifconfig_handler dv))),
      (''ptp2'', on_texts (on_settings (ptp_set_handler dv))),
      (''out'', on_texts (on_settings (out_pps_handler dv)))]"

section \<open>The parser\<close>

abbreviation (input) "RTRV_BUF_MAX_SIZE \<equiv> (400 :: nat)"
abbreviation (input) "USER_CMD_MAX_LEN \<equiv> (128 :: u8)"

text \<open>\<open>n\<close> calls of \<open>strtok(NULL, \" \")\<close>.\<close>

fun words_at :: "nat \<Rightarrow> string \<Rightarrow> nat \<Rightarrow> (string \<times> nat option list) option" where
  "words_at 0 tmp q = Some (tmp, [])"
| "words_at (Suc n) tmp q = do {
     (tmp, p, q) \<leftarrow> strtok tmp q '' '';
     (tmp, ps) \<leftarrow> words_at n tmp q;
     Some (tmp, p # ps)
   }"

text \<open>The lines are those the parser prints itself, without the error messages: the echo and the
  answer. A line without a line end, an empty one and one without a word are undefined.\<close>

definition user_cmd_parser ::
  "'d fpga_dev \<Rightarrow> string list \<Rightarrow> bytes \<Rightarrow> string \<Rightarrow> 'd machine \<Rightarrow> ('d machine \<times> string list) option" where
  "user_cmd_parser dv msgs wbuf cmd m = do {
     let p_cmd = dropWhile (\<lambda>c. c = CHR '' '') cmd;
     let len = (of_nat (length p_cmd) :: u8);
     if len > USER_CMD_MAX_LEN then Some (m, [])
     else if len = 0 then None
     else do {
       let tmp = take (unat len) p_cmd @ replicate (RTRV_BUF_MAX_SIZE - unat len) NUL;
       let (tmp, len) = (if tmp ! (unat len - 1) = CHR '' '' then (tmp[unat len - 1 := NUL], len - 1) else (tmp, len));
       if CHR 0x0D \<notin> set (text_of tmp) \<and> CHR 0x0A \<notin> set (text_of tmp) then None
       else do {
         (tmp, pBuff, _) \<leftarrow> strtok tmp 0 NL;
         pBuff \<leftarrow> pBuff;
         let num = length (filter (\<lambda>c. c = CHR '' '') (take (unat len) (text_of (drop pBuff tmp))));
         if num \<ge> MAX_PARAM_NUM then Some (m, [])
         else do {
           let echo = debug_msg_format p_cmd;
           (tmp, p_head, q) \<leftarrow> strtok tmp pBuff '' '';
           (tmp, p_param) \<leftarrow> words_at num tmp q;
           p_head \<leftarrow> p_head;
           case map_of (user_cmdhandle dv msgs wbuf) (text_of (drop p_head tmp)) of
             None \<Rightarrow> Some (m, [echo])
           | Some cmd_fun \<Rightarrow> do {
               (m, tmp, r) \<leftarrow> cmd_fun (tmp[0 := NUL]) (p_param @ [Some 0]) m;
               Some (m, [echo, debug_msg_format (if r = OK then text_of tmp @ ''success!'' else ''failure!'')])
             }
         }
       }
     }
   }"

end
