(* ===== verification/FpgaSpec.thy ===== *)
theory FpgaSpec
  imports FpgaCmd OutAddr
begin

text \<open>
  The parser of the data of the FPGA write command: what it takes from a list of bytes in
  hexadecimal, and that it never returns from a text with a space.
\<close>

section \<open>One byte of the list\<close>

lemma rd_at_append: "rd_at (u @ c # r) (length u) = Some c"
  by (simp add: rd_at_def)

lemma index_byte: "k < 256 \<Longrightarrow> unat (of_nat k :: u8) = k"
  by (simp add: unat_of_nat)

lemma digit_no_separator:
  assumes "isxdigit c"
  shows "c \<noteq> NUL" "c \<noteq> CHR '' ''" "c \<noteq> CHR '',''" "c \<noteq> CHR ''.''"
  using assms by (auto simp: is_digit_of_def digit_val_def NUL_def)

lemma loop_digit:
  assumes "isxdigit c" "length u < 256" "k < 3" "k < length pb"
  shows "write_data_loop (u @ c # r) (of_nat (length u)) (of_nat k) pb cnt p =
    write_data_loop (u @ c # r) (of_nat (Suc (length u))) (of_nat (Suc k)) (pb[k := c]) cnt p"
proof -
  have "unat (of_nat k :: u8) = k" using assms(3) by (simp add: index_byte)
  then have "\<not> (of_nat k :: u8) \<ge> 3" using assms(3) by (simp add: word_le_nat_alt)
  then show ?thesis
    using assms digit_no_separator [OF assms(1)]
    by (subst write_data_loop.simps) (simp add: index_byte rd_at_append mem_simps add.commute)
qed

lemma loop_byte:
  assumes "length u + 2 < 256" "length pb = 4"
  shows "write_data_loop (u @ hex2 b @ r) (of_nat (length u)) 0 pb cnt p =
    write_data_loop ((u @ hex2 b) @ r) (of_nat (length (u @ hex2 b))) 2 (hex2 b @ drop 2 pb) cnt p"
proof -
  obtain c d where h: "hex2 b = [c, d]" using hex2_Cons [of b] by auto
  have x: "isxdigit c" "isxdigit d" using hex2_isxdigit [of b] by (simp_all add: h)
  obtain p0 p1 p2 p3 where pb: "pb = [p0, p1, p2, p3]" using assms(2) by (auto simp: numeral_eq_Suc length_Suc_conv)
  have "write_data_loop (u @ hex2 b @ r) (of_nat (length u)) 0 pb cnt p =
      write_data_loop ((u @ [c]) @ d # r) (of_nat (length (u @ [c]))) (of_nat (Suc 0)) (pb[0 := c]) cnt p"
    using loop_digit [OF x(1), of u 0 pb "d # r" cnt p] assms by (simp add: h)
  also have "\<dots> = write_data_loop ((u @ [c]) @ d # r) (of_nat (Suc (length (u @ [c])))) (of_nat (Suc (Suc 0))) (pb[0 := c, Suc 0 := d]) cnt p"
    using loop_digit [OF x(2), of "u @ [c]" "Suc 0" "pb[0 := c]" r cnt p] assms by simp
  finally show ?thesis by (simp add: h pb)
qed

lemma text_of_hex2: "text_of (hex2 b @ NUL # t) = hex2 b"
  using hex2_token [of "CHR ''.''" b] by (simp add: text_of_def takeWhile_to_NUL digit_val_def)

lemma param_byte_hex2: "param_byte (hex2 b @ NUL # t) = b"
  using hex_value_hex2 [of b] by (simp add: param_byte_def text_of_hex2 hex_value_def back_to_byte)

lemma loop_separated:
  assumes "length u + 2 < 256" "length pb = 4" "pb ! 2 = NUL" "n < length p" "n < 256"
  shows "\<exists>pb'. length pb' = 4 \<and> pb' ! 2 = NUL \<and>
    write_data_loop (u @ hex2 b @ CHR '','' # r) (of_nat (length u)) 0 pb (of_nat n) p =
    write_data_loop ((u @ hex2 b @ '','') @ r) (of_nat (length (u @ hex2 b @ '',''))) 0 pb' (of_nat (Suc n)) (p[n := b])"
proof -
  obtain c d where h: "hex2 b = [c, d]" using hex2_Cons [of b] by auto
  obtain p0 p1 p3 where pb: "pb = [p0, p1, NUL, p3]" using assms(2,3) by (auto simp: numeral_eq_Suc length_Suc_conv)
  have "(of_nat (Suc (Suc (length u))) :: u8) + 1 = of_nat (Suc (Suc (Suc (length u))))" by simp
  moreover have "(of_nat (Suc n) :: u8) = 1 + of_nat n" by simp
  moreover have "param_byte [c, d, NUL, p3] = b" using param_byte_hex2 [of b "[p3]"] by (simp add: h)
  moreover have "rd_at (u @ c # d # CHR '','' # r) (Suc (Suc (length u))) = Some CHR '',''"
    using rd_at_append [of "u @ [c, d]"] by simp
  ultimately have "write_data_loop ((u @ hex2 b) @ CHR '','' # r) (of_nat (length (u @ hex2 b))) 2 (hex2 b @ drop 2 pb) (of_nat n) p =
      write_data_loop ((u @ hex2 b @ '','') @ r) (of_nat (length (u @ hex2 b @ '',''))) 0 [c, d, NUL, p3] (of_nat (Suc n)) (p[n := b])"
    using assms(1,4,5)
    by (subst write_data_loop.simps) (simp add: h pb index_byte mem_simps NUL_eq add.commute del: of_nat_Suc)
  then show ?thesis using loop_byte [OF assms(1,2), of b "CHR '','' # r" "of_nat n" p]
    by (intro exI [of _ "[c, d, NUL, p3]"]) simp
qed

section \<open>The whole list\<close>

lemma loop_list:
  assumes "length u + 3 * length bs \<le> 256" "length pb = 4" "pb ! 2 = NUL" "n + length bs \<le> length p" "bs \<noteq> []"
    "n + length bs \<le> 256"
  shows "\<exists>pb'. length pb' = 4 \<and> pb' ! 2 = NUL \<and>
    write_data_loop (u @ joined '','' (map hex2 bs) @ r) (of_nat (length u)) 0 pb (of_nat n) p =
    write_data_loop (u @ joined '','' (map hex2 bs) @ r) (of_nat (length (u @ joined '','' (map hex2 bs)))) 2
      (hex2 (last bs) @ drop 2 pb') (of_nat (n + length bs - 1)) (take n p @ butlast bs @ drop (n + length bs - 1) p)"
  using assms
proof (induction bs arbitrary: u pb n p)
  case (Cons b bs)
  show ?case
  proof (cases "bs = []")
    case True
    have "length u + 2 < 256" using Cons.prems(1) by (simp add: True)
    from loop_byte [OF this Cons.prems(2), of b r "of_nat n" p] Cons.prems(2,3) show ?thesis
      by (intro exI [of _ pb]) (simp add: True)
  next
    case False
    have l: "length u + 2 < 256" "n < length p" "n < 256" using Cons.prems(1,4,6) False
      by (cases bs; simp)+
    obtain pb' where pb': "length pb' = 4" "pb' ! 2 = NUL"
      "write_data_loop (u @ hex2 b @ CHR '','' # (joined '','' (map hex2 bs) @ r)) (of_nat (length u)) 0 pb (of_nat n) p =
       write_data_loop ((u @ hex2 b @ '','') @ joined '','' (map hex2 bs) @ r) (of_nat (length (u @ hex2 b @ '',''))) 0 pb' (of_nat (Suc n)) (p[n := b])"
      using loop_separated [OF l(1) Cons.prems(2,3) l(2,3)] by blast
    have "length (hex2 b) = 2" using hex2_Cons [of b] by auto
    then obtain pb'' where "length pb'' = 4" "pb'' ! 2 = NUL"
      "write_data_loop ((u @ hex2 b @ '','') @ joined '','' (map hex2 bs) @ r) (of_nat (length (u @ hex2 b @ '',''))) 0 pb' (of_nat (Suc n)) (p[n := b]) =
       write_data_loop ((u @ hex2 b @ '','') @ joined '','' (map hex2 bs) @ r) (of_nat (length ((u @ hex2 b @ '','') @ joined '','' (map hex2 bs)))) 2
      (hex2 (last bs) @ drop 2 pb'') (of_nat (Suc n + length bs - 1)) (take (Suc n) (p[n := b]) @ butlast bs @ drop (Suc n + length bs - 1) (p[n := b]))"
      using Cons.IH [of "u @ hex2 b @ '',''" pb' "Suc n" "p[n := b]"] Cons.prems(1,4,6) pb'(1,2) False by auto
    moreover have "take (Suc n) (p[n := b]) = take n p @ [b]" using l(2) by (simp add: take_Suc_conv_app_nth)
    ultimately show ?thesis using pb'(3) False l(2)
      by (intro exI [of _ pb'']) (simp add: joined_Cons)
  qed
qed simp

text \<open>At a space the loop returns to the same state, and so never.\<close>

lemma loop_space:
  assumes "unat i < length t" "t ! unat i = CHR '' ''"
  shows "write_data_loop t i k pb cnt p = None"
proof (rule ccontr)
  assume "write_data_loop t i k pb cnt p \<noteq> None"
  then obtain y where "write_data_loop t i k pb cnt p = Some y" by blast
  then have "unat i < length t \<longrightarrow> t ! unat i \<noteq> CHR '' ''"
    by (rule write_data_loop.raw_induct [rotated, where P = "\<lambda>t i k pb cnt p y. unat i < length t \<longrightarrow> t ! unat i \<noteq> CHR '' ''"])
      (auto simp: rd_at_Some NUL_eq)
  then show False using assms by blast
qed

lemma length_joined_hex: "bs \<noteq> [] \<Longrightarrow> length (joined '','' (map hex2 bs)) = 3 * length bs - 1"
proof (induction bs)
  case (Cons b bs)
  have "length (hex2 b) = 2" using hex2_Cons [of b] by auto
  then show ?case using Cons by (cases bs) (simp_all add: joined_Cons)
qed simp

lemma write_data_bytes:
  assumes "bs \<noteq> []" "length bs \<le> 85" "length bs \<le> length buf"
  shows "fpga_write_data_parser (joined '','' (map hex2 bs) @ [NUL]) buf = Some (OK, bs @ drop (length bs) buf, of_nat (length bs))"
    and "fpga_write_data_parser (joined '','' (map hex2 bs) @ CHR '' '' # r) buf = None"
proof -
  let ?t = "joined '','' (map hex2 bs)"
  have run: "\<exists>pb. length pb = 4 \<and> pb ! 2 = NUL \<and> fpga_write_data_parser (?t @ r) buf =
      write_data_loop (?t @ r) (of_nat (length ?t)) 2 (hex2 (last bs) @ drop 2 pb) (of_nat (length bs - 1))
        (butlast bs @ drop (length bs - 1) buf)" for r
    using loop_list [of "[]" bs "replicate 4 NUL" 0 buf r] assms by (simp add: fpga_write_data_parser_def)
  have l: "length ?t < 256" using length_joined_hex [OF assms(1)] assms(2) by simp
  show "fpga_write_data_parser (?t @ CHR '' '' # r) buf = None"
  proof -
    obtain pb where "fpga_write_data_parser (?t @ CHR '' '' # r) buf =
      write_data_loop (?t @ CHR '' '' # r) (of_nat (length ?t)) 2 (hex2 (last bs) @ drop 2 pb) (of_nat (length bs - 1))
        (butlast bs @ drop (length bs - 1) buf)" using run by blast
    also have "\<dots> = None" by (rule loop_space) (simp_all add: index_byte l)
    finally show ?thesis .
  qed
  obtain pb where pb: "length pb = 4" "pb ! 2 = NUL" "fpga_write_data_parser (?t @ [NUL]) buf =
      write_data_loop (?t @ [NUL]) (of_nat (length ?t)) 2 (hex2 (last bs) @ drop 2 pb) (of_nat (length bs - 1))
        (butlast bs @ drop (length bs - 1) buf)" using run by blast
  obtain d where d: "drop 2 pb = [NUL, d]" using pb(1,2) by (auto simp: numeral_eq_Suc length_Suc_conv)
  obtain n where n: "length bs = Suc n" using assms(1) by (cases bs) auto
  have u: "unat (of_nat n :: u8) = n" using assms(2) n by (simp add: index_byte)
  have "write_data_loop (?t @ [NUL]) (of_nat (length ?t)) 2 (hex2 (last bs) @ drop 2 pb) (of_nat n) (butlast bs @ drop n buf) =
      Some (OK, (butlast bs @ drop n buf)[n := last bs], of_nat (Suc n))"
    using assms(3) n by (subst write_data_loop.simps)
      (simp add: index_byte l rd_at_append u d param_byte_hex2 mem_simps add.commute)
  moreover have "(butlast bs @ drop n buf)[n := last bs] = bs @ drop (Suc n) buf"
  proof -
    have "drop n buf = buf ! n # drop (Suc n) buf" using assms(3) n by (simp add: Cons_nth_drop_Suc)
    moreover have "length (butlast bs) = n" by (simp add: n)
    ultimately have "(butlast bs @ drop n buf)[n := last bs] = butlast bs @ last bs # drop (Suc n) buf"
      by (simp add: list_update_append)
    then show ?thesis using append_butlast_last_id [OF assms(1)] by (metis append.assoc append_Cons append_Nil)
  qed
  ultimately show "fpga_write_data_parser (?t @ [NUL]) buf = Some (OK, bs @ drop (length bs) buf, of_nat (length bs))"
    using pb(3) n by simp
qed

section \<open>The write command\<close>

text \<open>C10. The FPGA write command with a list of up to 85 bytes in hexadecimal, separated by
  commas, sends exactly these bytes to the address; with a space behind a byte the same list keeps
  the parser in its loop for ever.\<close>

theorem fpga_write_cmd_handler_bytes:
  assumes "2 \<le> length bs" "length bs \<le> 85" "length buf = 256" "length ps \<le> 3" "None \<notin> set ps"
    and "t = joined '','' (map hex2 bs)"
  shows "fpga_write_cmd_handler dv buf (Some a # Some (dec (length bs)) # Some t # ps) d =
      Some (SPI_FPGA_BufferWrite dv bs (fst (strtoul a 16)) d) \<and>
    fpga_write_cmd_handler dv buf (Some a # Some (dec (length bs)) # Some (t @ CHR '' '' # r) # ps) d = None"
proof (rule conjI)
  have ne: "bs \<noteq> []" using assms(1) by auto
  have w: "(word_of_int (int (length bs)) :: u8) \<noteq> 1" "unat (of_nat (length bs) :: u8) = length bs"
    using assms(1,2) by (auto simp: index_byte dest!: arg_cong [where f = unat])
  note p = write_data_bytes [OF ne assms(2), of buf]
  show "fpga_write_cmd_handler dv buf (Some a # Some (dec (length bs)) # Some t # ps) d =
      Some (SPI_FPGA_BufferWrite dv bs (fst (strtoul a 16)) d)"
    using w p(1) assms by (simp add: fpga_write_cmd_handler_def MAX_PARAM_NUM_def arg_def atoi_dec Let_def)
  show "fpga_write_cmd_handler dv buf (Some a # Some (dec (length bs)) # Some (t @ CHR '' '' # r) # ps) d = None"
    using w p(2) [of "r @ [NUL]"] assms by (simp add: fpga_write_cmd_handler_def MAX_PARAM_NUM_def arg_def atoi_dec Let_def)
qed

theorem fpga_write_cmd_handler_bytes_witness:
  "fpga_write_cmd_handler reg_file (replicate 256 0) [Some ''45'', Some ''2'', Some ''0a,ff''] ([], \<lambda>a. 0) =
     Some (SPI_FPGA_BufferWrite reg_file [0x0A, 0xFF] (fst (strtoul ''45'' 16)) ([], \<lambda>a. 0)) \<and>
   fpga_write_cmd_handler reg_file (replicate 256 0) [Some ''45'', Some ''2'', Some ''0a,ff ''] ([], \<lambda>a. 0) = None"
proof -
  have t: "''0a,ff'' = joined '','' (map hex2 [0x0A, 0xFF])" by code_simp
  have l: "dec (length [0x0A, 0xFF :: u8]) = ''2''" by code_simp
  note w = fpga_write_cmd_handler_bytes [where bs = "[0x0A, 0xFF]" and buf = "replicate 256 0" and ps = "[]" and t = "''0a,ff''"
      and dv = reg_file and a = "''45''" and d = "([], \<lambda>a. 0)", unfolded l]
  show ?thesis using w [OF _ _ _ _ _ t, of "[]"] by simp
qed

end
