(* ===== verification/OutSpec.thy ===== *)
theory OutSpec
  imports OutCommands FpgaSpec
begin

text \<open>
  The properties of the output settings: what a user who sets a value and asks for it sees, the
  delay of the 1PPS signal, the table of unicast slaves, and the texts whose handling is undefined.
\<close>

section \<open>Settings and queries\<close>

lemma own_registers: "distinct (concat (map (\<lambda>(h, ws, rs, f, g, T). rs) (setting_commands dv)))"
  by (simp add: setting_commands_def OUT_B_OFFSET_REG_def OUT_TOD_OFFSET_REG_def PTP_MAC_REG_def PTP_IP_REG_def
      PTP_MASK_REG_def PTP_GATEWAY_REG_def)

text \<open>The texts that the query repeats as they were set: delays that are no multiple of eight, hardware
  addresses, three zones and one interval are answered with another text.\<close>

definition answered_as_set :: "string list \<Rightarrow> string \<Rightarrow> bool" where
  "answered_as_set ws t \<longleftrightarrow>
     (ws = [''b'', ''c''] \<or> ws = [''p'', ''c''] \<longrightarrow> atoi t mod 8 = 0) \<and> ws \<noteq> [''-s''] \<and>
     (ws = [''b'', ''z''] \<longrightarrow> t \<noteq> ''utc+10'' \<and> t \<noteq> ''utc+11'' \<and> t \<noteq> ''utc+12'') \<and>
     (ws = [''p'', ''ai''] \<or> ws = [''p'', ''si''] \<longrightarrow> t \<noteq> ''16'')"

lemma rounded_same: "rounded n = n \<longleftrightarrow> n mod 8 = 0"
proof (cases "n < 0")
  case True
  have "- (- n div 8 * 8) = n \<longleftrightarrow> - n mod 8 = 0" using minus_mod_eq_div_mult [of "- n" 8] by linarith
  also have "\<dots> \<longleftrightarrow> n mod 8 = 0" by (metis dvd_eq_mod_eq_0 dvd_minus_iff)
  finally show ?thesis using True by (simp add: rounded_def)
next
  case False
  then show ?thesis using minus_mod_eq_div_mult [of n 8] by (auto simp: rounded_def sgn_if)
qed

lemma shown_delay_same: "t \<in> delays \<Longrightarrow> shown_delay t = t \<longleftrightarrow> atoi t mod 8 = 0"
proof -
  assume "t \<in> delays"
  then obtain n where "t = sdec n" by (auto simp: delays_def)
  then show ?thesis using rounded_same [of n] atoi_sdec by (auto simp: shown_delay_def) (metis atoi_sdec)
qed

lemma dashed_other: "t \<in> macs \<Longrightarrow> dashed t \<noteq> t"
proof -
  assume "t \<in> macs"
  then obtain bs where bs: "t = concat (map hex2 bs)" "length bs = 6" by (auto simp: macs_def)
  then obtain a b c d e f where l: "bs = [a, b, c, d, e, f]" by (auto simp: numeral_eq_Suc length_Suc_conv)
  have "length (hex2 x) = 2" for x using hex2_Cons [of x] by auto
  moreover have "dashed t = joined ''-'' (map hex2 bs)" by (simp add: dashed_def bs(1) pairs_hex)
  ultimately have "length (dashed t) \<noteq> length t" by (simp add: bs(1) l)
  then show ?thesis by metis
qed

lemma answers_same:
  assumes "(h, ws, rs, f, g, T) \<in> set (setting_commands dv)" "t \<in> T"
  shows "f t = t \<longleftrightarrow> answered_as_set ws t"
proof -
  have "list_all (\<lambda>(h, ws, rs, f, g, T). \<forall>t \<in> T. f t = t \<longleftrightarrow> answered_as_set ws t) (setting_commands dv)"
    unfolding setting_commands_def
    by (simp add: answered_as_set_def shown_delay_same dashed_other) (auto simp: shown_zone_def shown_interval_def)
  then show ?thesis using assms by (fastforce simp: list_all_iff)
qed


definition start_settings :: "(bytes \<times> (u32 \<Rightarrow> u8)) xgm" where
  "start_settings =
     \<lparr>fpga = ([], \<lambda>a. 0),
      net_par = \<lparr>ptp_mac = replicate 6 0, ptp_ipaddr = 0, ptp_submask = 0, ptp_gateway = 0, vlan_enable = 0, vlan_cfi = 0,
        vlan_pcp = 0, vlan_vid = 0\<rparr>,
      mode_par = \<lparr>sync_frequency = 0, anounce_frequency = 0, domain = 0, protocol = 0, priority1 = 0, priority2 = 0,
        port_enable = 0, esmc_enable = 0, delay_type = 0, unicast = 0, encode_package = 0, step_type = 0, flag_freq_trac = 0,
        flag_time_trac = 0, flag_time_scale = 0, flag_leap59 = 0, flag_leap61 = 0, time_source = 0, esmc_ssm = 0,
        clock_class = [0, 0, 0], utc_offset = 0, ntp_en = 0\<rparr>,
      out_par = \<lparr>delay_irigb_com = 0, delay_pps_tod_com = 0, signal_type = 0, pps_status = 0, tod_jitter = 0,
        tod_clock_type = 0, tod_clock_status = 0, tod_moni_alarm = 0, time_zone = 0, flag_leappre = 0, daylight_pre = 0,
        clock_quality = 0\<rparr>,
      gnss_delay = 0,
      arp_table = replicate 3 \<lparr>arp_reseved = 0, arp_time_out = 0, arp_flag = 0, arp_mac = replicate 6 0, arp_ip = replicate 4 0\<rparr>\<rparr>"


section \<open>The delay of the 1PPS signal\<close>

text \<open>The 1PPS delay is refused without effect beyond one millisecond; within, it is read
  back rounded towards zero to a multiple of eight nanoseconds, never off by eight or more and never
  of the other sign, and only its four registers change.\<close>

theorem gps_pps_offset_roundtrip:
  assumes "fpga_ok dv regs" "gnss_set_gps_pps_offset dv n s = (s1, r)" "gnss_get_gps_pps_offset dv s1 = (s2, m)"
  shows "if \<bar>n\<bar> > 1000000 then s1 = s \<and> r = NG
    else r = OK \<and> m = rounded n \<and> gnss_delay s2 = m \<and> \<bar>n - m\<bar> < 8 \<and> n * m \<ge> 0 \<and> 8 dvd m \<and>
      (\<forall>a. a \<notin> set GNSS_GPS_PPS_OFFSET_REG \<longrightarrow> regs (fpga s2) a = regs (fpga s) a)"
proof (cases "\<bar>n\<bar> > 1000000")
  case True
  then show ?thesis using assms(2) by (auto simp: gnss_set_gps_pps_offset_def split: if_splits)
next
  case False
  let ?R = "GNSS_GPS_PPS_OFFSET_REG"
  have c: "\<not> (n > 1000000 \<or> n < - 1000000)" using False by auto
  define d1 where "d1 = dev_writes dv (zip (delay_bytes n) ?R) (fpga s)"
  have s1: "s1 = s\<lparr>gnss_delay := n, fpga := d1\<rparr>" "r = OK"
    using assms(2) c by (simp_all add: gnss_set_gps_pps_offset_def reg_writes_ok [OF assms(1)] d1_def)
  have r1: "regs d1 = regs_set (zip (delay_bytes n) ?R) (regs (fpga s))" unfolding d1_def by (rule dev_writes_regs [OF assms(1)])
  have l: "length (delay_bytes n) = length ?R" by (simp add: delay_bytes_def GNSS_GPS_PPS_OFFSET_REG_def Let_def)
  have "distinct ?R" by (simp add: GNSS_GPS_PPS_OFFSET_REG_def)
  then have b: "map (regs d1) ?R = delay_bytes n"
    using regs_set_map [of "zip (delay_bytes n) ?R" "regs (fpga s)"] l by (simp add: r1)
  then have bs: "regs d1 (?R ! 0) # map (regs d1) (tl ?R) = delay_bytes n" by (simp add: GNSS_GPS_PPS_OFFSET_REG_def)
  have m: "m = rounded n" and s2: "gnss_delay s2 = rounded n" "regs (fpga s2) = regs d1"
    using assms(3) bs delay_round [of n] False
    by (auto simp: gnss_get_gps_pps_offset_def rd_regs [OF assms(1)] reg_reads_ok [OF assms(1)] dev_reads_regs [OF assms(1)]
        case_prod_beta Let_def s1)
  have "snd ` set (zip (delay_bytes n) ?R) = set ?R" using l by (metis map_snd_zip set_map)
  then have "\<forall>a. a \<notin> set ?R \<longrightarrow> regs (fpga s2) a = regs (fpga s) a" by (simp add: s2 r1 regs_set_other)
  moreover have "\<bar>n - rounded n\<bar> < 8 \<and> 8 dvd rounded n" by (auto simp: rounded_def sgn_if)
  moreover have "n * rounded n = \<bar>n\<bar> * (\<bar>n\<bar> div 8 * 8)" by (simp add: rounded_def sgn_if)
  then have "n * rounded n \<ge> 0" by (simp add: pos_imp_zdiv_nonneg_iff)
  ultimately show ?thesis using False s1(2) m s2(1) by simp
qed

theorem gps_pps_offset_roundtrip_witness:
  "case gnss_set_gps_pps_offset reg_file (-1234) start_settings of (s1, r) \<Rightarrow>
     r = OK \<and> snd (gnss_get_gps_pps_offset reg_file s1) = -1232"
proof -
  obtain s1 r where set: "gnss_set_gps_pps_offset reg_file (-1234) start_settings = (s1, r)" by force
  obtain s2 m where get: "gnss_get_gps_pps_offset reg_file s1 = (s2, m)" by force
  show ?thesis using gps_pps_offset_roundtrip [OF reg_file_ok set get] by (simp add: set get rounded_def)
qed

section \<open>The table of unicast slaves\<close>

definition arp_address :: "bytes \<Rightarrow> arp_entry" where
  "arp_address bs = \<lparr>arp_reseved = 0, arp_time_out = 0, arp_flag = 0, arp_mac = replicate 6 0, arp_ip = bs\<rparr>"

lemma ufs_add_quad:
  assumes "length bs = 4"
  shows "ptp_ufs_add dv (Some (quad bs)) s = (if free_entry (arp_table s) < length (arp_table s) then
      (let i = free_entry (arp_table s);
           (d, r) = SPI_FPGA_BufferWrite dv (arp_bytes (arp_address bs)) (PTP_MTC_START_ADDR + of_nat i) (fpga s) in
       Some (s\<lparr>fpga := d, arp_table := (arp_table s)[i := arp_address bs]\<rparr>, r)) else None)"
  by (simp add: ptp_ufs_add_def set_partial_def get_decimalip_value_quad assms ip_bytes_word arp_address_def wr_at_def Let_def)

lemma ufs_del_quad:
  assumes "length bs = 4"
  shows "ptp_ufs_del dv (Some (quad bs)) s =
     (let i = length (takeWhile (\<lambda>e. arp_ip e \<noteq> bs) (arp_table s)) in
      if i < length (arp_table s) then
      (let (d, r) = SPI_FPGA_BufferWrite dv (arp_bytes (arp_address (replicate 4 0))) (PTP_MTC_START_ADDR + of_nat i) (fpga s) in
       Some (s\<lparr>fpga := d, arp_table := (arp_table s)[i := arp_address (replicate 4 0)]\<rparr>, r)) else None)"
  by (simp add: ptp_ufs_del_def set_partial_def get_decimalip_value_quad assms ip_bytes_word arp_address_def wr_at_def Let_def)

lemma takeWhile_update:
  assumes "\<forall>x \<in> set xs. P x" "\<not> P y" "i < length xs"
  shows "takeWhile P (xs[i := y]) = take i xs"
proof -
  have "\<And>x. x \<in> set (take i xs) \<Longrightarrow> P x" using assms(1) by (meson in_set_takeD)
  then show ?thesis using assms(2,3) by (simp add: upd_conv_take_nth_drop takeWhile_append2)
qed

text \<open>C38. Adding a slave address that is not in the table puts it into the first free entry and
  leaves the others; deleting it afterwards clears that entry again, whatever the transfers to the
  FPGA return.\<close>

theorem ptp_ufs_add_del:
  assumes "length bs = 4" "\<forall>e \<in> set (arp_table s). arp_ip e \<noteq> bs"
    and "i < length (arp_table s)" "arp_ip (arp_table s ! i) ! 0 = 0" "\<forall>j < i. arp_ip (arp_table s ! j) ! 0 \<noteq> 0"
  shows "\<exists>s1 r1 s2 r2.
    ptp_ufs_add dv (Some (quad bs)) s = Some (s1, r1) \<and> arp_table s1 = (arp_table s)[i := arp_address bs] \<and>
    ptp_ufs_del dv (Some (quad bs)) s1 = Some (s2, r2) \<and> arp_table s2 = (arp_table s)[i := arp_address (replicate 4 0)]"
proof -
  let ?tb = "arp_table s"
  have "takeWhile (\<lambda>e. arp_ip e ! 0 \<noteq> 0) ?tb = take i ?tb"
    by (rule takeWhile_eq_take_P_nth) (use assms(4,5) in auto)
  then have free: "free_entry ?tb = i" using assms(3) by (simp add: free_entry_def)
  obtain d r where w: "SPI_FPGA_BufferWrite dv (arp_bytes (arp_address bs)) (PTP_MTC_START_ADDR + of_nat i) (fpga s) = (d, r)"
    by force
  let ?s1 = "s\<lparr>fpga := d, arp_table := ?tb[i := arp_address bs]\<rparr>"
  have "takeWhile (\<lambda>e. arp_ip e \<noteq> bs) (?tb[i := arp_address bs]) = take i ?tb"
    by (rule takeWhile_update) (use assms(2,3) in \<open>simp_all add: arp_address_def\<close>)
  then have "ptp_ufs_del dv (Some (quad bs)) ?s1 =
      (let (d, r) = SPI_FPGA_BufferWrite dv (arp_bytes (arp_address (replicate 4 0))) (PTP_MTC_START_ADDR + of_nat i) d in
       Some (?s1\<lparr>fpga := d, arp_table := ?tb[i := arp_address (replicate 4 0)]\<rparr>, r))"
    using assms(3) by (simp add: ufs_del_quad [OF assms(1)])
  moreover have "ptp_ufs_add dv (Some (quad bs)) s = Some (?s1, r)"
    using assms(3) w by (simp add: ufs_add_quad [OF assms(1)] free)
  ultimately show ?thesis by (auto simp: case_prod_beta Let_def)
qed

theorem ptp_ufs_add_del_witness:
  "\<exists>s1 r1 s2 r2.
    ptp_ufs_add reg_file (Some ''192.168.1.7'') start_settings = Some (s1, r1) \<and>
    arp_ip (arp_table s1 ! 0) = [192, 168, 1, 7] \<and>
    ptp_ufs_del reg_file (Some ''192.168.1.7'') s1 = Some (s2, r2) \<and> arp_table s2 = arp_table start_settings"
proof -
  have q: "quad [192, 168, 1, 7] = ''192.168.1.7''" by code_simp
  have e: "arp_table start_settings = replicate 3 (arp_address (replicate 4 0))"
    by (simp add: start_settings_def arp_address_def numeral_eq_Suc)
  have "\<exists>s1 r1 s2 r2.
      ptp_ufs_add reg_file (Some ''192.168.1.7'') start_settings = Some (s1, r1) \<and>
      arp_table s1 = (arp_table start_settings)[0 := arp_address [192, 168, 1, 7]] \<and>
      ptp_ufs_del reg_file (Some ''192.168.1.7'') s1 = Some (s2, r2) \<and>
      arp_table s2 = (arp_table start_settings)[0 := arp_address (replicate 4 0)]"
    unfolding q [symmetric] by (rule ptp_ufs_add_del) (simp_all add: e arp_address_def numeral_eq_Suc)
  moreover have "(arp_table start_settings)[0 := arp_address (replicate 4 0)] = arp_table start_settings"
    by (simp add: e numeral_eq_Suc)
  moreover have "arp_ip ((arp_table start_settings)[0 := arp_address [192, 168, 1, 7]] ! 0) = [192, 168, 1, 7]"
    by (simp add: e arp_address_def)
  ultimately show ?thesis by metis
qed

section \<open>Undefined texts\<close>

text \<open>A leading dot is skipped by \<open>strtok\<close>, so the fourth number is missing.\<close>

lemma strtok_skip: "strtok (u @ d # t) (length u) [d] = strtok (u @ d # t) (length (u @ [d])) [d]"
  by (simp add: strtok_def Let_def rd_at_def)

lemma get_decimalip_value_dot:
  assumes "length bs = 3"
  shows "get_decimalip_value (CHR ''.'' # quad bs) = None"
proof -
  obtain a b c where bs: "bs = [a, b, c]" using assms by (auto simp: numeral_eq_Suc length_Suc_conv)
  let ?A = "dec (unat a)" and ?B = "dec (unat b)" and ?C = "dec (unat c)"
  let ?t = "CHR ''.'' # quad bs"
  have dot: "digit_val CHR ''.'' = None" by (simp add: digit_val_def)
  have q: "quad bs = joined ''.'' [?A, ?B, ?C]" by (simp add: quad_def bs)
  have j: "\<exists>x y. joined ''.'' [?A, ?B, ?C] = x # y \<and> isdigit x"
    using dec_Cons [of "unat a"] by auto
  have l: "length (dec (unat (x :: u8))) \<le> 3" for x using dec_length_le [of "unat x" 3] unat8_lt [of x] by simp
  have "length ?t \<le> 15" using l [of a] l [of b] l [of c] by (simp add: q)
  moreover have "sep_chars CHR ''.'' isdigit ?t 1 = Some 4"
  proof -
    obtain x y where x: "quad bs = x # y" "isdigit x" using j q by auto
    have "x \<noteq> CHR ''.''" using x(2) by (auto simp: is_digit_of_def dot)
    then have "sep_chars CHR ''.'' isdigit ?t 1 = sep_chars CHR ''.'' isdigit (quad bs) (Suc 1)" using x by simp
    also have "\<dots> = Some 4" unfolding q
      by (subst sep_chars_joined) (auto simp: dec_nonempty dec_isdigit_all is_digit_of_def dot)
    finally show ?thesis .
  qed
  moreover have tok: "dec n \<noteq> []" "set (dec n) \<inter> {NUL, CHR ''.''} = {}" "CHR ''.'' \<noteq> NUL" for n
    using dec_token [OF dot, of n] by (simp_all add: NUL_def)
  let ?u1 = "''.''" and ?u2 = "''.'' @ ?A @ [NUL]" and ?u3 = "(''.'' @ ?A @ [NUL]) @ ?B @ [NUL]"
  have "strtok (?t @ [NUL]) 0 ''.'' = Some (?u2 @ joined ''.'' [?B, ?C] @ [NUL], Some (length ?u1), length ?u2)"
    using strtok_skip [of "[]" "CHR ''.''" "joined ''.'' [?A, ?B, ?C] @ [NUL]"] strtok_joined [OF tok, of ?u1 "unat a" "[?B, ?C]"]
    by (simp add: q)
  moreover have "strtok (?u2 @ joined ''.'' [?B, ?C] @ [NUL]) (length ?u2) ''.'' =
      Some (?u3 @ joined ''.'' [?C] @ [NUL], Some (length ?u2), length ?u3)"
    using strtok_joined [OF tok, of ?u2 "unat b" "[?C]"] by simp
  moreover have "strtok (?u3 @ joined ''.'' [?C] @ [NUL]) (length ?u3) ''.'' =
      Some (?u3 @ ?C @ [NUL], Some (length ?u3), length (?u3 @ ?C))"
    using strtok_joined [OF tok, of ?u3 "unat c" "[]"] by simp
  moreover have "strtok (?u3 @ ?C @ [NUL]) (length (?u3 @ ?C)) ''.'' = Some (?u3 @ ?C @ [NUL], None, length (?u3 @ ?C))"
    by (simp add: strtok_def rd_at_def NUL_def)
  ultimately show ?thesis
    unfolding get_decimalip_value_def by (simp add: atoi_at_def del: append_assoc length_append)
qed

text \<open>An address with a leading dot before three numbers passes the check of its characters, and
  the conversion of the fourth number then follows a null pointer, in every command that takes an
  address. An address is also written behind the table of slaves when the table is full, and behind
  it when an address that it does not hold is deleted.\<close>

theorem address_commands_undefined:
  assumes "length bs = 3" "length cs = 4" "\<forall>e \<in> set (arp_table s). arp_ip e ! 0 \<noteq> 0" "\<forall>e \<in> set (arp_table s). arp_ip e \<noteq> cs"
  shows "ptp_ip_parser dv (Some (CHR ''.'' # quad bs)) s = None \<and>
    ptp_mask_parser dv (Some (CHR ''.'' # quad bs)) s = None \<and>
    ptp_gateway_parser dv (Some (CHR ''.'' # quad bs)) s = None \<and>
    ptp_ufs_add dv (Some (CHR ''.'' # quad bs)) s = None \<and> ptp_ufs_del dv (Some (CHR ''.'' # quad bs)) s = None \<and>
    ptp_ufs_add dv (Some (quad cs)) s = None \<and> ptp_ufs_del dv (Some (quad cs)) s = None"
proof -
  note dot = get_decimalip_value_dot [OF assms(1)]
  have a: "ptp_ip_parser dv (Some (CHR ''.'' # quad bs)) s = None" "ptp_mask_parser dv (Some (CHR ''.'' # quad bs)) s = None"
    "ptp_gateway_parser dv (Some (CHR ''.'' # quad bs)) s = None"
    "ptp_ufs_add dv (Some (CHR ''.'' # quad bs)) s = None" "ptp_ufs_del dv (Some (CHR ''.'' # quad bs)) s = None"
    by (simp_all add: ptp_ip_parser_def ptp_mask_parser_def ptp_gateway_parser_def address_set_def ptp_ufs_add_def
        ptp_ufs_del_def set_partial_def dot)
  have "free_entry (arp_table s) = length (arp_table s)"
    using assms(3) by (simp add: free_entry_def takeWhile_eq_all_conv [THEN iffD2])
  then have b: "ptp_ufs_add dv (Some (quad cs)) s = None" by (simp add: ufs_add_quad [OF assms(2)])
  have "takeWhile (\<lambda>e. arp_ip e \<noteq> cs) (arp_table s) = arp_table s" using assms(4) by (simp add: takeWhile_eq_all_conv)
  then have c: "ptp_ufs_del dv (Some (quad cs)) s = None" by (simp add: ufs_del_quad [OF assms(2)] del: takeWhile_eq_all_conv)
  show ?thesis using a b c by blast
qed

definition full_settings :: "(bytes \<times> (u32 \<Rightarrow> u8)) xgm" where
  "full_settings = start_settings\<lparr>arp_table := [arp_address [10, 0, 0, 9]]\<rparr>"

theorem address_commands_undefined_witness:
  "ptp_ip_parser reg_file (Some ''.10.0.1'') full_settings = None \<and>
   ptp_ufs_add reg_file (Some ''10.0.0.1'') full_settings = None \<and>
   ptp_ufs_del reg_file (Some ''10.0.0.1'') full_settings = None"
proof -
  have q: "CHR ''.'' # quad [10, 0, 1] = ''.10.0.1''" "quad [10, 0, 0, 1] = ''10.0.0.1''" by code_simp+
  have t: "\<forall>e \<in> set (arp_table full_settings). arp_ip e ! 0 \<noteq> 0"
    "\<forall>e \<in> set (arp_table full_settings). arp_ip e \<noteq> [10, 0, 0, 1]" by (simp_all add: full_settings_def arp_address_def)
  show ?thesis
    using address_commands_undefined [of "[10, 0, 1]" "[10, 0, 0, 1]", OF _ _ t, of reg_file] by (simp add: q)
qed

end
