(* ===== verification/GnssAvail.thy ===== *)
theory GnssAvail
  imports GnssHandler
begin

text \<open>
  The supervision of the receiver as a state machine: one check per second, and between two checks
  any change of the rest of the state. What the register shows is a filter over the history of the
  checks.
\<close>

section \<open>Histories\<close>

definition usable :: "('d \<Rightarrow> u32 \<Rightarrow> u8) \<Rightarrow> 'd machine \<Rightarrow> bool" where
  "usable regs m \<longleftrightarrow> gp_enable (gnssdev m) = 1 \<and> regs (fpga (settings m)) GNSS_ALARM_REG_ADDR AND 3 = 0 \<and>
     pps_info (info_of m) ! 0 = CHR ''3''"

text \<open>The states that are reached from a start with both counters zero, with the outcomes of the
  checks, the latest first.\<close>

inductive supervised :: "'d fpga_dev \<Rightarrow> ('d \<Rightarrow> u32 \<Rightarrow> u8) \<Rightarrow> u8 \<Rightarrow> bool list \<Rightarrow> 'd machine \<Rightarrow> bool"
  for dv :: "'d fpga_dev" and regs :: "'d \<Rightarrow> u32 \<Rightarrow> u8" and v0 :: u8 where
  start: "avail_count m = 0 \<Longrightarrow> unavail_count m = 0 \<Longrightarrow> regs (fpga (settings m)) GNSS_PPS_AVAIL_REG_ADDR = v0 \<Longrightarrow>
    supervised dv regs v0 [] m"
| environment: "supervised dv regs v0 hs m \<Longrightarrow> avail_count m' = avail_count m \<Longrightarrow> unavail_count m' = unavail_count m \<Longrightarrow>
    regs (fpga (settings m')) GNSS_PPS_AVAIL_REG_ADDR = regs (fpga (settings m)) GNSS_PPS_AVAIL_REG_ADDR \<Longrightarrow>
    supervised dv regs v0 hs m'"
| check: "supervised dv regs v0 hs m \<Longrightarrow> supervised dv regs v0 (usable regs m # hs) (check_gnss_available dv m)"

text \<open>How often the latest outcome came in a row, and the value the filter shows: that of the last
  outcome that came more than sixty times in a row, the initial one before.\<close>

definition in_row :: "bool \<Rightarrow> bool list \<Rightarrow> nat" where "in_row b hs = length (takeWhile (\<lambda>h. h = b) hs)"

fun filtered :: "u8 \<Rightarrow> bool list \<Rightarrow> u8" where
  "filtered v [] = v"
| "filtered v (b # hs) = (if 60 < in_row b (b # hs) then (if b then 1 else 0) else filtered v hs)"

lemma in_row_Cons [simp]: "in_row b (h # hs) = (if h = b then Suc (in_row b hs) else 0)"
  by (simp add: in_row_def)

lemma in_row_Nil [simp]: "in_row b [] = 0"
  by (simp add: in_row_def)

section \<open>One check\<close>

definition counted :: "nat \<Rightarrow> u8" where "counted n = of_nat (min 60 n)"

lemma counted_less: "counted n < GNSS_PPS_AVAIL_FITER \<longleftrightarrow> n < 60"
  by (simp add: counted_def word_less_nat_alt unat_of_nat min_def)

lemma counted_Suc: "n < 60 \<Longrightarrow> counted n + 1 = counted (Suc n)"
  by (simp add: counted_def add.commute)

lemma counted_full: "\<not> n < 60 \<Longrightarrow> counted (Suc n) = counted n"
  by (simp add: counted_def)

lemma counted_0: "counted 0 = 0"
  by (simp add: counted_def)

lemma gnss_usable_ok:
  assumes "fpga_ok dv regs"
  obtains d where "gnss_usable dv m = (d, usable regs m)" "regs d = regs (fpga (settings m))"
proof -
  obtain d r where d: "SPI_FPGA_ByteRead dv GNSS_ALARM_REG_ADDR (fpga (settings m)) = (d, r)" by force
  then have "r = Some (regs (fpga (settings m)) GNSS_ALARM_REG_ADDR)" "regs d = regs (fpga (settings m))"
    using ByteRead_regs [OF assms, of GNSS_ALARM_REG_ADDR "fpga (settings m)"] by simp_all
  then show thesis using d that by (cases "gp_enable (gnssdev m) = 1") (simp_all add: gnss_usable_def usable_def)
qed

lemma check_step:
  fixes m :: "'d machine"
  assumes "fpga_ok dv regs" "avail_count m = counted p" "unavail_count m = counted n"
  defines "m' \<equiv> check_gnss_available dv m"
  shows "avail_count m' = counted (if usable regs m then Suc p else 0)"
    and "unavail_count m' = counted (if usable regs m then 0 else Suc n)"
    and "regs (fpga (settings m')) GNSS_PPS_AVAIL_REG_ADDR =
      (if usable regs m \<and> 60 \<le> p then 1 else if \<not> usable regs m \<and> 60 \<le> n then 0
       else regs (fpga (settings m)) GNSS_PPS_AVAIL_REG_ADDR)"
proof -
  obtain d where d: "gnss_usable dv m = (d, usable regs m)" "regs d = regs (fpga (settings m))"
    using gnss_usable_ok [OF assms(1)] .
  have w: "regs (fst (SPI_FPGA_ByteWrite dv v GNSS_PPS_AVAIL_REG_ADDR d)) GNSS_PPS_AVAIL_REG_ADDR = v" for v
    by (simp add: ByteWrite_regs(2) [OF assms(1)])
  have t: "avail_count m' = counted (if usable regs m then Suc p else 0) \<and>
    unavail_count m' = counted (if usable regs m then 0 else Suc n) \<and>
    regs (fpga (settings m')) GNSS_PPS_AVAIL_REG_ADDR =
      (if usable regs m \<and> 60 \<le> p then 1 else if \<not> usable regs m \<and> 60 \<le> n then 0
       else regs (fpga (settings m)) GNSS_PPS_AVAIL_REG_ADDR)"
    unfolding m'_def check_gnss_available_def d(1)
    by (cases "usable regs m"; cases "p < 60"; cases "n < 60")
      (simp_all add: d(2) w assms(2,3) counted_less counted_Suc counted_full counted_0 Let_def)
  then show "avail_count m' = counted (if usable regs m then Suc p else 0)"
    "unavail_count m' = counted (if usable regs m then 0 else Suc n)"
    "regs (fpga (settings m')) GNSS_PPS_AVAIL_REG_ADDR =
      (if usable regs m \<and> 60 \<le> p then 1 else if \<not> usable regs m \<and> 60 \<le> n then 0
       else regs (fpga (settings m)) GNSS_PPS_AVAIL_REG_ADDR)" by blast+
qed

section \<open>The filter\<close>

text \<open>C13. Whatever happens between the checks, the availability register shows the filtered history:
  it changes only to the outcome of 61 checks in a row, in the check that completes them, and keeps
  its value through every shorter run. The two counters are the lengths of the current runs, never
  above 60, and one of them is zero.\<close>

theorem check_gnss_available_filters:
  assumes "fpga_ok dv regs" "supervised dv regs v0 hs m"
  shows "regs (fpga (settings m)) GNSS_PPS_AVAIL_REG_ADDR = filtered v0 hs \<and>
    avail_count m = of_nat (min 60 (in_row True hs)) \<and> unavail_count m = of_nat (min 60 (in_row False hs)) \<and>
    (avail_count m = 0 \<or> unavail_count m = 0)"
  using assms(2)
proof (induction rule: supervised.induct)
  case (start m)
  then show ?case by simp
next
  case (environment hs m m')
  show ?case unfolding environment.hyps using environment.IH .
next
  case (check hs m)
  note s = check_step [OF assms(1), of m "in_row True hs" "in_row False hs", unfolded counted_def]
  show ?case using check.IH s by (cases "usable regs m") (simp_all add: less_Suc_eq_le)
qed

definition start_machine :: "(bytes \<times> (u32 \<Rightarrow> u8)) machine" where
  "start_machine =
     \<lparr>settings = \<lparr>fpga = ([], \<lambda>a. 0),
        net_par = \<lparr>ptp_mac = [], ptp_ipaddr = 0, ptp_submask = 0, ptp_gateway = 0, vlan_enable = 0, vlan_cfi = 0,
          vlan_pcp = 0, vlan_vid = 0\<rparr>,
        mode_par = \<lparr>sync_frequency = 0, anounce_frequency = 0, domain = 0, protocol = 0, priority1 = 0, priority2 = 0,
          port_enable = 0, esmc_enable = 0, delay_type = 0, unicast = 0, encode_package = 0, step_type = 0, flag_freq_trac = 0,
          flag_time_trac = 0, flag_time_scale = 0, flag_leap59 = 0, flag_leap61 = 0, time_source = 0, esmc_ssm = 0,
          clock_class = [0, 0, 0], utc_offset = 0, ntp_en = 0\<rparr>,
        out_par = \<lparr>delay_irigb_com = 0, delay_pps_tod_com = 0, signal_type = 0, pps_status = 0, tod_jitter = 0,
          tod_clock_type = 0, tod_clock_status = 0, tod_moni_alarm = 0, time_zone = 0, flag_leappre = 0, daylight_pre = 0,
          clock_quality = 0\<rparr>,
        gnss_delay = 0, arp_table = []\<rparr>,
      gnssdev = \<lparr>rx = \<lparr>g_gnss_info = \<lparr>mode_info = replicate 17 NUL, time_info = replicate 22 NUL, loc_info = replicate 56 NUL,
            sat_len = 0, sat_info = replicate 400 NUL, leap_info = replicate 28 NUL, pps_info = ''3;'' @ [NUL],
            ant_info = replicate 6 NUL, ver_info = replicate 30 NUL\<rparr>,
          g_leap = \<lparr>now_leap = 18, next_leap = 18, leap_sign = 0,
            leap_time = \<lparr>time_hms = replicate 7 NUL, time_day = 0, time_mon = 0, time_year = 0\<rparr>\<rparr>,
          post_sats = 0, rec_type = 0, g_save_cmd = \<lparr>cmd_num = 0, cmd_index = replicate 5 0, cmd_buf = replicate 50 NUL\<rparr>,
          cmd_cnt = 0, reply_sem = 0, echo_switch = 0, init_finished = 0, cmd_send_flag = 0\<rparr>,
        gp_enable = 1, gp_mode = 1, gp_priority = ''1234'', sent = []\<rparr>,
      debug_switch = 0, debug_level = 0, roll_switch = 0, avail_count = 0, unavail_count = 0\<rparr>"

text \<open>The first check of the machine of the example, in which the receiver reports its pulse as
  usable.\<close>

lemma check_gnss_available_filters_witness:
  defines "m \<equiv> check_gnss_available reg_file start_machine"
  shows "snd (fpga (settings m)) 0x41 = filtered 0 [True] \<and> avail_count m = 1 \<and> unavail_count m = 0"
proof -
  have "supervised reg_file snd 0 [] start_machine" by (rule start) (simp_all add: start_machine_def)
  moreover have "usable snd start_machine" by (simp add: usable_def start_machine_def)
  ultimately have "supervised reg_file snd 0 [True] m" unfolding m_def by (metis check)
  from check_gnss_available_filters [OF reg_file_ok this] show ?thesis by simp
qed

end
