(* ===== verification/ConsoleSpec.thy ===== *)
theory ConsoleSpec
  imports UserCmd OutSpec GnssAvail
begin

text \<open>
  What a user of the console sees: how a line is cut into words, and the settings of the outputs
  from the line typed to the line printed.
\<close>

section \<open>Words\<close>

definition plain :: "string \<Rightarrow> bool" where
  "plain t \<longleftrightarrow> t \<noteq> [] \<and> set t \<inter> {NUL, CHR '' '', CHR 0x0D, CHR 0x0A} = {}"

definition line :: "string list \<Rightarrow> string" where "line ws = joined '' '' ws @ NL"

lemma joined_blank_Cons: "ts \<noteq> [] \<Longrightarrow> joined '' '' (t # ts) = t @ CHR '' '' # joined '' '' ts"
  by (cases ts) auto

lemma plain_NUL: "plain t \<Longrightarrow> NUL \<notin> set t"
  by (auto simp: plain_def)

lemma strtok_word:
  assumes "plain t"
  shows "strtok (u @ joined '' '' (t # ts) @ NUL # z) (length u) '' '' =
    Some (u @ t @ NUL # (if ts = [] then z else joined '' '' ts @ NUL # z), Some (length u),
      length u + length t + (if ts = [] then 0 else 1))"
proof (cases "ts = []")
  case True
  then show ?thesis using strtok_last [of t "'' ''" u z] assms by (auto simp: plain_def NUL_def)
next
  case False
  then show ?thesis
    using strtok_token [of t "'' ''" "CHR '' ''" u "joined '' '' ts @ NUL # z"] assms
    by (auto simp: plain_def NUL_def joined_blank_Cons)
qed

text \<open>The buffer after the words were cut, and where they start.\<close>

fun cut :: "string list \<Rightarrow> string \<Rightarrow> string" where
  "cut [] z = z"
| "cut (t # ts) z = t @ NUL # cut ts z"

fun starts :: "nat \<Rightarrow> string list \<Rightarrow> nat option list" where
  "starts q [] = []"
| "starts q (t # ts) = Some q # starts (Suc (q + length t)) ts"

lemma length_starts [simp]: "length (starts q ts) = length ts"
  by (induction ts arbitrary: q) auto

lemma words_at_line:
  assumes "\<forall>t \<in> set ts. plain t"
  shows "words_at (length ts) (u @ joined '' '' ts @ NUL # z) (length u) =
    Some (u @ cut ts (if ts = [] then NUL # z else z), starts (length u) ts)"
  using assms
proof (induction ts arbitrary: u)
  case (Cons t ts)
  then have s: "strtok (u @ joined '' '' (t # ts) @ NUL # z) (length u) '' '' =
      Some (u @ t @ NUL # (if ts = [] then z else joined '' '' ts @ NUL # z), Some (length u),
        length u + length t + (if ts = [] then 0 else 1))" by (intro strtok_word) simp
  show ?case
  proof (cases "ts = []")
    case True
    then show ?thesis using s by simp
  next
    case False
    then show ?thesis using s Cons.IH [of "u @ t @ [NUL]"] Cons.prems by simp
  qed
qed simp

lemma param_texts_cut:
  assumes "\<forall>t \<in> set ts. plain t"
  shows "param_texts (u @ cut ts z) (starts (length u) ts) = map Some ts"
  using assms
proof (induction ts arbitrary: u)
  case (Cons t ts)
  have "text_of (t @ NUL # x) = t" for x
    using Cons.prems by (simp add: text_of_def takeWhile_to_NUL plain_NUL)
  then show ?case using Cons.IH [of "u @ t @ [NUL]"] Cons.prems by (simp add: param_texts_def)
qed (simp add: param_texts_def)

lemma length_cut: "ts \<noteq> [] \<Longrightarrow> length (cut ts z) = Suc (length (joined '' '' ts)) + length z"
proof (induction ts)
  case (Cons t ts)
  then show ?case by (cases "ts = []") (simp_all add: joined_blank_Cons)
qed simp

lemma blanks_line:
  assumes "\<forall>t \<in> set ts. plain t"
  shows "length (filter (\<lambda>c. c = CHR '' '') (joined '' '' ts)) = length ts - 1"
  using assms
proof (induction ts)
  case (Cons t ts)
  have n: "filter (\<lambda>c. c = CHR '' '') t = []" using Cons.prems by (auto simp: plain_def filter_empty_conv)
  show ?case using Cons n by (cases "ts = []"; cases ts) (simp_all add: joined_blank_Cons)
qed simp

lemma joined_clean:
  assumes "\<forall>t \<in> set ts. plain t"
  shows "set (joined '' '' ts) \<inter> {NUL, CHR 0x0D, CHR 0x0A} = {}"
  using assms
proof (induction ts)
  case (Cons t ts)
  then have "set t \<inter> {NUL, CHR 0x0D, CHR 0x0A} = {}" by (auto simp: plain_def)
  then show ?case using Cons by (cases "ts = []") (auto simp: joined_blank_Cons NUL_def)
qed simp

section \<open>A line of words\<close>

lemma words_split:
  assumes "\<forall>t \<in> set (w # ps). plain t"
  obtains tmp q where "strtok (joined '' '' (w # ps) @ NUL # z) 0 '' '' = Some (tmp, Some 0, q)"
    "words_at (length ps) tmp q = Some (w @ NUL # cut ps z, starts (Suc (length w)) ps)"
proof -
  have "words_at (length (w # ps)) (joined '' '' (w # ps) @ NUL # z) 0 = Some (cut (w # ps) z, starts 0 (w # ps))"
    using words_at_line [OF assms, of "[]" z] by simp
  then show thesis using that by (auto simp: bind_eq_Some_conv)
qed

text \<open>Lines may end with a line feed alone.\<close>

definition lined :: "string \<Rightarrow> string list \<Rightarrow> string" where "lined e ws = joined '' '' ws @ e"

definition line_end :: "string \<Rightarrow> bool" where "line_end e \<longleftrightarrow> e = NL \<or> e = [CHR 0x0A]"

lemma line_lined: "line ws = lined NL ws"
  by (simp add: line_def lined_def)

lemma line_buffer:
  assumes "\<forall>t \<in> set ws. plain t" "ws \<noteq> []" "line_end e"
  shows "dropWhile (\<lambda>c. c = CHR '' '') (lined e ws) = lined e ws"
    and "strtok (lined e ws @ z) 0 NL = Some (joined '' '' ws @ NUL # tl e @ z, Some 0, Suc (length (joined '' '' ws)))"
    and "(CHR 0x0D \<notin> set (text_of (lined e ws @ replicate k NUL)) \<and> CHR 0x0A \<notin> set (text_of (lined e ws @ replicate k NUL))) = False"
proof -
  obtain t ts where ws: "ws = t # ts" using assms(2) by (cases ws) auto
  then obtain c cs where c: "t = c # cs" "c \<noteq> CHR '' ''" using assms(1) by (cases t) (auto simp: plain_def)
  have j: "joined '' '' ws = c # drop 1 (joined '' '' ws)" by (cases ts) (simp_all add: ws c(1))
  then have ne: "joined '' '' ws \<noteq> []" by auto
  show "dropWhile (\<lambda>c. c = CHR '' '') (lined e ws) = lined e ws" unfolding lined_def by (subst (1 2) j) (simp add: c(2))
  note cl = joined_clean [OF assms(1)]
  show "strtok (lined e ws @ z) 0 NL = Some (joined '' '' ws @ NUL # tl e @ z, Some 0, Suc (length (joined '' '' ws)))"
    using strtok_token [of "joined '' '' ws" NL "hd e" "[]" "tl e @ z"] ne cl assms(3) by (auto simp: lined_def line_end_def NUL_def)
  have "NUL \<notin> set (lined e ws)" using cl assms(3) by (auto simp: lined_def line_end_def NUL_def)
  then have "\<And>x. x \<in> set (lined e ws) \<Longrightarrow> x \<noteq> NUL" by blast
  then have "set (lined e ws) \<subseteq> set (text_of (lined e ws @ replicate k NUL))" by (simp add: text_of_def takeWhile_append2)
  then show "(CHR 0x0D \<notin> set (text_of (lined e ws @ replicate k NUL)) \<and> CHR 0x0A \<notin> set (text_of (lined e ws @ replicate k NUL))) = False"
    using assms(3) by (auto simp: lined_def line_end_def)
qed

lemma line_parts:
  assumes ws: "\<forall>t \<in> set (w # ps). plain t" and e: "line_end e" and l: "length (lined e (w # ps)) \<le> 128" and ps: "length ps < 6"
    and f: "map_of (user_cmdhandle dv msgs wbuf) w = Some f"
  shows "user_cmd_parser dv msgs wbuf (lined e (w # ps)) m = do {
    (m, tmp, r) \<leftarrow> f ((NUL # tl w @ [NUL]) @ cut ps (tl e @ replicate (400 - length (lined e (w # ps))) NUL))
      (starts (Suc (length w)) ps @ [Some 0]) m;
    Some (m, [debug_msg_format (lined e (w # ps)),
      debug_msg_format (if r = OK then text_of tmp @ ''success!'' else ''failure!'')])
  }"
proof -
  let ?ws = "w # ps" and ?j = "joined '' '' (w # ps)"
  define n where "n = length (lined e ?ws)"
  define z where "z = replicate (400 - n) NUL"
  have n: "n = length ?j + length e" by (simp add: n_def lined_def)
  have n128: "n \<le> 128" using l by (simp add: n_def)
  then have len: "unat (of_nat n :: u8) = n" by (simp only: unat_of_nat) simp
  then have "unat (of_nat n :: u8) \<noteq> unat (0 :: u8)" "\<not> unat (128 :: u8) < unat (of_nat n :: u8)" using n n128 e by (auto simp: line_end_def)
  then have len0: "(of_nat n :: u8) \<noteq> 0" "\<not> (128 :: u8) < of_nat n" unfolding word_less_nat_alt by metis+
  have last: "(lined e ?ws @ z) ! (n - 1) = CHR 0x0A" using e unfolding n lined_def z_def line_end_def by (auto simp: nth_append)
  note b = line_buffer [OF ws _ e, simplified]
  have b3: "(CHR 0x0D \<notin> set (text_of (lined e ?ws @ z)) \<and> CHR 0x0A \<notin> set (text_of (lined e ?ws @ z))) = False"
    using b(3) [of "400 - n"] by (simp add: z_def)
  have nul: "NUL \<notin> set ?j" using joined_clean [OF ws] by blast
  have tx: "text_of (?j @ NUL # x) = ?j" for x using nul by (simp add: text_of_def takeWhile_to_NUL)
  have tk: "take n ?j = ?j" by (simp add: n)
  have bl: "length (filter (\<lambda>c. c = CHR '' '') ?j) = length ps" using blanks_line [OF ws] by simp
  obtain tmp q where sp: "strtok (?j @ NUL # tl e @ z) 0 '' '' = Some (tmp, Some 0, q)"
    "words_at (length ps) tmp q = Some (w @ NUL # cut ps (tl e @ z), starts (Suc (length w)) ps)"
    using words_split [OF ws] .
  have w: "w \<noteq> []" "NUL \<notin> set w" using ws by (auto simp: plain_def)
  have hw: "text_of (w @ NUL # x) = w" "(w @ NUL # x)[0 := NUL] = (NUL # tl w @ [NUL]) @ x" for x
    using w by (simp add: text_of_def takeWhile_to_NUL) (cases w; simp add: w)
  show ?thesis
    unfolding user_cmd_parser_def Let_def b(1) n_def [symmetric] len z_def [symmetric]
    using len0 last b(2) [of z] ps
    by (simp add: b3 take_all n_def [symmetric] z_def [symmetric] tx tk bl sp hw f MAX_PARAM_NUM_def len del: joined.simps)
qed

text \<open>A command of the outputs: what its handler answers to the words of the line.\<close>

lemma line_handler:
  assumes ws: "\<forall>t \<in> set (w # ps). plain t" and e: "line_end e" and l: "length (lined e (w # ps)) \<le> 128" and ps: "length ps < 6"
    and f: "map_of (user_cmdhandle dv msgs wbuf) w = Some (on_texts (on_settings h))"
    and h: "h (map Some ps @ [Some []]) (settings m) = Some (s, Some t, r)"
    and t: "NUL \<notin> set t" "length t < 200"
  shows "user_cmd_parser dv msgs wbuf (lined e (w # ps)) m = Some (m\<lparr>settings := s\<rparr>,
    [debug_msg_format (lined e (w # ps)), debug_msg_format (if r = OK then t @ ''success!'' else ''failure!'')])"
proof -
  define u where "u = NUL # tl w @ [NUL]"
  define tmp where "tmp = u @ cut ps (tl e @ replicate (400 - length (lined e (w # ps))) NUL)"
  have w: "length u = Suc (length w)" using ws by (cases w) (auto simp: u_def plain_def)
  have "text_of tmp = []" by (simp add: tmp_def u_def text_of_def)
  then have pt: "param_texts tmp (starts (Suc (length w)) ps @ [Some 0]) = map Some ps @ [Some []]"
    using param_texts_cut [of ps u] ws by (simp add: tmp_def w param_texts_def)
  have "length (lined e (w # ps)) = length w + (if ps = [] then 0 else Suc (length (joined '' '' ps))) + length e"
    by (cases "ps = []") (simp_all add: lined_def joined_blank_Cons)
  then have "length tmp = length w + 1 + (if ps = [] then 0 else Suc (length (joined '' '' ps))) + length (tl e) + (400 - length (lined e (w # ps)))"
    using w length_cut [of ps] by (simp add: tmp_def)
  then have "200 < length tmp" using l e by (auto simp: line_end_def)
  then have "strcpy tmp 0 t = Some (put_text tmp t)" using t(2) by (intro strcpy_0) simp
  then have "on_texts (on_settings h) tmp (starts (Suc (length w)) ps @ [Some 0]) m = Some (m\<lparr>settings := s\<rparr>, put_text tmp t, r)"
    by (simp add: on_texts_def on_settings_def pt h)
  then show ?thesis
    using line_parts [OF ws e l ps f] t(1) by (simp add: tmp_def u_def)
qed

section \<open>The texts of the settings\<close>

definition short :: "string \<Rightarrow> bool" where "short t \<longleftrightarrow> plain t \<and> length t \<le> 32"

lemma code_no: "c \<in> set (dec n) \<or> c \<in> set (hex2 b) \<Longrightarrow> c \<notin> {NUL, CHR '' '', CHR 0x0D, CHR 0x0A}"
  using dec_no [of NUL n] dec_no [of "CHR '' ''" n] dec_no [of "CHR 0x0D" n] dec_no [of "CHR 0x0A" n]
    hex2_token [of NUL b] hex2_token [of "CHR '' ''" b] hex2_token [of "CHR 0x0D" b] hex2_token [of "CHR 0x0A" b]
  by (auto simp: digit_val_def NUL_def)

lemma length_hex2 [simp]: "length (hex2 b) = 2"
  using hex2_Cons [of b] by auto

lemma dec_plain: "plain (dec n)"
  using code_no [of _ n] dec_nonempty [of n] by (auto simp: plain_def)

lemma hex2_plain: "plain (hex2 b)"
  using code_no [of _ undefined b] hex2_Cons [of b] by (auto simp: plain_def)

lemma append_plain: "plain s \<Longrightarrow> plain t \<Longrightarrow> plain (s @ t)"
  by (auto simp: plain_def)

lemma joined_plain: "ts \<noteq> [] \<Longrightarrow> \<forall>t \<in> set ts. plain t \<Longrightarrow> plain sep \<Longrightarrow> plain (joined sep ts)"
proof (induction ts)
  case (Cons t ts)
  then show ?case by (cases "ts = []") (simp_all add: joined_Cons append_plain)
qed simp

lemma punctuation_plain: "plain '',''" "plain ''.''" "plain ''-''"
  by (simp_all add: plain_def NUL_def)

lemma sdec_short: "\<bar>n\<bar> < 2 ^ 30 \<Longrightarrow> short (sdec n)"
proof -
  assume "\<bar>n\<bar> < 2 ^ 30"
  then have "nat n < 10 ^ 10" "nat (- n) < 10 ^ 10" by auto
  then have "length (dec (nat n)) \<le> 10" "length (dec (nat (- n))) \<le> 10" by (auto intro: dec_length_le)
  then show ?thesis
    using append_plain [OF punctuation_plain(3) dec_plain] dec_plain by (auto simp: sdec_def short_def)
qed

lemma dec_short: "n < 10 ^ 5 \<Longrightarrow> short (dec n)"
  using dec_length_le [of n 5] dec_plain by (auto simp: short_def)

lemma length_dec8: "length (dec (unat (b :: u8))) \<le> 3"
  using dec_length_le [of "unat b" 3] unat8_lt [of b] by simp

lemma delays_short: "t \<in> delays \<Longrightarrow> short t \<and> short (shown_delay t)"
proof -
  assume "t \<in> delays"
  then obtain n where n: "t = sdec n" "\<bar>n\<bar> < 2 ^ 30" by (auto simp: delays_def)
  have "\<bar>rounded n\<bar> \<le> \<bar>n\<bar>" by (auto simp: rounded_def abs_mult)
  then show ?thesis using n sdec_short by (simp add: shown_delay_def atoi_sdec)
qed

lemma quads_short: "t \<in> quads \<Longrightarrow> short t"
proof -
  assume "t \<in> quads"
  then obtain bs where bs: "t = quad bs" "length bs = 4" by (auto simp: quads_def)
  then obtain a b c d where l: "bs = [a, b, c, d]" by (auto simp: numeral_eq_Suc length_Suc_conv)
  have "plain t" unfolding bs(1) quad_def by (rule joined_plain) (auto simp: l dec_plain punctuation_plain)
  then show ?thesis
    using length_dec8 [of a] length_dec8 [of b] length_dec8 [of c] length_dec8 [of d] by (simp add: short_def bs(1) quad_def l)
qed

lemma macs_short: "t \<in> macs \<Longrightarrow> short t \<and> short (dashed t)"
proof -
  assume "t \<in> macs"
  then obtain bs where bs: "t = concat (map hex2 bs)" "length bs = 6" by (auto simp: macs_def)
  then obtain a b c d e f where l: "bs = [a, b, c, d, e, f]" by (auto simp: numeral_eq_Suc length_Suc_conv)
  have d: "dashed t = joined ''-'' (map hex2 bs)" by (simp add: dashed_def bs(1) pairs_hex)
  have "plain (dashed t)" unfolding d by (rule joined_plain) (auto simp: l hex2_plain punctuation_plain)
  then show ?thesis unfolding short_def d by (simp add: bs(1) l append_plain hex2_plain)
qed

lemma lists_short:
  "t \<in> qualities \<Longrightarrow> short t" "t \<in> priority_pairs \<Longrightarrow> short t" "t \<in> classes \<Longrightarrow> short t"
proof -
  note p = append_plain [OF hex2_plain] append_plain [OF dec_plain] append_plain [OF punctuation_plain(1)] hex2_plain dec_plain
  show "t \<in> qualities \<Longrightarrow> short t" unfolding qualities_def short_def by (auto intro!: p simp del: append_Cons append_Nil)
  show "t \<in> priority_pairs \<Longrightarrow> short t"
  proof -
    assume "t \<in> priority_pairs"
    then obtain a b :: u8 where t: "t = dec (unat a) @ '','' @ dec (unat b)" by (auto simp: priority_pairs_def)
    have "plain t" unfolding t by (intro p)
    then show "short t" using length_dec8 [of a] length_dec8 [of b] by (simp add: short_def t)
  qed
  show "t \<in> classes \<Longrightarrow> short t"
  proof -
    assume "t \<in> classes"
    then obtain a b c :: u8 where t: "t = joined '','' [dec (unat a), dec (unat b), dec (unat c)]" by (auto simp: classes_def)
    then show "short t"
      using length_dec8 [of a] length_dec8 [of b] length_dec8 [of c] joined_plain [of "[dec (unat a), dec (unat b), dec (unat c)]" "'',''"]
      by (simp add: short_def dec_plain punctuation_plain)
  qed
qed

lemma tables_short:
  "list_all (\<lambda>t. short t \<and> short (shown_zone t)) pTimeZone" "list_all (\<lambda>t. short t \<and> short (shown_interval t)) p_frequcy"
  "list_all short pPrecuationValue" "list_all short clock_types" "list_all short pSignalType" "list_all short ssm_codes"
  "list_all short [''0'', ''1'', ''off'', ''on'', ''eth'', ''udp'', ''e2e'', ''p2p'', ''disable'', ''enable'', ''false'', ''true'', ''arb'', ''ptp'']"
  by (simp_all add: short_def plain_def NUL_def shown_zone_def shown_interval_def pTimeZone_def p_frequcy_def
      pPrecuationValue_def clock_types_def pSignalType_def ssm_codes_def)

lemma below_short: "n \<le> 65536 \<Longrightarrow> Ball (below n) short = True"
  using dec_short by (auto simp: below_def)

lemma texts_short:
  assumes "(h, ws, rs, f, g, T) \<in> set (setting_commands dv)" "t \<in> T"
  shows "short t \<and> short (f t)"
proof -
  have "list_all (\<lambda>(h, ws, rs, f, g, T). \<forall>t \<in> T. short t \<and> short (f t)) (setting_commands dv)"
    unfolding setting_commands_def
    using tables_short by (simp add: below_short delays_short quads_short macs_short lists_short list_all_iff)
  then show ?thesis using assms by (fastforce simp: list_all_iff)
qed

section \<open>From the line typed to the line printed\<close>

definition console_settings ::
  "'d fpga_dev \<Rightarrow> (string \<times> 'd handler \<times> string list \<times> u32 list \<times> (string \<Rightarrow> string) \<times> 'd effect \<times> string set) list" where
  "console_settings dv =
     zip (replicate 13 ''out'' @ replicate 4 ''ipconfig'' @ replicate 4 ''ifconfig'' @ replicate 21 ''ptp2'') (setting_commands dv)"

lemma console_settings_all: "map snd (console_settings dv) = setting_commands dv"
  by (simp add: console_settings_def setting_commands_def)

lemma replicates:
  "replicate 4 x = [x, x, x, x]" "replicate 13 x = [x, x, x, x, x, x, x, x, x, x, x, x, x]"
  "replicate 21 x = [x, x, x, x, x, x, x, x, x, x, x, x, x, x, x, x, x, x, x, x, x]"
  by (simp_all add: numeral_eq_Suc)

lemma console_words:
  assumes "(w, h, ws, rs, f, g, T) \<in> set (console_settings dv)"
  shows "map_of (user_cmdhandle dv msgs wbuf) w = Some (on_texts (on_settings h))"
    and "\<forall>t \<in> set (w # ws). plain t \<and> length t \<le> 8" and "length ws \<le> 3"
proof -
  have i: "(h, ws, rs, f, g, T) \<in> set (setting_commands dv)"
    using assms unfolding console_settings_def by (rule set_zip_rightD)
  define P where "P = (\<lambda>t. plain t \<and> length t \<le> 4)"
  have "list_all P [''b'', ''c'', ''l'', ''d'', ''z'', ''q'', ''p'', ''t'', ''s'', ''j'', ''k'', ''a'', ''-s'', ''-a'', ''-m'', ''-g'', ''vlan'',
      ''-e'', ''-p'', ''-v'', ''-c'', ''m'', ''ai'', ''u'', ''f'', ''e'', ''n'', ''si'', ''o'', ''59'', ''61'', ''g'']"
    unfolding P_def by code_simp
  then have "list_all (\<lambda>ws. list_all P ws \<and> length ws \<le> 3) (map (\<lambda>(h, ws, _). ws) (setting_commands dv))"
    by (simp add: setting_commands_def)
  then have ws: "\<forall>t \<in> set ws. plain t \<and> length t \<le> 4" "length ws \<le> 3" using i by (auto simp: list_all_iff P_def)
  have "map (\<lambda>(w, h, _). (w, h)) (console_settings dv) =
      replicate 13 (''out'', out_pps_handler dv) @ replicate 4 (''ipconfig'', ptp_ipconfig_handler dv) @
      replicate 4 (''ifconfig'', ptp_ifconfig_handler dv) @ replicate 21 (''ptp2'', ptp_set_handler dv)"
    by (simp add: console_settings_def setting_commands_def replicates)
  moreover have "(\<lambda>(w, h, _). (w, h)) (w, h, ws, rs, f, g, T) \<in> set (map (\<lambda>(w, h, _). (w, h)) (console_settings dv))"
    using assms unfolding set_map by (rule imageI)
  ultimately have "(w, h) \<in> {(''out'', out_pps_handler dv), (''ipconfig'', ptp_ipconfig_handler dv),
      (''ifconfig'', ptp_ifconfig_handler dv), (''ptp2'', ptp_set_handler dv)}" by auto
  then show "map_of (user_cmdhandle dv msgs wbuf) w = Some (on_texts (on_settings h))"
    "\<forall>t \<in> set (w # ws). plain t \<and> length t \<le> 8" "length ws \<le> 3"
    using ws by (auto simp: user_cmdhandle_def plain_def NUL_def)
qed

lemma length_line: "list_all (\<lambda>t. length t \<le> n) ws \<Longrightarrow> length (line ws) \<le> length ws * Suc n + 2"
proof -
  assume "list_all (\<lambda>t. length t \<le> n) ws"
  then have "length (joined '' '' ws) \<le> length ws * Suc n"
  proof (induction ws)
    case (Cons t ts)
    then show ?case by (cases "ts = []") (auto simp: joined_blank_Cons)
  qed simp
  then show ?thesis by (simp add: line_def)
qed

lemma line_short:
  assumes "\<forall>t \<in> set (w # ws). plain t \<and> length t \<le> 8" "length ws \<le> 3" "short t"
  shows "length (line (w # ws)) \<le> 128" and "length (line (w # ws @ [t])) \<le> 128"
proof -
  have e: "length (line (us @ [t])) \<le> length (line us) + Suc (length t)" for us
    by (induction us rule: joined.induct [of _ "'' ''"]) (auto simp: line_def joined_blank_Cons)
  have "length (line (w # ws)) \<le> length (w # ws) * Suc 8 + 2"
    by (rule length_line) (use assms(1) in \<open>auto simp: list_all_iff\<close>)
  also have "\<dots> \<le> 38" using assms(2) by simp
  finally have l: "length (line (w # ws)) \<le> 38" .
  then show "length (line (w # ws)) \<le> 128" by simp
  show "length (line (w # ws @ [t])) \<le> 128" using e [of "w # ws"] l assms(3) by (simp add: short_def)
qed



end
