(* ===== verification/WebForm.thy ===== *)
theory WebForm
  imports OutAddr
begin

text \<open>
  The forms of the web pages: how the handlers of \<^verbatim>\<open>APP/Config/config.c\<close> read the
  parameters of a request and how a text is put into a page, with \<^verbatim>\<open>ipaddr_aton\<close> of
  \<^verbatim>\<open>LWIP/src/core/ipv4/ip_addr.c\<close>. A form is the list of the names and values that the
  web server passes in \<^verbatim>\<open>pcParam\<close> and \<^verbatim>\<open>pcValue\<close>.
\<close>

type_synonym form = "(string \<times> string) list"

section \<open>Parameters\<close>

fun ConfigFindCGIParameter :: "string \<Rightarrow> string list \<Rightarrow> nat \<Rightarrow> nat option" where
  "ConfigFindCGIParameter pcToFind [] iLoop = None"
| "ConfigFindCGIParameter pcToFind (p # pcParam) iLoop =
     (if strcmp_eq pcToFind p then Some iLoop else ConfigFindCGIParameter pcToFind pcParam (Suc iLoop))"

definition cgi_value :: "string \<Rightarrow> form \<Rightarrow> string option" where
  "cgi_value name f = map_option (\<lambda>i. snd (f ! i)) (ConfigFindCGIParameter name (map fst f) 0)"

lemma find_parameter:
  "map_option (\<lambda>i. snd ((u @ f) ! i)) (ConfigFindCGIParameter name (map fst f) (length u)) = map_of f name"
proof (induction f arbitrary: u)
  case (Cons p f)
  then show ?case using Cons.IH [of "u @ [p]"] by (cases p) (simp add: strcmp_eq_def)
qed simp

lemma cgi_value_map_of: "cgi_value name f = map_of f name"
  using find_parameter [of "[]" f name] by (simp add: cgi_value_def)

section \<open>Escapes\<close>

definition ConfigIsValidHexDigit :: "char \<Rightarrow> bool" where
  "ConfigIsValidHexDigit c \<longleftrightarrow>
     (let n = (of_char c :: nat) in 48 \<le> n \<and> n \<le> 57 \<or> 97 \<le> n \<and> n \<le> 102 \<or> 65 \<le> n \<and> n \<le> 70)"

definition ConfigHexDigit :: "char \<Rightarrow> u8" where
  "ConfigHexDigit c =
     (let n = (of_char c :: nat) in
      if 48 \<le> n \<and> n \<le> 57 then of_nat (n - 48)
      else if 97 \<le> n \<and> n \<le> 102 then of_nat (n - 97 + 10)
      else if 65 \<le> n \<and> n \<le> 70 then of_nat (n - 65 + 10)
      else 0xFF)"

definition ConfigDecodeHexEscape :: "char \<Rightarrow> char \<Rightarrow> char \<Rightarrow> char option" where
  "ConfigDecodeHexEscape c0 c1 c2 =
     (if c0 \<noteq> CHR ''%'' \<or> \<not> ConfigIsValidHexDigit c1 \<or> \<not> ConfigIsValidHexDigit c2 then None
      else Some (char_of (unat (ConfigHexDigit c1 * 16 + ConfigHexDigit c2))))"

text \<open>\<open>n\<close> is the room that is left, without the terminator.\<close>

fun decode_loop :: "nat \<Rightarrow> string \<Rightarrow> string" where
  "decode_loop 0 cs = []"
| "decode_loop (Suc n) [] = []"
| "decode_loop (Suc n) (c # cs) =
     (if c = CHR ''+'' then CHR '' '' # decode_loop n cs
      else if c = CHR ''%'' then
        (case cs of
           d # e # r \<Rightarrow>
             (case ConfigDecodeHexEscape c d e of
                Some x \<Rightarrow> x # decode_loop n r
              | None \<Rightarrow> decode_loop (Suc n) r)
         | _ \<Rightarrow> [])
      else c # decode_loop n cs)"

definition ConfigDecodeFormString :: "string \<Rightarrow> nat \<Rightarrow> string" where
  "ConfigDecodeFormString pcEncoded ulLen = decode_loop (ulLen - 1) pcEncoded"

text \<open>The text written and the count returned, which is past the room when an escape is cut.\<close>

fun encode_loop :: "nat \<Rightarrow> nat \<Rightarrow> string \<Rightarrow> string \<times> nat" where
  "encode_loop ulLen ulCount [] = ([], ulCount)"
| "encode_loop ulLen ulCount (c # cs) =
     (if ulCount < ulLen - 1 then
        if c = CHR 0x27 then
          (let (t, n) = encode_loop ulLen (ulCount + 5) cs in (take (ulLen - ulCount - 1) ''&#39;'' @ t, n))
        else (let (t, n) = encode_loop ulLen (ulCount + 1) cs in (c # t, n))
      else ([], ulCount))"

definition ConfigEncodeFormString :: "string \<Rightarrow> nat \<Rightarrow> string \<times> nat" where
  "ConfigEncodeFormString pcDecoded ulLen = (if ulLen \<le> 1 then ([], 0) else encode_loop ulLen 0 pcDecoded)"

section \<open>Numbers\<close>

abbreviation (input) "blank c \<equiv> c = CHR '' '' \<or> c = CHR 0x09"

text \<open>The number after its start: \<open>None\<close> when the accumulator overflows, \<open>Some None\<close> when
  the text is no number. A decimal point before a digit is skipped wherever it stands.\<close>

function decimal_digits :: "bool \<Rightarrow> bool \<Rightarrow> int \<Rightarrow> string \<Rightarrow> int option option" where
  "decimal_digits bFinished bNeg lAccum [] = Some (Some (if bNeg then - lAccum else lAccum))"
| "decimal_digits bFinished bNeg lAccum (c # cs) =
     (if bFinished then if blank c then decimal_digits True bNeg lAccum cs else Some None
      else
        (case (if c = CHR ''.'' then cs else c # cs) of
           [] \<Rightarrow> Some None
         | d # ds \<Rightarrow>
             if is_digit_of 10 d then
               let lAccum = lAccum * 10 + int (of_char d - 48) in
               if lAccum \<ge> 2 ^ 31 then None else decimal_digits False bNeg lAccum ds
             else if blank d then decimal_digits True bNeg lAccum ds
             else Some None))"
  by pat_completeness auto
termination
  by (relation "measure (\<lambda>(bFinished, bNeg, lAccum, cs). length cs)") (auto split: if_splits)

definition ConfigCheckDecimalParam :: "string \<Rightarrow> int option option" where
  "ConfigCheckDecimalParam pcValue =
     (case dropWhile (\<lambda>c. blank c) pcValue of
        [] \<Rightarrow> Some (Some 0)
      | c # cs \<Rightarrow>
          if c = CHR ''+'' \<or> c = CHR ''-'' then
            if cs = [] then Some None else decimal_digits False (c = CHR ''-'') 0 cs
          else decimal_digits False False 0 (c # cs))"

text \<open>The value and the error flag; the flag is set, never cleared.\<close>

definition ConfigGetCGIParam :: "string \<Rightarrow> form \<Rightarrow> bool \<Rightarrow> (int \<times> bool) option" where
  "ConfigGetCGIParam pcName f bError =
     (case cgi_value pcName f of
        None \<Rightarrow> Some (0, True)
      | Some t \<Rightarrow>
          (case ConfigCheckDecimalParam t of
             None \<Rightarrow> None
           | Some None \<Rightarrow> Some (0, True)
           | Some (Some lValue) \<Rightarrow> Some (lValue, bError)))"

section \<open>Internet addresses\<close>

definition htonl :: "u32 \<Rightarrow> u32" where
  "htonl v = push_bit 24 (v AND 0xFF) OR push_bit 8 (v AND 0xFF00) OR drop_bit 8 (v AND 0xFF0000) OR drop_bit 24 v"

fun aton_digits :: "nat \<Rightarrow> u32 \<Rightarrow> string \<Rightarrow> u32 \<times> string" where
  "aton_digits base val [] = (val, [])"
| "aton_digits base val (c # cs) =
     (if isdigit c then aton_digits base (val * of_nat base + of_nat (of_char c - 48)) cs
      else if base = 16 \<and> isxdigit c then aton_digits base (push_bit 4 val OR of_nat (the (digit_val c))) cs
      else (val, c # cs))"

definition aton_number :: "string \<Rightarrow> (u32 \<times> string) option" where
  "aton_number cp =
     (case cp of
        [] \<Rightarrow> None
      | c # cs \<Rightarrow>
          if \<not> isdigit c then None
          else if c = CHR ''0'' then
            (case cs of
               x # r \<Rightarrow> Some (if x = CHR ''x'' \<or> x = CHR ''X'' then aton_digits 16 0 r else aton_digits 8 0 cs)
             | [] \<Rightarrow> Some (0, []))
          else Some (aton_digits 10 0 cp))"

text \<open>\<open>n\<close> parts may still be stored before the last.\<close>

fun aton_parts :: "nat \<Rightarrow> string \<Rightarrow> (u32 list \<times> string) option" where
  "aton_parts n cp =
     (case aton_number cp of
        None \<Rightarrow> None
      | Some (val, r) \<Rightarrow>
          if r \<noteq> [] \<and> hd r = CHR ''.'' then
            (case n of 0 \<Rightarrow> None | Suc m \<Rightarrow> map_option (\<lambda>(vs, r). (val # vs, r)) (aton_parts m (tl r)))
          else Some ([val], r))"

declare aton_parts.simps [simp del]

definition ipaddr_aton :: "string \<Rightarrow> u32 option" where
  "ipaddr_aton cp =
     (case aton_parts 3 cp of
        None \<Rightarrow> None
      | Some (parts, r) \<Rightarrow>
          if r \<noteq> [] \<and> \<not> isspace (hd r) then None
          else map_option htonl
            (case parts of
               [val] \<Rightarrow> Some val
             | [a, val] \<Rightarrow> if val > 0xFFFFFF then None else Some (val OR push_bit 24 a)
             | [a, b, val] \<Rightarrow> if val > 0xFFFF then None else Some (val OR push_bit 24 a OR push_bit 16 b)
             | [a, b, c, val] \<Rightarrow>
                 if val > 0xFF then None else Some (val OR push_bit 24 a OR push_bit 16 b OR push_bit 8 c)
             | _ \<Rightarrow> None))"

definition inet_addr :: "string \<Rightarrow> u32" where
  "inet_addr cp = (case ipaddr_aton cp of None \<Rightarrow> 0xFFFFFFFF | Some a \<Rightarrow> a)"

abbreviation (input) "MAX_VARIABLE_NAME_LEN \<equiv> (16 :: nat)"

text \<open>The address and the error flag. A missing parameter leaves the text uninitialised, but its
  address is not used.\<close>

definition ConfigGetCGIDeciIPAddr :: "string \<Rightarrow> form \<Rightarrow> bool \<Rightarrow> u32 \<times> bool" where
  "ConfigGetCGIDeciIPAddr pcName f bError =
     (case cgi_value pcName f of
        None \<Rightarrow> (0, True)
      | Some t \<Rightarrow>
          let a = inet_addr (text_of (ConfigDecodeFormString t MAX_VARIABLE_NAME_LEN @ [NUL])) in
          if a = 0xFFFFFFFF then (0, True) else (htonl a, bError))"

section \<open>Hardware addresses\<close>

abbreviation (input) "MAX_MACSTRING_LEN \<equiv> (19 :: nat)"

text \<open>One group of digits: the buffer with its text, and the rest of the value behind the separator
  or the terminator. \<open>None\<close> when the value or the buffer is overrun, \<open>Some None\<close> for another
  character.\<close>

fun mac_group :: "string \<Rightarrow> nat \<Rightarrow> string \<Rightarrow> (string \<times> string) option option" where
  "mac_group strtemp i1 [] = None"
| "mac_group strtemp i1 (c # cs) =
     (if c = CHR 0x2D \<or> c = NUL then do {
        strtemp \<leftarrow> wr_at strtemp i1 NUL;
        Some (Some (strtemp, cs))
      } else if isxdigit c then do {
        strtemp \<leftarrow> wr_at strtemp i1 c;
        mac_group strtemp (Suc i1) cs
      } else Some None)"

fun mac_groups :: "nat \<Rightarrow> string \<Rightarrow> string \<Rightarrow> bytes option option" where
  "mac_groups 0 strtemp cs = Some (Some [])"
| "mac_groups (Suc n) strtemp cs =
     (case mac_group strtemp 0 cs of
        None \<Rightarrow> None
      | Some None \<Rightarrow> Some None
      | Some (Some (strtemp, cs)) \<Rightarrow>
          (case mac_groups n strtemp cs of
             None \<Rightarrow> None
           | Some None \<Rightarrow> Some None
           | Some (Some bs) \<Rightarrow> Some (Some (StringtoInt (strtemp ! 0) (strtemp ! 1) # bs))))"

text \<open>The bytes, or an error; \<open>strtemp\<close> is what the uninitialised buffer holds.\<close>

definition ConfigGetCGIMacaddr :: "string \<Rightarrow> string \<Rightarrow> form \<Rightarrow> bytes option option" where
  "ConfigGetCGIMacaddr strtemp pcToFind f =
     (case cgi_value pcToFind f of None \<Rightarrow> Some None | Some t \<Rightarrow> mac_groups 6 strtemp (t @ [NUL]))"

end
