(* ===== verification/WebPages.thy ===== *)
theory WebPages
  imports WebForm ConsoleSpec ConfigStore
begin

text \<open>
  The handlers of the web pages of \<^verbatim>\<open>APP/Config/config.c\<close>: what a submitted form changes.
\<close>

section \<open>State\<close>

text \<open>The rest of the parameter block that the pages work on, next to the settings of the outputs in
  the machine; the texts are arrays of the sizes of \<^verbatim>\<open>config.h\<close>.\<close>

record 'd web =
  mach :: "'d machine"
  gnss_enable :: u8
  gnss_mode :: u8
  gnss_priority :: string
  ucFlags :: u8
  TrapService :: string
  TrapPort :: u32
  Model :: string
  Manufacturer :: string
  Serial :: string
  InstallPos :: string
  InstallPer :: string
  InstallTime :: string
  userpasswd :: string
  working_passwd :: string
  login :: bool
  data_response_buf :: string
  conf :: config

text \<open>\<open>g_sWorkingDefaultParameters = g_sParameters\<close>. The layout of the block is that of the
  compiler: \<open>pack\<close> gives its bytes.\<close>

definition copy_parameters :: "('d web \<Rightarrow> bytes) \<Rightarrow> 'd web \<Rightarrow> 'd web" where
  "copy_parameters pack w =
     w\<lparr>working_passwd := userpasswd w,
       conf := (conf w)\<lparr>g_sParameters := pack w, g_sWorkingDefaultParameters := pack w\<rparr>\<rparr>"

definition save_parameters :: "'d web \<Rightarrow> 'd web" where
  "save_parameters w = w\<lparr>conf := ConfigSave (conf w)\<rparr>"

text \<open>What the handlers use of the rest of the system: the device, the messages of the receiver, the
  memory an uninitialised buffer holds and the layout of the block.\<close>

record 'd surroundings =
  dev :: "'d fpga_dev"
  gnss_msgs :: "string list"
  stack_bytes :: bytes
  stack_text :: string
  layout :: "'d web \<Rightarrow> bytes"

definition run_command :: "'d surroundings \<Rightarrow> string \<Rightarrow> 'd web \<Rightarrow> 'd web option" where
  "run_command sy t w =
     map_option (\<lambda>(m, out). w\<lparr>mach := m\<rparr>) (user_cmd_parser (dev sy) (gnss_msgs sy) (stack_bytes sy) t (mach w))"

definition on_mode :: "(ptp_mode \<Rightarrow> ptp_mode) \<Rightarrow> 'd web \<Rightarrow> 'd web" where
  "on_mode f w = w\<lparr>mach := (mach w)\<lparr>settings := (settings (mach w))\<lparr>mode_par := f (mode_par (settings (mach w)))\<rparr>\<rparr>\<rparr>"

definition on_net :: "(ptp_net \<Rightarrow> ptp_net) \<Rightarrow> 'd web \<Rightarrow> 'd web" where
  "on_net f w = w\<lparr>mach := (mach w)\<lparr>settings := (settings (mach w))\<lparr>net_par := f (net_par (settings (mach w)))\<rparr>\<rparr>\<rparr>"

abbreviation "mode_of w \<equiv> mode_par (settings (mach w))"
abbreviation "net_of w \<equiv> net_par (settings (mach w))"

type_synonym 'd page_handler = "'d surroundings \<Rightarrow> form \<Rightarrow> 'd web \<Rightarrow> ('d web \<times> string) option"

abbreviation (input) "LF \<equiv> [CHR 0x0A]"
abbreviation (input) "PARAM_ERROR_RESPONSE \<equiv> ''/perror.shtml''"
abbreviation (input) "SET_CGI_RESPONSE \<equiv> ''/set.shtml''"

text \<open>A text of the form written to an array, when the form has it.\<close>

definition form_text :: "string \<Rightarrow> form \<Rightarrow> nat \<Rightarrow> string \<Rightarrow> string option" where
  "form_text name f ulLen buf =
     (case cgi_value name f of None \<Rightarrow> Some buf | Some t \<Rightarrow> strcpy buf 0 (ConfigDecodeFormString t ulLen))"

section \<open>Login\<close>

definition LoginCGIHandler :: "'d page_handler" where
  "LoginCGIHandler sy f w = do {
     p \<leftarrow> form_text ''PASSWD'' f 16 (working_passwd w);
     Some (w\<lparr>working_passwd := p, login := starts_with (text_of p) ''root''\<rparr>, ''/index.html'')
   }"

section \<open>The receiver\<close>

definition ConfigGnssHandler :: "'d page_handler" where
  "ConfigGnssHandler sy f w = do {
     (en, bParamError) \<leftarrow> ConfigGetCGIParam ''gen'' f False;
     (mode, bParamError) \<leftarrow> ConfigGetCGIParam ''gmode'' f bParamError;
     let gnss_en = (word_of_int en :: u8);
     let gnss_mode' = (word_of_int mode :: u8);
     pri \<leftarrow> form_text ''gpri'' f 4 (gnss_priority w);
     let w = w\<lparr>gnss_priority := pri\<rparr>;
     (gnss_dlycom, bParamError) \<leftarrow> ConfigGetCGIParam ''dlycom'' f bParamError;
     if bParamError \<or> gnss_dlycom > 50000000 \<or> gnss_dlycom < -50000000 \<or> gnss_en > 1 \<or> gnss_mode' > 5 \<or> gnss_mode' < 1
     then Some (w, PARAM_ERROR_RESPONSE)
     else do {
       let w = w\<lparr>gnss_enable := gnss_en, gnss_mode := gnss_mode',
         mach := (mach w)\<lparr>settings := (settings (mach w))\<lparr>gnss_delay := gnss_dlycom\<rparr>\<rparr>\<rparr>;
       let w = copy_parameters (layout sy) w;
       w \<leftarrow> run_command sy (''gnss d c '' @ sdec gnss_dlycom @ LF) w;
       Some (save_parameters w, SET_CGI_RESPONSE)
     }
   }"

section \<open>The PTP network\<close>

text \<open>A parameter that is read only while there was no error.\<close>

definition then_param :: "string \<Rightarrow> form \<Rightarrow> bool \<Rightarrow> (int \<times> bool) option" where
  "then_param name f bParamError = (if bParamError then Some (0, True) else ConfigGetCGIParam name f False)"

definition then_addr :: "string \<Rightarrow> form \<Rightarrow> bool \<Rightarrow> u32 \<times> bool" where
  "then_addr name f bParamError = (if bParamError then (0, True) else ConfigGetCGIDeciIPAddr name f False)"

definition dotted_decimal :: "u32 \<Rightarrow> string" where
  "dotted_decimal a =
     dec (unat (drop_bit 24 a AND 0xFF)) @ ''.'' @ dec (unat (drop_bit 16 a AND 0xFF)) @ ''.'' @
     dec (unat (drop_bit 8 a AND 0xFF)) @ ''.'' @ dec (unat (a AND 0xFF))"

definition ConfigPtpNetHandler :: "'d page_handler" where
  "ConfigPtpNetHandler sy f w = do {
     mac \<leftarrow> ConfigGetCGIMacaddr (stack_text sy) ''mac'' f;
     let bParamError = (mac = None);
     let (ulIPAddr, bParamError) = then_addr ''ip'' f bParamError;
     let (ulSubnetMask, bParamError) = then_addr ''mask'' f bParamError;
     let (ulGatewayAddr, bParamError) = then_addr ''gw'' f bParamError;
     (ven, bParamError) \<leftarrow> then_param ''ven'' f bParamError;
     (pcp, bParamError) \<leftarrow> then_param ''pcp'' f bParamError;
     (cfi, bParamError) \<leftarrow> then_param ''cfi'' f bParamError;
     (vid, bParamError) \<leftarrow> then_param ''vid'' f bParamError;
     let bVlanEnable = (word_of_int ven :: u8);
     let bVlanPcp = (word_of_int pcp :: u8);
     let bVlanCfi = (word_of_int cfi :: u8);
     let bVlanVid = (word_of_int vid :: u16);
     if bParamError then Some (w, PARAM_ERROR_RESPONSE)
     else do {
       w \<leftarrow>
         (if ptp_ipaddr (net_of w) \<noteq> ulIPAddr \<or> ptp_submask (net_of w) \<noteq> ulSubnetMask \<or> ptp_gateway (net_of w) \<noteq> ulGatewayAddr
          then do {
            let w = on_net (\<lambda>n. n\<lparr>ptp_ipaddr := ulIPAddr, ptp_submask := ulSubnetMask, ptp_gateway := ulGatewayAddr\<rparr>) w;
            w \<leftarrow> run_command sy (''ipconfig -a '' @ dotted_decimal ulIPAddr @ LF) w;
            w \<leftarrow> run_command sy (''ipconfig -m '' @ dotted_decimal ulSubnetMask @ LF) w;
            run_command sy (''ipconfig -g '' @ dotted_decimal ulGatewayAddr @ LF) w
          }
          else Some w);
       let w = on_net (\<lambda>n. n\<lparr>vlan_enable := bVlanEnable, vlan_pcp := bVlanPcp, vlan_cfi := bVlanCfi, vlan_vid := bVlanVid\<rparr>) w;
       w \<leftarrow> run_command sy (''ifconfig vlan -e '' @ (if bVlanEnable \<noteq> 0 then ''on'' else ''off'') @ LF) w;
       w \<leftarrow> run_command sy (''ifconfig vlan -p '' @ dec (unat bVlanPcp) @ LF) w;
       w \<leftarrow> run_command sy (''ifconfig vlan -c '' @ dec (unat bVlanCfi) @ LF) w;
       w \<leftarrow> run_command sy (''ifconfig vlan -v '' @ dec (unat bVlanVid) @ LF) w;
       Some (save_parameters (copy_parameters (layout sy) w), SET_CGI_RESPONSE)
     }
   }"

section \<open>The PTP protocol\<close>

text \<open>A setting that differs from the one stored is stored and sent to the console. The fields of one
  bit keep the low bit of what is stored.\<close>

definition change_mode ::
  "'d surroundings \<Rightarrow> (ptp_mode \<Rightarrow> u8) \<Rightarrow> (ptp_mode \<Rightarrow> ptp_mode) \<Rightarrow> u8 \<Rightarrow> string option \<Rightarrow> 'd web \<Rightarrow> 'd web option" where
  "change_mode sy field store v cmd w =
     (if field (mode_of w) \<noteq> v then do { cmd \<leftarrow> cmd; run_command sy (cmd @ LF) (on_mode store w) } else Some w)"

definition interval_name :: "u8 \<Rightarrow> string option" where
  "interval_name v = (if unat v < length p_frequcy then Some (p_frequcy ! unat v) else None)"

definition ConfigPtpModHandler :: "'d page_handler" where
  "ConfigPtpModHandler sy f w = do {
     (en, e) \<leftarrow> ConfigGetCGIParam ''en'' f False;
     (esmcen, e) \<leftarrow> then_param ''esmcen'' f e;
     (dlytype, e) \<leftarrow> then_param ''dlytype'' f e;
     (unicast', e) \<leftarrow> then_param ''unicast'' f e;
     (enp, e) \<leftarrow> then_param ''enp'' f e;
     (step, e) \<leftarrow> then_param ''step'' f e;
     (sync, e) \<leftarrow> then_param ''sync'' f e;
     (anounce, e) \<leftarrow> then_param ''anounce'' f e;
     (dom, e) \<leftarrow> then_param ''domain'' f e;
     (outype, e) \<leftarrow> then_param ''outype'' f e;
     (prio1, e) \<leftarrow> then_param ''prio1'' f e;
     (prio2, bParamError) \<leftarrow> then_param ''prio2'' f e;
     let ptp_en = word_of_int en;
     let esmc_en = word_of_int esmcen;
     let dly_type = word_of_int dlytype;
     let unicast' = word_of_int unicast';
     let enpack_en = word_of_int enp;
     let step_type' = word_of_int step;
     let sync_fre = word_of_int sync;
     let anounce_fre = word_of_int anounce;
     let clock_domain = word_of_int dom;
     let ntp_en' = word_of_int outype;
     let priority1' = word_of_int prio1;
     let priority2' = word_of_int prio2;
     if bParamError then Some (w, PARAM_ERROR_RESPONSE)
     else do {
       w \<leftarrow> change_mode sy port_enable (port_enable_update (\<lambda>_. ptp_en AND 1)) ptp_en
         (Some (''ptp2 p e '' @ (if ptp_en \<noteq> 0 then ''on'' else ''off''))) w;
       w \<leftarrow> change_mode sy esmc_enable (esmc_enable_update (\<lambda>_. esmc_en AND 1)) esmc_en
         (Some (''ptp2 e e '' @ (if esmc_en \<noteq> 0 then ''on'' else ''off''))) w;
       w \<leftarrow> change_mode sy delay_type (delay_type_update (\<lambda>_. dly_type AND 1)) dly_type
         (Some (''ptp2 p m '' @ (if dly_type \<noteq> 0 then ''p2p'' else ''e2e''))) w;
       w \<leftarrow> change_mode sy unicast (unicast_update (\<lambda>_. unicast' AND 1)) unicast'
         (Some (''ptp2 p u '' @ (if unicast' \<noteq> 0 then ''enable'' else ''disable''))) w;
       w \<leftarrow> change_mode sy encode_package (encode_package_update (\<lambda>_. enpack_en AND 1)) enpack_en
         (Some (''ptp2 p p '' @ (if enpack_en \<noteq> 0 then ''udp'' else ''eth''))) w;
       w \<leftarrow> change_mode sy step_type (step_type_update (\<lambda>_. step_type' AND 1)) step_type'
         (Some (''ptp2 c t '' @ (if step_type' \<noteq> 0 then ''on'' else ''off''))) w;
       w \<leftarrow> change_mode sy sync_frequency (sync_frequency_update (\<lambda>_. sync_fre)) sync_fre
         (map_option (\<lambda>t. ''ptp2 p si '' @ t) (interval_name sync_fre)) w;
       w \<leftarrow> change_mode sy anounce_frequency (anounce_frequency_update (\<lambda>_. anounce_fre)) anounce_fre
         (map_option (\<lambda>t. ''ptp2 p ai '' @ t) (interval_name anounce_fre)) w;
       w \<leftarrow> change_mode sy domain (domain_update (\<lambda>_. clock_domain)) clock_domain
         (Some (''ptp2 c d '' @ dec (unat clock_domain))) w;
       w \<leftarrow> change_mode sy ntp_en (ntp_en_update (\<lambda>_. ntp_en' AND 1)) ntp_en'
         (Some (''ptp2 p n '' @ (if ntp_en' \<noteq> 0 then ''on'' else ''off''))) w;
       w \<leftarrow> change_mode sy priority1 (priority1_update (\<lambda>_. priority1')) priority1'
         (Some (''ptp2 c p 1 '' @ dec (unat priority1'))) w;
       w \<leftarrow> change_mode sy priority2 (priority2_update (\<lambda>_. priority2')) priority2'
         (Some (''ptp2 c p 2 '' @ dec (unat priority2'))) w;
       Some (save_parameters (copy_parameters (layout sy) w), SET_CGI_RESPONSE)
     }
   }"

section \<open>The other pages\<close>

definition ConfigTrapCGIHandler :: "'d page_handler" where
  "ConfigTrapCGIHandler sy f w = do {
     (en, bParamError) \<leftarrow> ConfigGetCGIParam ''trapen'' f False;
     t \<leftarrow> form_text ''trapip'' f 64 (TrapService w);
     (port, bError) \<leftarrow> ConfigGetCGIParam ''trapt'' f False;
     let ulTrapEn = (word_of_int en :: u8);
     Some (w\<lparr>TrapService := t, ucFlags := (if ulTrapEn \<noteq> 0 then ucFlags w OR 0x02 else ucFlags w AND NOT 0x02),
         TrapPort := ucast (word_of_int port :: u16)\<rparr>, ''/snmp.shtml'')
   }"

text \<open>Only the error of the last parameter counts; the values are not used.\<close>

definition ConfigRegateCGIHandler :: "'d page_handler" where
  "ConfigRegateCGIHandler sy f w = do {
     (ulReCnt, bError) \<leftarrow> ConfigGetCGIParam ''recnt'' f False;
     (ulDelay1, bError) \<leftarrow> ConfigGetCGIParam ''rgdey1'' f False;
     (ulDelay2, bError) \<leftarrow> ConfigGetCGIParam ''rgdey2'' f False;
     (ulDelay3, bError) \<leftarrow> ConfigGetCGIParam ''rgdey3'' f False;
     Some (w, if bError then PARAM_ERROR_RESPONSE else ''/regate.shtml'')
   }"

text \<open>The error flag is cleared after every parameter.\<close>

definition ConfigSwitchCGIHandler :: "'d page_handler" where
  "ConfigSwitchCGIHandler sy f w = do {
     (ulChannel1En, bError) \<leftarrow> ConfigGetCGIParam ''swen1'' f False;
     (ulChannel2En, bError) \<leftarrow> ConfigGetCGIParam ''swen2'' f False;
     (ulChannel3En, bError) \<leftarrow> ConfigGetCGIParam ''swen3'' f False;
     (ulChannel4En, bError) \<leftarrow> ConfigGetCGIParam ''swen4'' f False;
     Some (w, ''/timesw.shtml'')
   }"

text \<open>The serial number has 12 bytes and is given 13.\<close>

definition ConfigInfoCGIHandler :: "'d page_handler" where
  "ConfigInfoCGIHandler sy f w = do {
     t \<leftarrow> form_text ''model'' f 32 (Model w);
     let w = w\<lparr>Model := t\<rparr>;
     t \<leftarrow> form_text ''manu'' f 32 (Manufacturer w);
     let w = w\<lparr>Manufacturer := t\<rparr>;
     t \<leftarrow> form_text ''ser'' f 13 (Serial w);
     let w = w\<lparr>Serial := t\<rparr>;
     t \<leftarrow> form_text ''pos'' f 32 (InstallPos w);
     let w = w\<lparr>InstallPos := t\<rparr>;
     t \<leftarrow> form_text ''instal'' f 32 (InstallPer w);
     let w = w\<lparr>InstallPer := t\<rparr>;
     t \<leftarrow> form_text ''instime'' f 32 (InstallTime w);
     Some (w\<lparr>InstallTime := t\<rparr>, ''/info.shtml'')
   }"

definition Orther_CGIHandler :: "'d page_handler" where
  "Orther_CGIHandler sy f w = Some (w\<lparr>data_response_buf := []\<rparr>, ''/response.ssi'')"

text \<open>A password that fills its array has no terminator.\<close>

definition Opther_CGIHandler :: "'d page_handler" where
  "Opther_CGIHandler sy f w = do {
     t \<leftarrow> cstr_at (userpasswd w) 0;
     Some (w\<lparr>data_response_buf := t @ '';root1234;''\<rparr>, ''/response.ssi'')
   }"

text \<open>The bodies of these four are commented out.\<close>

definition SNTPCGIHandler :: "'d page_handler" where "SNTPCGIHandler sy f w = Some (w, ''/sntp.shtml'')"
definition ConfigresetCGIHandler :: "'d page_handler" where "ConfigresetCGIHandler sy f w = Some (w, ''/udp.shtml'')"
definition ConfigsetpwdCGIHandler :: "'d page_handler" where "ConfigsetpwdCGIHandler sy f w = Some (w, ''/passwd.shtml'')"
definition ConfigCTRStyeCGIHandler :: "'d page_handler" where "ConfigCTRStyeCGIHandler sy f w = Some (w, ''/config.shtml'')"

section \<open>The table of pages\<close>

definition g_psConfigCGIURIs :: "(string \<times> 'd page_handler) list" where
  "g_psConfigCGIURIs =
     [(''/login.cgi'', LoginCGIHandler), (''/gnss.cgi'', ConfigGnssHandler), (''/pnet.cgi'', ConfigPtpNetHandler),
      (''/pmod.cgi'', ConfigPtpModHandler), (''/sntp.cgi'', SNTPCGIHandler), (''/trap.cgi'', ConfigTrapCGIHandler),
      (''/sw.cgi'', ConfigSwitchCGIHandler), (''/regate.cgi'', ConfigRegateCGIHandler),
      (''/reset.cgi'', ConfigresetCGIHandler), (''/setpwd.cgi'', ConfigsetpwdCGIHandler),
      (''/ctrstye.cgi'', ConfigCTRStyeCGIHandler), (''/info.cgi'', ConfigInfoCGIHandler),
      (''/orther.cgi'', Orther_CGIHandler), (''/opther.cgi'', Opther_CGIHandler)]"

end
