(* ===== verification/WebFormSpec.thy ===== *)
theory WebFormSpec
  imports WebForm
begin

text \<open>
  What a browser sends and what the handlers read from it: form encoding, decimal numbers, internet
  and hardware addresses.
\<close>

section \<open>Form encoding\<close>

text \<open>The encodings of a text: a character stands for itself, a space may be a plus, and every
  character may be an escape of two hexadecimal digits.\<close>

inductive form_encoded :: "string \<Rightarrow> string \<Rightarrow> bool" where
  end_of_text: "form_encoded [] []"
| itself: "c \<noteq> CHR ''+'' \<Longrightarrow> c \<noteq> CHR ''%'' \<Longrightarrow> form_encoded t e \<Longrightarrow> form_encoded (c # t) (c # e)"
| plus: "form_encoded t e \<Longrightarrow> form_encoded (CHR '' '' # t) (CHR ''+'' # e)"
| escape: "isxdigit d0 \<Longrightarrow> isxdigit d1 \<Longrightarrow> of_char c = 16 * the (digit_val d0) + the (digit_val d1) \<Longrightarrow>
    form_encoded t e \<Longrightarrow> form_encoded (c # t) (CHR ''%'' # d0 # d1 # e)"

code_pred form_encoded .

lemma valid_hex: "ConfigIsValidHexDigit c \<longleftrightarrow> isxdigit c"
  by (auto simp: ConfigIsValidHexDigit_def is_digit_of_def digit_val_def Let_def split: if_splits)

lemma hex_digit_value: "isxdigit c \<Longrightarrow> unat (ConfigHexDigit c) = the (digit_val c) \<and> the (digit_val c) < 16"
  by (auto simp: ConfigHexDigit_def is_digit_of_def digit_val_def Let_def unat_of_nat simp del: of_nat_diff split: if_splits)

lemma escape_decoded:
  assumes "isxdigit d0" "isxdigit d1" "of_char c = 16 * the (digit_val d0) + the (digit_val d1)"
  shows "ConfigDecodeHexEscape CHR ''%'' d0 d1 = Some c"
proof -
  note h = hex_digit_value [OF assms(1)] hex_digit_value [OF assms(2)]
  have "unat (ConfigHexDigit d0 * 16 + ConfigHexDigit d1) = 16 * the (digit_val d0) + the (digit_val d1)"
    using h by (simp add: unat_word_ariths)
  then show ?thesis using assms(1,2) assms(3) [symmetric] by (simp add: ConfigDecodeHexEscape_def valid_hex)
qed

lemma decode_loop_encoded: "form_encoded t e \<Longrightarrow> decode_loop n e = take n t"
proof (induction t e arbitrary: n rule: form_encoded.induct)
  case end_of_text
  then show ?case by (cases n) simp_all
next
  case (itself c t e)
  then show ?case by (cases n) simp_all
next
  case (plus t e)
  then show ?case by (cases n) simp_all
next
  case (escape d0 d1 c t e)
  then show ?case using escape_decoded [OF escape(1-3)] by (cases n) simp_all
qed

lemma decode_encoded: "form_encoded t e \<Longrightarrow> ConfigDecodeFormString e n = take (n - 1) t"
  by (simp add: ConfigDecodeFormString_def decode_loop_encoded)

lemma length_decode_loop: "length (decode_loop n e) \<le> n"
  by (induction n e rule: decode_loop.induct) (auto split: list.split option.split)

lemma decode_fits: "0 < n \<Longrightarrow> length (ConfigDecodeFormString e n) < n"
  using length_decode_loop [of "n - 1" e] by (simp add: ConfigDecodeFormString_def)

text \<open>A text without plus and percent signs is an encoding of itself.\<close>

lemma encoded_self: "CHR ''+'' \<notin> set t \<Longrightarrow> CHR ''%'' \<notin> set t \<Longrightarrow> form_encoded t t"
  by (induction t) (auto intro: form_encoded.intros)

section \<open>Decimal numbers\<close>

lemma digit_cases: "isdigit c \<Longrightarrow> c \<noteq> CHR ''.'' \<and> c \<noteq> CHR ''+'' \<and> c \<noteq> CHR ''-'' \<and> c \<noteq> CHR '' '' \<and> c \<noteq> CHR 0x09 \<and>
    digit_val c = Some (of_char c - 48)"
  by (auto simp: is_digit_of_def digit_val_def Let_def split: if_splits)

lemma digits_value_mono: "list_all isdigit cs \<Longrightarrow> a \<le> digits_value 10 a cs"
proof (induction cs arbitrary: a)
  case (Cons c cs)
  obtain d where d: "digit_val c = Some d" "d < 10" using Cons.prems by (auto simp: is_digit_of_def split: option.splits)
  then show ?case using Cons.IH [of "a * 10 + d"] Cons.prems by simp
qed simp

lemma decimal_digits_run:
  assumes "list_all isdigit cs" "digits_value 10 a cs < 2 ^ 31"
  shows "decimal_digits False neg (int a) cs = Some (Some (if neg then - int (digits_value 10 a cs) else int (digits_value 10 a cs)))"
  using assms
proof (induction cs arbitrary: a)
  case (Cons c cs)
  have c: "isdigit c" "list_all isdigit cs" using Cons.prems(1) by simp_all
  note dc = digit_cases [OF c(1)]
  define d where "d = of_char c - (48 :: nat)"
  have d: "digit_val c = Some d" "d < 10" using dc c(1) by (auto simp: d_def is_digit_of_def)
  have lt: "digits_value 10 (a * 10 + d) cs < 2 ^ 31" using Cons.prems(2) d by simp
  have "a * 10 + d < 2 ^ 31" using digits_value_mono [OF c(2), of "a * 10 + d"] lt by linarith
  then have small: "\<not> 2 ^ 31 \<le> int a * 10 + int d" by simp
  have "decimal_digits False neg (int a) (c # cs) = decimal_digits False neg (int (a * 10 + d)) cs"
    using dc c(1) small by (simp add: d_def Let_def)
  also have "\<dots> = Some (Some (if neg then - int (digits_value 10 (a * 10 + d) cs) else int (digits_value 10 (a * 10 + d) cs)))"
    by (rule Cons.IH [OF c(2) lt])
  finally show ?case using d by simp
qed simp

lemma CheckDecimalParam_sdec:
  assumes "\<bar>n\<bar> < 2 ^ 31"
  shows "ConfigCheckDecimalParam (sdec n) = Some (Some n)"
proof -
  have run: "decimal_digits False neg 0 (dec k) = Some (Some (if neg then - int k else int k))" if "k < 2 ^ 31" for neg k
    using decimal_digits_run [of "dec k" 0 neg] that dec_digits [of k] by (simp add: digits_value_dec list_all_iff)
  obtain c t where c: "dec (nat n) = c # t" "isdigit c" using dec_Cons by blast
  show ?thesis
  proof (cases "n < 0")
    case True
    then have "nat (- n) < 2 ^ 31" "dec (nat (- n)) \<noteq> []" using assms dec_Cons [of "nat (- n)"] by auto
    then show ?thesis using run [of "nat (- n)" True] True by (simp add: sdec_def ConfigCheckDecimalParam_def)
  next
    case False
    then have "nat n < 2 ^ 31" using assms by simp
    then show ?thesis using run [of "nat n" False] False c(1) digit_cases [OF c(2)]
      by (simp add: sdec_def ConfigCheckDecimalParam_def)
  qed
qed

lemma GetCGIParam_sdec:
  assumes "map_of f name = Some (sdec n)" "\<bar>n\<bar> < 2 ^ 31"
  shows "ConfigGetCGIParam name f e = Some (n, e)"
  using assms by (simp add: ConfigGetCGIParam_def cgi_value_map_of CheckDecimalParam_sdec)

lemma GetCGIParam_missing: "map_of f name = None \<Longrightarrow> ConfigGetCGIParam name f e = Some (0, True)"
  by (simp add: ConfigGetCGIParam_def cgi_value_map_of)

section \<open>Internet addresses\<close>

lemma aton_digits_run:
  assumes "list_all isdigit t" "r = [] \<or> \<not> isdigit (hd r)"
  shows "aton_digits 10 (of_nat a) (t @ r) = (of_nat (digits_value 10 a t), r)"
  using assms(1)
proof (induction t arbitrary: a)
  case Nil
  then show ?case using assms(2) by (cases r) simp_all
next
  case (Cons c t)
  note dc = digit_cases [of c]
  have c: "isdigit c" "list_all isdigit t" using Cons.prems by simp_all
  have v: "digit_val c = Some (of_char c - 48)" "of_char c - 48 < (10 :: nat)" using dc c(1) by (auto simp: is_digit_of_def)
  have "of_nat a * of_nat 10 + of_nat (of_char c - 48) = (of_nat (a * 10 + (of_char c - 48)) :: u32)" by (simp del: of_nat_diff)
  then show ?case using c v Cons.IH [of "a * 10 + (of_char c - 48)"] by (simp del: of_nat_diff of_nat_add of_nat_mult)
qed

lemma dec_head: "\<exists>c t. dec n = c # t \<and> isdigit c \<and> (c = CHR ''0'' \<longrightarrow> n = 0 \<and> t = [])"
proof (induction n rule: dec.induct)
  case (1 n)
  show ?case
  proof (cases "n < 10")
    case True
    have "char_of (48 + n) = CHR ''0'' \<Longrightarrow> n = 0" using True by (auto simp: char_of_eq_iff take_bit_eq_mod)
    then show ?thesis using True by (simp add: dec.simps [of n] is_digit_of_def digit_val_char)
  next
    case False
    then show ?thesis using 1 by (auto simp: dec.simps [of n])
  qed
qed

lemma aton_number_dec:
  assumes "r = [] \<or> hd r = CHR ''.''"
  shows "aton_number (dec n @ r) = Some (of_nat n, r)"
proof -
  have nd: "r = [] \<or> \<not> isdigit (hd r)" using assms by (auto simp: is_digit_of_def digit_val_def)
  obtain c t where c: "dec n = c # t" "isdigit c" "c = CHR ''0'' \<Longrightarrow> n = 0 \<and> t = []" using dec_head by blast
  have run: "aton_digits 10 0 (dec n @ r) = (of_nat n, r)"
    using aton_digits_run [of "dec n" r 0] nd dec_digits [of n] by (simp add: list_all_iff digits_value_dec)
  show ?thesis
  proof (cases "c = CHR ''0''")
    case True
    then show ?thesis using c(1) c(3) [OF True] assms nd by (cases r) (auto simp: aton_number_def is_digit_of_def digit_val_def)
  next
    case False
    then show ?thesis using run c(1,2) by (simp add: aton_number_def)
  qed
qed

lemma aton_parts_joined:
  assumes "ns \<noteq> []"
  shows "aton_parts (length ns - 1) (joined ''.'' (map dec ns)) = Some (map of_nat ns, [])"
  using assms
proof (induction ns)
  case (Cons n ns)
  show ?case
  proof (cases "ns = []")
    case True
    then show ?thesis using aton_number_dec [of "[]" n] by (simp add: aton_parts.simps [of 0])
  next
    case False
    obtain m where m: "length ns = Suc m" using False by (cases ns) auto
    have "aton_number (dec n @ ''.'' @ joined ''.'' (map dec ns)) = Some (of_nat n, ''.'' @ joined ''.'' (map dec ns))"
      by (rule aton_number_dec) simp
    then show ?thesis using Cons.IH [OF False] False m by (subst aton_parts.simps) (simp add: joined_Cons)
  qed
qed simp

lemma of_nat_unat8: "(of_nat (unat (b :: u8)) :: u32) = ucast b"
  by (rule word_unat_eq_iff [THEN iffD2]) (simp add: unsigned_ucast_eq unat_of_nat)

lemma byte_le: "(ucast (b :: u8) :: u32) \<le> 255"
  using unat8_lt [of b] by (simp add: word_le_nat_alt unsigned_ucast_eq take_bit_eq_mod)

lemma masked_byte: "ucast (ucast (v AND 0xFF :: u32) :: u8) = (v AND 0xFF :: u32)"
proof -
  have m: "(0xFF :: u32) = mask 8" by (simp add: mask_eq_exp_minus_1)
  show ?thesis unfolding m by (rule bit_word_eqI) (auto simp: bit_simps)
qed

lemma htonl_bytes: "htonl v = ip_word (rev (ip_bytes v))"
proof -
  have m: "(0xFF :: u32) = mask 8" "(0xFF00 :: u32) = push_bit 8 (mask 8)" "(0xFF0000 :: u32) = push_bit 16 (mask 8)"
    by (simp_all add: mask_eq_exp_minus_1 push_bit_eq_mult)
  have "push_bit 8 (v AND 0xFF00) = push_bit 16 (drop_bit 8 v AND 0xFF)"
    "drop_bit 8 (v AND 0xFF0000) = push_bit 8 (drop_bit 16 v AND 0xFF)" and top: "drop_bit 24 v AND 0xFF = drop_bit 24 v"
    unfolding m by (rule bit_word_eqI; auto simp: bit_simps dest: bit_imp_le_length)+
  then show ?thesis
    unfolding htonl_def ip_word_def ip_bytes_def
    by (simp only: rev.simps append.simps nth_Cons_0 nth_Cons_Suc numeral_3_eq_3 numeral_2_eq_2 One_nat_def masked_byte
        masked_byte [of "drop_bit 24 v", unfolded top])
qed

lemma ip_word_bytes: "ip_word (ip_bytes v) = v"
proof -
  have m: "(0xFF :: u32) = mask 8" by (simp add: mask_eq_exp_minus_1)
  have "push_bit 24 (drop_bit 24 v AND 0xFF) OR push_bit 16 (drop_bit 16 v AND 0xFF) OR push_bit 8 (drop_bit 8 v AND 0xFF) OR (v AND 0xFF) = v"
  proof (rule bit_word_eqI)
    fix n :: nat assume n: "n < LENGTH(32)"
    consider "n < 8" | "8 \<le> n" "n < 16" | "16 \<le> n" "n < 24" | "24 \<le> n" by linarith
    then show "bit (push_bit 24 (drop_bit 24 v AND 0xFF) OR push_bit 16 (drop_bit 16 v AND 0xFF) OR push_bit 8 (drop_bit 8 v AND 0xFF) OR (v AND 0xFF)) n = bit v n"
      using n unfolding m by cases (auto simp: bit_or_iff bit_push_bit_iff bit_drop_bit_eq bit_and_iff bit_mask_iff)
  qed
  then show ?thesis by (simp add: ip_word_def ip_bytes_def masked_byte)
qed

lemma length_ip_bytes [simp]: "length (ip_bytes v) = 4"
  by (simp add: ip_bytes_def)

lemma htonl_word: "length bs = 4 \<Longrightarrow> htonl (ip_word bs) = ip_word (rev bs)"
  by (simp add: htonl_bytes ip_bytes_word)

lemma htonl_htonl: "htonl (htonl v) = v"
  by (simp add: htonl_bytes [of v] htonl_word ip_word_bytes)

lemma aton_quad:
  assumes "length bs = 4"
  shows "ipaddr_aton (quad bs) = Some (htonl (ip_word bs))"
proof -
  obtain a b c d where bs: "bs = [a, b, c, d]" using assms by (auto simp: numeral_eq_Suc length_Suc_conv)
  have "aton_parts 3 (quad bs) = Some (map ucast bs, [])"
    using aton_parts_joined [of "map unat bs"] assms by (cases bs) (simp_all add: quad_def comp_def of_nat_unat8)
  moreover have "\<not> (ucast d :: u32) > 255" using byte_le [of d] by simp
  ultimately show ?thesis by (simp add: ipaddr_aton_def bs ip_word_def or.assoc or.commute or.left_commute)
qed

lemma GetCGIDeciIPAddr_quad:
  assumes "map_of f name = Some e" "form_encoded (quad bs) e" "length bs = 4"
  shows "ConfigGetCGIDeciIPAddr name f err = (if bs = replicate 4 0xFF then (0, True) else (ip_word bs, err))"
proof -
  have "quad bs = take 15 (quad bs)" using quad_length [OF assms(3)] by simp
  moreover have "NUL \<notin> set (quad bs)"
    using assms(3) dec_no [of NUL] unfolding quad_def
    by (cases bs; auto simp: digit_val_def NUL_def numeral_eq_Suc length_Suc_conv)
  ultimately have "text_of (ConfigDecodeFormString e 16 @ [NUL]) = quad bs"
    using decode_encoded [OF assms(2)] by (simp add: text_of_def takeWhile_to_NUL)
  moreover have "htonl (ip_word bs) = 0xFFFFFFFF \<longleftrightarrow> bs = replicate 4 0xFF"
  proof
    assume "htonl (ip_word bs) = 0xFFFFFFFF"
    then have "ip_bytes (ip_word bs) = ip_bytes (htonl 0xFFFFFFFF)" by (metis htonl_htonl)
    also have "\<dots> = replicate 4 0xFF" by code_simp
    finally show "bs = replicate 4 0xFF" using assms(3) by (simp add: ip_bytes_word)
  next
    assume b: "bs = replicate 4 0xFF"
    show "htonl (ip_word bs) = 0xFFFFFFFF" unfolding b by code_simp
  qed
  ultimately show ?thesis using assms
    by (simp add: ConfigGetCGIDeciIPAddr_def cgi_value_map_of inet_addr_def aton_quad htonl_htonl Let_def)
qed

section \<open>Hardware addresses\<close>

lemma mac_group_byte:
  assumes "c = CHR 0x2D \<or> c = NUL" "3 \<le> length strtemp"
  shows "mac_group strtemp 0 (hex2 b @ c # r) = Some (Some (hex2 b @ NUL # drop 3 strtemp, r))"
proof -
  obtain d0 d1 where h: "hex2 b = [d0, d1]" using hex2_Cons [of b] by auto
  have x: "isxdigit d0" "isxdigit d1" using hex2_isxdigit [of b] by (simp_all add: h)
  have n: "d0 \<noteq> CHR 0x2D" "d1 \<noteq> CHR 0x2D" "d0 \<noteq> NUL" "d1 \<noteq> NUL"
    using x by (auto simp: is_digit_of_def digit_val_def NUL_def)
  obtain s0 s1 s2 s3 where s: "strtemp = s0 # s1 # s2 # s3" using assms(2)
    by (metis One_nat_def Suc_le_length_iff numeral_3_eq_3)
  show ?thesis using assms(1) x n by (auto simp: h s wr_at_def)
qed

lemma mac_groups_bytes:
  assumes "bs \<noteq> []" "3 \<le> length strtemp"
  shows "mac_groups (length bs) strtemp (joined ''-'' (map hex2 bs) @ [NUL]) = Some (Some bs)"
  using assms
proof (induction bs arbitrary: strtemp)
  case (Cons b bs)
  have v: "StringtoInt ((hex2 b @ NUL # x) ! 0) ((hex2 b @ NUL # x) ! 1) = b" for x
    using StringtoInt_hex2 [of b] hex2_Cons [of b] by auto
  show ?case
  proof (cases "bs = []")
    case True
    then show ?thesis using mac_group_byte [of NUL strtemp b "[]"] Cons.prems v by simp
  next
    case False
    have "3 \<le> length (hex2 b @ NUL # drop 3 strtemp)" using hex2_Cons [of b] by auto
    from Cons.IH [OF False this] show ?thesis
      using mac_group_byte [of "CHR 0x2D" strtemp b "joined ''-'' (map hex2 bs) @ [NUL]"] Cons.prems False v by (simp add: joined_Cons)
  qed
qed simp

lemma GetCGIMacaddr_dashed:
  assumes "map_of f name = Some (joined ''-'' (map hex2 bs))" "length bs = 6" "3 \<le> length strtemp"
  shows "ConfigGetCGIMacaddr strtemp name f = Some (Some bs)"
proof -
  have "bs \<noteq> []" using assms(2) by auto
  from mac_groups_bytes [OF this assms(3)] show ?thesis
    unfolding assms(2) by (simp add: ConfigGetCGIMacaddr_def cgi_value_map_of assms(1))
qed

text \<open>An address with colons, as the page shows it, is an error, as is one whose colons are escaped.\<close>

lemma GetCGIMacaddr_colon:
  assumes "map_of f name = Some (d0 # d1 # c # r)" "isxdigit d0" "isxdigit d1" "c = CHR '':'' \<or> c = CHR ''%''"
    and "3 \<le> length strtemp"
  shows "ConfigGetCGIMacaddr strtemp name f = Some None"
proof -
  note x = assms(2,3)
  have n: "d0 \<noteq> CHR 0x2D" "d1 \<noteq> CHR 0x2D" "d0 \<noteq> NUL" "d1 \<noteq> NUL"
    using x by (auto simp: is_digit_of_def digit_val_def NUL_def)
  obtain s0 s1 s2 s3 where s: "strtemp = s0 # s1 # s2 # s3" using assms(5)
    by (metis One_nat_def Suc_le_length_iff numeral_3_eq_3)
  have "mac_groups 6 strtemp (d0 # d1 # c # r @ [NUL]) = Some None"
    using assms(4) x n by (auto simp: s wr_at_def numeral_eq_Suc NUL_def is_digit_of_def digit_val_def)
  then show ?thesis by (simp add: ConfigGetCGIMacaddr_def cgi_value_map_of assms(1))
qed

lemma GetCGIMacaddr_missing: "map_of f name = None \<Longrightarrow> ConfigGetCGIMacaddr strtemp name f = Some None"
  by (simp add: ConfigGetCGIMacaddr_def cgi_value_map_of)

text \<open>C20. Whatever encoding of a text a browser sends, with any of its characters as escapes and the
  spaces as plus signs, the handler has the text itself, cut to the room less one; and no value that is
  sent, well-formed or not, gives a text that does not fit the room with its terminator.\<close>

theorem form_text_decoded:
  assumes "form_encoded t e" "0 < n"
  shows "ConfigDecodeFormString e n = take (n - 1) t \<and> (\<forall>x. length (ConfigDecodeFormString x n) < n)"
  using decode_encoded [OF assms(1)] decode_fits [OF assms(2)] by blast

theorem form_text_decoded_witness:
  "ConfigDecodeFormString ''%73lot+1%2b2'' 16 = ''slot 1+2'' \<and> ConfigDecodeFormString ''%73lot+1%2b2'' 6 = ''slot ''"
proof -
  have "form_encoded ''slot 1+2'' ''%73lot+1%2b2''"
    by (intro form_encoded.intros; simp add: is_digit_of_def digit_val_def)
  then show ?thesis using form_text_decoded [of "''slot 1+2''" "''%73lot+1%2b2''"] by simp
qed

end
