(* ===== verification/WebSpec.thy ===== *)
theory WebSpec
  imports WebPages WebFormSpec
begin

text \<open>
  What the page of the PTP mode does with a form: it keeps the stored settings and the registers of
  the FPGA in step and saves them.
\<close>

section \<open>A command of a page\<close>

abbreviation regs_in :: "('d \<Rightarrow> u32 \<Rightarrow> u8) \<Rightarrow> 'd web \<Rightarrow> u32 \<Rightarrow> u8" where
  "regs_in regs w \<equiv> regs (fpga (settings (mach w)))"

lemma line_end_LF: "line_end [CHR 0x0A]"
  by (simp add: line_end_def)

lemma run_setting:
  assumes "\<forall>t \<in> set (c # ps). plain t" "length (lined [CHR 0x0A] (c # ps)) \<le> 128" "length ps < 6"
    and "map_of (user_cmdhandle (dev sy) (gnss_msgs sy) (stack_bytes sy)) c = Some (on_texts (on_settings h))"
    and "h (map Some ps @ [Some []]) (settings (mach w)) = Some (s, Some [], r)"
  shows "run_command sy (lined [CHR 0x0A] (c # ps)) w = Some (w\<lparr>mach := (mach w)\<lparr>settings := s\<rparr>\<rparr>)"
  using line_handler [OF assms(1) line_end_LF assms(2-5)] by (simp add: run_command_def)

lemma page_commands:
  "map_of (user_cmdhandle dv msgs wbuf) ''ptp2'' = Some (on_texts (on_settings (ptp_set_handler dv)))"
  "map_of (user_cmdhandle dv msgs wbuf) ''ipconfig'' = Some (on_texts (on_settings (ptp_ipconfig_handler dv)))"
  "map_of (user_cmdhandle dv msgs wbuf) ''ifconfig'' = Some (on_texts (on_settings (ptp_ifconfig_handler dv)))"
  by (simp_all add: user_cmdhandle_def)

section \<open>The settings of the PTP protocol\<close>

text \<open>A command that writes \<open>v\<close> to the register \<open>a\<close> and stores it with \<open>g\<close>.\<close>

definition sets_mode :: "'d fpga_dev \<Rightarrow> string list \<Rightarrow> u8 \<Rightarrow> u32 \<Rightarrow> (ptp_mode \<Rightarrow> ptp_mode) \<Rightarrow> bool" where
  "sets_mode dv ps v a g \<longleftrightarrow>
     (\<forall>s. ptp_set_handler dv (map Some ps @ [Some []]) s =
        (let (s, r) = reg_writes dv [(v, a)] (s\<lparr>mode_par := g (mode_par s)\<rparr>) in Some (s, Some [], r)))"

lemmas mode_simps = sets_mode_def ptp_set_handler_def handler_simps query_or_set_def set_param_def set_partial_def run_set_def

abbreviation "on_off v \<equiv> (if v \<noteq> (0 :: u8) then ''on'' else ''off'')"

lemma bit_cases: "(v :: u8) \<le> 1 \<Longrightarrow> v = 0 \<or> v = 1"
  by (metis le_less less_one word_less_1)

lemma mode_switches:
  assumes "(v :: u8) = 0 \<or> v = 1"
  shows "sets_mode dv [''p'', ''e'', on_off v] v 0x0123 (port_enable_update (\<lambda>_. v))"
    and "sets_mode dv [''e'', ''e'', on_off v] v 0x0152 (esmc_enable_update (\<lambda>_. v))"
    and "sets_mode dv [''p'', ''m'', if v \<noteq> 0 then ''p2p'' else ''e2e''] v 0x0149 (delay_type_update (\<lambda>_. v))"
    and "sets_mode dv [''p'', ''u'', if v \<noteq> 0 then ''enable'' else ''disable''] v 0x0146 (unicast_update (\<lambda>_. v))"
    and "sets_mode dv [''p'', ''p'', if v \<noteq> 0 then ''udp'' else ''eth''] v 0x0147 (encode_package_update (\<lambda>_. v))"
    and "sets_mode dv [''c'', ''t'', on_off v] v 0x0148 (step_type_update (\<lambda>_. v))"
    and "sets_mode dv [''p'', ''n'', on_off v] v 0x0154 (\<lambda>m. m\<lparr>protocol := v, ntp_en := v\<rparr>)"
  using assms
  by (auto simp: mode_simps p_ptp_port_subcmd_def p_ptp_clock_subcmd_def p_ptp_esmc_subcmd_def
      ptp2_set_psubcmd_parser_def ptp2_set_csubcmd_parser_def ptp2_set_esubcmd_parser_def
      ptp_porten_set_def ptp_esmcen_set_def ptp_mechanism_set_def ptp_unicast_set_def ptp_protocol_set_def
      ptp_steptype_set_def ptp_ntpen_set_def switch_set_def simp del: reg_writes.simps split: prod.splits)

lemma mode_numbers:
  shows "sets_mode dv [''c'', ''d'', dec (unat v)] v 0x0124 (domain_update (\<lambda>_. v))"
    and "sets_mode dv [''c'', ''p'', ''1'', dec (unat v)] v 0x0137 (priority1_update (\<lambda>_. v))"
    and "sets_mode dv [''c'', ''p'', ''2'', dec (unat v)] v 0x0142 (priority2_update (\<lambda>_. v))"
  using unat8_lt [of v] length_dec_byte [of "unat v"] uint_bounded [of v]
  by (auto simp: mode_simps p_ptp_clock_subcmd_def ptp2_set_csubcmd_parser_def ptp_domain_set_def byte_set_def
      ptp_priority1_set_def ptp_priority2_set_def atoi_dec dec_isdigit dec_isdigit_all simp del: reg_writes.simps split: prod.splits)

text \<open>The interval 16 is found as 1.\<close>

definition kept_interval :: "u8 \<Rightarrow> u8" where "kept_interval v = (if v = 12 then 8 else v)"

lemma find_intervals:
  "list_all (\<lambda>i. find_prefix p_frequcy (p_frequcy ! i) 0 = Some (if i = 12 then 8 else i)) [0..<15]"
  by code_simp

lemma find_interval:
  assumes "unat v < 15"
  shows "find_prefix p_frequcy (p_frequcy ! unat v) 0 = Some (unat (kept_interval v))"
proof -
  have "(unat v = 12) = (v = 12)" by (simp add: word_unat_eq_iff)
  then show ?thesis using find_intervals assms by (auto simp: list_all_iff kept_interval_def)
qed

lemma mode_intervals:
  assumes "unat v < 15"
  shows "sets_mode dv [''p'', ''si'', p_frequcy ! unat v] (kept_interval v - 8) 0x0151 (sync_frequency_update (\<lambda>_. kept_interval v))"
    and "sets_mode dv [''p'', ''ai'', p_frequcy ! unat v] (kept_interval v - 8) 0x0150 (anounce_frequency_update (\<lambda>_. kept_interval v))"
  using find_interval [OF assms]
  by (auto simp: mode_simps p_ptp_port_subcmd_def ptp2_set_psubcmd_parser_def ptp_syncinter_set_def ptp_announceinter_set_def
      interval_set_def simp del: reg_writes.simps split: prod.splits)

text \<open>One step of the page: a setting that differs from the stored one is stored and sent, and one that is
  equal is neither.\<close>

lemma change_mode_step:
  assumes "fpga_ok (dev sy) regs" "sets_mode (dev sy) ps r a g"
    and "\<forall>t \<in> set ps. plain t \<and> length t \<le> 8" "length ps \<le> 4" "cmd = PtpNet.joined '' '' (''ptp2'' # ps)"
    and store: "\<And>m. g (store m) = g m"
  shows "\<exists>d. change_mode sy field store v (Some cmd) w = Some (w\<lparr>mach := (mach w)\<lparr>settings := (settings (mach w))\<lparr>
        mode_par := if field (mode_of w) = v then mode_of w else g (mode_of w), fpga := d\<rparr>\<rparr>\<rparr>) \<and>
    regs d = regs_set (if field (mode_of w) = v then [] else [(r, a)]) (regs_in regs w)"
proof (cases "field (mode_of w) = v")
  case True
  then show ?thesis by (intro exI [of _ "fpga (settings (mach w))"]) (simp add: change_mode_def)
next
  case False
  let ?s = "(settings (mach w))\<lparr>mode_par := g (mode_of w)\<rparr>"
  define d where "d = dev_writes (dev sy) [(r, a)] (fpga (settings (mach w)))"
  have h: "ptp_set_handler (dev sy) (map Some ps @ [Some []]) (settings (mach (on_mode store w))) = Some (?s\<lparr>fpga := d\<rparr>, Some [], OK)"
    using assms(2) by (simp add: sets_mode_def on_mode_def store reg_writes_ok [OF assms(1)] d_def del: reg_writes.simps dev_writes.simps)
  have p: "\<forall>t \<in> set (''ptp2'' # ps). plain t" using assms(3) by (auto simp: plain_def NUL_def)
  have "list_all (\<lambda>t. length t \<le> 8) (''ptp2'' # ps)" using assms(3) by (auto simp: list_all_iff)
  then have "length (line (''ptp2'' # ps)) \<le> length (''ptp2'' # ps) * Suc 8 + 2" by (rule length_line)
  then have l: "length (lined [CHR 0x0A] (''ptp2'' # ps)) \<le> 128" using assms(4) by (simp add: line_def lined_def)
  have "run_command sy (lined [CHR 0x0A] (''ptp2'' # ps)) (on_mode store w) =
      Some ((on_mode store w)\<lparr>mach := (mach (on_mode store w))\<lparr>settings := ?s\<lparr>fpga := d\<rparr>\<rparr>\<rparr>)"
    using run_setting [OF p l _ page_commands(1) h] assms(4) by simp
  moreover have "regs d = regs_set [(r, a)] (regs_in regs w)" by (simp add: d_def dev_writes_regs [OF assms(1)] del: dev_writes.simps)
  ultimately show ?thesis using False
    by (intro exI [of _ d]) (simp add: change_mode_def assms(5) lined_def on_mode_def del: regs_set.simps)
qed

text \<open>The parameters of the page with their largest values, and what they set.\<close>

definition mode_limits :: "(string \<times> int) list" where
  "mode_limits = [(''en'', 1), (''esmcen'', 1), (''dlytype'', 1), (''unicast'', 1), (''enp'', 1), (''step'', 1), (''sync'', 14),
     (''anounce'', 14), (''domain'', 255), (''outype'', 1), (''prio1'', 255), (''prio2'', 255)]"

text \<open>What the page stores: every parameter, but the interval 16 as 1 unless it is the stored one, and the
  type of the output also over \<open>protocol\<close> when it differs from the stored one.\<close>

definition page_mode :: "(string \<Rightarrow> u8) \<Rightarrow> ptp_mode \<Rightarrow> ptp_mode" where
  "page_mode n m = m\<lparr>port_enable := n ''en'', esmc_enable := n ''esmcen'', delay_type := n ''dlytype'', unicast := n ''unicast'',
     encode_package := n ''enp'', step_type := n ''step'',
     sync_frequency := (if sync_frequency m = n ''sync'' then n ''sync'' else kept_interval (n ''sync'')),
     anounce_frequency := (if anounce_frequency m = n ''anounce'' then n ''anounce'' else kept_interval (n ''anounce'')),
     domain := n ''domain'', ntp_en := n ''outype'', protocol := (if ntp_en m = n ''outype'' then protocol m else n ''outype''),
     priority1 := n ''prio1'', priority2 := n ''prio2''\<rparr>"

text \<open>What it writes to the registers: the parameters that differ from the stored settings.\<close>

definition page_sent :: "(string \<Rightarrow> u8) \<Rightarrow> ptp_mode \<Rightarrow> (u8 \<times> u32) list" where
  "page_sent n m = map snd (filter fst
     [(port_enable m \<noteq> n ''en'', n ''en'', 0x0123),
      (esmc_enable m \<noteq> n ''esmcen'', n ''esmcen'', 0x0152),
      (delay_type m \<noteq> n ''dlytype'', n ''dlytype'', 0x0149),
      (unicast m \<noteq> n ''unicast'', n ''unicast'', 0x0146),
      (encode_package m \<noteq> n ''enp'', n ''enp'', 0x0147),
      (step_type m \<noteq> n ''step'', n ''step'', 0x0148),
      (sync_frequency m \<noteq> n ''sync'', kept_interval (n ''sync'') - 8, 0x0151),
      (anounce_frequency m \<noteq> n ''anounce'', kept_interval (n ''anounce'') - 8, 0x0150),
      (domain m \<noteq> n ''domain'', n ''domain'', 0x0124),
      (ntp_en m \<noteq> n ''outype'', n ''outype'', 0x0154),
      (priority1 m \<noteq> n ''prio1'', n ''prio1'', 0x0137),
      (priority2 m \<noteq> n ''prio2'', n ''prio2'', 0x0142)])"

lemma regs_set_sent:
  assumes "distinct (map (\<lambda>x. snd (snd x)) xs)" "(c, v, a) \<in> set xs"
  shows "regs_set (map snd (filter fst xs)) R a = (if c then v else R a)"
  using assms
proof (induction xs arbitrary: R)
  case (Cons x xs)
  obtain c' v' a' where x: "x = (c', v', a')" by (cases x)
  show ?case
  proof (cases "(c, v, a) = x")
    case True
    then have "a \<notin> snd ` set (map snd (filter fst xs))" using Cons.prems(1) x by (auto simp: image_iff)
    then show ?thesis using True x by (auto simp: regs_set_other)
  next
    case False
    then have m: "(c, v, a) \<in> set xs" using Cons.prems(2) by simp
    moreover from this have "a' \<noteq> a" using Cons.prems(1) x by (auto simp: image_iff)
    ultimately show ?thesis using Cons x by auto
  qed
qed simp

text \<open>The registers that hold the settings of the page.\<close>

definition mode_regs :: "ptp_mode \<Rightarrow> (u8 \<times> u32) list" where
  "mode_regs m =
     [(port_enable m, 0x0123), (esmc_enable m, 0x0152), (delay_type m, 0x0149), (unicast m, 0x0146), (encode_package m, 0x0147),
      (step_type m, 0x0148), (sync_frequency m - 8, 0x0151), (anounce_frequency m - 8, 0x0150), (domain m, 0x0124),
      (ntp_en m, 0x0154), (priority1 m, 0x0137), (priority2 m, 0x0142)]"

definition mode_synced :: "(u32 \<Rightarrow> u8) \<Rightarrow> ptp_mode \<Rightarrow> bool" where
  "mode_synced R m \<longleftrightarrow> list_all (\<lambda>(v, a). R a = v) (mode_regs m) \<and> protocol m = ntp_en m \<and>
     kept_interval (sync_frequency m) = sync_frequency m \<and> kept_interval (anounce_frequency m) = anounce_frequency m"

lemma kept_idem: "kept_interval (kept_interval v) = kept_interval v"
  by (simp add: kept_interval_def)

lemma then_param_sdec:
  "map_of f name = Some (sdec n) \<Longrightarrow> \<bar>n\<bar> < 2 ^ 31 \<Longrightarrow> then_param name f False = Some (n, False)"
  by (simp add: then_param_def GetCGIParam_sdec)

lemma byte_of: "0 \<le> n \<Longrightarrow> n < 256 \<Longrightarrow> unat (word_of_int n :: u8) = nat n"
  by (simp add: unat_eq_nat_uint uint_word_of_int)

lemma flag_of: "0 \<le> n \<Longrightarrow> n \<le> 1 \<Longrightarrow> (word_of_int n :: u8) = 0 \<or> (word_of_int n :: u8) = 1"
proof -
  assume "0 \<le> n" "n \<le> 1"
  then have "n = 0 \<or> n = 1" by linarith
  then show ?thesis by auto
qed

lemma flag_and: "(v :: u8) = 0 \<or> v = 1 \<Longrightarrow> v AND 1 = v"
  by auto

text \<open>A list of settings, each with its field, the words of its command, the register and the value
  written, and what is stored in the end.\<close>

type_synonym change =
  "(ptp_mode \<Rightarrow> u8) \<times> (ptp_mode \<Rightarrow> ptp_mode) \<times> u8 \<times> string list \<times> u8 \<times> u32 \<times> (ptp_mode \<Rightarrow> ptp_mode)"

fun changes :: "'d surroundings \<Rightarrow> change list \<Rightarrow> 'd web \<Rightarrow> 'd web option" where
  "changes sy [] w = Some w"
| "changes sy ((field, store, v, ps, r, a, g) # cs) w = do {
     w \<leftarrow> change_mode sy field store v (Some (PtpNet.joined '' '' (''ptp2'' # ps))) w;
     changes sy cs w
   }"

definition change_ok :: "'d fpga_dev \<Rightarrow> change \<Rightarrow> bool" where
  "change_ok dv = (\<lambda>(field, store, v, ps, r, a, g). sets_mode dv ps r a g \<and> (\<forall>t \<in> set ps. plain t \<and> length t \<le> 8) \<and>
     length ps \<le> 4 \<and> (\<forall>m. g (store m) = g m))"

definition change_free :: "change \<Rightarrow> change \<Rightarrow> bool" where
  "change_free = (\<lambda>(field, store, v, ps, r, a, g) (field', store', v', ps', r', a', g'). \<forall>m. field' (g m) = field' m)"

definition end_mode :: "change list \<Rightarrow> ptp_mode \<Rightarrow> ptp_mode" where
  "end_mode cs m = fold (\<lambda>(field, store, v, ps, r, a, g) m. if field m = v then m else g m) cs m"

definition changes_sent :: "change list \<Rightarrow> ptp_mode \<Rightarrow> (u8 \<times> u32) list" where
  "changes_sent cs m = map snd (filter fst (map (\<lambda>(field, store, v, ps, r, a, g). (field m \<noteq> v, r, a)) cs))"

lemma sent_free: "\<forall>c' \<in> set cs. change_free (field, store, v, ps, r, a, g) c' \<Longrightarrow> changes_sent cs (g m) = changes_sent cs m"
  unfolding changes_sent_def by (intro arg_cong [where f = "\<lambda>xs. map snd (filter fst xs)"] map_cong refl) (auto simp: change_free_def)

lemma changes_run:
  assumes "fpga_ok (dev sy) regs" "list_all (change_ok (dev sy)) cs" "sorted_wrt change_free cs"
  shows "\<exists>d. changes sy cs w =
      Some (w\<lparr>mach := (mach w)\<lparr>settings := (settings (mach w))\<lparr>mode_par := end_mode cs (mode_of w), fpga := d\<rparr>\<rparr>\<rparr>) \<and>
    regs d = regs_set (changes_sent cs (mode_of w)) (regs_in regs w)"
  using assms(2,3)
proof (induction cs arbitrary: w)
  case Nil
  then show ?case by (auto simp: end_mode_def changes_sent_def intro!: exI [of _ "fpga (settings (mach w))"])
next
  case (Cons c cs)
  obtain field store v ps r a g where c: "c = (field, store, v, ps, r, a, g)" by (cases c)
  have ok: "sets_mode (dev sy) ps r a g" "\<forall>t \<in> set ps. plain t \<and> length t \<le> 8" "length ps \<le> 4" "\<And>m. g (store m) = g m"
    using Cons.prems(1) by (auto simp: change_ok_def c)
  let ?m = "if field (mode_of w) = v then mode_of w else g (mode_of w)"
  obtain d where d: "change_mode sy field store v (Some (PtpNet.joined '' '' (''ptp2'' # ps))) w =
      Some (w\<lparr>mach := (mach w)\<lparr>settings := (settings (mach w))\<lparr>mode_par := ?m, fpga := d\<rparr>\<rparr>\<rparr>)"
    "regs d = regs_set (if field (mode_of w) = v then [] else [(r, a)]) (regs_in regs w)"
    using change_mode_step [OF assms(1) ok(1-3) refl ok(4)] by blast
  define w1 where "w1 = w\<lparr>mach := (mach w)\<lparr>settings := (settings (mach w))\<lparr>mode_par := ?m, fpga := d\<rparr>\<rparr>\<rparr>"
  from Cons.IH [of w1] Cons.prems obtain e where
    e: "changes sy cs w1 = Some (w1\<lparr>mach := (mach w1)\<lparr>settings := (settings (mach w1))\<lparr>mode_par := end_mode cs (mode_of w1), fpga := e\<rparr>\<rparr>\<rparr>)"
    "regs e = regs_set (changes_sent cs (mode_of w1)) (regs_in regs w1)" by auto
  have "changes_sent cs (mode_of w1) = changes_sent cs (mode_of w)" using sent_free [of cs field store v ps r a g "mode_of w"] Cons.prems(2) by (simp add: w1_def c)
  then have "regs e = regs_set (changes_sent (c # cs) (mode_of w)) (regs_in regs w)" by (simp add: e(2) w1_def d(2) changes_sent_def c)
  moreover have "end_mode (c # cs) (mode_of w) = end_mode cs (mode_of w1)" by (simp add: end_mode_def c w1_def)
  moreover have "changes sy (c # cs) w = changes sy cs w1" by (simp only: c changes.simps d(1) bind.simps w1_def)
  ultimately show ?case by (intro exI [of _ e]) (simp add: e(1), simp add: w1_def)
qed

text \<open>The twelve settings of the page.\<close>

definition page_changes :: "(string \<Rightarrow> u8) \<Rightarrow> change list" where
  "page_changes n =
     [(port_enable, port_enable_update (\<lambda>_. n ''en'' AND 1), n ''en'', [''p'', ''e'', on_off (n ''en'')],
         n ''en'', 0x0123, port_enable_update (\<lambda>_. n ''en'')),
      (esmc_enable, esmc_enable_update (\<lambda>_. n ''esmcen'' AND 1), n ''esmcen'', [''e'', ''e'', on_off (n ''esmcen'')],
         n ''esmcen'', 0x0152, esmc_enable_update (\<lambda>_. n ''esmcen'')),
      (delay_type, delay_type_update (\<lambda>_. n ''dlytype'' AND 1), n ''dlytype'',
         [''p'', ''m'', if n ''dlytype'' \<noteq> 0 then ''p2p'' else ''e2e''],
         n ''dlytype'', 0x0149, delay_type_update (\<lambda>_. n ''dlytype'')),
      (unicast, unicast_update (\<lambda>_. n ''unicast'' AND 1), n ''unicast'',
         [''p'', ''u'', if n ''unicast'' \<noteq> 0 then ''enable'' else ''disable''],
         n ''unicast'', 0x0146, unicast_update (\<lambda>_. n ''unicast'')),
      (encode_package, encode_package_update (\<lambda>_. n ''enp'' AND 1), n ''enp'',
         [''p'', ''p'', if n ''enp'' \<noteq> 0 then ''udp'' else ''eth''],
         n ''enp'', 0x0147, encode_package_update (\<lambda>_. n ''enp'')),
      (step_type, step_type_update (\<lambda>_. n ''step'' AND 1), n ''step'', [''c'', ''t'', on_off (n ''step'')],
         n ''step'', 0x0148, step_type_update (\<lambda>_. n ''step'')),
      (sync_frequency, sync_frequency_update (\<lambda>_. n ''sync''), n ''sync'', [''p'', ''si'', p_frequcy ! unat (n ''sync'')],
         kept_interval (n ''sync'') - 8, 0x0151, sync_frequency_update (\<lambda>_. kept_interval (n ''sync''))),
      (anounce_frequency, anounce_frequency_update (\<lambda>_. n ''anounce''), n ''anounce'', [''p'', ''ai'', p_frequcy ! unat (n ''anounce'')],
         kept_interval (n ''anounce'') - 8, 0x0150, anounce_frequency_update (\<lambda>_. kept_interval (n ''anounce''))),
      (domain, domain_update (\<lambda>_. n ''domain''), n ''domain'', [''c'', ''d'', dec (unat (n ''domain''))],
         n ''domain'', 0x0124, domain_update (\<lambda>_. n ''domain'')),
      (ntp_en, ntp_en_update (\<lambda>_. n ''outype'' AND 1), n ''outype'', [''p'', ''n'', on_off (n ''outype'')],
         n ''outype'', 0x0154, (\<lambda>m. m\<lparr>protocol := n ''outype'', ntp_en := n ''outype''\<rparr>)),
      (priority1, priority1_update (\<lambda>_. n ''prio1''), n ''prio1'', [''c'', ''p'', ''1'', dec (unat (n ''prio1''))],
         n ''prio1'', 0x0137, priority1_update (\<lambda>_. n ''prio1'')),
      (priority2, priority2_update (\<lambda>_. n ''prio2''), n ''prio2'', [''c'', ''p'', ''2'', dec (unat (n ''prio2''))],
         n ''prio2'', 0x0142, priority2_update (\<lambda>_. n ''prio2''))]"

definition in_limits :: "(string \<Rightarrow> u8) \<Rightarrow> bool" where
  "in_limits n \<longleftrightarrow> list_all (\<lambda>(p, hi). uint (n p) \<le> hi) mode_limits"

lemma in_limits_le: "in_limits n \<Longrightarrow> (p, hi) \<in> set mode_limits \<Longrightarrow> uint (n p) \<le> hi"
  unfolding in_limits_def list_all_iff by fast

lemma in_limits_flags: "in_limits n \<Longrightarrow> (p, 1) \<in> set mode_limits \<Longrightarrow> n p = 0 \<or> n p = 1"
  using in_limits_le [of n p 1] flag_of [of "uint (n p)"] by simp

lemma in_limits_intervals: "in_limits n \<Longrightarrow> (p, 14) \<in> set mode_limits \<Longrightarrow> unat (n p) < 15"
proof -
  assume "in_limits n" "(p, 14) \<in> set mode_limits"
  then have "uint (n p) \<le> 14" by (rule in_limits_le)
  then show ?thesis unfolding uint_nat by linarith
qed

lemma short_words:
  "plain (p_frequcy ! unat v) \<and> length (p_frequcy ! unat v) \<le> 8" if "unat v < 15" for v :: u8
proof -
  have "list_all (\<lambda>t. plain t \<and> length t \<le> 8) p_frequcy" by (simp add: p_frequcy_def plain_def NUL_def)
  then show ?thesis using that by (auto simp: list_all_length length_p_frequcy)
qed

definition page_word :: "string \<Rightarrow> bool" where "page_word t \<longleftrightarrow> plain t \<and> length t \<le> 8"

lemma page_words:
  "page_word ''p''" "page_word ''e''" "page_word ''m''" "page_word ''u''" "page_word ''c''" "page_word ''t''" "page_word ''n''"
  "page_word ''si''" "page_word ''ai''" "page_word ''d''" "page_word ''1''" "page_word ''2''" "page_word ''on''" "page_word ''off''"
  "page_word ''p2p''" "page_word ''e2e''" "page_word ''enable''" "page_word ''disable''" "page_word ''udp''" "page_word ''eth''"
  by code_simp+

lemma page_word_dec: "page_word (dec (unat (v :: u8)))"
  using length_dec8 [of v] dec_plain [of "unat v"] by (simp add: page_word_def)

lemma change_okI:
  "sets_mode dv ps r a g \<Longrightarrow> list_all page_word ps \<Longrightarrow> length ps \<le> 4 \<Longrightarrow> (\<And>m. g (store m) = g m) \<Longrightarrow>
     change_ok dv (field, store, v, ps, r, a, g)"
  by (simp add: change_ok_def page_word_def list_all_iff)

lemma page_changes_ok:
  assumes "in_limits n"
  shows "list_all (change_ok dv) (page_changes n)"
proof -
  have f: "n ''en'' = 0 \<or> n ''en'' = 1" "n ''esmcen'' = 0 \<or> n ''esmcen'' = 1" "n ''dlytype'' = 0 \<or> n ''dlytype'' = 1"
    "n ''unicast'' = 0 \<or> n ''unicast'' = 1" "n ''enp'' = 0 \<or> n ''enp'' = 1" "n ''step'' = 0 \<or> n ''step'' = 1"
    "n ''outype'' = 0 \<or> n ''outype'' = 1"
    by (rule in_limits_flags [OF assms]; simp add: mode_limits_def)+
  have i: "unat (n ''sync'') < 15" "unat (n ''anounce'') < 15"
    by (rule in_limits_intervals [OF assms]; simp add: mode_limits_def)+
  have w: "page_word (p_frequcy ! unat (n ''sync''))" "page_word (p_frequcy ! unat (n ''anounce''))"
    using short_words [OF i(1)] short_words [OF i(2)] by (simp_all add: page_word_def)
  note s = mode_switches [where dv = dv] and m = mode_numbers [where dv = dv]
  show ?thesis
    unfolding page_changes_def list.pred_inject(2)
    by (intro conjI list.pred_inject(1);
        rule change_okI [OF s(1) [OF f(1)]] change_okI [OF s(2) [OF f(2)]] change_okI [OF s(3) [OF f(3)]] change_okI [OF s(4) [OF f(4)]]
          change_okI [OF s(5) [OF f(5)]] change_okI [OF s(6) [OF f(6)]] change_okI [OF mode_intervals(1) [OF i(1)]]
          change_okI [OF mode_intervals(2) [OF i(2)]] change_okI [OF m(1)] change_okI [OF s(7) [OF f(7)]] change_okI [OF m(2)]
          change_okI [OF m(3)];
        simp add: page_words page_word_dec w)
qed

lemma page_changes_free: "sorted_wrt change_free (page_changes n)"
  by (simp add: page_changes_def change_free_def)

section \<open>The page of the PTP protocol\<close>

definition form_numbers :: "(string \<times> int) list \<Rightarrow> (string \<Rightarrow> int) \<Rightarrow> form \<Rightarrow> bool" where
  "form_numbers limits n f \<longleftrightarrow> list_all (\<lambda>(p, hi). map_of f p = Some (sdec (n p)) \<and> 0 \<le> n p \<and> n p \<le> hi) limits"

lemma form_number:
  assumes "form_numbers limits n f" "(p, hi) \<in> set limits" "hi < 2 ^ 31"
  shows "ConfigGetCGIParam p f e = Some (n p, e)" and "then_param p f False = Some (n p, False)"
proof -
  have m: "map_of f p = Some (sdec (n p))" "0 \<le> n p" "n p \<le> hi" using assms(1,2) by (auto simp: form_numbers_def list_all_iff)
  then have "\<bar>n p\<bar> < 2 ^ 31" using assms(3) by linarith
  then show "ConfigGetCGIParam p f e = Some (n p, e)" "then_param p f False = Some (n p, False)"
    using m(1) by (simp_all add: GetCGIParam_sdec then_param_sdec)
qed

lemma form_in_limits:
  assumes "form_numbers mode_limits n f"
  shows "in_limits (\<lambda>p. word_of_int (n p))"
  unfolding in_limits_def list_all_iff
proof (rule ballI, clarify)
  fix p hi assume "(p, hi) \<in> set mode_limits"
  then have "0 \<le> n p" "n p \<le> hi" "hi \<le> 255" using assms by (auto simp: form_numbers_def list_all_iff mode_limits_def)
  then show "uint (word_of_int (n p) :: u8) \<le> hi" by (simp add: uint_word_of_int)
qed

lemma interval_name_eq: "unat v < 15 \<Longrightarrow> interval_name v = Some (p_frequcy ! unat v)"
  by (simp add: interval_name_def length_p_frequcy)

lemma PtpModHandler_changes:
  assumes "form_numbers mode_limits n f"
  shows "ConfigPtpModHandler sy f w = do {
    w \<leftarrow> changes sy (page_changes (\<lambda>p. word_of_int (n p))) w;
    Some (save_parameters (copy_parameters (layout sy) w), SET_CGI_RESPONSE)
  }"
proof -
  have p: "ConfigGetCGIParam ''en'' f False = Some (n ''en'', False)" by (rule form_number [OF assms, of _ 1]) (simp_all add: mode_limits_def)
  have q: "list_all (\<lambda>(p, hi). then_param p f False = Some (n p, False)) mode_limits"
    unfolding list_all_iff
  proof (rule ballI, clarify)
    fix p hi assume "(p, hi) \<in> set mode_limits"
    moreover from this have "hi < 2 ^ 31" by (auto simp: mode_limits_def)
    ultimately show "then_param p f False = Some (n p, False)" by (rule form_number [OF assms])
  qed
  note i = in_limits_intervals [OF form_in_limits [OF assms]]
  have "interval_name (word_of_int (n ''sync'')) = Some (p_frequcy ! unat (word_of_int (n ''sync'') :: u8))"
    "interval_name (word_of_int (n ''anounce'')) = Some (p_frequcy ! unat (word_of_int (n ''anounce'') :: u8))"
    by (rule interval_name_eq, rule i, simp add: mode_limits_def)+
  then show ?thesis
    using q by (simp add: ConfigPtpModHandler_def p mode_limits_def page_changes_def Let_def if_distrib [of "\<lambda>t. _ @ t"] cong: if_cong)
qed

lemma stored_mode:
  "(if port_enable m = v then m else m\<lparr>port_enable := v\<rparr>) = m\<lparr>port_enable := v\<rparr>"
  "(if esmc_enable m = v then m else m\<lparr>esmc_enable := v\<rparr>) = m\<lparr>esmc_enable := v\<rparr>"
  "(if delay_type m = v then m else m\<lparr>delay_type := v\<rparr>) = m\<lparr>delay_type := v\<rparr>"
  "(if unicast m = v then m else m\<lparr>unicast := v\<rparr>) = m\<lparr>unicast := v\<rparr>"
  "(if encode_package m = v then m else m\<lparr>encode_package := v\<rparr>) = m\<lparr>encode_package := v\<rparr>"
  "(if step_type m = v then m else m\<lparr>step_type := v\<rparr>) = m\<lparr>step_type := v\<rparr>"
  "(if sync_frequency m = v then m else m\<lparr>sync_frequency := k\<rparr>) = m\<lparr>sync_frequency := if sync_frequency m = v then v else k\<rparr>"
  "(if anounce_frequency m = v then m else m\<lparr>anounce_frequency := k\<rparr>) = m\<lparr>anounce_frequency := if anounce_frequency m = v then v else k\<rparr>"
  "(if domain m = v then m else m\<lparr>domain := v\<rparr>) = m\<lparr>domain := v\<rparr>"
  "(if ntp_en m = v then m else m\<lparr>protocol := v, ntp_en := v\<rparr>) = m\<lparr>ntp_en := v, protocol := if ntp_en m = v then protocol m else v\<rparr>"
  "(if priority1 m = v then m else m\<lparr>priority1 := v\<rparr>) = m\<lparr>priority1 := v\<rparr>"
  "(if priority2 m = v then m else m\<lparr>priority2 := v\<rparr>) = m\<lparr>priority2 := v\<rparr>"
  by auto

lemma end_page_mode: "end_mode (page_changes n) m = page_mode n m"
  by (simp add: end_mode_def page_changes_def page_mode_def stored_mode cong: if_cong)

lemma sent_page: "changes_sent (page_changes n) m = page_sent n m"
  by (simp only: changes_sent_def page_changes_def page_sent_def list.map prod.case)

lemma page_sent_regs:
  "map (regs_set (page_sent n m) R) (map snd (mode_regs m)) =
     [if port_enable m \<noteq> n ''en'' then n ''en'' else R 0x0123, if esmc_enable m \<noteq> n ''esmcen'' then n ''esmcen'' else R 0x0152,
      if delay_type m \<noteq> n ''dlytype'' then n ''dlytype'' else R 0x0149, if unicast m \<noteq> n ''unicast'' then n ''unicast'' else R 0x0146,
      if encode_package m \<noteq> n ''enp'' then n ''enp'' else R 0x0147, if step_type m \<noteq> n ''step'' then n ''step'' else R 0x0148,
      if sync_frequency m \<noteq> n ''sync'' then kept_interval (n ''sync'') - 8 else R 0x0151,
      if anounce_frequency m \<noteq> n ''anounce'' then kept_interval (n ''anounce'') - 8 else R 0x0150,
      if domain m \<noteq> n ''domain'' then n ''domain'' else R 0x0124, if ntp_en m \<noteq> n ''outype'' then n ''outype'' else R 0x0154,
      if priority1 m \<noteq> n ''prio1'' then n ''prio1'' else R 0x0137, if priority2 m \<noteq> n ''prio2'' then n ''prio2'' else R 0x0142]"
  unfolding page_sent_def mode_regs_def list.map snd_conv list.inject
  by (intro conjI refl; rule regs_set_sent; simp)

lemma now_equal:
  "(if x \<noteq> y then y else x) = y"
  "(if x \<noteq> (y :: u8) then kept_interval y - 8 else x - 8) = (if x = y then y else kept_interval y) - 8"
  by auto

lemma page_synced:
  assumes "mode_synced R m"
  shows "mode_synced (regs_set (page_sent n m) R) (page_mode n m)"
proof -
  define R' where "R' = regs_set (page_sent n m) R"
  have R: "R 0x0123 = port_enable m" "R 0x0152 = esmc_enable m" "R 0x0149 = delay_type m" "R 0x0146 = unicast m"
    "R 0x0147 = encode_package m" "R 0x0148 = step_type m" "R 0x0151 = sync_frequency m - 8" "R 0x0150 = anounce_frequency m - 8"
    "R 0x0124 = domain m" "R 0x0154 = ntp_en m" "R 0x0137 = priority1 m" "R 0x0142 = priority2 m"
    and k: "protocol m = ntp_en m" "kept_interval (sync_frequency m) = sync_frequency m"
      "kept_interval (anounce_frequency m) = anounce_frequency m"
    using assms by (simp_all add: mode_synced_def mode_regs_def)
  note e = page_sent_regs [of n m R, folded R'_def, unfolded mode_regs_def list.map snd_conv list.inject R now_equal]
  have "list_all (\<lambda>(v, a). R' a = v) (mode_regs (page_mode n m))"
    using e by (simp add: mode_regs_def page_mode_def)
  moreover have "protocol (page_mode n m) = ntp_en (page_mode n m)" using k(1) by (simp add: page_mode_def)
  moreover have "kept_interval (sync_frequency (page_mode n m)) = sync_frequency (page_mode n m)"
    "kept_interval (anounce_frequency (page_mode n m)) = anounce_frequency (page_mode n m)"
    using k(2,3) by (auto simp: page_mode_def kept_idem)
  ultimately show ?thesis by (simp add: mode_synced_def R'_def)
qed

lemma page_sent_places: "a \<notin> set (map snd (mode_regs m)) \<Longrightarrow> a \<notin> snd ` set (page_sent n m)"
  by (auto simp: page_sent_def mode_regs_def)

text \<open>The block that a page saves is the one that the next start loads.\<close>

lemma saved_restart:
  assumes "ee_pairs (nvram (conf w)) em" "config_size (length factory)" "\<And>w'. length (pack w') = length factory"
  shows "g_sParameters (config_start factory (nvram (conf (save_parameters (copy_parameters pack w))))) = stamped (pack w)"
proof -
  define c where "c = (conf w)\<lparr>g_sParameters := pack w, g_sWorkingDefaultParameters := pack w\<rparr>"
  have c: "nvram c = nvram (conf w)" "g_sWorkingDefaultParameters c = pack w" by (simp_all add: c_def)
  have cs: "config_size (length (pack w))" unfolding assms(3) by (rule assms(2))
  have p: "ee_pairs (nvram (ConfigSave c)) (em ++ block_map (of_nat START_VIR_ADD) (pairs_of (stamped (pack w))))"
    by (rule ConfigSave_pairs [of c em, unfolded c, OF assms(1) cs])
  have "g_sParameters (config_start factory (nvram (ConfigSave c))) = stamped (pack w)"
    by (rule config_start_saved [OF boot_pairs [OF p] map_le_map_add cs, THEN conjunct1]) (rule assms(3) [symmetric])
  then show ?thesis by (simp add: save_parameters_def copy_parameters_def c_def)
qed

text \<open>C4. The page of the PTP protocol, given its twelve parameters as numbers within their ranges,
  answers with the settings page. In memory it stores every parameter as given, with two exceptions: the interval
  16 is stored as 1 unless it was the stored one, and the output type, when it differs from the stored one,
  also overwrites the setting \<open>protocol\<close>; no other setting changes. It writes exactly the
  registers of the parameters that differ from the stored settings (the interval 16 as 1): a parameter that is equal to the
  stored one is not sent, so its register keeps what it had. If the registers held the stored
  settings before, they hold the new ones afterwards. On an EEPROM in order the block is saved so
  that a restart loads it.\<close>

theorem ptp_mode_page:
  assumes ok: "fpga_ok (dev sy) regs"
    and form: "form_numbers mode_limits n f"
    and flash: "ee_pairs (nvram (conf w)) em" "config_size (length factory)" "\<And>w'. length (layout sy w') = length factory"
  shows "\<exists>w' d. ConfigPtpModHandler sy f w = Some (w', ''/set.shtml'') \<and>
    settings (mach w') = (settings (mach w))\<lparr>mode_par := page_mode (\<lambda>p. word_of_int (n p)) (mode_of w), fpga := d\<rparr> \<and>
    regs_in regs w' = regs_set (page_sent (\<lambda>p. word_of_int (n p)) (mode_of w)) (regs_in regs w) \<and>
    (mode_synced (regs_in regs w) (mode_of w) \<longrightarrow> mode_synced (regs_in regs w') (mode_of w')) \<and>
    (\<forall>a. a \<notin> set (map snd (mode_regs (mode_of w))) \<longrightarrow> regs_in regs w' a = regs_in regs w a) \<and>
    g_sParameters (config_start factory (nvram (conf w'))) = stamped (layout sy (w\<lparr>mach := mach w'\<rparr>))"
proof -
  let ?n = "\<lambda>p. word_of_int (n p) :: u8"
  let ?s = "\<lambda>d. (settings (mach w))\<lparr>mode_par := page_mode ?n (mode_of w), fpga := d\<rparr>"
  obtain d where d: "changes sy (page_changes ?n) w = Some (w\<lparr>mach := (mach w)\<lparr>settings := ?s d\<rparr>\<rparr>)"
    "regs d = regs_set (page_sent ?n (mode_of w)) (regs_in regs w)"
    using changes_run [OF ok page_changes_ok [OF form_in_limits [OF form]] page_changes_free]
    by (auto simp: end_page_mode sent_page)
  define w1 where "w1 = w\<lparr>mach := (mach w)\<lparr>settings := ?s d\<rparr>\<rparr>"
  define w' where "w' = save_parameters (copy_parameters (layout sy) w1)"
  have h: "ConfigPtpModHandler sy f w = Some (w', ''/set.shtml'')"
    by (simp add: PtpModHandler_changes [OF form] d(1) w'_def w1_def)
  have m: "mach w' = (mach w)\<lparr>settings := ?s d\<rparr>" by (simp add: w'_def w1_def save_parameters_def copy_parameters_def)
  have r0: "regs_in regs w' = regs_set (page_sent ?n (mode_of w)) (regs_in regs w)" by (simp add: m d(2))
  have r: "a \<notin> set (map snd (mode_regs (mode_of w))) \<Longrightarrow> regs_in regs w' a = regs_in regs w a" for a
    unfolding r0 by (intro regs_set_other page_sent_places)
  have s: "mode_synced (regs_in regs w) (mode_of w) \<Longrightarrow> mode_synced (regs_in regs w') (mode_of w')"
    using page_synced [of "regs_in regs w" "mode_of w" ?n] unfolding r0 by (simp add: m)
  have "w\<lparr>mach := mach w'\<rparr> = w1" by (simp add: m w1_def)
  moreover have "g_sParameters (config_start factory (nvram (conf w'))) = stamped (layout sy w1)"
    unfolding w'_def by (rule saved_restart [of _ em, OF _ flash(2,3)]) (simp add: w1_def flash(1))
  ultimately show ?thesis
    using h r r0 s by (intro exI [of _ w'] exI [of _ d]) (simp add: m)
qed

text \<open>The witness: a device whose interval registers are 1, and the form of a browser.\<close>

definition page_settings :: "(bytes \<times> (u32 \<Rightarrow> u8)) xgm" where
  "page_settings = start_settings\<lparr>mode_par := (mode_par start_settings)\<lparr>sync_frequency := 8, anounce_frequency := 8\<rparr>\<rparr>"

definition page_web :: "(bytes \<times> (u32 \<Rightarrow> u8)) web" where
  "page_web =
     \<lparr>mach = start_machine\<lparr>settings := page_settings\<rparr>, gnss_enable = 0, gnss_mode = 1, gnss_priority = replicate 4 NUL,
      ucFlags = 0, TrapService = replicate 64 NUL, TrapPort = 0, Model = replicate 32 NUL, Manufacturer = replicate 32 NUL,
      Serial = replicate 12 NUL, InstallPos = replicate 32 NUL, InstallPer = replicate 32 NUL, InstallTime = replicate 32 NUL,
      userpasswd = replicate 16 NUL, working_passwd = replicate 16 NUL, login = False, data_response_buf = [],
      conf = blank_config [0, 0, 0, 0] (blank_eeprom [])\<rparr>"

definition page_surroundings :: "(bytes \<times> (u32 \<Rightarrow> u8)) surroundings" where
  "page_surroundings =
     \<lparr>dev = reg_file, gnss_msgs = [], stack_bytes = [], stack_text = replicate 19 NUL,
      layout = (\<lambda>w. [0, 0, domain (mode_of w), sync_frequency (mode_of w)])\<rparr>"

definition mode_form :: form where
  "mode_form = [(''en'', ''1''), (''esmcen'', ''0''), (''dlytype'', ''1''), (''unicast'', ''0''), (''enp'', ''1''), (''step'', ''1''),
     (''sync'', ''5''), (''anounce'', ''9''), (''domain'', ''24''), (''outype'', ''0''), (''prio1'', ''128''), (''prio2'', ''127'')]"

definition mode_values :: "string \<Rightarrow> int" where
  "mode_values p = (case map_of mode_form p of None \<Rightarrow> 0 | Some t \<Rightarrow> atoi t)"

lemma mode_form_numbers: "form_numbers mode_limits mode_values mode_form"
  by code_simp

theorem ptp_mode_page_witness:
  "\<exists>w'. ConfigPtpModHandler page_surroundings mode_form page_web = Some (w', ''/set.shtml'') \<and>
     priority1 (mode_of w') = 128 \<and> regs_in snd w' 0x0151 = 0xFD \<and> regs_in snd w' 0x0100 = 0 \<and>
     g_sParameters (config_start [0, 0, 0, 0] (nvram (conf w'))) = [0xA5, 0xAA, 24, 5]"
  proof -
  have sync: "mode_synced (regs_in snd page_web) (mode_of page_web)"
    by (simp add: mode_synced_def mode_regs_def page_web_def page_settings_def start_settings_def kept_interval_def)
  have ok: "fpga_ok (dev page_surroundings) snd" by (simp add: page_surroundings_def reg_file_ok)
  have flash: "ee_pairs (nvram (conf page_web)) Map.empty" "config_size (length [0, 0, 0, 0 :: u8])"
    "\<And>w'. length (layout page_surroundings w') = length [0, 0, 0, 0 :: u8]"
    by (simp_all add: page_web_def blank_config_def blank_pairs config_size_def NB_OF_VAR_def page_surroundings_def)
  obtain w' d where w': "ConfigPtpModHandler page_surroundings mode_form page_web = Some (w', ''/set.shtml'')"
    "settings (mach w') = (settings (mach page_web))\<lparr>mode_par := page_mode (\<lambda>p. word_of_int (mode_values p)) (mode_of page_web), fpga := d\<rparr>"
    "mode_synced (regs_in snd page_web) (mode_of page_web) \<longrightarrow> mode_synced (regs_in snd w') (mode_of w')"
    "\<forall>a. a \<notin> set (map snd (mode_regs (mode_of page_web))) \<longrightarrow> regs_in snd w' a = regs_in snd page_web a"
    "g_sParameters (config_start [0, 0, 0, 0] (nvram (conf w'))) = stamped (layout page_surroundings (page_web\<lparr>mach := mach w'\<rparr>))"
    using ptp_mode_page [OF ok mode_form_numbers flash] by blast
  have v: "map mode_values [''prio1'', ''sync'', ''domain''] = [128, 5, 24]" by code_simp
  have m: "priority1 (mode_of w') = 128" "sync_frequency (mode_of w') = 5" "domain (mode_of w') = 24"
    using v by (simp_all add: w'(2) page_mode_def kept_interval_def)
  have "regs_in snd w' 0x0151 = 0xFD" using w'(3) sync m by (simp add: mode_synced_def mode_regs_def)
  moreover have "regs_in snd w' 0x0100 = 0"
    using w'(4) by (simp add: mode_regs_def page_web_def page_settings_def start_settings_def)
  ultimately show ?thesis using w'(1,5) m by (simp add: page_surroundings_def stamped_def)
qed

end
