(* ===== verification/WebNet.thy ===== *)
theory WebNet
  imports WebSpec
begin

text \<open>
  The page of the PTP network: what a request with well-formed parameters sets, and why the form that
  the page itself sends is refused.
\<close>

section \<open>The commands of the page\<close>

definition net_stepped :: "('d \<Rightarrow> u32 \<Rightarrow> u8) \<Rightarrow> (ptp_net \<Rightarrow> ptp_net) \<Rightarrow> (u8 \<times> u32) list \<Rightarrow> 'd web \<Rightarrow> 'd web \<Rightarrow> bool" where
  "net_stepped regs g vas w w' \<longleftrightarrow>
     (\<exists>d. w' = w\<lparr>mach := (mach w)\<lparr>settings := (settings (mach w))\<lparr>net_par := g (net_of w), fpga := d\<rparr>\<rparr>\<rparr> \<and>
        regs d = regs_set vas (regs_in regs w))"

definition sets_net :: "'d fpga_dev \<Rightarrow> 'd handler \<Rightarrow> string list \<Rightarrow> (u8 \<times> u32) list \<Rightarrow> (ptp_net \<Rightarrow> ptp_net) \<Rightarrow> bool" where
  "sets_net dv h ps vas g \<longleftrightarrow>
     (\<forall>s. h (map Some ps @ [Some []]) s =
        (let (s, r) = reg_writes dv vas (s\<lparr>net_par := g (net_par s)\<rparr>) in Some (s, Some [], r)))"

lemma run_net:
  assumes "fpga_ok (dev sy) regs" "sets_net (dev sy) h ps vas g"
    and "map_of (user_cmdhandle (dev sy) (gnss_msgs sy) (stack_bytes sy)) c = Some (on_texts (on_settings h))"
    and "list_all short ps" "length ps \<le> 3" "plain c" "length c \<le> 8"
  shows "\<exists>w'. run_command sy (lined [CHR 0x0A] (c # ps)) w = Some w' \<and> net_stepped regs g vas w w'"
proof -
  let ?s = "(settings (mach w))\<lparr>net_par := g (net_of w)\<rparr>"
  define d where "d = dev_writes (dev sy) vas (fpga (settings (mach w)))"
  have h: "h (map Some ps @ [Some []]) (settings (mach w)) = Some (?s\<lparr>fpga := d\<rparr>, Some [], OK)"
    using assms(2) by (simp add: sets_net_def reg_writes_ok [OF assms(1)] d_def del: reg_writes.simps dev_writes.simps)
  have p: "\<forall>t \<in> set (c # ps). plain t" using assms(4,6) by (auto simp: short_def list_all_iff)
  have b: "length (lined [CHR 0x0A] (c # ps)) = length c + (if ps = [] then 0 else Suc (length (PtpNet.joined '' '' ps))) + 1"
    by (cases ps) (simp_all add: lined_def)
  have "list_all (\<lambda>t. length t \<le> 32) ps" using assms(4) by (auto simp: short_def list_all_iff)
  then have "length (line ps) \<le> length ps * Suc 32 + 2" by (rule length_line)
  then have "length (PtpNet.joined '' '' ps) \<le> 99" using assms(5) by (simp add: line_def)
  then have l: "length (lined [CHR 0x0A] (c # ps)) \<le> 128" using b assms(7) by simp
  have "run_command sy (lined [CHR 0x0A] (c # ps)) w = Some (w\<lparr>mach := (mach w)\<lparr>settings := ?s\<lparr>fpga := d\<rparr>\<rparr>\<rparr>)"
    using run_setting [OF p l _ assms(3) h] assms(5) by simp
  moreover have "regs d = regs_set vas (regs_in regs w)" by (simp add: d_def dev_writes_regs [OF assms(1)])
  ultimately show ?thesis by (auto simp: net_stepped_def)
qed

lemmas net_simps = sets_net_def handler_simps query_or_set_def set_param_def set_partial_def

lemma net_addresses:
  assumes "length bs = 4"
  shows "sets_net dv (ptp_ipconfig_handler dv) [''-a'', quad bs] (zip bs PTP_IP_REG) (ptp_ipaddr_update (\<lambda>_. ip_word bs))"
    and "sets_net dv (ptp_ipconfig_handler dv) [''-m'', quad bs] (zip bs PTP_MASK_REG) (ptp_submask_update (\<lambda>_. ip_word bs))"
    and "sets_net dv (ptp_ipconfig_handler dv) [''-g'', quad bs] (zip bs PTP_GATEWAY_REG) (ptp_gateway_update (\<lambda>_. ip_word bs))"
  by (auto simp: net_simps ptp_ipconfig_handler_def sub_net_command_def ipconfig_set_psubcmd_parser_def
      ptp_ip_parser_def ptp_mask_parser_def ptp_gateway_parser_def address_set_def get_decimalip_value_quad [OF assms]
      ip_bytes_word [OF assms] simp del: reg_writes.simps split: prod.splits)

definition vid_bytes :: "u16 \<Rightarrow> bytes" where "vid_bytes v = [ucast (drop_bit 8 v AND 0x0F), ucast (v AND 0xFF)]"

lemma vlan_switches:
  assumes "(v :: u8) = 0 \<or> v = 1"
  shows "sets_net dv (ptp_ifconfig_handler dv) [''vlan'', ''-e'', on_off v] [(v, 0x0100)] id"
    and "sets_net dv (ptp_ifconfig_handler dv) [''vlan'', ''-c'', dec (unat v)] [(v, 0x0102)] id"
  using assms
  by (auto simp: net_simps ptp_ifconfig_handler_def sub_vlan_command_def ifconfig_set_psubcmd_parser_def dec_bits
      ptp_vlanen_set_def ptp_vlancfi_set_def switch_set_def simp del: reg_writes.simps split: prod.splits)

lemma priority_cases: "uint (v :: u8) \<le> 7 \<Longrightarrow> v \<in> {0, 1, 2, 3, 4, 5, 6, 7}"
proof -
  assume "uint v \<le> 7"
  then have "uint v \<in> {0..7}" by simp
  also have "{0..7 :: int} = {0, 1, 2, 3, 4, 5, 6, 7}" by auto
  finally show ?thesis by (auto simp: word_uint_eq_iff)
qed

lemma vlan_priority:
  assumes "uint (v :: u8) \<le> 7"
  shows "sets_net dv (ptp_ifconfig_handler dv) [''vlan'', ''-p'', dec (unat v)] [(v, 0x0101)] id"
proof -
  have d: "dec 2 = ''2''" "dec 3 = ''3''" "dec 4 = ''4''" "dec 5 = ''5''" "dec 6 = ''6''" "dec 7 = ''7''" by code_simp+
  show ?thesis
    using priority_cases [OF assms]
    by (auto simp: net_simps ptp_ifconfig_handler_def sub_vlan_command_def ifconfig_set_psubcmd_parser_def dec_bits d
        ptp_vlanpcp_set_def simp del: reg_writes.simps split: prod.splits)
qed

lemma vlanvid_set_dec:
  assumes "unat v < 4096"
  shows "ptp_vlanvid_set dv (Some (dec (unat v))) s = Some (reg_writes dv (zip (vid_bytes v) [0x0103, 0x0104]) s)"
proof -
  have l: "unat (of_nat (length (dec (unat v))) :: u8) = length (dec (unat v))" using dec_len_vid [OF assms] by (simp add: unat_of_nat)
  have "\<not> v > 4095" using assms by (simp add: word_less_nat_alt)
  then show ?thesis
    using dec_len_vid [OF assms] l
    by (auto simp: ptp_vlanvid_set_def set_param_def Let_def atoi_dec dec_isdigit dec_isdigit_all vid_bytes_def simp del: reg_writes.simps)
qed

lemma vlan_identifier:
  assumes "unat v < 4096"
  shows "sets_net dv (ptp_ifconfig_handler dv) [''vlan'', ''-v'', dec (unat v)] (zip (vid_bytes v) [0x0103, 0x0104]) id"
  using vlanvid_set_dec [OF assms, of dv]
  by (auto simp: sets_net_def handler_simps query_or_set_def ptp_ifconfig_handler_def sub_vlan_command_def
      ifconfig_set_psubcmd_parser_def simp del: reg_writes.simps split: prod.splits)

lemma unat_masked: "unat (ucast (x AND 0xFF :: u32) :: u8) = unat (x AND 0xFF)"
proof -
  have m: "(0xFF :: u32) = mask 8" by (simp add: mask_eq_exp_minus_1)
  have "unat (x AND mask 8) < 256"
    unfolding take_bit_eq_mask [symmetric] unsigned_take_bit_eq using take_bit_nat_less_exp [of 8 "unat x"] by simp
  then show ?thesis by (simp add: m unsigned_ucast_eq take_bit_nat_eq_self)
qed

lemma dotted_decimal_word:
  assumes "length bs = 4"
  shows "dotted_decimal (ip_word bs) = quad bs"
proof -
  have "quad bs = quad (ip_bytes (ip_word bs))" by (simp add: ip_bytes_word [OF assms])
  also have "\<dots> = dotted_decimal (ip_word bs)" by (simp add: quad_def ip_bytes_def dotted_decimal_def unat_masked)
  finally show ?thesis ..
qed

section \<open>The page of the PTP network\<close>

definition net_limits :: "(string \<times> int) list" where
  "net_limits = [(''ven'', 1), (''pcp'', 7), (''cfi'', 1), (''vid'', 4095)]"

definition address_regs :: "bytes \<Rightarrow> bytes \<Rightarrow> bytes \<Rightarrow> (u8 \<times> u32) list" where
  "address_regs ip msk gw = zip ip PTP_IP_REG @ zip msk PTP_MASK_REG @ zip gw PTP_GATEWAY_REG"

definition vlan_regs :: "u8 \<Rightarrow> u8 \<Rightarrow> u8 \<Rightarrow> u16 \<Rightarrow> (u8 \<times> u32) list" where
  "vlan_regs ven pcp cfi vid = (ven, 0x0100) # (pcp, 0x0101) # (cfi, 0x0102) # zip (vid_bytes vid) [0x0103, 0x0104]"

text \<open>The registers that hold the settings of the network.\<close>

definition net_regs :: "ptp_net \<Rightarrow> (u8 \<times> u32) list" where
  "net_regs n = address_regs (ip_bytes (ptp_ipaddr n)) (ip_bytes (ptp_submask n)) (ip_bytes (ptp_gateway n)) @
     vlan_regs (vlan_enable n) (vlan_pcp n) (vlan_cfi n) (vlan_vid n)"

definition net_synced :: "(u32 \<Rightarrow> u8) \<Rightarrow> ptp_net \<Rightarrow> bool" where
  "net_synced R n \<longleftrightarrow> list_all (\<lambda>(v, a). R a = v) (net_regs n)"

lemma regs_set_append: "regs_set (xs @ ys) R = regs_set ys (regs_set xs R)"
  by (induction xs R rule: regs_set.induct) (simp_all del: fun_upd_apply)

lemma regs_set_same: "list_all (\<lambda>(v, a). R a = v) vas \<Longrightarrow> regs_set vas R = R"
  by (induction vas R rule: regs_set.induct) (auto simp: fun_upd_idem simp del: fun_upd_apply)

lemma regs_set_all: "distinct (map snd vas) \<Longrightarrow> list_all (\<lambda>(v, a). regs_set vas R a = v) vas"
proof (induction vas R rule: regs_set.induct)
  case (2 v a vas m)
  then show ?case using regs_set_other [of a vas "m(a := v)"] by (simp del: fun_upd_apply) simp
qed simp

definition set_addresses :: "bytes \<Rightarrow> bytes \<Rightarrow> bytes \<Rightarrow> ptp_net \<Rightarrow> ptp_net" where
  "set_addresses ip msk gw n = n\<lparr>ptp_ipaddr := ip_word ip, ptp_submask := ip_word msk, ptp_gateway := ip_word gw\<rparr>"

definition set_vlan :: "u8 \<Rightarrow> u8 \<Rightarrow> u8 \<Rightarrow> u16 \<Rightarrow> ptp_net \<Rightarrow> ptp_net" where
  "set_vlan ven pcp cfi vid n = n\<lparr>vlan_enable := ven, vlan_pcp := pcp, vlan_cfi := cfi, vlan_vid := vid\<rparr>"

lemma net_stepped_trans:
  "net_stepped regs g vas w w1 \<Longrightarrow> net_stepped regs h vbs w1 w2 \<Longrightarrow> net_stepped regs (\<lambda>n. h (g n)) (vas @ vbs) w w2"
  by (auto simp: net_stepped_def regs_set_append)

lemma net_stepped_store: "net_stepped regs g [] w (on_net g w)"
  by (auto simp: net_stepped_def on_net_def intro!: exI [of _ "fpga (settings (mach w))"])

lemma quad_short: "length bs = 4 \<Longrightarrow> short (quad bs)"
  by (rule quads_short) (auto simp: quads_def)

lemma flag_short: "short ''-a''" "short ''-m''" "short ''-g''" "short ''vlan''" "short ''-e''" "short ''-p''" "short ''-c''" "short ''-v''"
    "short ''on''" "short ''off''"
  by (simp_all add: short_def plain_def NUL_def)

lemma names_plain: "plain ''ipconfig''" "plain ''ifconfig''"
  by (simp_all add: plain_def NUL_def)

lemma run_address:
  assumes "fpga_ok (dev sy) regs" "length bs = 4" "sets_net (dev sy) (ptp_ipconfig_handler (dev sy)) [o', quad bs] vas g" "short o'"
  shows "\<exists>w'. run_command sy (''ipconfig '' @ o' @ '' '' @ dotted_decimal (ip_word bs) @ [CHR 0x0A]) w = Some w' \<and> net_stepped regs g vas w w'"
  using run_net [OF assms(1,3) page_commands(2), of w] assms(4) quad_short [OF assms(2)]
  by (simp add: lined_def dotted_decimal_word [OF assms(2)] names_plain)

lemma run_vlan:
  assumes "fpga_ok (dev sy) regs" "sets_net (dev sy) (ptp_ifconfig_handler (dev sy)) [''vlan'', o', t] vas g" "short o'" "short t"
  shows "\<exists>w'. run_command sy (''ifconfig vlan '' @ o' @ '' '' @ t @ [CHR 0x0A]) w = Some w' \<and> net_stepped regs g vas w w'"
  using run_net [OF assms(1,2) page_commands(3), of w] assms(3,4)
  by (simp add: lined_def names_plain flag_short)

text \<open>The two parts of the handler.\<close>

definition address_part :: "'d surroundings \<Rightarrow> u32 \<Rightarrow> u32 \<Rightarrow> u32 \<Rightarrow> 'd web \<Rightarrow> 'd web option" where
  "address_part sy ip msk gw w =
     (if ptp_ipaddr (net_of w) \<noteq> ip \<or> ptp_submask (net_of w) \<noteq> msk \<or> ptp_gateway (net_of w) \<noteq> gw
      then do {
        let w = on_net (\<lambda>n. n\<lparr>ptp_ipaddr := ip, ptp_submask := msk, ptp_gateway := gw\<rparr>) w;
        w \<leftarrow> run_command sy (''ipconfig -a '' @ dotted_decimal ip @ [CHR 0x0A]) w;
        w \<leftarrow> run_command sy (''ipconfig -m '' @ dotted_decimal msk @ [CHR 0x0A]) w;
        run_command sy (''ipconfig -g '' @ dotted_decimal gw @ [CHR 0x0A]) w
      } else Some w)"

definition vlan_part :: "'d surroundings \<Rightarrow> u8 \<Rightarrow> u8 \<Rightarrow> u8 \<Rightarrow> u16 \<Rightarrow> 'd web \<Rightarrow> 'd web option" where
  "vlan_part sy ven pcp cfi vid w = do {
     let w = on_net (\<lambda>n. n\<lparr>vlan_enable := ven, vlan_pcp := pcp, vlan_cfi := cfi, vlan_vid := vid\<rparr>) w;
     w \<leftarrow> run_command sy (''ifconfig vlan -e '' @ on_off ven @ [CHR 0x0A]) w;
     w \<leftarrow> run_command sy (''ifconfig vlan -p '' @ dec (unat pcp) @ [CHR 0x0A]) w;
     w \<leftarrow> run_command sy (''ifconfig vlan -c '' @ dec (unat cfi) @ [CHR 0x0A]) w;
     run_command sy (''ifconfig vlan -v '' @ dec (unat vid) @ [CHR 0x0A]) w
   }"

text \<open>The addresses are sent when one of them differs from the stored ones.\<close>

definition addresses_sent :: "bytes \<Rightarrow> bytes \<Rightarrow> bytes \<Rightarrow> ptp_net \<Rightarrow> (u8 \<times> u32) list" where
  "addresses_sent ip msk gw m =
     (if ptp_ipaddr m \<noteq> ip_word ip \<or> ptp_submask m \<noteq> ip_word msk \<or> ptp_gateway m \<noteq> ip_word gw
      then address_regs ip msk gw else [])"

lemma send_addresses:
  assumes ok: "fpga_ok (dev sy) regs" and l: "length ip = 4" "length msk = 4" "length gw = 4"
  shows "\<exists>w'. address_part sy (ip_word ip) (ip_word msk) (ip_word gw) w = Some w' \<and>
    net_stepped regs (set_addresses ip msk gw) (addresses_sent ip msk gw (net_of w)) w w'"
proof (cases "ptp_ipaddr (net_of w) \<noteq> ip_word ip \<or> ptp_submask (net_of w) \<noteq> ip_word msk \<or> ptp_gateway (net_of w) \<noteq> ip_word gw")
  case True
  let ?g = "\<lambda>n. n\<lparr>ptp_ipaddr := ip_word ip, ptp_submask := ip_word msk, ptp_gateway := ip_word gw\<rparr>"
  obtain w1 where w1: "run_command sy (''ipconfig -a '' @ dotted_decimal (ip_word ip) @ [CHR 0x0A]) (on_net ?g w) = Some w1"
    "net_stepped regs (ptp_ipaddr_update (\<lambda>_. ip_word ip)) (zip ip PTP_IP_REG) (on_net ?g w) w1"
    using run_address [OF ok l(1) net_addresses(1) [OF l(1)] flag_short(1), of "on_net ?g w"] by auto
  obtain w2 where w2: "run_command sy (''ipconfig -m '' @ dotted_decimal (ip_word msk) @ [CHR 0x0A]) w1 = Some w2"
    "net_stepped regs (ptp_submask_update (\<lambda>_. ip_word msk)) (zip msk PTP_MASK_REG) w1 w2"
    using run_address [OF ok l(2) net_addresses(2) [OF l(2)] flag_short(2), of w1] by auto
  obtain w3 where w3: "run_command sy (''ipconfig -g '' @ dotted_decimal (ip_word gw) @ [CHR 0x0A]) w2 = Some w3"
    "net_stepped regs (ptp_gateway_update (\<lambda>_. ip_word gw)) (zip gw PTP_GATEWAY_REG) w2 w3"
    using run_address [OF ok l(3) net_addresses(3) [OF l(3)] flag_short(3), of w2] by auto
  note s = net_stepped_trans [OF net_stepped_trans [OF net_stepped_trans [OF net_stepped_store w1(2)] w2(2)] w3(2)]
  have "net_stepped regs (set_addresses ip msk gw) (addresses_sent ip msk gw (net_of w)) w w3"
    using s True by (simp add: net_stepped_def set_addresses_def address_regs_def addresses_sent_def)
  then show ?thesis using True w1(1) w2(1) w3(1) by (auto simp: address_part_def)
next
  case False
  then have "set_addresses ip msk gw (net_of w) = net_of w" by (simp add: set_addresses_def)
  then have "net_stepped regs (set_addresses ip msk gw) (addresses_sent ip msk gw (net_of w)) w w"
    using False by (auto simp: net_stepped_def addresses_sent_def intro!: exI [of _ "fpga (settings (mach w))"])
  then show ?thesis using False by (auto simp: address_part_def)
qed

text \<open>The settings of the virtual LAN are sent always.\<close>

lemma send_vlan:
  assumes ok: "fpga_ok (dev sy) regs" and v: "ven = 0 \<or> ven = 1" "uint pcp \<le> 7" "cfi = 0 \<or> cfi = 1" "unat vid < 4096"
  shows "\<exists>w'. vlan_part sy ven pcp cfi vid w = Some w' \<and> net_stepped regs (set_vlan ven pcp cfi vid) (vlan_regs ven pcp cfi vid) w w'"
proof -
  let ?g = "\<lambda>n. n\<lparr>vlan_enable := ven, vlan_pcp := pcp, vlan_cfi := cfi, vlan_vid := vid\<rparr>"
  have d: "short (dec (unat pcp))" "short (dec (unat cfi))" "short (dec (unat vid))" "short (on_off ven)"
    using unat8_lt [of pcp] unat8_lt [of cfi] v(4) by (auto intro: dec_short simp: flag_short)
  obtain w1 where w1: "run_command sy (''ifconfig vlan -e '' @ on_off ven @ [CHR 0x0A]) (on_net ?g w) = Some w1"
    "net_stepped regs id [(ven, 0x0100)] (on_net ?g w) w1"
    using run_vlan [OF ok vlan_switches(1) [OF v(1)] flag_short(5) d(4), of "on_net ?g w"] by auto
  obtain w2 where w2: "run_command sy (''ifconfig vlan -p '' @ dec (unat pcp) @ [CHR 0x0A]) w1 = Some w2"
    "net_stepped regs id [(pcp, 0x0101)] w1 w2"
    using run_vlan [OF ok vlan_priority [OF v(2)] flag_short(6) d(1), of w1] by auto
  obtain w3 where w3: "run_command sy (''ifconfig vlan -c '' @ dec (unat cfi) @ [CHR 0x0A]) w2 = Some w3"
    "net_stepped regs id [(cfi, 0x0102)] w2 w3"
    using run_vlan [OF ok vlan_switches(2) [OF v(3)] flag_short(7) d(2), of w2] by auto
  obtain w4 where w4: "run_command sy (''ifconfig vlan -v '' @ dec (unat vid) @ [CHR 0x0A]) w3 = Some w4"
    "net_stepped regs id (zip (vid_bytes vid) [0x0103, 0x0104]) w3 w4"
    using run_vlan [OF ok vlan_identifier [OF v(4)] flag_short(8) d(3), of w3] by auto
  note s = net_stepped_trans [OF net_stepped_trans [OF net_stepped_trans [OF net_stepped_trans [OF net_stepped_store w1(2)] w2(2)] w3(2)] w4(2)]
  have "net_stepped regs (set_vlan ven pcp cfi vid) (vlan_regs ven pcp cfi vid) w w4"
    using s by (simp add: net_stepped_def set_vlan_def vlan_regs_def)
  then show ?thesis using w1(1) w2(1) w3(1) w4(1) by (auto simp: vlan_part_def)
qed

text \<open>A request that the page accepts: the hardware address with dashes, three addresses other than
  255.255.255.255 and four numbers in their ranges.\<close>

definition net_form :: "bytes \<Rightarrow> bytes \<Rightarrow> bytes \<Rightarrow> bytes \<Rightarrow> (string \<Rightarrow> int) \<Rightarrow> form \<Rightarrow> bool" where
  "net_form mac ip msk gw n f \<longleftrightarrow>
     map_of f ''mac'' = Some (PtpNet.joined ''-'' (map hex2 mac)) \<and> length mac = 6 \<and>
     list_all (\<lambda>(p, bs). (\<exists>e. map_of f p = Some e \<and> form_encoded (quad bs) e) \<and> length bs = 4 \<and> bs \<noteq> replicate 4 0xFF)
       [(''ip'', ip), (''mask'', msk), (''gw'', gw)] \<and>
     form_numbers net_limits n f"

lemma net_form_address:
  assumes "net_form mac ip msk gw n f" "(p, bs) \<in> set [(''ip'', ip), (''mask'', msk), (''gw'', gw)]"
  shows "then_addr p f False = (ip_word bs, False)" and "length bs = 4"
proof -
  have "list_all (\<lambda>(p, bs). (\<exists>e. map_of f p = Some e \<and> form_encoded (quad bs) e) \<and> length bs = 4 \<and> bs \<noteq> replicate 4 0xFF)
      [(''ip'', ip), (''mask'', msk), (''gw'', gw)]" using assms(1) by (simp only: net_form_def)
  then obtain e where e: "map_of f p = Some e" "form_encoded (quad bs) e" "length bs = 4" "bs \<noteq> replicate 4 0xFF"
    using assms(2) unfolding list_all_iff by fast
  show "then_addr p f False = (ip_word bs, False)" "length bs = 4"
    using GetCGIDeciIPAddr_quad [OF e(1-3)] e(3,4) by (simp_all add: then_addr_def)
qed

lemma net_form_number:
  assumes "net_form mac ip msk gw n f" "(p, hi) \<in> set net_limits"
  shows "then_param p f False = Some (n p, False)" and "0 \<le> n p" and "n p \<le> hi"
proof -
  have f: "form_numbers net_limits n f" using assms(1) by (simp only: net_form_def)
  have "hi < 2 ^ 31" using assms(2) by (auto simp: net_limits_def)
  then show "then_param p f False = Some (n p, False)" by (rule form_number [OF f assms(2)])
  show "0 \<le> n p" "n p \<le> hi" using f assms(2) by (auto simp: form_numbers_def list_all_iff)
qed

lemma net_form_values:
  assumes "net_form mac ip msk gw n f"
  shows "word_of_int (n ''ven'') = (0 :: u8) \<or> word_of_int (n ''ven'') = (1 :: u8)"
    and "uint (word_of_int (n ''pcp'') :: u8) \<le> 7"
    and "word_of_int (n ''cfi'') = (0 :: u8) \<or> word_of_int (n ''cfi'') = (1 :: u8)"
    and "unat (word_of_int (n ''vid'') :: u16) < 4096"
proof -
  note r = net_form_number(2,3) [OF assms]
  have m: "(''ven'', 1) \<in> set net_limits" "(''pcp'', 7) \<in> set net_limits" "(''cfi'', 1) \<in> set net_limits" "(''vid'', 4095) \<in> set net_limits"
    by (simp_all add: net_limits_def)
  show "word_of_int (n ''ven'') = (0 :: u8) \<or> word_of_int (n ''ven'') = (1 :: u8)" by (rule flag_of [OF r [OF m(1)]])
  show "word_of_int (n ''cfi'') = (0 :: u8) \<or> word_of_int (n ''cfi'') = (1 :: u8)" by (rule flag_of [OF r [OF m(3)]])
  show "uint (word_of_int (n ''pcp'') :: u8) \<le> 7" using r [OF m(2)] by (simp add: uint_word_of_int)
  show "unat (word_of_int (n ''vid'') :: u16) < 4096" using r [OF m(4)] by (simp add: unat_eq_nat_uint uint_word_of_int nat_less_iff)
qed

lemma net_regs_set:
  assumes "length ip = 4" "length msk = 4" "length gw = 4"
  shows "net_regs (set_vlan ven pcp cfi vid (set_addresses ip msk gw m)) = address_regs ip msk gw @ vlan_regs ven pcp cfi vid"
  by (simp add: net_regs_def set_vlan_def set_addresses_def ip_bytes_word assms)

lemma net_places:
  assumes "length ip = 4" "length msk = 4" "length gw = 4"
  shows "map snd (address_regs ip msk gw @ vlan_regs ven pcp cfi vid) =
    PTP_IP_REG @ PTP_MASK_REG @ PTP_GATEWAY_REG @ [0x0100, 0x0101, 0x0102, 0x0103, 0x0104]"
  using assms by (simp add: address_regs_def vlan_regs_def vid_bytes_def PTP_IP_REG_def PTP_MASK_REG_def PTP_GATEWAY_REG_def)

lemma PtpNetHandler_parts:
  assumes "net_form mac ip msk gw n f" "3 \<le> length (stack_text sy)"
  shows "ConfigPtpNetHandler sy f w = do {
    w \<leftarrow> address_part sy (ip_word ip) (ip_word msk) (ip_word gw) w;
    w \<leftarrow> vlan_part sy (word_of_int (n ''ven'')) (word_of_int (n ''pcp'')) (word_of_int (n ''cfi'')) (word_of_int (n ''vid'')) w;
    Some (save_parameters (copy_parameters (layout sy) w), SET_CGI_RESPONSE)
  }"
proof -
  have "map_of f ''mac'' = Some (PtpNet.joined ''-'' (map hex2 mac))" "length mac = 6" using assms(1) by (simp_all add: net_form_def)
  then have m: "ConfigGetCGIMacaddr (stack_text sy) ''mac'' f = Some (Some mac)" using assms(2) by (rule GetCGIMacaddr_dashed)
  have "then_addr ''ip'' f False = (ip_word ip, False)" "then_addr ''mask'' f False = (ip_word msk, False)"
    "then_addr ''gw'' f False = (ip_word gw, False)"
    by (rule net_form_address(1) [OF assms(1)]; simp)+
  moreover have "then_param ''ven'' f False = Some (n ''ven'', False)" "then_param ''pcp'' f False = Some (n ''pcp'', False)"
    "then_param ''cfi'' f False = Some (n ''cfi'', False)" "then_param ''vid'' f False = Some (n ''vid'', False)"
    by (rule net_form_number(1) [OF assms(1)]; simp add: net_limits_def)+
  ultimately show ?thesis
    by (simp add: ConfigPtpNetHandler_def m address_part_def vlan_part_def Let_def if_distrib [of "\<lambda>t. _ @ t"] cong: if_cong)
qed

text \<open>Registers that hold the settings before hold them afterwards.\<close>

lemma page_net_synced:
  assumes l: "length ip = 4" "length msk = 4" "length gw = 4" and "net_synced R m"
  shows "net_synced (regs_set (addresses_sent ip msk gw m @ vlan_regs ven pcp cfi vid) R)
    (set_vlan ven pcp cfi vid (set_addresses ip msk gw m))"
proof -
  let ?R = "address_regs ip msk gw @ vlan_regs ven pcp cfi vid"
  have "regs_set (addresses_sent ip msk gw m) R = regs_set (address_regs ip msk gw) R"
  proof (cases "ptp_ipaddr m \<noteq> ip_word ip \<or> ptp_submask m \<noteq> ip_word msk \<or> ptp_gateway m \<noteq> ip_word gw")
    case False
    then have "ip_bytes (ptp_ipaddr m) = ip" "ip_bytes (ptp_submask m) = msk" "ip_bytes (ptp_gateway m) = gw"
      by (simp_all add: ip_bytes_word l)
    then have "list_all (\<lambda>(v, a). R a = v) (address_regs ip msk gw)" using assms(4) by (simp add: net_synced_def net_regs_def)
    then show ?thesis using False by (simp add: addresses_sent_def regs_set_same)
  qed (simp add: addresses_sent_def)
  then have "regs_set (addresses_sent ip msk gw m @ vlan_regs ven pcp cfi vid) R = regs_set ?R R" by (simp only: regs_set_append)
  moreover have "distinct (map snd ?R)" unfolding net_places [OF l] by (simp add: PTP_IP_REG_def PTP_MASK_REG_def PTP_GATEWAY_REG_def)
  ultimately show ?thesis unfolding net_synced_def net_regs_set [OF l] by (simp only: regs_set_all)
qed

lemma net_sent_places:
  assumes "length ip = 4" "length msk = 4" "length gw = 4" "a \<notin> set (map snd (net_regs m))"
  shows "a \<notin> snd ` set (addresses_sent ip msk gw m' @ vlan_regs ven pcp cfi vid)"
proof -
  have "map snd (net_regs m) = map snd (address_regs ip msk gw @ vlan_regs ven pcp cfi vid)"
    unfolding net_regs_def by (simp only: net_places [OF assms(1-3)] net_places [OF length_ip_bytes length_ip_bytes length_ip_bytes])
  then have "a \<notin> snd ` set (address_regs ip msk gw @ vlan_regs ven pcp cfi vid)" using assms(4) by (simp only: set_map [symmetric]) simp
  then show ?thesis by (auto simp: addresses_sent_def)
qed

text \<open>C5. A request to the page of the PTP network with a hardware address in dashes, addresses other
  than 255.255.255.255 and numbers in their ranges, whatever escapes the addresses are sent with, is
  answered with the settings page. In memory the three addresses and the virtual LAN are stored as given, and no other
  setting changes, the hardware address of the request included, which is dropped. The registers of
  the virtual LAN are written always, byte for byte; the registers of the three addresses are written
  exactly when one of the three differs from the stored ones, and otherwise keep what they had; no other
  register changes. If the registers held the stored settings before, they hold the new ones
  afterwards. On an EEPROM in order the block is saved so that a restart loads it.\<close>

theorem ptp_net_page:
  assumes ok: "fpga_ok (dev sy) regs"
    and form: "net_form mac ip msk gw n f" and stk: "3 \<le> length (stack_text sy)"
    and flash: "ee_pairs (nvram (conf w)) em" "config_size (length factory)" "\<And>w'. length (layout sy w') = length factory"
  shows "\<exists>w' d. ConfigPtpNetHandler sy f w = Some (w', ''/set.shtml'') \<and>
    settings (mach w') = (settings (mach w))\<lparr>fpga := d, net_par := set_vlan (word_of_int (n ''ven'')) (word_of_int (n ''pcp''))
      (word_of_int (n ''cfi'')) (word_of_int (n ''vid'')) (set_addresses ip msk gw (net_of w))\<rparr> \<and>
    regs_in regs w' = regs_set (addresses_sent ip msk gw (net_of w) @
      vlan_regs (word_of_int (n ''ven'')) (word_of_int (n ''pcp'')) (word_of_int (n ''cfi'')) (word_of_int (n ''vid''))) (regs_in regs w) \<and>
    (net_synced (regs_in regs w) (net_of w) \<longrightarrow> net_synced (regs_in regs w') (net_of w')) \<and>
    (\<forall>a. a \<notin> set (map snd (net_regs (net_of w))) \<longrightarrow> regs_in regs w' a = regs_in regs w a) \<and>
    g_sParameters (config_start factory (nvram (conf w'))) = stamped (layout sy (w\<lparr>mach := mach w'\<rparr>))"
proof -
  have l: "length ip = 4" "length msk = 4" "length gw = 4"
    using net_form_address(2) [OF form, of "''ip''" ip] net_form_address(2) [OF form, of "''mask''" msk]
      net_form_address(2) [OF form, of "''gw''" gw] by simp_all
  let ?V = "set_vlan (word_of_int (n ''ven'')) (word_of_int (n ''pcp'')) (word_of_int (n ''cfi'')) (word_of_int (n ''vid''))"
  let ?r = "vlan_regs (word_of_int (n ''ven'')) (word_of_int (n ''pcp'')) (word_of_int (n ''cfi'')) (word_of_int (n ''vid''))"
  let ?N = "?V (set_addresses ip msk gw (net_of w))" and ?R = "addresses_sent ip msk gw (net_of w) @ ?r"
  obtain w1 where w1: "address_part sy (ip_word ip) (ip_word msk) (ip_word gw) w = Some w1"
    "net_stepped regs (set_addresses ip msk gw) (addresses_sent ip msk gw (net_of w)) w w1" using send_addresses [OF ok l] by blast
  obtain w2 where w2: "vlan_part sy (word_of_int (n ''ven'')) (word_of_int (n ''pcp'')) (word_of_int (n ''cfi'')) (word_of_int (n ''vid'')) w1 = Some w2"
    "net_stepped regs ?V ?r w1 w2" using send_vlan [OF ok net_form_values [OF form]] by blast
  obtain d where d: "w2 = w\<lparr>mach := (mach w)\<lparr>settings := (settings (mach w))\<lparr>net_par := ?N, fpga := d\<rparr>\<rparr>\<rparr>"
    "regs d = regs_set ?R (regs_in regs w)" using net_stepped_trans [OF w1(2) w2(2)] by (auto simp: net_stepped_def)
  define w' where "w' = save_parameters (copy_parameters (layout sy) w2)"
  have h: "ConfigPtpNetHandler sy f w = Some (w', ''/set.shtml'')"
    by (simp add: PtpNetHandler_parts [OF form stk] w1(1) w2(1) w'_def)
  have m: "mach w' = mach w2" by (simp add: w'_def save_parameters_def copy_parameters_def)
  have s: "settings (mach w') = (settings (mach w))\<lparr>fpga := d, net_par := ?N\<rparr>" by (simp add: m d(1))
  have R: "regs_in regs w' = regs_set ?R (regs_in regs w)" by (simp add: s d(2))
  have "net_synced (regs_in regs w) (net_of w) \<Longrightarrow> net_synced (regs_in regs w') (net_of w')"
    using page_net_synced [OF l] unfolding R by (simp add: s)
  moreover have "a \<notin> set (map snd (net_regs (net_of w))) \<Longrightarrow> regs_in regs w' a = regs_in regs w a" for a
    unfolding R by (intro regs_set_other net_sent_places [OF l])
  moreover have "g_sParameters (config_start factory (nvram (conf w'))) = stamped (layout sy w2)"
    unfolding w'_def by (rule saved_restart [of _ em, OF _ flash(2,3)]) (simp add: d(1) flash(1))
  moreover have "w\<lparr>mach := mach w'\<rparr> = w2" by (simp add: m d(1))
  ultimately show ?thesis using h s R by (intro exI [of _ w'] exI [of _ d]) simp
qed

definition net_page_form :: form where
  "net_page_form = [(''mac'', ''00-0a-35-01-fe-02''), (''ip'', ''192%2e168.1.7''), (''mask'', ''255.255.255.0''), (''gw'', ''192.168.1.1''),
     (''ven'', ''1''), (''pcp'', ''6''), (''cfi'', ''0''), (''vid'', ''291'')]"

definition net_values :: "string \<Rightarrow> int" where
  "net_values p = (case map_of net_page_form p of None \<Rightarrow> 0 | Some t \<Rightarrow> atoi t)"

lemma quad_no: "c = CHR ''+'' \<or> c = CHR ''%'' \<Longrightarrow> length bs = 4 \<Longrightarrow> c \<notin> set (quad bs)"
  using dec_no [of c] unfolding quad_def by (cases bs; auto simp: digit_val_def numeral_eq_Suc length_Suc_conv)

lemma encoded_quad: "length bs = 4 \<Longrightarrow> form_encoded (quad bs) (quad bs)"
  using quad_no by (blast intro: encoded_self)

lemma net_page_form_ok:
  "net_form [0x00, 0x0A, 0x35, 0x01, 0xFE, 0x02] [192, 168, 1, 7] [255, 255, 255, 0] [192, 168, 1, 1] net_values net_page_form"
proof -
  have q: "quad [192, 168, 1, 7] = ''192.168.1.7''" "quad [255, 255, 255, 0] = ''255.255.255.0''" "quad [192, 168, 1, 1] = ''192.168.1.1''"
    by code_simp+
  have "form_encoded ''192.168.1.7'' ''192%2e168.1.7''"
    by (intro form_encoded.intros; simp add: is_digit_of_def digit_val_def)
  moreover have "PtpNet.joined ''-'' (map hex2 [0x00, 0x0A, 0x35, 0x01, 0xFE, 0x02]) = ''00-0a-35-01-fe-02''" by code_simp
  moreover have "form_numbers net_limits net_values net_page_form" by code_simp
  moreover have "replicate 4 (0xFF :: u8) = [0xFF, 0xFF, 0xFF, 0xFF]" by code_simp
  ultimately show ?thesis
    using encoded_quad [of "[255, 255, 255, 0]"] encoded_quad [of "[192, 168, 1, 1]"]
    by (simp add: net_form_def q net_page_form_def)
qed

theorem ptp_net_page_witness:
  "\<exists>w'. ConfigPtpNetHandler page_surroundings net_page_form page_web = Some (w', ''/set.shtml'') \<and>
     ptp_ipaddr (net_of w') = 0xC0A80107 \<and> vlan_vid (net_of w') = 0x123 \<and>
     map (regs_in snd w') [0x0111, 0x0112, 0x0113, 0x0114, 0x0101, 0x0103, 0x0104] = [192, 168, 1, 7, 6, 1, 0x23]"
proof -
  have sync: "net_synced (regs_in snd page_web) (net_of page_web)"
    by (simp add: net_synced_def net_regs_def address_regs_def vlan_regs_def ip_bytes_def vid_bytes_def PTP_IP_REG_def
        PTP_MASK_REG_def PTP_GATEWAY_REG_def page_web_def page_settings_def start_settings_def)
  have ok: "fpga_ok (dev page_surroundings) snd" by (simp add: page_surroundings_def reg_file_ok)
  have stk: "3 \<le> length (stack_text page_surroundings)" by (simp add: page_surroundings_def)
  have flash: "ee_pairs (nvram (conf page_web)) Map.empty" "config_size (length [0, 0, 0, 0 :: u8])"
    "\<And>w'. length (layout page_surroundings w') = length [0, 0, 0, 0 :: u8]"
    by (simp_all add: page_web_def blank_config_def blank_pairs config_size_def NB_OF_VAR_def page_surroundings_def)
  let ?N = "set_vlan 1 6 0 0x123 (set_addresses [192, 168, 1, 7] [255, 255, 255, 0] [192, 168, 1, 1] (net_of page_web))"
  have v: "map net_values [''ven'', ''pcp'', ''cfi'', ''vid''] = [1, 6, 0, 291]" by code_simp
  then obtain w' d where w': "ConfigPtpNetHandler page_surroundings net_page_form page_web = Some (w', ''/set.shtml'')"
    "settings (mach w') = (settings (mach page_web))\<lparr>fpga := d, net_par := ?N\<rparr>" "net_synced (regs_in snd w') (net_of w')"
    using ptp_net_page [OF ok net_page_form_ok stk flash] sync by auto
  have n: "net_of w' = ?N" by (simp add: w'(2))
  have "net_regs ?N = address_regs [192, 168, 1, 7] [255, 255, 255, 0] [192, 168, 1, 1] @ vlan_regs 1 6 0 0x123"
    by (rule net_regs_set) simp_all
  then have "map (regs_in snd w') [0x0111, 0x0112, 0x0113, 0x0114, 0x0101, 0x0103, 0x0104] = [192, 168, 1, 7, 6, 1, 0x23]"
    using w'(3) by (simp add: n net_synced_def address_regs_def vlan_regs_def vid_bytes_def PTP_IP_REG_def)
  moreover have "ip_word [192, 168, 1, 7] = 0xC0A80107" by code_simp
  ultimately show ?thesis using w'(1) n by (simp add: set_vlan_def set_addresses_def)
qed

text \<open>C36. The form that the page sends itself is always refused without effect: the field of the
  hardware address is disabled, so that a browser leaves it out, and its text has colons, which the
  parser does not take, escaped or not.\<close>

theorem ptp_net_page_own_form:
  assumes "3 \<le> length (stack_text sy)"
    and "map_of f ''mac'' = None \<or> (\<exists>d0 d1 c r. map_of f ''mac'' = Some (d0 # d1 # c # r) \<and> isxdigit d0 \<and> isxdigit d1 \<and>
      (c = CHR '':'' \<or> c = CHR ''%''))"
  shows "ConfigPtpNetHandler sy f w = Some (w, ''/perror.shtml'')"
proof -
  have "ConfigGetCGIMacaddr (stack_text sy) ''mac'' f = Some None"
    using assms GetCGIMacaddr_missing GetCGIMacaddr_colon by blast
  then show ?thesis by (simp add: ConfigPtpNetHandler_def then_addr_def then_param_def)
qed

theorem ptp_net_page_own_form_witness:
  "ConfigPtpNetHandler page_surroundings [(''ip'', ''192.168.1.7'')] page_web = Some (page_web, ''/perror.shtml'') \<and>
   ConfigPtpNetHandler page_surroundings [(''mac'', ''00:0A:35:01:FE:02'')] page_web = Some (page_web, ''/perror.shtml'')"
proof -
  have l: "3 \<le> length (stack_text page_surroundings)" by (simp add: page_surroundings_def)
  have "isxdigit (CHR ''0'')" by (simp add: is_digit_of_def digit_val_def)
  then show ?thesis using ptp_net_page_own_form [OF l, of _ page_web] by simp
qed

end
