(* ===== verification/WebSafe.thy ===== *)
theory WebSafe
  imports WebNet
begin

text \<open>
  The arrays of the parameter block under the pages: which handlers stay within them, and what the
  login takes for the password.
\<close>

section \<open>The arrays\<close>

definition array_text :: "nat \<Rightarrow> string \<Rightarrow> bool" where
  "array_text n a \<longleftrightarrow> length a = n \<and> NUL \<in> set a"

definition web_arrays :: "'d web \<Rightarrow> bool" where
  "web_arrays w \<longleftrightarrow>
     array_text 4 (gnss_priority w) \<and> array_text 64 (TrapService w) \<and> array_text 32 (Model w) \<and>
     array_text 32 (Manufacturer w) \<and> array_text 12 (Serial w) \<and> array_text 32 (InstallPos w) \<and>
     array_text 32 (InstallPer w) \<and> array_text 32 (InstallTime w) \<and> array_text 16 (userpasswd w) \<and>
     array_text 16 (working_passwd w)"

lemma array_put_text: "array_text n a \<Longrightarrow> length s < n \<Longrightarrow> array_text n (put_text a s)"
  by (auto simp: array_text_def put_text_def)

lemma form_text_cases:
  assumes "array_text n a" "0 < l"
  shows "form_text name f l a = (case map_of f name of None \<Rightarrow> Some a
    | Some t \<Rightarrow> if length (ConfigDecodeFormString t l) < n then Some (put_text a (ConfigDecodeFormString t l)) else None)"
  using assms strcpy_0 [of _ a] strcpy_too_long [of a 0]
  by (auto simp: form_text_def cgi_value_map_of array_text_def split: option.split)

lemma form_text_array: "array_text n a \<Longrightarrow> 0 < l \<Longrightarrow> form_text name f l a = Some b \<Longrightarrow> array_text n b"
  by (auto simp: form_text_cases array_put_text split: option.splits if_splits)

lemma form_text_fits: "array_text n a \<Longrightarrow> 0 < l \<Longrightarrow> l \<le> n \<Longrightarrow> \<exists>b. form_text name f l a = Some b"
  using decode_fits [of l] by (auto simp: form_text_cases split: option.split intro: less_le_trans)

lemma arrays_mach [simp]: "web_arrays (w\<lparr>mach := m\<rparr>) = web_arrays w"
  by (simp add: web_arrays_def)

lemma arrays_copy: "web_arrays w \<Longrightarrow> web_arrays (copy_parameters pack w)"
  by (simp add: web_arrays_def copy_parameters_def)

lemma arrays_save [simp]: "web_arrays (save_parameters w) = web_arrays w"
  by (simp add: web_arrays_def save_parameters_def)

section \<open>Every page\<close>

definition page_names :: "string set" where
  "page_names = {''/index.html'', ''/perror.shtml'', ''/set.shtml'', ''/sntp.shtml'', ''/snmp.shtml'', ''/timesw.shtml'', ''/regate.shtml'',
     ''/udp.shtml'', ''/passwd.shtml'', ''/config.shtml'', ''/info.shtml'', ''/response.ssi''}"

definition page_ok :: "('d web \<times> string) option \<Rightarrow> bool" where
  "page_ok r \<longleftrightarrow> (case r of None \<Rightarrow> True | Some (w, p) \<Rightarrow> web_arrays w \<and> p \<in> page_names)"

definition arrays_ok :: "'d web option \<Rightarrow> bool" where
  "arrays_ok r \<longleftrightarrow> (case r of None \<Rightarrow> True | Some w \<Rightarrow> web_arrays w)"

lemma page_ok_bind: "arrays_ok m \<Longrightarrow> (\<And>w. web_arrays w \<Longrightarrow> page_ok (k w)) \<Longrightarrow> page_ok (Option.bind m k)"
  by (cases m) (auto simp: page_ok_def arrays_ok_def)

lemma arrays_ok_bind: "arrays_ok m \<Longrightarrow> (\<And>w. web_arrays w \<Longrightarrow> arrays_ok (k w)) \<Longrightarrow> arrays_ok (Option.bind m k)"
  by (cases m) (auto simp: arrays_ok_def)

lemma page_ok_value: "(\<And>x. m = Some x \<Longrightarrow> page_ok (k x)) \<Longrightarrow> page_ok (Option.bind m k)"
  by (cases m) (auto simp: page_ok_def)

lemma page_ok_return: "web_arrays w \<Longrightarrow> p \<in> page_names \<Longrightarrow> page_ok (Some (w, p))"
  by (simp add: page_ok_def)

lemma arrays_ok_command: "web_arrays w \<Longrightarrow> arrays_ok (run_command sy t w)"
  by (auto simp: arrays_ok_def run_command_def split: option.split)

lemma arrays_on_mode: "web_arrays w \<Longrightarrow> web_arrays (on_mode g w)" and arrays_on_net: "web_arrays w \<Longrightarrow> web_arrays (on_net h w)"
  by (simp_all add: on_mode_def on_net_def)

lemma arrays_change_mode: "web_arrays w \<Longrightarrow> arrays_ok (change_mode sy field store v cmd w)"
  using arrays_ok_command [OF arrays_on_mode, of w]
  by (cases cmd) (auto simp: change_mode_def arrays_ok_def split: option.split)

lemma page_ok_pair: "(\<And>x y. page_ok (k x y)) \<Longrightarrow> page_ok (Option.bind m (\<lambda>(x, y). k x y))"
  by (cases m) (auto simp: page_ok_def)

lemma page_ok_if: "page_ok x \<Longrightarrow> page_ok y \<Longrightarrow> page_ok (if c then x else y)"
  by simp

lemma page_names_all:
  "''/index.html'' \<in> page_names" "''/perror.shtml'' \<in> page_names" "''/set.shtml'' \<in> page_names" "''/sntp.shtml'' \<in> page_names"
  "''/snmp.shtml'' \<in> page_names" "''/timesw.shtml'' \<in> page_names" "''/regate.shtml'' \<in> page_names" "''/udp.shtml'' \<in> page_names"
  "''/passwd.shtml'' \<in> page_names" "''/config.shtml'' \<in> page_names" "''/info.shtml'' \<in> page_names" "''/response.ssi'' \<in> page_names"
  by (simp_all add: page_names_def)

lemmas page_rules = page_ok_pair page_ok_if page_ok_return arrays_copy arrays_save [THEN iffD2] page_names_all

lemma page_PtpMod: "web_arrays w \<Longrightarrow> page_ok (ConfigPtpModHandler sy f w)"
  unfolding ConfigPtpModHandler_def Let_def
  by (intro page_rules page_ok_bind arrays_change_mode)

lemma arrays_address_part: "web_arrays w \<Longrightarrow> arrays_ok (address_part sy ip msk gw w)"
  by (auto simp: address_part_def Let_def arrays_ok_def [of "Some _"] intro!: arrays_ok_bind arrays_ok_command arrays_on_net)

lemma arrays_vlan_part: "web_arrays w \<Longrightarrow> arrays_ok (vlan_part sy ven pcp cfi vid w)"
  unfolding vlan_part_def Let_def by (intro arrays_ok_bind arrays_ok_command arrays_on_net)

lemma page_PtpNet: "web_arrays w \<Longrightarrow> page_ok (ConfigPtpNetHandler sy f w)"
  unfolding ConfigPtpNetHandler_def Let_def address_part_def [symmetric, unfolded Let_def]
  by (intro page_rules page_ok_value page_ok_bind arrays_address_part; (simp split: prod.split)?;
      intro page_rules page_ok_value page_ok_bind arrays_address_part arrays_ok_command arrays_on_net impI allI)

lemma page_Gnss: "web_arrays w \<Longrightarrow> page_ok (ConfigGnssHandler sy f w)"
proof -
  assume w: "web_arrays w"
  have g: "form_text name f 4 (gnss_priority w) = Some p \<Longrightarrow> web_arrays (w\<lparr>gnss_priority := p\<rparr>)" for name p
    using w form_text_array [of 4 "gnss_priority w" 4] by (simp add: web_arrays_def)
  have s: "web_arrays x \<Longrightarrow> web_arrays (x\<lparr>gnss_enable := a, gnss_mode := b, mach := m\<rparr>)" for x :: "'a web" and a b m
    by (simp add: web_arrays_def)
  show ?thesis unfolding ConfigGnssHandler_def Let_def
    by (intro page_ok_pair page_ok_value) (intro page_ok_pair page_rules page_ok_bind arrays_ok_command s g)
qed

lemma page_Login: "web_arrays w \<Longrightarrow> page_ok (LoginCGIHandler sy f w)"
  unfolding LoginCGIHandler_def
  by (rule page_ok_value, rule page_ok_return) (use form_text_array [of 16 "working_passwd w" 16] in \<open>simp_all add: web_arrays_def page_names_all\<close>)

lemma page_Trap: "web_arrays w \<Longrightarrow> page_ok (ConfigTrapCGIHandler sy f w)"
  unfolding ConfigTrapCGIHandler_def Let_def
  by (intro page_ok_pair, rule page_ok_value, intro page_ok_pair, rule page_ok_return)
    (use form_text_array [of 64 "TrapService w" 64] in \<open>simp_all add: web_arrays_def page_names_all\<close>)

lemma arrays_texts:
  assumes "web_arrays w" "0 < l"
  shows "form_text name f l (Model w) = Some t \<Longrightarrow> web_arrays (w\<lparr>Model := t\<rparr>)"
    and "form_text name f l (Manufacturer w) = Some t \<Longrightarrow> web_arrays (w\<lparr>Manufacturer := t\<rparr>)"
    and "form_text name f l (Serial w) = Some t \<Longrightarrow> web_arrays (w\<lparr>Serial := t\<rparr>)"
    and "form_text name f l (InstallPos w) = Some t \<Longrightarrow> web_arrays (w\<lparr>InstallPos := t\<rparr>)"
    and "form_text name f l (InstallPer w) = Some t \<Longrightarrow> web_arrays (w\<lparr>InstallPer := t\<rparr>)"
    and "form_text name f l (InstallTime w) = Some t \<Longrightarrow> web_arrays (w\<lparr>InstallTime := t\<rparr>)"
  using assms form_text_array [OF _ assms(2), of _ _ name f t] by (simp_all add: web_arrays_def) (blast+)

lemma page_ok_let: "page_ok (k x) \<Longrightarrow> page_ok (Let x k)"
  by simp

lemma page_Info: "web_arrays w \<Longrightarrow> page_ok (ConfigInfoCGIHandler sy f w)"
  unfolding ConfigInfoCGIHandler_def
  by (intro page_ok_value page_ok_let page_ok_return page_names_all; (rule arrays_texts, (assumption | rule arrays_texts)+)?) simp_all

lemma page_Opther: "web_arrays w \<Longrightarrow> page_ok (Opther_CGIHandler sy f w)"
  unfolding Opther_CGIHandler_def
  by (intro page_ok_value page_ok_return) (simp_all add: web_arrays_def page_names_all)

lemma page_others:
  assumes "web_arrays w"
  shows "page_ok (ConfigRegateCGIHandler sy f w)" "page_ok (ConfigSwitchCGIHandler sy f w)" "page_ok (Orther_CGIHandler sy f w)"
    "page_ok (SNTPCGIHandler sy f w)" "page_ok (ConfigresetCGIHandler sy f w)" "page_ok (ConfigsetpwdCGIHandler sy f w)"
    "page_ok (ConfigCTRStyeCGIHandler sy f w)"
proof -
  have "web_arrays (w\<lparr>data_response_buf := []\<rparr>)" using assms by (simp add: web_arrays_def)
  then show "page_ok (Orther_CGIHandler sy f w)" unfolding Orther_CGIHandler_def by (intro page_rules)
  show "page_ok (ConfigRegateCGIHandler sy f w)" "page_ok (ConfigSwitchCGIHandler sy f w)"
    unfolding ConfigRegateCGIHandler_def ConfigSwitchCGIHandler_def
    by (intro page_ok_pair; simp add: page_ok_return page_names_all assms)+
  show "page_ok (SNTPCGIHandler sy f w)" "page_ok (ConfigresetCGIHandler sy f w)" "page_ok (ConfigsetpwdCGIHandler sy f w)"
    "page_ok (ConfigCTRStyeCGIHandler sy f w)"
    unfolding SNTPCGIHandler_def ConfigresetCGIHandler_def ConfigsetpwdCGIHandler_def ConfigCTRStyeCGIHandler_def
    by (simp_all add: page_ok_return page_names_all assms)
qed

text \<open>C25. No text of a form changes the shape of the parameter block: whenever a handler of the table
  of pages, from the login to the PTP pages, is defined for a form, every text array has its size and a
  terminator afterwards, if it had before, and the answer is one of the pages of the server.\<close>

theorem pages_keep_arrays:
  assumes "(uri, h) \<in> set g_psConfigCGIURIs" "web_arrays w" "h sy f w = Some (w', page)"
  shows "web_arrays w' \<and> page \<in> page_names"
proof -
  have "\<forall>(uri, h) \<in> set g_psConfigCGIURIs. page_ok (h sy f w)"
    using assms(2) by (simp add: g_psConfigCGIURIs_def page_Login page_Gnss page_PtpNet page_PtpMod page_Trap page_Info page_Opther page_others)
  then have "page_ok (h sy f w)" using assms(1) by blast
  then show ?thesis by (simp add: page_ok_def assms(3))
qed

section \<open>The device page and the login\<close>

lemma Info_texts:
  assumes "web_arrays w"
  shows "ConfigInfoCGIHandler sy f w = None \<longleftrightarrow> form_text ''ser'' f 13 (Serial w) = None"
proof -
  have l: "array_text 32 (Model w)" "array_text 32 (Manufacturer w)" "array_text 32 (InstallPos w)" "array_text 32 (InstallPer w)"
    "array_text 32 (InstallTime w)" using assms by (simp_all add: web_arrays_def)
  have fit: "\<exists>b. form_text name f 32 a = Some b" if "array_text 32 a" for name a using form_text_fits [OF that, of 32] by simp
  obtain a b c d e where t: "form_text ''model'' f 32 (Model w) = Some a" "form_text ''manu'' f 32 (Manufacturer w) = Some b"
    "form_text ''pos'' f 32 (InstallPos w) = Some c" "form_text ''instal'' f 32 (InstallPer w) = Some d"
    "form_text ''instime'' f 32 (InstallTime w) = Some e" using fit l by meson
  show ?thesis by (cases "form_text ''ser'' f 13 (Serial w)") (simp_all add: ConfigInfoCGIHandler_def t Let_def)
qed

lemma starts_with_take: "starts_with (take n t) u = starts_with t u" if "length u \<le> n"
  using that by (simp add: strncmp_eq_def min_def)

text \<open>C26. The page of the device writes past an array exactly for a serial number that is 12 characters
  or longer when decoded: for every other form it is defined. The login is defined for every form; it
  lets in everyone whose password, sent in any encoding, starts with the four characters of the fixed
  one, and everyone else it keeps out.\<close>

theorem text_pages_defined:
  assumes "web_arrays w"
  shows "(ConfigInfoCGIHandler sy f w = None \<longleftrightarrow>
      (\<exists>e. map_of f ''ser'' = Some e \<and> length (ConfigDecodeFormString e 13) = 12)) \<and>
    (\<exists>w'. LoginCGIHandler sy f w = Some (w', ''/index.html'') \<and>
      (\<forall>t e. map_of f ''PASSWD'' = Some e \<and> form_encoded t e \<and> NUL \<notin> set t \<longrightarrow> (login w' \<longleftrightarrow> starts_with t ''root'')))"
proof (rule conjI)
  have s: "array_text 12 (Serial w)" "array_text 16 (working_passwd w)" using assms by (simp_all add: web_arrays_def)
  have "length (ConfigDecodeFormString e 13) < 13" for e by (rule decode_fits) simp
  then have "length (ConfigDecodeFormString e 13) < 12 \<longleftrightarrow> length (ConfigDecodeFormString e 13) \<noteq> 12" for e
    by (metis less_Suc_eq nat_neq_iff eval_nat_numeral(3) semiring_norm(26-28))
  then show "ConfigInfoCGIHandler sy f w = None \<longleftrightarrow>
      (\<exists>e. map_of f ''ser'' = Some e \<and> length (ConfigDecodeFormString e 13) = 12)"
    unfolding Info_texts [OF assms] by (simp add: form_text_cases [OF s(1)] split: option.split)
  obtain p where p: "form_text ''PASSWD'' f 16 (working_passwd w) = Some p" using form_text_fits [OF s(2), of 16] by auto
  have "starts_with (text_of p) ''root'' = starts_with t ''root''"
    if "map_of f ''PASSWD'' = Some e" "form_encoded t e" "NUL \<notin> set t" for t e
  proof -
    have "NUL \<notin> set (take 15 t)" using that(3) by (meson in_set_takeD)
    then have "text_of p = take 15 t"
      using p that(1) decode_encoded [OF that(2), of 16] by (auto simp: form_text_cases [OF s(2)] split: if_splits)
    then show ?thesis using starts_with_take [of "''root''" 15 t] by simp
  qed
  then show "\<exists>w'. LoginCGIHandler sy f w = Some (w', ''/index.html'') \<and>
      (\<forall>t e. map_of f ''PASSWD'' = Some e \<and> form_encoded t e \<and> NUL \<notin> set t \<longrightarrow> (login w' \<longleftrightarrow> starts_with t ''root''))"
    by (auto simp: LoginCGIHandler_def p)
qed

lemma page_web_arrays: "web_arrays page_web"
  by (simp add: web_arrays_def page_web_def array_text_def)

theorem text_pages_defined_witness:
  "ConfigInfoCGIHandler page_surroundings [(''ser'', ''XGM30%2d123456'')] page_web = None \<and>
   ConfigInfoCGIHandler page_surroundings [(''ser'', ''XGM30%2d12345'')] page_web \<noteq> None"
proof -
  have l: "length (ConfigDecodeFormString ''XGM30%2d123456'' 13) = 12" "length (ConfigDecodeFormString ''XGM30%2d12345'' 13) = 11"
    by code_simp+
  show ?thesis
    using text_pages_defined [OF page_web_arrays, of page_surroundings "[(''ser'', ''XGM30%2d123456'')]"]
      text_pages_defined [OF page_web_arrays, of page_surroundings "[(''ser'', ''XGM30%2d12345'')]"] l by simp
qed

theorem pages_keep_arrays_witness:
  "\<exists>w'. LoginCGIHandler page_surroundings [(''PASSWD'', ''a+very+long+password+that+is+cut'')] page_web = Some (w', ''/index.html'') \<and>
     length (working_passwd w') = 16"
proof -
  have m: "(''/login.cgi'', LoginCGIHandler) \<in> set (g_psConfigCGIURIs :: (string \<times> (bytes \<times> (u32 \<Rightarrow> u8)) page_handler) list)"
    by (simp add: g_psConfigCGIURIs_def)
  have "form_text ''PASSWD'' [(''PASSWD'', ''a+very+long+password+that+is+cut'')] 16 (working_passwd page_web) \<noteq> None"
    using form_text_fits [of 16 "working_passwd page_web" 16] page_web_arrays by (auto simp: web_arrays_def)
  then obtain w' where w': "LoginCGIHandler page_surroundings [(''PASSWD'', ''a+very+long+password+that+is+cut'')] page_web = Some (w', ''/index.html'')"
    by (auto simp: LoginCGIHandler_def)
  show ?thesis using pages_keep_arrays [OF m page_web_arrays w'] w' by (auto simp: web_arrays_def array_text_def)
qed

end
