(* ===== verification/SnmpFlash.thy ===== *)
theory SnmpFlash
  imports Flash CString
begin

text \<open>
  The addresses that the SNMP agent keeps in two sectors of the internal flash:
  \<^verbatim>\<open>APP/Snmp/snmp_flash.c\<close> and the part of \<^verbatim>\<open>APP/Snmp/snmp_snmpInit.c\<close> that fills
  them at the start. Every write moves the data to the other sector. A loop that waits for ever
  after a failure is \<open>None\<close>.
\<close>

section \<open>Bytes of the flash\<close>

text \<open>The byte at an address, half words being stored with the low byte first, and the driver's
  programming of one byte.\<close>

definition flash_byte :: "flash \<Rightarrow> nat \<Rightarrow> u8" where
  "flash_byte f a = (if even a then ucast (cells f a) else ucast (drop_bit 8 (cells f (a - 1))))"

definition byte_lane :: "nat \<Rightarrow> u8 \<Rightarrow> u16" where
  "byte_lane a d = (if even a then 0xFF00 OR ucast d else push_bit 8 (ucast d) OR 0x00FF)"

definition FLASH_ProgramByte :: "nat \<Rightarrow> u8 \<Rightarrow> flash \<Rightarrow> u16 \<times> flash" where
  "FLASH_ProgramByte a d f = FLASH_ProgramHalfWord (a - a mod 2) (byte_lane a d) f"

definition FLASH_ClearFlag :: "flash \<Rightarrow> flash" where
  "FLASH_ClearFlag f = f\<lparr>latched := FLASH_COMPLETE\<rparr>"

section \<open>The two sectors\<close>

definition ADDR_FLASH_SECTOR_6 :: nat where "ADDR_FLASH_SECTOR_6 = 0x08040000"
definition ADDR_FLASH_SECTOR_7 :: nat where "ADDR_FLASH_SECTOR_7 = 0x08060000"
abbreviation (input) "SECTOR_SIZE \<equiv> (0x20000 :: nat)"

text \<open>The first addresses of the twelve sectors, and the sector of an address.\<close>

definition ADDR_FLASH_SECTOR :: "nat list" where
  "ADDR_FLASH_SECTOR =
     [0x08000000, 0x08004000, 0x08008000, 0x0800C000, 0x08010000, 0x08020000, 0x08040000, 0x08060000, 0x08080000, 0x080A0000,
      0x080C0000, 0x080E0000]"

definition Flash_GetSector :: "nat \<Rightarrow> nat" where
  "Flash_GetSector Address =
     (if Address < ADDR_FLASH_SECTOR ! 0 then 11 else length (takeWhile (\<lambda>a. a \<le> Address) (tl ADDR_FLASH_SECTOR)))"

definition erase_sector :: "nat \<Rightarrow> flash \<Rightarrow> u16 \<times> flash" where
  "erase_sector n f =
     FLASH_EraseSector (ADDR_FLASH_SECTOR ! n) (if n < 4 then 0x4000 else if n = 4 then 0x10000 else SECTOR_SIZE) f"

definition Snmp_Flash_Read_Byte :: "nat \<Rightarrow> nat \<Rightarrow> flash \<Rightarrow> bytes" where
  "Snmp_Flash_Read_Byte address len f = map (flash_byte f) [address..<address + len]"

fun Snmp_Flash_Write_Byte :: "nat \<Rightarrow> bytes \<Rightarrow> flash \<Rightarrow> flash option" where
  "Snmp_Flash_Write_Byte address [] f = Some f"
| "Snmp_Flash_Write_Byte address (d # ds) f =
     (let (st, f) = FLASH_ProgramByte address d f in
      if st = FLASH_COMPLETE then Snmp_Flash_Write_Byte (Suc address) ds f else None)"

text \<open>The sector whose flag is set while the other's is blank.\<close>

definition primary_sector :: "flash \<Rightarrow> nat option" where
  "primary_sector f =
     (let Flash_Sector_Flag1 = cells f ADDR_FLASH_SECTOR_6; Flash_Sector_Flag2 = cells f ADDR_FLASH_SECTOR_7 in
      if Flash_Sector_Flag1 = 0x8000 \<and> Flash_Sector_Flag2 = 0xFFFF then Some ADDR_FLASH_SECTOR_6
      else if Flash_Sector_Flag1 = 0xFFFF \<and> Flash_Sector_Flag2 = 0x8000 then Some ADDR_FLASH_SECTOR_7
      else None)"

definition Snmp_Flash_Read :: "nat \<Rightarrow> u8 \<Rightarrow> u16 \<Rightarrow> flash \<Rightarrow> bytes option" where
  "Snmp_Flash_Read len position byte_position f =
     map_option (\<lambda>address. Snmp_Flash_Read_Byte (address + 2048 + unat position * 4096 + unat byte_position) len f) (primary_sector f)"

text \<open>The blocks of 4096 bytes in front of the one written are copied.\<close>

fun copy_blocks :: "nat \<Rightarrow> nat \<Rightarrow> nat \<Rightarrow> flash \<Rightarrow> flash option" where
  "copy_blocks 0 primary secondary f = Some f"
| "copy_blocks (Suc n) primary secondary f = do {
     f \<leftarrow> Snmp_Flash_Write_Byte secondary (Snmp_Flash_Read_Byte primary 4096 f) f;
     copy_blocks n (primary + 4096) (secondary + 4096) f
   }"

text \<open>\<open>heap\<close> says whether the buffer could be allocated. The result of the erase is not looked
  at; data beyond the block runs off the buffer.\<close>

definition Snmp_Flash_WriteSecondarySector ::
  "bool \<Rightarrow> nat \<Rightarrow> nat \<Rightarrow> bytes \<Rightarrow> u8 \<Rightarrow> u16 \<Rightarrow> flash \<Rightarrow> flash option" where
  "Snmp_Flash_WriteSecondarySector heap pri_address sec_address data position byte_position f =
     (if \<not> heap then None
      else do {
        let primary_address = pri_address + 2048;
        let secondary_address = sec_address + 2048;
        f \<leftarrow> copy_blocks (unat position) primary_address secondary_address f;
        let pBuf = Snmp_Flash_Read_Byte (primary_address + unat position * 4096) 4096 f;
        pBuf \<leftarrow> memcpy pBuf (unat byte_position) data 0 (length data);
        f \<leftarrow> Snmp_Flash_Write_Byte (secondary_address + unat position * 4096) pBuf f;
        let (st, f) = erase_sector (Flash_GetSector pri_address) f;
        let (st, f) = FLASH_ProgramHalfWord sec_address 0x8000 f;
        if st \<noteq> FLASH_COMPLETE then None else Some f
      })"

text \<open>Without a valid pair of flags both sectors are erased and the data is written to the start of
  the first, wherever it was meant to go.\<close>

definition Snmp_Flash_Write :: "bool \<Rightarrow> bytes \<Rightarrow> u8 \<Rightarrow> u16 \<Rightarrow> flash \<Rightarrow> flash option" where
  "Snmp_Flash_Write heap data position byte_position f =
     (let f = FLASH_ClearFlag f in
      case primary_sector f of
        Some pri \<Rightarrow>
          Snmp_Flash_WriteSecondarySector heap pri
            (if pri = ADDR_FLASH_SECTOR_6 then ADDR_FLASH_SECTOR_7 else ADDR_FLASH_SECTOR_6) data position byte_position f
      | None \<Rightarrow> do {
          let (st, f) = erase_sector 6 f;
          let (st, f) = erase_sector 7 f;
          f \<leftarrow> Snmp_Flash_Write_Byte (ADDR_FLASH_SECTOR_6 + 2048) data f;
          let (st, f) = FLASH_ProgramHalfWord ADDR_FLASH_SECTOR_6 0x8000 f;
          if st \<noteq> FLASH_COMPLETE then None else Some f
        })"

section \<open>The first addresses\<close>

abbreviation (input) "SNMP_ANALOG_IP_SIZE \<equiv> (16 :: nat)"

definition first_address :: "nat \<Rightarrow> nat \<Rightarrow> string" where
  "first_address i j = ''172.18.'' @ dec i @ ''.'' @ dec j"

record ipmac =
  wbuf :: string
  woff :: nat
  ip_cnt :: nat
  wcnt :: u8
  nvm :: flash

text \<open>The inner loop, left when four blocks were written.\<close>

fun ipmac_row :: "bool \<Rightarrow> nat \<Rightarrow> nat list \<Rightarrow> ipmac \<Rightarrow> ipmac option" where
  "ipmac_row heap i [] s = Some s"
| "ipmac_row heap i (j # js) s = do {
     b \<leftarrow> strcpy (wbuf s) (woff s) (first_address i j);
     let s = s\<lparr>wbuf := b, woff := woff s + SNMP_ANALOG_IP_SIZE, ip_cnt := ip_cnt s + 1\<rparr>;
     if ip_cnt s mod 256 = 0 then do {
       f \<leftarrow> Snmp_Flash_Write heap (map of_char (wbuf s)) (wcnt s) 0 (nvm s);
       let s = s\<lparr>nvm := f, wcnt := wcnt s + 1\<rparr>;
       if wcnt s = 4 then Some s else ipmac_row heap i js (s\<lparr>woff := 0\<rparr>)
     } else ipmac_row heap i js s
   }"

fun ipmac_rows :: "bool \<Rightarrow> nat list \<Rightarrow> ipmac \<Rightarrow> ipmac option" where
  "ipmac_rows heap [] s = Some s"
| "ipmac_rows heap (i # is) s = do { s \<leftarrow> ipmac_row heap i [1..<255] s; ipmac_rows heap is s }"

definition snmp_ipmac_init :: "bool \<Rightarrow> flash \<Rightarrow> flash option" where
  "snmp_ipmac_init heap f =
     map_option nvm (ipmac_rows heap [1..<6]
       \<lparr>wbuf = (if heap then replicate 4096 NUL else []), woff = 0, ip_cnt = 0, wcnt = 0, nvm = f\<rparr>)"

end
