(* ===== verification/SnmpFlashSpec.thy ===== *)
theory SnmpFlashSpec
  imports SnmpFlash
begin

text \<open>
  What the two sectors of the SNMP agent hold: a write puts its data into a list of bytes and loses
  what lies behind the block written, and the first start fills them with the first addresses.
\<close>

section \<open>Operations on bytes\<close>

definition flash_ready :: "flash \<Rightarrow> bool" where
  "flash_ready f \<longleftrightarrow> latched f = FLASH_COMPLETE \<and> outcomes f = []"

lemma program_ready:
  assumes "flash_ready f"
  shows "FLASH_ProgramHalfWord a d f = (FLASH_COMPLETE, f\<lparr>cells := (cells f)(a := cells f a AND d)\<rparr>)"
  using assms by (simp add: flash_ready_def FLASH_ProgramHalfWord_def FLASH_WaitForLastOperation_def flash_next_def)

lemma mask_lanes: "(0x00FF :: u16) = mask 8" "(0xFF00 :: u16) = push_bit 8 (mask 8)"
  by (simp_all add: mask_eq_exp_minus_1 push_bit_eq_mult)

lemma lane_bytes:
  "ucast (c AND (0xFF00 OR ucast (d :: u8)) :: u16) = (ucast c AND d :: u8)"
  "ucast (drop_bit 8 (c AND (0xFF00 OR ucast (d :: u8)) :: u16)) = (ucast (drop_bit 8 c) :: u8)"
  "ucast (c AND (push_bit 8 (ucast (d :: u8)) OR 0x00FF) :: u16) = (ucast c :: u8)"
  "ucast (drop_bit 8 (c AND (push_bit 8 (ucast (d :: u8)) OR 0x00FF) :: u16)) = (ucast (drop_bit 8 c) AND d :: u8)"
  unfolding mask_lanes by (rule bit_word_eqI; auto simp: bit_simps dest: bit_imp_le_length)+

lemma flash_byte_program:
  assumes "flash_ready f"
  obtains g where "FLASH_ProgramByte a d f = (FLASH_COMPLETE, g)" "flash_ready g"
    "flash_byte g = (flash_byte f)(a := flash_byte f a AND d)"
proof -
  let ?h = "a - a mod 2"
  define g where "g = f\<lparr>cells := (cells f)(?h := cells f ?h AND byte_lane a d)\<rparr>"
  have b: "flash_byte g x = ((flash_byte f)(a := flash_byte f a AND d)) x" for x
  proof (cases "x - x mod 2 = ?h")
    case True
    then have "x = a \<or> (even a \<and> x = Suc a) \<or> (odd a \<and> Suc x = a)" by presburger
    then show ?thesis
      by (elim disjE conjE; cases "even a") (auto simp: g_def flash_byte_def byte_lane_def lane_bytes odd_pos mod2_eq_if simp del: drop_bit_and drop_bit_or)
  next
    case False
    then have "x \<noteq> a" "even x \<Longrightarrow> x \<noteq> ?h" "odd x \<Longrightarrow> x - 1 \<noteq> ?h" by (auto simp: mod2_eq_if)
    then show ?thesis by (simp add: g_def flash_byte_def)
  qed
  show thesis
    by (rule that [of g]) (use assms b in \<open>simp_all add: FLASH_ProgramByte_def program_ready g_def flash_ready_def fun_eq_iff\<close>)
qed

lemma write_bytes:
  assumes "flash_ready f" "\<forall>i < length ds. flash_byte f (a + i) = 0xFF"
  shows "\<exists>g. Snmp_Flash_Write_Byte a ds f = Some g \<and> flash_ready g \<and>
    (\<forall>x. flash_byte g x = (if a \<le> x \<and> x < a + length ds then ds ! (x - a) else flash_byte f x))"
  using assms
proof (induction ds arbitrary: a f)
  case (Cons d ds)
  obtain g where g: "FLASH_ProgramByte a d f = (FLASH_COMPLETE, g)" "flash_ready g"
    "flash_byte g = (flash_byte f)(a := flash_byte f a AND d)" by (rule flash_byte_program [OF Cons.prems(1)])
  have a: "flash_byte f a = 0xFF" using Cons.prems(2)[rule_format, of 0] by simp
  have "\<forall>i < length ds. flash_byte g (Suc a + i) = 0xFF"
  proof (intro allI impI)
    fix i assume "i < length ds"
    then show "flash_byte g (Suc a + i) = 0xFF" using Cons.prems(2)[rule_format, of "Suc i"] by (simp add: g(3))
  qed
  then obtain h where h: "Snmp_Flash_Write_Byte (Suc a) ds g = Some h" "flash_ready h"
    "\<And>x. flash_byte h x = (if Suc a \<le> x \<and> x < Suc a + length ds then ds ! (x - Suc a) else flash_byte g x)"
    using Cons.IH [OF g(2)] by blast
  have "(0xFF :: u8) = - 1" by simp
  then have m: "(0xFF :: u8) AND d = d" by (simp only: and.left_neutral)
  have "flash_byte h x = (if a \<le> x \<and> x < a + length (d # ds) then (d # ds) ! (x - a) else flash_byte f x)" for x
    by (cases "x = a") (auto simp: h(3) g(3) a m nth_Cons' Suc_le_eq)
  then show ?case using h(1,2) by (simp add: g(1))
qed auto

lemma length_read_byte [simp]: "length (Snmp_Flash_Read_Byte a n f) = n"
  by (simp add: Snmp_Flash_Read_Byte_def)

lemma nth_read_byte [simp]: "i < n \<Longrightarrow> Snmp_Flash_Read_Byte a n f ! i = flash_byte f (a + i)"
  by (simp add: Snmp_Flash_Read_Byte_def)

lemma erase_bytes:
  assumes "flash_ready f" "n \<in> {6, 7}"
  shows "\<exists>st g. erase_sector n f = (st, g) \<and> flash_ready g \<and>
    (\<forall>x. flash_byte g x = (if ADDR_FLASH_SECTOR ! n \<le> x \<and> x < ADDR_FLASH_SECTOR ! n + SECTOR_SIZE then 0xFF else flash_byte f x))"
proof -
  let ?b = "ADDR_FLASH_SECTOR ! n"
  have ev: "even ?b" using assms(2) by (auto simp: ADDR_FLASH_SECTOR_def)
  define g where "g = f\<lparr>cells := (\<lambda>x. if ?b \<le> x \<and> x < ?b + SECTOR_SIZE then 0xFFFF else cells f x)\<rparr>"
  have "erase_sector n f = (FLASH_COMPLETE, g)"
    using assms by (auto simp: erase_sector_def FLASH_EraseSector_def flash_ready_def FLASH_WaitForLastOperation_def flash_next_def g_def)
  moreover have "flash_byte g x = (if ?b \<le> x \<and> x < ?b + SECTOR_SIZE then 0xFF else flash_byte f x)" for x
  proof (cases "even x")
    case False
    then have "(?b \<le> x - 1 \<and> x - 1 < ?b + SECTOR_SIZE) = (?b \<le> x \<and> x < ?b + SECTOR_SIZE)" using ev by presburger
    then show ?thesis using False by (simp add: g_def flash_byte_def)
  qed (simp add: g_def flash_byte_def)
  ultimately show ?thesis using assms(1) by (auto simp: g_def flash_ready_def)
qed

section \<open>The sectors\<close>

text \<open>Half words and bytes.\<close>

lemma cell_bytes: "even a \<Longrightarrow> cells f a = ucast (flash_byte f a) OR push_bit 8 (ucast (flash_byte f (Suc a)))"
proof -
  assume e: "even a"
  have "ucast (ucast c :: u8) OR push_bit 8 (ucast (ucast (drop_bit 8 c) :: u8)) = (c :: u16)" for c
  proof (rule bit_word_eqI)
    fix n assume "n < LENGTH(16)"
    then consider "n < 8" | "8 \<le> n" "n < 16" by fastforce
    then show "bit (ucast (ucast c :: u8) OR push_bit 8 (ucast (ucast (drop_bit 8 c) :: u8)) :: u16) n = bit c n"
      by cases (auto simp: bit_simps)
  qed
  then show ?thesis using e by (simp add: flash_byte_def)
qed

definition other_sector :: "nat \<Rightarrow> nat" where
  "other_sector a = (if a = ADDR_FLASH_SECTOR_6 then ADDR_FLASH_SECTOR_7 else ADDR_FLASH_SECTOR_6)"

definition sector_at :: "nat \<Rightarrow> bool" where
  "sector_at a \<longleftrightarrow> a = ADDR_FLASH_SECTOR_6 \<or> a = ADDR_FLASH_SECTOR_7"

text \<open>The sector \<open>pri\<close> is marked and the other one is blank.\<close>

definition sectors_ok :: "nat \<Rightarrow> flash \<Rightarrow> bool" where
  "sectors_ok pri f \<longleftrightarrow> sector_at pri \<and> flash_byte f pri = 0x00 \<and> flash_byte f (Suc pri) = 0x80 \<and>
     (\<forall>x. other_sector pri \<le> x \<and> x < other_sector pri + SECTOR_SIZE \<longrightarrow> flash_byte f x = 0xFF)"

lemma sector_cases:
  assumes "sector_at pri"
  obtains "pri = 0x08040000" "other_sector pri = 0x08060000" | "pri = 0x08060000" "other_sector pri = 0x08040000"
  using assms by (auto simp: sector_at_def other_sector_def ADDR_FLASH_SECTOR_6_def ADDR_FLASH_SECTOR_7_def)

lemma primary_sector_ok: "sectors_ok pri f \<Longrightarrow> primary_sector f = Some pri"
proof -
  assume s: "sectors_ok pri f"
  then have p: "sector_at pri" by (simp add: sectors_ok_def)
  have b: "flash_byte f (other_sector pri) = 0xFF" "flash_byte f (Suc (other_sector pri)) = 0xFF"
    using s by (auto simp: sectors_ok_def)
  have w: "ucast (0x00 :: u8) OR push_bit 8 (ucast (0x80 :: u8)) = (0x8000 :: u16)"
    "ucast (0xFF :: u8) OR push_bit 8 (ucast (0xFF :: u8)) = (0xFFFF :: u16)" by simp_all
  have e: "even pri" "even (other_sector pri)" by (rule sector_cases [OF p]; simp)+
  have c: "cells f pri = 0x8000" "cells f (other_sector pri) = 0xFFFF"
    using s b unfolding cell_bytes [OF e(1)] cell_bytes [OF e(2)] by (auto simp: sectors_ok_def)
  show ?thesis using p c by (auto simp: primary_sector_def sector_at_def other_sector_def ADDR_FLASH_SECTOR_6_def ADDR_FLASH_SECTOR_7_def)
qed

section \<open>Copying\<close>

lemma copy_blocks_bytes:
  assumes "flash_ready f" "\<forall>x. t \<le> x \<and> x < t + n * 4096 \<longrightarrow> flash_byte f x = 0xFF" "s + n * 4096 \<le> t \<or> t + n * 4096 \<le> s"
  shows "\<exists>g. copy_blocks n s t f = Some g \<and> flash_ready g \<and>
    (\<forall>x. flash_byte g x = (if t \<le> x \<and> x < t + n * 4096 then flash_byte f (s + (x - t)) else flash_byte f x))"
  using assms
proof (induction n arbitrary: s t f)
  case (Suc n)
  let ?b = "Snmp_Flash_Read_Byte s 4096 f"
  have "\<forall>i < length ?b. flash_byte f (t + i) = 0xFF" using Suc.prems(2) by simp
  then obtain g where g: "Snmp_Flash_Write_Byte t ?b f = Some g" "flash_ready g"
    "\<And>x. flash_byte g x = (if t \<le> x \<and> x < t + 4096 then ?b ! (x - t) else flash_byte f x)"
    using write_bytes [OF Suc.prems(1), of ?b t] by auto
  have "\<forall>x. t + 4096 \<le> x \<and> x < t + 4096 + n * 4096 \<longrightarrow> flash_byte g x = 0xFF" using Suc.prems(2) by (auto simp: g(3))
  moreover have "s + 4096 + n * 4096 \<le> t + 4096 \<or> t + 4096 + n * 4096 \<le> s + 4096" using Suc.prems(3) by auto
  ultimately obtain h where h: "copy_blocks n (s + 4096) (t + 4096) g = Some h" "flash_ready h"
    "\<And>x. flash_byte h x = (if t + 4096 \<le> x \<and> x < t + 4096 + n * 4096 then flash_byte g (s + 4096 + (x - (t + 4096))) else flash_byte g x)"
    using Suc.IH [OF g(2)] by blast
  have "flash_byte h x = (if t \<le> x \<and> x < t + Suc n * 4096 then flash_byte f (s + (x - t)) else flash_byte f x)" for x
  proof -
    have "flash_byte g (s + (x - t)) = flash_byte f (s + (x - t))" if "t + 4096 \<le> x" "x < t + Suc n * 4096"
      using that Suc.prems(3) by (auto simp: g(3))
    moreover have "s + 4096 + (x - (t + 4096)) = s + (x - t)" if "t + 4096 \<le> x" using that by simp
    ultimately show ?thesis by (auto simp: h(3) g(3))
  qed
  then show ?case using h(1,2) by (simp add: g(1))
qed auto

section \<open>Writing\<close>

lemma mark_bytes:
  assumes "flash_ready f" "even a" "flash_byte f a = 0xFF" "flash_byte f (Suc a) = 0xFF"
  shows "\<exists>g. FLASH_ProgramHalfWord a 0x8000 f = (FLASH_COMPLETE, g) \<and> flash_ready g \<and>
    (\<forall>x. flash_byte g x = (if x = a then 0x00 else if x = Suc a then 0x80 else flash_byte f x))"
proof -
  define g where "g = f\<lparr>cells := (cells f)(a := cells f a AND 0x8000)\<rparr>"
  have c: "cells f a = 0xFFFF" unfolding cell_bytes [OF assms(2)] assms(3,4) by simp
  have "flash_byte g x = (if x = a then 0x00 else if x = Suc a then 0x80 else flash_byte f x)" for x
  proof (cases "x = a \<or> x = Suc a")
    case False
    then have "even x \<Longrightarrow> x \<noteq> a" "odd x \<Longrightarrow> x - 1 \<noteq> a" by (auto simp: odd_pos)
    then show ?thesis using False by (simp add: g_def flash_byte_def)
  qed (use assms(2) c in \<open>auto simp: g_def flash_byte_def\<close>)
  then show ?thesis using assms(1) by (auto simp: program_ready g_def flash_ready_def)
qed

text \<open>What the flash stores: the blocks of the marked sector.\<close>

abbreviation (input) "BLOCKS \<equiv> (31 :: nat)"

definition stored :: "flash \<Rightarrow> bytes option" where
  "stored f = map_option (\<lambda>pri. Snmp_Flash_Read_Byte (pri + 2048) (BLOCKS * 4096) f) (primary_sector f)"

definition put_block :: "bytes \<Rightarrow> nat \<Rightarrow> nat \<Rightarrow> bytes \<Rightarrow> bytes" where
  "put_block bs p b data =
     take (p * 4096) bs @ splice (take 4096 (drop (p * 4096) bs)) b data 0 (length data) @ replicate ((BLOCKS - 1 - p) * 4096) 0xFF"

lemma stored_read:
  assumes "stored f = Some bs" "unat p * 4096 + unat b + n \<le> BLOCKS * 4096"
  shows "Snmp_Flash_Read n p b f = Some (take n (drop (unat p * 4096 + unat b) bs))"
proof -
  obtain pri where pri: "primary_sector f = Some pri" "bs = Snmp_Flash_Read_Byte (pri + 2048) (BLOCKS * 4096) f"
    using assms(1) by (auto simp: stored_def)
  have "Snmp_Flash_Read_Byte (pri + 2048 + unat p * 4096 + unat b) n f = take n (drop (unat p * 4096 + unat b) bs)"
    by (rule nth_equalityI) (use assms(2) in \<open>simp_all add: pri(2) add.assoc\<close>)
  then show ?thesis by (simp add: Snmp_Flash_Read_def pri(1))
qed

lemma GetSector_primary: "sector_at pri \<Longrightarrow> \<exists>n \<in> {6, 7}. Flash_GetSector pri = n \<and> ADDR_FLASH_SECTOR ! n = pri"
  by (auto simp: sector_at_def ADDR_FLASH_SECTOR_6_def ADDR_FLASH_SECTOR_7_def Flash_GetSector_def ADDR_FLASH_SECTOR_def)

lemma WriteSecondarySector_bytes:
  assumes "flash_ready f" "sectors_ok pri f" "unat p < BLOCKS" "unat b + length data \<le> 4096"
  defines "sec \<equiv> other_sector pri" and "buf \<equiv> splice (Snmp_Flash_Read_Byte (pri + 2048 + unat p * 4096) 4096 f) (unat b) data 0 (length data)"
  shows "\<exists>g. Snmp_Flash_WriteSecondarySector True pri sec data p b f = Some g \<and> flash_ready g \<and> sectors_ok sec g \<and>
    (\<forall>i < BLOCKS * 4096. flash_byte g (sec + 2048 + i) = (if i < unat p * 4096 then flash_byte f (pri + 2048 + i)
       else if i < unat p * 4096 + 4096 then buf ! (i - unat p * 4096) else 0xFF))"
proof -
  let ?p = "unat p * 4096"
  have at: "sector_at pri" using assms(2) by (simp add: sectors_ok_def)
  have blank: "sec \<le> x \<Longrightarrow> x < sec + SECTOR_SIZE \<Longrightarrow> flash_byte f x = 0xFF" for x using assms(2) by (simp add: sectors_ok_def sec_def)
  have apart: "pri + SECTOR_SIZE \<le> sec \<or> sec + SECTOR_SIZE \<le> pri" by (rule sector_cases [OF at]) (simp_all add: sec_def)
  have ev: "even sec" by (rule sector_cases [OF at]) (simp_all add: sec_def)
  have bck: "other_sector sec = pri" "sector_at sec" by (rule sector_cases [OF at]; simp add: sec_def other_sector_def sector_at_def ADDR_FLASH_SECTOR_6_def ADDR_FLASH_SECTOR_7_def)+
  have p: "?p \<le> 122880" using assms(3) by simp
  obtain g1 where g1: "copy_blocks (unat p) (pri + 2048) (sec + 2048) f = Some g1" "flash_ready g1"
    "\<And>x. flash_byte g1 x = (if sec + 2048 \<le> x \<and> x < sec + 2048 + ?p then flash_byte f (pri + 2048 + (x - (sec + 2048))) else flash_byte f x)"
    using copy_blocks_bytes [OF assms(1), of "sec + 2048" "unat p" "pri + 2048"] blank apart p by auto
  have rd: "Snmp_Flash_Read_Byte (pri + 2048 + ?p) 4096 g1 = Snmp_Flash_Read_Byte (pri + 2048 + ?p) 4096 f"
    by (rule nth_equalityI) (use apart p in \<open>auto simp: g1(3)\<close>)
  have mc: "memcpy (Snmp_Flash_Read_Byte (pri + 2048 + ?p) 4096 g1) (unat b) data 0 (length data) = Some buf"
    using assms(4) by (simp add: rd buf_def memcpy_splice)
  have lb: "length buf = 4096" using assms(4) by (simp add: buf_def splice_def)
  have "\<forall>i < length buf. flash_byte g1 (sec + 2048 + ?p + i) = 0xFF" using p by (auto simp: lb g1(3) blank)
  then obtain g2 where g2: "Snmp_Flash_Write_Byte (sec + 2048 + ?p) buf g1 = Some g2" "flash_ready g2"
    "\<And>x. flash_byte g2 x = (if sec + 2048 + ?p \<le> x \<and> x < sec + 2048 + ?p + 4096 then buf ! (x - (sec + 2048 + ?p)) else flash_byte g1 x)"
    using write_bytes [OF g1(2), of buf "sec + 2048 + ?p"] by (auto simp: lb)
  obtain n where n: "n \<in> {6, 7}" "Flash_GetSector pri = n" "ADDR_FLASH_SECTOR ! n = pri" using GetSector_primary [OF at] by blast
  obtain st g3 where g3: "erase_sector (Flash_GetSector pri) g2 = (st, g3)" "flash_ready g3"
    "\<And>x. flash_byte g3 x = (if pri \<le> x \<and> x < pri + SECTOR_SIZE then 0xFF else flash_byte g2 x)"
    using erase_bytes [OF g2(2) n(1)] by (auto simp: n(2,3))
  have "flash_byte g3 sec = 0xFF" "flash_byte g3 (Suc sec) = 0xFF" by (simp_all add: g3(3) g2(3) g1(3) blank)
  then obtain g4 where g4: "FLASH_ProgramHalfWord sec 0x8000 g3 = (FLASH_COMPLETE, g4)" "flash_ready g4"
    "\<And>x. flash_byte g4 x = (if x = sec then 0x00 else if x = Suc sec then 0x80 else flash_byte g3 x)"
    using mark_bytes [OF g3(2) ev] by blast
  have "sectors_ok sec g4" using apart by (auto simp: sectors_ok_def bck g4(3) g3(3))
  moreover have "Snmp_Flash_WriteSecondarySector True pri sec data p b f = Some g4"
    by (simp add: Snmp_Flash_WriteSecondarySector_def g1(1) mc g2(1) g3(1) g4(1) Let_def)
  moreover have "flash_byte g4 (sec + 2048 + i) = (if i < ?p then flash_byte f (pri + 2048 + i)
       else if i < ?p + 4096 then buf ! (i - ?p) else 0xFF)" if "i < BLOCKS * 4096" for i
  proof -
    have "flash_byte g4 (sec + 2048 + i) = flash_byte g2 (sec + 2048 + i)" using that apart by (auto simp: g4(3) g3(3))
    then show ?thesis using that p by (auto simp: g2(3) g1(3) blank)
  qed
  ultimately show ?thesis using g4(2) by blast
qed

lemma length_stored: "stored f = Some bs \<Longrightarrow> length bs = BLOCKS * 4096"
  by (auto simp: stored_def)

lemma length_put_block:
  "length bs = BLOCKS * 4096 \<Longrightarrow> p < BLOCKS \<Longrightarrow> b + length data \<le> 4096 \<Longrightarrow> length (put_block bs p b data) = BLOCKS * 4096"
  by (simp add: put_block_def splice_def algebra_simps)

lemma nth_put_block:
  assumes "length bs = BLOCKS * 4096" "p < BLOCKS" "b + length data \<le> 4096" "i < BLOCKS * 4096"
  shows "put_block bs p b data ! i = (if i < p * 4096 then bs ! i
    else if i < p * 4096 + 4096 then splice (take 4096 (drop (p * 4096) bs)) b data 0 (length data) ! (i - p * 4096) else 0xFF)"
proof -
  have "p * 4096 + 4096 \<le> BLOCKS * 4096" using assms(2) by simp
  then have "length (take (p * 4096) bs) = p * 4096" "length (splice (take 4096 (drop (p * 4096) bs)) b data 0 (length data)) = 4096"
    using assms(1,3) by (simp_all add: splice_def)
  then show ?thesis using assms(4) by (auto simp: put_block_def nth_append)
qed

lemma stored_put:
  assumes "outcomes f = []" "sectors_ok pri f" "stored f = Some bs" "unat p < BLOCKS" "unat b + length data \<le> 4096"
  shows "\<exists>g. Snmp_Flash_Write True data p b f = Some g \<and> sectors_ok (other_sector pri) g \<and> outcomes g = [] \<and>
    stored g = Some (put_block bs (unat p) (unat b) data)"
proof -
  let ?c = "FLASH_ClearFlag f"
  have c: "flash_byte ?c = flash_byte f" by (simp add: FLASH_ClearFlag_def flash_byte_def fun_eq_iff)
  have r: "flash_ready ?c" using assms(1) by (simp add: flash_ready_def FLASH_ClearFlag_def)
  have ok: "sectors_ok pri ?c" using assms(2) by (simp add: sectors_ok_def c)
  obtain g where g: "Snmp_Flash_WriteSecondarySector True pri (other_sector pri) data p b ?c = Some g" "flash_ready g"
    "sectors_ok (other_sector pri) g"
    "\<And>i. i < BLOCKS * 4096 \<Longrightarrow> flash_byte g (other_sector pri + 2048 + i) = (if i < unat p * 4096 then flash_byte f (pri + 2048 + i)
       else if i < unat p * 4096 + 4096 then splice (Snmp_Flash_Read_Byte (pri + 2048 + unat p * 4096) 4096 ?c) (unat b) data 0 (length data) ! (i - unat p * 4096)
       else 0xFF)"
    using WriteSecondarySector_bytes [OF r ok assms(4,5)] by (auto simp: c)
  have bs: "bs = Snmp_Flash_Read_Byte (pri + 2048) (BLOCKS * 4096) f"
    using assms(3) by (simp add: stored_def primary_sector_ok [OF assms(2)])
  have blk: "Snmp_Flash_Read_Byte (pri + 2048 + unat p * 4096) 4096 ?c = take 4096 (drop (unat p * 4096) bs)"
    by (rule nth_equalityI) (use assms(4) in \<open>simp_all add: bs c add.assoc\<close>)
  have nb: "i < BLOCKS * 4096 \<Longrightarrow> bs ! i = flash_byte f (pri + 2048 + i)" for i by (simp add: bs)
  have "stored g = Some (Snmp_Flash_Read_Byte (other_sector pri + 2048) (BLOCKS * 4096) g)"
    by (simp add: stored_def primary_sector_ok [OF g(3)])
  also have "Snmp_Flash_Read_Byte (other_sector pri + 2048) (BLOCKS * 4096) g = put_block bs (unat p) (unat b) data"
    by (rule nth_equalityI)
      (simp_all add: length_put_block [OF length_stored [OF assms(3)] assms(4,5)] nth_put_block [OF length_stored [OF assms(3)] assms(4,5)] g(4) blk nb)
  finally have "stored g = Some (put_block bs (unat p) (unat b) data)" .
  moreover have "Snmp_Flash_Write True data p b f = Some g"
    using g(1) by (simp add: Snmp_Flash_Write_def Let_def primary_sector_ok [OF ok] other_sector_def)
  ultimately show ?thesis using g(2,3) by (auto simp: flash_ready_def)
qed

text \<open>Without a valid pair of flags the data becomes the start of the first sector.\<close>

lemma stored_first:
  assumes "outcomes f = []" "primary_sector f = None" "length data \<le> BLOCKS * 4096"
  shows "\<exists>g. Snmp_Flash_Write heap data p b f = Some g \<and> sectors_ok ADDR_FLASH_SECTOR_6 g \<and> outcomes g = [] \<and>
    stored g = Some (data @ replicate (BLOCKS * 4096 - length data) 0xFF)"
proof -
  let ?c = "FLASH_ClearFlag f" and ?a = "ADDR_FLASH_SECTOR_6"
  have r: "flash_ready ?c" using assms(1) by (simp add: flash_ready_def FLASH_ClearFlag_def)
  have no: "primary_sector ?c = None" using assms(2) by (simp add: primary_sector_def FLASH_ClearFlag_def Let_def)
  have at: "ADDR_FLASH_SECTOR ! 6 = ?a" "ADDR_FLASH_SECTOR ! 7 = ?a + SECTOR_SIZE" "other_sector ?a = ?a + SECTOR_SIZE" "sector_at ?a" "even ?a"
    by (simp_all add: ADDR_FLASH_SECTOR_def ADDR_FLASH_SECTOR_6_def ADDR_FLASH_SECTOR_7_def other_sector_def sector_at_def)
  obtain st1 g1 where g1: "erase_sector 6 ?c = (st1, g1)" "flash_ready g1"
    "\<And>x. flash_byte g1 x = (if ?a \<le> x \<and> x < ?a + SECTOR_SIZE then 0xFF else flash_byte ?c x)"
    using erase_bytes [OF r, of 6] by (auto simp: at)
  obtain st2 g2 where g2: "erase_sector 7 g1 = (st2, g2)" "flash_ready g2"
    "\<And>x. flash_byte g2 x = (if ?a + SECTOR_SIZE \<le> x \<and> x < ?a + SECTOR_SIZE + SECTOR_SIZE then 0xFF else flash_byte g1 x)"
    using erase_bytes [OF g1(2), of 7] unfolding at by blast
  have ff: "?a \<le> x \<Longrightarrow> x < ?a + SECTOR_SIZE + SECTOR_SIZE \<Longrightarrow> flash_byte g2 x = 0xFF" for x by (simp add: g2(3) g1(3))
  have "\<forall>i < length data. flash_byte g2 (?a + 2048 + i) = 0xFF" using assms(3) by (intro allI impI ff) simp_all
  then obtain g3 where g3: "Snmp_Flash_Write_Byte (?a + 2048) data g2 = Some g3" "flash_ready g3"
    "\<And>x. flash_byte g3 x = (if ?a + 2048 \<le> x \<and> x < ?a + 2048 + length data then data ! (x - (?a + 2048)) else flash_byte g2 x)"
    using write_bytes [OF g2(2), of data "?a + 2048"] by auto
  have "flash_byte g3 ?a = 0xFF" "flash_byte g3 (Suc ?a) = 0xFF" by (simp_all add: g3(3) ff)
  then obtain g4 where g4: "FLASH_ProgramHalfWord ?a 0x8000 g3 = (FLASH_COMPLETE, g4)" "flash_ready g4"
    "\<And>x. flash_byte g4 x = (if x = ?a then 0x00 else if x = Suc ?a then 0x80 else flash_byte g3 x)"
    using mark_bytes [OF g3(2) at(5)] by blast
  have ok: "sectors_ok ?a g4" unfolding sectors_ok_def at(3) using assms(3) by (auto simp: at(4) g4(3) g3(3) ff)
  have "stored g4 = Some (Snmp_Flash_Read_Byte (?a + 2048) (BLOCKS * 4096) g4)" by (simp add: stored_def primary_sector_ok [OF ok])
  also have "Snmp_Flash_Read_Byte (?a + 2048) (BLOCKS * 4096) g4 = data @ replicate (BLOCKS * 4096 - length data) 0xFF"
    by (rule nth_equalityI) (use assms(3) in \<open>auto simp: g4(3) g3(3) ff nth_append\<close>)
  finally have "stored g4 = Some (data @ replicate (BLOCKS * 4096 - length data) 0xFF)" .
  moreover have "Snmp_Flash_Write heap data p b f = Some g4"
    by (simp add: Snmp_Flash_Write_def Let_def no g1(1) g2(1) g3(1) g4(1))
  ultimately show ?thesis using ok g4(2) by (auto simp: flash_ready_def)
qed

lemma put_block_at:
  assumes "length bs = BLOCKS * 4096" "p < BLOCKS" "b + length data \<le> 4096" "i < BLOCKS * 4096"
  shows "put_block bs p b data ! i = (if p * 4096 + b \<le> i \<and> i < p * 4096 + b + length data then data ! (i - (p * 4096 + b))
    else if i < p * 4096 + 4096 then bs ! i else 0xFF)"
proof -
  let ?x = "take 4096 (drop (p * 4096) bs)"
  have l: "length ?x = 4096" "p * 4096 + 4096 \<le> BLOCKS * 4096" using assms(1,2) by simp_all
  have "splice ?x b data 0 (length data) ! j = (if b \<le> j \<and> j < b + length data then data ! (j - b) else ?x ! j)" if "j < 4096" for j
    using nth_splice [of b "length data" ?x 0 data j] assms(3) l(1) that by (simp add: splice_def)
  then show ?thesis using assms l by (auto simp: nth_put_block)
qed

text \<open>C9. A write to the two sectors of the SNMP agent moves them to the other sector and stores its
  data where it was asked to: it is read back, all that lies in front of it is kept, and so is the rest
  of its block of 4096 bytes; but every block behind it is lost, and reads as erased flash.\<close>

theorem Snmp_Flash_Write_spec:
  assumes "outcomes f = []" "sectors_ok pri f" "unat p < 31" "unat b + length data \<le> 4096" "n = unat p * 4096 + unat b"
    and "stored f = Some bs"
  shows "\<exists>g bs'. Snmp_Flash_Write True data p b f = Some g \<and> sectors_ok (other_sector pri) g \<and> stored g = Some bs' \<and>
    Snmp_Flash_Read (length data) p b g = Some data \<and>
    take n bs' = take n bs \<and> take (4096 - unat b - length data) (drop (n + length data) bs') = take (4096 - unat b - length data) (drop (n + length data) bs) \<and>
    (\<forall>q > p. unat q < 31 \<longrightarrow> Snmp_Flash_Read 4096 q 0 g = Some (replicate 4096 0xFF))"
proof -
  have l: "length bs = BLOCKS * 4096" by (rule length_stored [OF assms(6)])
  let ?b = "put_block bs (unat p) (unat b) data"
  obtain g where g: "Snmp_Flash_Write True data p b f = Some g" "sectors_ok (other_sector pri) g" "stored g = Some ?b"
    using stored_put [OF assms(1,2,6,3,4)] by blast
  have lb: "length ?b = BLOCKS * 4096" by (rule length_put_block [OF l assms(3,4)])
  have room: "n + length data \<le> unat p * 4096 + 4096" "unat p * 4096 + 4096 \<le> BLOCKS * 4096" using assms(3-5) by simp_all
  note at = put_block_at [OF l assms(3,4)]
  have "Snmp_Flash_Read (length data) p b g = Some (take (length data) (drop n ?b))"
    using stored_read [OF g(3), of p b "length data"] room assms(5) by simp
  also have "take (length data) (drop n ?b) = data"
    by (rule nth_equalityI) (use room assms(5) in \<open>simp_all add: lb at\<close>)
  finally have own: "Snmp_Flash_Read (length data) p b g = Some data" .
  have front: "take n ?b = take n bs" by (rule nth_equalityI) (use room l lb assms(5) in \<open>auto simp: at\<close>)
  have rest: "take (4096 - unat b - length data) (drop (n + length data) ?b) = take (4096 - unat b - length data) (drop (n + length data) bs)"
    by (rule nth_equalityI) (use room l lb assms(4,5) in \<open>auto simp: at\<close>)
  have lost: "Snmp_Flash_Read 4096 q 0 g = Some (replicate 4096 0xFF)" if q: "q > p" "unat q < 31" for q
  proof -
    have q': "unat p + 1 \<le> unat q" using q(1) by (simp add: word_less_nat_alt)
    have "Snmp_Flash_Read 4096 q 0 g = Some (take 4096 (drop (unat q * 4096) ?b))"
      using stored_read [OF g(3), of q 0 4096] q(2) by simp
    also have "take 4096 (drop (unat q * 4096) ?b) = replicate 4096 0xFF"
      by (rule nth_equalityI) (use q(2) q' room lb assms(5) in \<open>auto simp: at\<close>)
    finally show ?thesis .
  qed
  show ?thesis using g(1,2,3) own front rest lost by blast
qed

definition marked_flash :: flash where
  "marked_flash = \<lparr>cells = (\<lambda>_. 0xFFFF)(ADDR_FLASH_SECTOR_6 := 0x8000), latched = FLASH_COMPLETE, outcomes = []\<rparr>"

theorem Snmp_Flash_Write_spec_witness:
  "\<exists>g. Snmp_Flash_Write True [1, 2, 3] 4 16 marked_flash = Some g \<and> sectors_ok ADDR_FLASH_SECTOR_7 g \<and>
    Snmp_Flash_Read 3 4 16 g = Some [1, 2, 3] \<and> Snmp_Flash_Read 4096 5 0 g = Some (replicate 4096 0xFF)"
proof -
  have ok: "sectors_ok ADDR_FLASH_SECTOR_6 marked_flash"
    by (auto simp: sectors_ok_def marked_flash_def sector_at_def other_sector_def flash_byte_def ADDR_FLASH_SECTOR_6_def ADDR_FLASH_SECTOR_7_def)
  then obtain bs where bs: "stored marked_flash = Some bs" using primary_sector_ok [OF ok] by (simp add: stored_def)
  have "other_sector ADDR_FLASH_SECTOR_6 = ADDR_FLASH_SECTOR_7" by (simp add: other_sector_def)
  then show ?thesis
    using Snmp_Flash_Write_spec [OF _ ok _ _ _ bs, of 4 16 "[1, 2, 3]" 16400] by (auto simp: marked_flash_def numeral_3_eq_3)
qed

section \<open>The first addresses\<close>

text \<open>The text in a field of 16 characters, and the address with the number \<open>k\<close>.\<close>

definition slot :: "string \<Rightarrow> nat \<Rightarrow> string" where "slot b k = text_of (take 16 (drop (16 * k) b))"

definition nth_address :: "nat \<Rightarrow> string" where "nth_address k = first_address (k div 254 + 1) (k mod 254 + 1)"

abbreviation "chars bs \<equiv> map (\<lambda>b. char_of (unat (b :: u8))) bs"

lemma chars_of: "chars (map of_char t) = t"
proof -
  have "char_of (unat (of_char c :: u8)) = c" for c
  proof -
    have "(of_char c :: nat) < 256" using of_char_mod_256 [of c, where ?'a = nat] by (metis mod_less_divisor zero_less_numeral)
    then have "unat (of_nat (of_char c :: nat) :: u8) = of_char c" by (simp add: unat_of_nat)
    then show ?thesis by (simp add: of_nat_of_char)
  qed
  then show ?thesis by (simp add: comp_def)
qed

lemma first_address_fits: "i < 100 \<Longrightarrow> j < 1000 \<Longrightarrow> length (first_address i j) \<le> 15 \<and> NUL \<notin> set (first_address i j)"
  using dec_length_le [of i 2] dec_length_le [of j 3] dec_no [of NUL i] dec_no [of NUL j]
  by (simp add: first_address_def digit_val_def NUL_def)

lemma strcpy_slot:
  assumes "length b = 4096" "k < 256" "length t \<le> 15" "NUL \<notin> set t"
  shows "\<exists>b'. strcpy b (16 * k) t = Some b' \<and> length b' = 4096 \<and> slot b' k = t \<and> (\<forall>m < k. slot b' m = slot b m)"
proof -
  let ?b = "take (16 * k) b @ (t @ [NUL]) @ drop (16 * k + Suc (length t)) b"
  have k: "16 * k + 16 \<le> 4096" using assms(2) by simp
  have c: "strcpy b (16 * k) t = Some ?b" using assms(1,3) k by (simp add: strcpy_def memcpy_def)
  have "take 16 (drop (16 * k) ?b) = t @ NUL # take (15 - length t) (drop (16 * k + Suc (length t)) b)"
    using assms(1,3) k by (simp add: take_Cons')
  then have "slot ?b k = t" using assms(4) by (simp add: slot_def text_of_def takeWhile_to_NUL)
  moreover have "slot ?b m = slot b m" if "m < k" for m
  proof -
    have "16 * m + 16 \<le> 16 * k" using that by simp
    then have "take 16 (drop (16 * m) ?b) = take 16 (drop (16 * m) b)"
      by (intro nth_equalityI) (use assms(1,3) k in \<open>simp_all add: nth_append\<close>)
    then show ?thesis by (simp add: slot_def)
  qed
  moreover have "length ?b = 4096" using assms(1,3) k by simp
  ultimately show ?thesis using c by blast
qed

text \<open>The state after \<open>m\<close> addresses, starting from the flash \<open>f\<close>.\<close>

definition ipmac_inv :: "flash \<Rightarrow> nat \<Rightarrow> ipmac \<Rightarrow> bool" where
  "ipmac_inv f m s \<longleftrightarrow>
     ip_cnt s = m \<and> wcnt s = of_nat (m div 256) \<and> (m < 1024 \<longrightarrow> woff s = 16 * (m mod 256)) \<and> length (wbuf s) = 4096 \<and>
     (\<forall>k < m mod 256. slot (wbuf s) k = nth_address (256 * (m div 256) + k)) \<and>
     (if m < 256 then nvm s = f
      else outcomes (nvm s) = [] \<and> (\<exists>pri bs. sectors_ok pri (nvm s) \<and> stored (nvm s) = Some bs \<and>
        (\<forall>k < 256 * (m div 256). slot (chars bs) k = nth_address k)))"

lemma slot_take: "16 * k + 16 \<le> n \<Longrightarrow> slot (take n b) k = slot b k"
  by (simp add: slot_def drop_take min_def)

lemma slot_append:
  assumes "length a = 16 * n" "length b = 16 * l" "k < n + l"
  shows "slot (a @ b) k = (if k < n then slot a k else slot b (k - n))"
proof (cases "k < n")
  case True
  then have "16 * k + 16 \<le> length a" using assms(1) by simp
  then show ?thesis using True by (simp add: slot_def)
next
  case False
  then have "16 * k - length a = 16 * (k - n)" "drop (16 * k) a = []" using assms(1) by simp_all
  then show ?thesis using False by (simp add: slot_def)
qed

text \<open>A whole block is written behind those that are kept.\<close>

lemma block_written:
  assumes "outcomes f = []" "length data = 4096" "q < BLOCKS"
    and "q = 0 \<and> primary_sector f = None \<or> sectors_ok pri f \<and> stored f = Some bs"
  shows "\<exists>g pri' bs'. Snmp_Flash_Write True data (of_nat q) 0 f = Some g \<and> outcomes g = [] \<and> sectors_ok pri' g \<and> stored g = Some bs' \<and>
    take (q * 4096 + 4096) bs' = take (q * 4096) bs @ data"
proof (cases "sectors_ok pri f \<and> stored f = Some bs")
  case True
  have q: "unat (of_nat q :: u8) = q" using assms(3) by (simp add: unat_of_nat)
  have l: "length bs = BLOCKS * 4096" using True length_stored by blast
  have "q * 4096 + 4096 \<le> BLOCKS * 4096" using assms(3) by simp
  then have "take (q * 4096 + 4096) (put_block bs q 0 data) = take (q * 4096) bs @ data"
    using l assms(2) by (simp add: put_block_def splice_def)
  moreover obtain g where "Snmp_Flash_Write True data (of_nat q) 0 f = Some g" "sectors_ok (other_sector pri) g" "outcomes g = []"
    "stored g = Some (put_block bs q 0 data)"
    using stored_put [of f pri bs "of_nat q" 0 data] True assms(1-3) by (auto simp: q)
  ultimately show ?thesis by blast
next
  case False
  then have "q = 0" "primary_sector f = None" using assms(4) by blast+
  then show ?thesis using stored_first [OF assms(1), of data True 0 0] assms(2) by (auto simp: exI)
qed

definition may_start :: "flash \<Rightarrow> bool" where
  "may_start f \<longleftrightarrow> outcomes f = [] \<and> (primary_sector f = None \<or> (\<exists>pri. sectors_ok pri f))"

lemma ipmac_inv_0: "ipmac_inv f 0 \<lparr>wbuf = replicate 4096 NUL, woff = 0, ip_cnt = 0, wcnt = 0, nvm = f\<rparr>"
  by (simp add: ipmac_inv_def)

lemma ipmac_flush:
  assumes inv: "ipmac_inv f m s" and m: "m < 1024" "m mod 256 = 255" and f: "may_start f"
    and b: "length b = 4096" "\<forall>k < 256. slot b k = nth_address (256 * (m div 256) + k)"
  shows "\<exists>g. Snmp_Flash_Write True (map of_char b) (wcnt s) 0 (nvm s) = Some g \<and> outcomes g = [] \<and>
    (\<exists>pri bs. sectors_ok pri g \<and> stored g = Some bs \<and> (\<forall>k < 256 * (m div 256 + 1). slot (chars bs) k = nth_address k))"
proof -
  let ?q = "m div 256" and ?d = "map of_char b :: bytes"
  have q: "?q < BLOCKS" using m(1) by simp
  have w: "wcnt s = of_nat ?q" using inv by (simp add: ipmac_inv_def)
  have o: "outcomes (nvm s) = []" using inv f by (auto simp: ipmac_inv_def may_start_def split: if_splits)
  obtain pri bs where old: "?q = 0 \<and> primary_sector (nvm s) = None \<or> sectors_ok pri (nvm s) \<and> stored (nvm s) = Some bs"
    "\<forall>k < 256 * ?q. slot (chars bs) k = nth_address k"
  proof (cases "m < 256")
    case True
    then have "nvm s = f" "?q = 0" using inv by (simp_all add: ipmac_inv_def)
    moreover have "stored f = Some (Snmp_Flash_Read_Byte (pri + 2048) (BLOCKS * 4096) f)" if "sectors_ok pri f" for pri
      using primary_sector_ok [OF that] by (simp add: stored_def)
    ultimately show thesis using f that unfolding may_start_def by auto
  next
    case False
    then show thesis using inv that unfolding ipmac_inv_def by auto
  qed
  have l: "length ?d = 4096" using b(1) by simp
  obtain g pri' bs' where g: "Snmp_Flash_Write True ?d (wcnt s) 0 (nvm s) = Some g" "outcomes g = []" "sectors_ok pri' g" "stored g = Some bs'"
    "take (?q * 4096 + 4096) bs' = take (?q * 4096) bs @ ?d"
    using block_written [OF o l q old(1)] unfolding w by blast
  have kept: "length (take (?q * 4096) bs) = 16 * (256 * ?q)"
    using old(1) length_stored [of "nvm s" bs] q by auto
  have "slot (chars bs') k = nth_address k" if k: "k < 256 * (?q + 1)" for k
  proof -
    have fit: "16 * k + 16 \<le> ?q * 4096 + 4096" using k by simp
    have "slot (chars bs') k = slot (chars (take (?q * 4096 + 4096) bs')) k"
      using slot_take [OF fit, of "chars bs'"] by (simp add: take_map)
    also have "\<dots> = slot (chars (take (?q * 4096) bs) @ b) k" unfolding g(5) map_append chars_of ..
    also have "\<dots> = (if k < 256 * ?q then slot (chars (take (?q * 4096) bs)) k else slot b (k - 256 * ?q))"
      using slot_append [of "chars (take (?q * 4096) bs)" "256 * ?q" b 256 k] kept b(1) k by simp
    also have "\<dots> = nth_address k"
    proof (cases "k < 256 * ?q")
      case True
      then have "slot (take (?q * 4096) (chars bs)) k = slot (chars bs) k" by (intro slot_take) simp
      then show ?thesis using True old(2) by (simp add: take_map)
    next
      case False
      then have "k - 256 * ?q < 256" "256 * ?q + (k - 256 * ?q) = k" using k by simp_all
      then show ?thesis using False b(2) by (metis (no_types))
    qed
    finally show ?thesis .
  qed
  then show ?thesis using g by blast
qed

text \<open>One address more.\<close>

lemma ipmac_step:
  assumes inv: "ipmac_inv f m s" and m: "m < 1024" and f: "may_start f" and a: "i < 100" "j < 1000" "nth_address m = first_address i j"
  shows "\<exists>s'. ipmac_inv f (m + 1) s' \<and> ipmac_row True i (j # js) s = (if m = 1023 then Some s' else ipmac_row True i js s')"
proof -
  let ?r = "m mod 256" and ?q = "m div 256" and ?t = "first_address i j"
  have r: "?r < 256" by simp
  have t: "length ?t \<le> 15" "NUL \<notin> set ?t" using first_address_fits [OF a(1,2)] by simp_all
  have s: "woff s = 16 * ?r" "length (wbuf s) = 4096" "ip_cnt s = m" "wcnt s = of_nat ?q" "\<forall>k < ?r. slot (wbuf s) k = nth_address (256 * ?q + k)"
    using inv m by (simp_all add: ipmac_inv_def)
  obtain b where b: "strcpy (wbuf s) (16 * ?r) ?t = Some b" "length b = 4096" "slot b ?r = ?t" "\<forall>k < ?r. slot b k = slot (wbuf s) k"
    using strcpy_slot [OF s(2) r t] by blast
  have "256 * ?q + ?r = m" by simp
  then have new: "\<forall>k < Suc ?r. slot b k = nth_address (256 * ?q + k)"
    using b(3,4) s(5) a(3) by (auto simp: less_Suc_eq)
  let ?s = "s\<lparr>wbuf := b, woff := woff s + 16, ip_cnt := ip_cnt s + 1\<rparr>"
  show ?thesis
  proof (cases "?r = 255")
    case False
    then have d: "Suc m mod 256 = Suc ?r" "Suc m div 256 = ?q" "m < 255 \<longleftrightarrow> m < 256" "m \<noteq> 1023" by (auto simp: mod_Suc div_Suc)
    have "ipmac_inv f (m + 1) ?s" using inv new b(2) s by (cases "m < 256") (simp_all add: ipmac_inv_def d)
    moreover have "ipmac_row True i (j # js) s = ipmac_row True i js ?s" using False d(1) by (simp add: s(1,3) b(1) Let_def)
    ultimately show ?thesis using d(4) by auto
  next
    case True
    then have d: "Suc m mod 256 = 0" "Suc m div 256 = Suc ?q" "\<not> Suc m < 256" "m = 1023 \<longleftrightarrow> ?q = 3" "?q < 4"
      using m div_mult_mod_eq [of m 256] by (auto simp: mod_Suc div_Suc simp del: div_mult_mod_eq)
    obtain g where g: "Snmp_Flash_Write True (map of_char b) (wcnt s) 0 (nvm s) = Some g" "outcomes g = []"
      "\<exists>pri bs. sectors_ok pri g \<and> stored g = Some bs \<and> (\<forall>k < 256 * (?q + 1). slot (chars bs) k = nth_address k)"
      using ipmac_flush [OF inv m True f b(2)] new True by auto
    let ?e = "?s\<lparr>nvm := g, wcnt := wcnt s + 1\<rparr>"
    let ?e' = "if m = 1023 then ?e else ?e\<lparr>woff := 0\<rparr>"
    have w: "wcnt s + 1 = 4 \<longleftrightarrow> m = 1023"
    proof -
      have "?q = 0 \<or> ?q = 1 \<or> ?q = 2 \<or> ?q = 3" using d(5) by linarith
      then show ?thesis unfolding d(4) s(4) by (elim disjE) simp_all
    qed
    have "ipmac_inv f (m + 1) ?e'" using g(2,3) b(2) s(3,4) d(1-3) unfolding ipmac_inv_def by (cases "m = 1023") simp_all
    moreover have "ipmac_row True i (j # js) s = (if m = 1023 then Some ?e' else ipmac_row True i js ?e')"
      using d(1) w by (simp add: s(1,3) b(1) g(1) Let_def)
    ultimately show ?thesis by blast
  qed
qed

text \<open>A row, until 1024 addresses are there.\<close>

lemma ipmac_row_inv:
  assumes "ipmac_inv f m s" "m < 1024" "may_start f" "i < 100" "js = [j..<255]" "1 \<le> j" "m = (i - 1) * 254 + (j - 1)" "1 \<le> i" "j \<le> 255"
  shows "\<exists>s'. ipmac_row True i js s = Some s' \<and> ipmac_inv f (min 1024 (i * 254)) s'"
  using assms
proof (induction js arbitrary: m s j)
  case Nil
  then have "[j..<255] = []" by simp
  then have "j = 255" using Nil.prems(9) by simp
  then have "m = i * 254" using Nil by (cases i) simp_all
  then show ?case using Nil by simp
next
  case (Cons x js)
  have "j < 255" using Cons.prems(5) by (cases "j < 255") simp_all
  then have x: "x = j" "js = [Suc j..<255]" "j < 255" using Cons.prems(5) by (simp_all only: upt_conv_Cons list.inject)
  have m: "m = (j - 1) + (i - 1) * 254" "j - 1 < 254" using Cons.prems(7) x(3) by simp_all
  then have "m div 254 = i - 1" "m mod 254 = j - 1" by (simp_all only: div_mult_self1 mod_mult_self1 mod_less div_less)
  then have a: "nth_address m = first_address i j" using Cons.prems by (simp add: nth_address_def)
  have j: "j < 1000" using x(3) by simp
  obtain s' where s': "ipmac_inv f (m + 1) s'" "ipmac_row True i (j # js) s = (if m = 1023 then Some s' else ipmac_row True i js s')"
    using ipmac_step [OF Cons.prems(1-4) j a] by blast
  show ?case
  proof (cases "m = 1023")
    case True
    have "1024 \<le> i * 254" using True Cons.prems x(3) by (cases i) simp_all
    then show ?thesis using s' True by (simp add: x(1) min_def)
  next
    case False
    have "\<exists>s''. ipmac_row True i js s' = Some s'' \<and> ipmac_inv f (min 1024 (i * 254)) s''"
      by (rule Cons.IH [OF s'(1), of "Suc j"]) (use Cons.prems x False in simp_all)
    then show ?thesis using s'(2) False by (simp add: x(1))
  qed
qed

lemma ipmac_rows_inv:
  assumes "ipmac_inv f (min 1024 ((i - 1) * 254)) s" "may_start f" "1 \<le> i" "i \<le> 5" "is = [i..<6]"
  shows "\<exists>s'. ipmac_rows True is s = Some s' \<and> ipmac_inv f 1024 s'"
  using assms
proof (induction "is" arbitrary: i s)
  case Nil
  then have "[i..<6] = []" by simp
  then show ?case using Nil.prems(4) unfolding upt_eq_Nil_conv by simp
next
  case (Cons x xs)
  have "i < 6" using Cons.prems(4) by simp
  then have x: "x = i" "xs = [Suc i..<6]" using Cons.prems(5) by (simp_all only: upt_conv_Cons list.inject)
  have "(i - 1) * 254 < 1024" using Cons.prems(4) by simp
  then obtain s' where s': "ipmac_row True i [1..<255] s = Some s'" "ipmac_inv f (min 1024 (i * 254)) s'"
    using ipmac_row_inv [of f "(i - 1) * 254" s i "[1..<255]" 1] Cons.prems(1-4) by auto
  show ?case
  proof (cases "i = 5")
    case True
    then show ?thesis using s' by (simp add: x)
  next
    case False
    have "\<exists>s''. ipmac_rows True xs s' = Some s'' \<and> ipmac_inv f 1024 s''"
      by (rule Cons.IH [of "Suc i"]) (use s' Cons.prems x False in simp_all)
    then show ?thesis using s'(1) by (simp add: x(1))
  qed
qed

text \<open>C27. The first start of the agent, from two sectors that are blank, or carry any data with a valid
  pair of flags, ends with the 1024 addresses 172.18.1.1 to 172.18.5.8, 254 in each network, in the
  flash, in fields of 16 characters; the 64 that the agent reads back are the first of them.\<close>

theorem snmp_ipmac_init_addresses:
  assumes "outcomes f = []" "primary_sector f = None \<or> sectors_ok pri f"
  shows "\<exists>g bs. snmp_ipmac_init True f = Some g \<and> stored g = Some bs \<and>
    (\<forall>k < 1024. slot (chars bs) k = first_address (k div 254 + 1) (k mod 254 + 1)) \<and>
    Snmp_Flash_Read (64 * 16) 0 0 g = Some (take (64 * 16) bs)"
proof -
  have f: "may_start f" using assms by (auto simp: may_start_def)
  obtain s where s: "ipmac_rows True [1..<6] \<lparr>wbuf = replicate 4096 NUL, woff = 0, ip_cnt = 0, wcnt = 0, nvm = f\<rparr> = Some s"
    "ipmac_inv f 1024 s"
    using ipmac_rows_inv [of f 1 _ "[1..<6]"] ipmac_inv_0 f by fastforce
  obtain bs where bs: "stored (nvm s) = Some bs" "\<forall>k < 1024. slot (chars bs) k = nth_address k"
    using s(2) by (auto simp: ipmac_inv_def)
  have "Snmp_Flash_Read (64 * 16) 0 0 (nvm s) = Some (take (64 * 16) bs)"
    using stored_read [OF bs(1), of 0 0 "64 * 16"] by simp
  then show ?thesis using s(1) bs by (simp add: snmp_ipmac_init_def nth_address_def del: upt_rec_numeral)
qed

theorem snmp_ipmac_init_addresses_witness:
  "\<exists>g bs. snmp_ipmac_init True \<lparr>cells = (\<lambda>_. 0xFFFF), latched = FLASH_COMPLETE, outcomes = []\<rparr> = Some g \<and> stored g = Some bs \<and>
    slot (chars bs) 0 = ''172.18.1.1'' \<and> slot (chars bs) 1023 = ''172.18.5.8''"
proof -
  let ?f = "\<lparr>cells = (\<lambda>_. 0xFFFF), latched = FLASH_COMPLETE, outcomes = []\<rparr>"
  have "primary_sector ?f = None" by (simp add: primary_sector_def)
  then obtain g bs where g: "snmp_ipmac_init True ?f = Some g" "stored g = Some bs"
    "\<forall>k < 1024. slot (chars bs) k = first_address (k div 254 + 1) (k mod 254 + 1)"
    using snmp_ipmac_init_addresses [of ?f 0] by auto
  have "dec 1 = ''1''" "dec 5 = ''5''" "dec 8 = ''8''" by code_simp+
  then have "slot (chars bs) 0 = ''172.18.1.1''" "slot (chars bs) 1023 = ''172.18.5.8''"
    using g(3)[rule_format, of 0] g(3)[rule_format, of 1023] by (simp_all add: first_address_def)
  then show ?thesis using g(1,2) by blast
qed

end
