(* ===== verification/Spec2Isabelle.thy ===== *)
theory Spec2Isabelle
  imports RingBuffer CheckCode ConfigStore SnmpSet GnssSat GnssUtc GnssConfirm ConsoleSpec WebSafe SnmpFlashSpec
begin

text \<open>
  Verification of the firmware of the XGM30 time server: an STM32F407 that takes the time from a
  UT4B0 satellite receiver, hands it to an FPGA, which makes the 1PPS, time-of-day, IRIG-B and PTP
  outputs, and is configured from a serial console, by web pages and by SNMP. The code is C on uC/OS-III and
  LwIP; paths below are relative to \<^verbatim>\<open>src/XGM30/SOFTWARE\<close>.

  The parts and how they interact. The statements of the receiver go through a ring buffer to the
  GNSS task, which checks their codes and records time, position, satellites and leap seconds; the commands
  to the receiver wait until the same task has parsed their confirmation. A line of the console is
  cut into words and given to the handler of its first word. The handlers of the outputs check the
  text, keep the value in the block of parameters and write it to registers of the FPGA over SPI;
  their queries read the registers back. The web pages turn the parameters of a form into such command
  lines and save the block. The block is stored in an EEPROM emulation on two sectors of the internal
  flash. The SNMP agent answers from tables in memory and keeps its addresses in two other sectors of the
  flash.

  \<^bold>\<open>Conventions.\<close> Every C function is one definition of the same name; a part of a long function has a
  definition of its own, composed as in the source. Integers have their C width (\<open>u8\<close>, \<open>u16\<close>,
  \<open>u32\<close>, with the wrap-around of words) where they are stored in it, and are \<open>int\<close> or \<open>nat\<close>
  where C computes in \<open>int\<close> without overflow. State is passed explicitly. An access outside an array, a null
  pointer that is used and a loop that does not end are \<open>None\<close>; error codes are values as in the code.
  There are two exceptions: \<open>SPI_FPGA_SendByte\<close> drops the byte that the code stores through a null pointer
  with nearly every byte it sends, and a comparison of \<open>ptp_set_handler\<close> that reads behind a name of its table
  finds no match. Texts for debugging are left out.

  \<^bold>\<open>Theories\<close>, from the bottom.

  \<^item> \<open>Prelude\<close>: the integer types, checked accesses to arrays (\<open>rd_at\<close>, \<open>memcpy\<close>) with the
    collection \<open>mem_simps\<close>; \<open>CLib\<close> and \<open>CString\<close>: the functions of the C library on texts and on
    arrays with terminators (\<open>strcpy\<close>, \<open>strtok\<close>, \<open>atoi\<close>, \<open>strtoul\<close>, decimal and
    hexadecimal output), with their round trips.
  \<^item> \<open>RingBuffer\<close> (\<^verbatim>\<open>APP/Util/util_ringbuffer.c\<close>): the record \<open>ringbuffer\<close>, every operation, its
    abstraction to a list of bytes, and the refinement of a bounded byte queue.
  \<^item> \<open>Crc32\<close>, \<open>CheckCode\<close> (\<^verbatim>\<open>APP/Util/util_check.c\<close>): the table-driven CRC-32 against a
    bit-serial reference, the errors it detects, and the comparison with a code in hexadecimal.
  \<^item> \<open>Flash\<close> (the driver), \<open>Eeprom\<close> (\<^verbatim>\<open>APP/Eeprom/eeprom.c\<close>), \<open>EepromPages\<close> (the contents of a
    page as a list), \<open>EepromProofs\<close> (runs of the operations with every way they can be cut short),
    \<open>EepromWrite\<close>, \<open>EepromSafety\<close>: reads and writes as on a finite map, and the behaviour under
    failures of the flash and losses of power at any operation.
  \<^item> \<open>ConfigStore\<close> (\<^verbatim>\<open>APP/Config/config.c\<close>, saving and loading): the block of parameters as a list
    of bytes over a store of pairs; what a complete save and what one that is cut short leave for the next start.
  \<^item> \<open>SnmpBer\<close>, \<open>SnmpBerProofs\<close>, \<open>SnmpOid\<close> (\<^verbatim>\<open>APP/Snmp/snmp_SNMP.c\<close>): lengths, numbers and
    object identifiers, their round trips and the order of names; \<open>SnmpMib\<close>
    (\<^verbatim>\<open>snmp_mib.C\<close>, \<^verbatim>\<open>snmp_snmpInit.c\<close>): the objects as memory, the table and its callbacks;
    \<open>SnmpAgent\<close> (\<^verbatim>\<open>snmp_snmpAgent.c\<close>, \<^verbatim>\<open>snmp_main.c\<close>): \<open>inReqOutRep\<close> from the datagram to
    the reply; \<open>SnmpWrite\<close>, \<open>SnmpWalk\<close>, \<open>SnmpReply\<close>: what the encoders write, the instances in the
    order of their names and the binding of one of them; \<open>SnmpSpec\<close>, \<open>SnmpSafe\<close>, \<open>SnmpSet\<close>: get and
    get-next, what no request can change, and set.
  \<^item> \<open>SnmpFlash\<close>, \<open>SnmpFlashSpec\<close> (\<^verbatim>\<open>APP/Snmp/snmp_flash.c\<close> and \<open>snmp_ipmac_init\<close>): the two sectors
    with the addresses, what a write keeps and loses, and the first addresses.
  \<^item> \<open>GnssLeap\<close>, \<open>GnssMsg\<close>, \<open>GnssCmd\<close> (\<^verbatim>\<open>APP/Gnss/ut4b0_receiver.c\<close>, \<^verbatim>\<open>gnss_receiver.c\<close>): leap
    seconds, the parsers of the statements, the commands; \<open>GnssHandler\<close>
    (\<^verbatim>\<open>APP/Gnss/gnss_handler.c\<close>, \<^verbatim>\<open>gnss_task.c\<close>): console commands and supervision. \<open>GnssFields\<close>,
    \<open>GnssFix\<close>, \<open>GnssSat\<close>, \<open>GnssUtc\<close>: how a statement is cut at its commas and what the parsers record;
    \<open>GnssDispatch\<close>: lines, heads and check codes; \<open>GnssConfirm\<close>: the protocol of a command and its
    confirmations; \<open>GnssAvail\<close>: the supervision as the inductive relation \<open>supervised\<close>, with what its
    register shows by rule induction.
  \<^item> \<open>Fpga\<close>, \<open>FpgaCmd\<close> (\<^verbatim>\<open>BSP/src/bsp_spi.c\<close>, \<^verbatim>\<open>APP/Fpga/fpga_handler.c\<close>), \<open>SystemRegs\<close>
    (\<^verbatim>\<open>APP/System/system.c\<close>): registers over SPI; \<open>FpgaSpec\<close>: the write command.
  \<^item> \<open>Settings\<close> (the settings as a record, settings and queries in general), \<open>OutPps\<close>
    (\<^verbatim>\<open>APP/Output/out_pps_tod.c\<close>), \<open>PtpNet\<close> and \<open>PtpMode\<close> (\<^verbatim>\<open>APP/Output/out_ptp.c\<close>);
    \<open>Outputs\<close>, \<open>OutAddr\<close>, \<open>OutCommands\<close>, \<open>OutSpec\<close>: what a setting stores in memory and in the
    registers and what the query then prints (the text that was set, but for the cases that
    \<open>answered_as_set\<close> names), setting by setting, then for the table of all commands.
  \<^item> \<open>UserCmd\<close> (\<^verbatim>\<open>APP/Debug/user_cmd.c\<close>): the table of commands and the parser of a line;
    \<open>ConsoleSpec\<close>: from the line typed to the line printed.
  \<^item> \<open>WebForm\<close>, \<open>WebPages\<close> (\<^verbatim>\<open>APP/Config/config.c\<close>, the handlers of the pages): the parameters
    of a form and every handler of the table of pages; \<open>WebFormSpec\<close>: what a browser encodes, the
    inductive relation \<open>form_encoded\<close>, is what the handlers decode; \<open>WebSpec\<close>, \<open>WebNet\<close>: the pages of
    the PTP settings; \<open>WebSafe\<close>: the arrays of the block under the pages.

  \<^bold>\<open>Interfaces.\<close> Two contracts are locales. \<open>pair_store\<close> (\<open>ConfigStore\<close>) is what the storage of the
    parameters relies on: reading a key returns what was last written under it. Its interpretation
    \<open>cfg\<close> is the EEPROM emulation. \<open>byte_pipe\<close> (\<open>RingBuffer\<close>) is a bounded queue of bytes with
    a writer and a reader; its interpretation \<open>rb\<close> is the ring buffer.

  \<^bold>\<open>Parameters and hypotheses\<close>, which stand for what is not C code of the repository.

  \<^item> \<open>fpga_dev\<close> is the FPGA with the SPI controller, one exchange of a byte at a time, which may
    time out. \<open>fpga_ok\<close> says that it is a register file behind the protocol of the data sheet: a write frame
    sets one register, a read frame returns it. \<open>Fpga\<close> has a device of which this holds, and the witnesses use it.
  \<^item> \<open>outcomes\<close> of a \<open>flash\<close> are the results of its next operations; a list of failures is also a
    loss of power. A half word can only lose bits until its sector is erased.
  \<^item> \<open>msgs\<close> are the texts that the GNSS task parses while a command waits for its confirmation.
  \<^item> The contents of uninitialised stack variables and of the memory behind a received text, the factory
    block of parameters, the results of \<open>malloc\<close> and \<open>calloc\<close> and the place of the fields in the
    stored block are arguments of the definitions that depend on them.

  \<^bold>\<open>Loops.\<close> Loops over data are structural recursion, and \<open>function\<close> with a measure where the step is
  not structural. Loops that may not end are \<open>partial_function
  (option)\<close>: \<open>write_data_loop\<close>, \<open>month_loop\<close>, \<open>comma_scan\<close>, \<open>comma_all\<close>, \<open>skip_head\<close>,
  \<open>utc_loop\<close>, \<open>version_len\<close> and \<open>msg_loop\<close>; the properties state that they return
  on the inputs in question, or that they do not. No definition has fuel.

  \<^bold>\<open>Not modelled.\<close> uC/OS-III, LwIP, the STM32 libraries (but for the flash operations above) and the web
  server with its formatting library are third-party code. The handler of the page tags in \<^verbatim>\<open>config.c\<close>
  (\<open>ConfigSSIHandler\<close>) only prints settings into the pages; the handlers that set them are modelled. The
  set-up of tasks, peripherals, network and interrupts, the LEDs, the watchdog, the shell and the
  SNTP client are input and output around these libraries. The traps of the SNMP agent have no caller. The
  interleaving of the tasks is modelled only where the code synchronises: the confirmation of a command
  by its semaphore, and the supervision between two of its checks; the ring buffer has one writer and one
  reader, whose operations are taken as atomic.
\<close>

end
